(* ===== verification/Prelude.thy ===== *)
theory Prelude
  imports Main "HOL-Library.Multiset" "HOL-Library.List_Lexorder" "HOL-Library.Char_ord"
    "HOL-Library.Product_Lexorder"
begin

text \<open>
  What every theory of the development shares: the error values of the Go code, the result
  type of a fallible function, the collections of simplification rules, and generic lemmas on
  lists, sorting and sums.

  A Go function that returns \<open>(T, error)\<close> becomes a function into \<open>T res\<close>. An error is
  modelled by the sentinel that its chain of \<open>%w\<close> verbs wraps, which is what \<open>errors.Is\<close>
  observes; the text around the sentinel is not modelled. A Go string is a list of bytes
  (\<open>string\<close>), ordered as Go orders strings, and a ULID (a named string type of internal/core)
  is one.
\<close>

section \<open>Errors and results\<close>

datatype error =
    ErrUnsupported
  | ErrInvalidEvent
  | ErrInvalidConfig
  | ErrNothingToPlan
  | ErrNoRule
  | ErrWrongRuleKind
  | ErrUnknownStrategy
  | ErrEmptyProposal
  | ErrNotNegatable
  | ErrNegativeWeight
  | ErrZeroTotal
  | ErrWeightOverflow
  | ErrAmountOutOfRange
  | ErrInvariantViolated string
  | ErrInvalidRequest
  | ErrInvalidPolicy
  | ErrNotFound
  | ErrCursorInvalid
  | ErrCursorFilterMismatch
  | ErrEmptyHMACKey
  | ErrEmptyPrincipalClass
  | ErrNoChecker
  | ErrNoStore
  | ErrNoPrincipal
  | ErrUnknownPermission
  | ErrMissingPermission
  | ErrUnknownScope
  | ErrNoCredential
  | ErrMalformedCredential
  | ErrTokenInQueryString
  | ErrUnknownCredential
  | ErrExpiredCredential
  | ErrRevokedCredential
  | ErrStaleSessionEpoch
  | ErrPrincipalNotActive
  | ErrLookupUnavailable
  | ErrNoPepper
  | ErrUnknownPepperKID
  | ErrRootKeyLength
  | ErrSecretsFileMode
  | ErrSecretsMalformed
  | ErrPasswordTooLong
  | ErrPasswordEmpty
  | ErrHashMalformed
  | ErrUnknownArgon2Profile
  | ErrPreconditionFailed
  | ErrExternal string
  | Panic

text \<open>
  \<open>errors_is e t\<close> is \<open>errors.Is\<close>. The one sentinel that wraps another is
  \<open>ErrNothingToPlan\<close>, declared in common.go as a wrapping of \<open>ErrInvalidEvent\<close>.
  \<open>ErrExternal\<close> is an error of code the planners only call (a database read behind the
  facade), and \<open>Panic\<close> is a run-time panic.
\<close>

fun errors_is :: "error \<Rightarrow> error \<Rightarrow> bool" where
  "errors_is ErrNothingToPlan ErrInvalidEvent = True"
| "errors_is e t = (e = t)"

type_synonym 'a res = "error + 'a"

definition bindR :: "'a res \<Rightarrow> ('a \<Rightarrow> 'b res) \<Rightarrow> 'b res" where
  "bindR m k = (case m of Inl e \<Rightarrow> Inl e | Inr x \<Rightarrow> k x)"

named_theorems res_simps \<open>rules that take a successful or failed computation apart\<close>

lemma bindR_Inl [simp, res_simps]: "bindR (Inl e) k = Inl e"
  by (simp add: bindR_def)

lemma bindR_Inr [simp, res_simps]: "bindR (Inr x) k = k x"
  by (simp add: bindR_def)

lemma bindR_eq_Inr [res_simps]:
  "bindR m k = Inr y \<longleftrightarrow> (\<exists>x. m = Inr x \<and> k x = Inr y)"
  by (cases m) auto

lemma bindR_eq_Inl [res_simps]:
  "bindR m k = Inl e \<longleftrightarrow> m = Inl e \<or> (\<exists>x. m = Inr x \<and> k x = Inl e)"
  by (cases m) auto

lemma if_Inl_eq_Inr [res_simps]:
  "(if b then Inl e else m) = Inr y \<longleftrightarrow> \<not> b \<and> m = Inr y"
  by auto

lemma if_Inr_eq_Inl [res_simps]:
  "(if b then Inr y else m) = Inl e \<longleftrightarrow> \<not> b \<and> m = Inl e"
  by auto

lemma bindR_cong [fundef_cong]:
  "m = m' \<Longrightarrow> (\<And>x. m' = Inr x \<Longrightarrow> k x = k' x) \<Longrightarrow> bindR m k = bindR m' k'"
  by (cases m') auto

text \<open>The Go idiom \<open>v, ok := f(); if !ok { return err }\<close>: an option with the error of its None.\<close>

definition ok_or :: "error \<Rightarrow> 'a option \<Rightarrow> 'a res" where
  "ok_or e v = (case v of None \<Rightarrow> Inl e | Some x \<Rightarrow> Inr x)"

lemma ok_or_eq_Inr [res_simps]: "ok_or e v = Inr x \<longleftrightarrow> v = Some x"
  by (cases v) (auto simp: ok_or_def)

lemma ok_or_eq_Inl [res_simps]: "ok_or e v = Inl e' \<longleftrightarrow> v = None \<and> e' = e"
  by (cases v) (auto simp: ok_or_def)

lemma ok_or_simps [simp]: "ok_or e None = Inl e" "ok_or e (Some x) = Inr x"
  by (simp_all add: ok_or_def)

lemma not_isl_Inr: "\<not> isl m \<Longrightarrow> \<exists>x. m = Inr x"
  by (cases m) auto

text \<open>A loop that checks every element and stops at the first error.\<close>

fun all_ok :: "('a \<Rightarrow> unit res) \<Rightarrow> 'a list \<Rightarrow> unit res" where
  "all_ok f [] = Inr ()"
| "all_ok f (x # xs) = bindR (f x) (\<lambda>_. all_ok f xs)"

lemma all_ok_eq_Inr [res_simps]: "all_ok f xs = Inr u \<longleftrightarrow> (\<forall>x \<in> set xs. f x = Inr ())"
  by (induction xs) (auto simp: bindR_eq_Inr)

section \<open>Lists, sorting and sums\<close>

lemma filter_eq_replicate: "filter (\<lambda>x. x = k) xs = replicate (count (mset xs) k) k"
  by (induction xs) auto

text \<open>
  Sorting by a key that is injective on the elements does not depend on the order of the input,
  duplicates included. This is what makes a Go sort with a total comparator deterministic.
\<close>

lemma sort_key_perm_eq:
  assumes "mset xs = mset ys" and "inj_on f (set xs)"
  shows "sort_key f xs = sort_key f ys"
proof (rule properties_for_sort_key)
  show "mset (sort_key f ys) = mset xs"
    using assms(1) by simp
next
  fix k assume k: "k \<in> set (sort_key f ys)"
  have "set xs = set ys"
    using assms(1) by (metis set_mset_mset)
  with k have "k \<in> set xs" by simp
  then have eq: "x \<in> set xs \<Longrightarrow> (f k = f x) = (x = k)" for x
    using assms(2) by (auto dest: inj_onD)
  have "filter (\<lambda>x. f k = f x) (sort_key f ys) = filter (\<lambda>x. x = k) (sort_key f ys)"
    by (rule filter_cong) (auto simp: eq \<open>set xs = set ys\<close>)
  also have "\<dots> = filter (\<lambda>x. x = k) xs"
    using assms(1) by (simp add: filter_eq_replicate)
  also have "\<dots> = filter (\<lambda>x. f k = f x) xs"
    by (rule filter_cong) (auto simp: eq)
  finally show "filter (\<lambda>x. f k = f x) (sort_key f ys) = filter (\<lambda>x. f k = f x) xs" .
qed simp

text \<open>
  A list sorted by a key holds two elements with one key exactly when two neighbours have it:
  the check by neighbours of common.go and roll.go.
\<close>

fun no_adjacent :: "('a \<Rightarrow> 'b) \<Rightarrow> 'a list \<Rightarrow> bool" where
  "no_adjacent f (x # y # xs) = (f x \<noteq> f y \<and> no_adjacent f (y # xs))"
| "no_adjacent f xs = True"

lemma no_adjacent_sorted:
  "sorted (map f xs) \<Longrightarrow> no_adjacent f xs \<longleftrightarrow> distinct (map f xs)"
proof (induction f xs rule: no_adjacent.induct)
  case (1 f x y xs)
  then have "sorted (map f (y # xs))" and le: "f x \<le> f y" "\<forall>z \<in> set xs. f y \<le> f z"
    by auto
  moreover have "f x \<noteq> f y \<Longrightarrow> f x \<notin> f ` set (y # xs)"
    using le by fastforce
  ultimately show ?case
    using "1.IH" by auto
qed auto

end
