(* ===== verification/Int64.thy ===== *)
theory Int64
  imports Prelude "HOL-Library.Word" "HOL-Library.Signed_Division"
begin

text \<open>
  Go's \<open>int64\<close> and \<open>uint64\<close> as 64-bit words. A word is read as signed with \<open>sint\<close>
  and as unsigned with \<open>unat\<close>; \<open>+\<close>, \<open>-\<close> and \<open>*\<close> wrap, as Go's operators do, and
  \<open>uint64(x)\<close> of an int64 keeps the bits, so a conversion is the identity. Signed comparison
  is \<open>a <s b\<close>. Signed division truncates toward zero and wraps at the one overflowing
  quotient, as the Go specification requires.
\<close>

type_synonym i64 = "64 word"
type_synonym u64 = "64 word"

definition in64 :: "int \<Rightarrow> bool" where
  "in64 n \<longleftrightarrow> - 9223372036854775808 \<le> n \<and> n < 9223372036854775808"

definition min_int64 :: i64 where "min_int64 = 0x8000000000000000"
definition max_int64 :: i64 where "max_int64 = 0x7FFFFFFFFFFFFFFF"

definition go_div :: "i64 \<Rightarrow> i64 \<Rightarrow> i64" where
  "go_div a b = word_of_int (sint a sdiv sint b)"

definition go_mod :: "i64 \<Rightarrow> i64 \<Rightarrow> i64" where
  "go_mod a b = word_of_int (sint a smod sint b)"

text \<open>The built-in \<open>min\<close> on int64.\<close>

definition go_min :: "i64 \<Rightarrow> i64 \<Rightarrow> i64" where
  "go_min a b = (if b <s a then b else a)"

named_theorems i64_simps \<open>signed reading of 64-bit arithmetic\<close>

lemma sless_sint [i64_simps]: "a <s b \<longleftrightarrow> sint a < sint (b :: i64)"
  by (rule word_sless_alt)

lemma sle_sint [i64_simps]: "a \<le>s b \<longleftrightarrow> sint a \<le> sint (b :: i64)"
  by (rule word_sle_eq)

lemma sint_bounds: "- 9223372036854775808 \<le> sint (a :: i64)" "sint a < 9223372036854775808"
  using sint_greater_eq [of a] sint_less [of a] by simp_all

lemma in64_sint [simp]: "in64 (sint (a :: i64))"
  using sint_bounds [of a] by (simp add: in64_def)

lemma sint_of_int_eq: "in64 n \<Longrightarrow> sint (word_of_int n :: i64) = n"
  by (simp add: in64_def sint_sbintrunc' signed_take_bit_int_eq_self)

lemma sint_inject64: "sint (a :: i64) = sint b \<longleftrightarrow> a = b"
proof
  assume "sint a = sint b"
  then have "word_of_int (sint a) = (word_of_int (sint b) :: i64)" by simp
  then show "a = b" by simp
qed simp

lemma sint_eq_0 [simp]: "sint (a :: i64) = 0 \<longleftrightarrow> a = 0"
  by (metis signed_0 sint_inject64)

lemma add_word_of_int: "a + b = word_of_int (sint a + sint (b :: i64))"
  by simp

lemma sub_word_of_int: "a - b = word_of_int (sint a - sint (b :: i64))"
  by simp

lemma mul_word_of_int: "a * b = word_of_int (sint a * sint (b :: i64))"
  by simp

lemma uminus_word_of_int: "- b = word_of_int (- sint (b :: i64))"
  by simp

lemma sint_add: "in64 (sint a + sint b) \<Longrightarrow> sint (a + b :: i64) = sint a + sint b"
  by (subst add_word_of_int) (rule sint_of_int_eq)

lemma sint_sub: "in64 (sint a - sint b) \<Longrightarrow> sint (a - b :: i64) = sint a - sint b"
  by (subst sub_word_of_int) (rule sint_of_int_eq)

lemma sint_mul: "in64 (sint a * sint b) \<Longrightarrow> sint (a * b :: i64) = sint a * sint b"
  by (subst mul_word_of_int) (rule sint_of_int_eq)

lemma sint_min_int64: "sint min_int64 = - 9223372036854775808"
  by (simp add: min_int64_def)

lemma sint_max_int64: "sint max_int64 = 9223372036854775807"
  by (simp add: max_int64_def)

lemma in64_uminus: "a \<noteq> min_int64 \<Longrightarrow> in64 (- sint (a :: i64))"
  using sint_bounds [of a] sint_min_int64 sint_inject64 [of a min_int64] by (auto simp: in64_def)

lemma sint_uminus: "a \<noteq> min_int64 \<Longrightarrow> sint (- a :: i64) = - sint a"
  by (subst uminus_word_of_int) (rule sint_of_int_eq [OF in64_uminus])

lemma uminus_min_int64 [simp]: "- min_int64 = min_int64"
  by (simp add: min_int64_def)

lemma sint_uminus_pos: "0 \<le> sint a \<Longrightarrow> sint (- a :: i64) = - sint a"
  by (rule sint_uminus) (auto simp: sint_min_int64)

text \<open>What a wrapped sum reads as, when the exact sum does not fit.\<close>

lemma word_of_int_minus_mod: "word_of_int (n - 18446744073709551616) = (word_of_int n :: i64)"
  by (rule word_of_int_eq_iff [THEN iffD2]) (simp add: take_bit_eq_mod)

lemma word_of_int_plus_mod: "word_of_int (n + 18446744073709551616) = (word_of_int n :: i64)"
  by (rule word_of_int_eq_iff [THEN iffD2]) (simp add: take_bit_eq_mod)

lemma sint_of_int_over: "9223372036854775808 \<le> n \<Longrightarrow> n < 27670116110564327424 \<Longrightarrow>
    sint (word_of_int n :: i64) = n - 18446744073709551616"
  by (subst word_of_int_minus_mod [symmetric], rule sint_of_int_eq) (simp add: in64_def)

lemma sint_of_int_under: "n < - 9223372036854775808 \<Longrightarrow> - 27670116110564327424 \<le> n \<Longrightarrow>
    sint (word_of_int n :: i64) = n + 18446744073709551616"
  by (subst word_of_int_plus_mod [symmetric], rule sint_of_int_eq) (simp add: in64_def)

lemma sint_add_over: "9223372036854775808 \<le> sint a + sint b \<Longrightarrow>
    sint (a + b :: i64) = sint a + sint b - 18446744073709551616"
  using sint_bounds [of a] sint_bounds [of b]
  by (subst add_word_of_int) (rule sint_of_int_over; simp)

lemma sint_add_under: "sint a + sint b < - 9223372036854775808 \<Longrightarrow>
    sint (a + b :: i64) = sint a + sint b + 18446744073709551616"
  using sint_bounds [of a] sint_bounds [of b]
  by (subst add_word_of_int) (rule sint_of_int_under; simp)

lemma sint_sub_over: "9223372036854775808 \<le> sint a - sint b \<Longrightarrow>
    sint (a - b :: i64) = sint a - sint b - 18446744073709551616"
  using sint_bounds [of a] sint_bounds [of b]
  by (subst sub_word_of_int) (rule sint_of_int_over; simp)

lemma sint_sub_under: "sint a - sint b < - 9223372036854775808 \<Longrightarrow>
    sint (a - b :: i64) = sint a - sint b + 18446744073709551616"
  using sint_bounds [of a] sint_bounds [of b]
  by (subst sub_word_of_int) (rule sint_of_int_under; simp)

section \<open>math/bits: 128-bit products\<close>

text \<open>
  \<open>bits.Mul64\<close> returns the two halves of the product; \<open>bits.Div64\<close> divides a 128-bit value
  by a 64-bit one and panics when the divisor is zero or the quotient does not fit in 64 bits.
\<close>

definition mul64 :: "u64 \<Rightarrow> u64 \<Rightarrow> u64 \<times> u64" where
  "mul64 a b = (let p = uint a * uint b in
     (word_of_int (p div 18446744073709551616), word_of_int (p mod 18446744073709551616)))"

definition div64 :: "u64 \<Rightarrow> u64 \<Rightarrow> u64 \<Rightarrow> (u64 \<times> u64) res" where
  "div64 hi lo y = (if y = 0 \<or> y \<le> hi then Inl Panic
     else let n = uint hi * 18446744073709551616 + uint lo in
       Inr (word_of_int (n div uint y), word_of_int (n mod uint y)))"

text \<open>The same over the natural numbers.\<close>

lemma word_of_nat_int: "(word_of_nat n :: u64) = word_of_int (int n)"
  by simp

lemma mul64_nat: "mul64 a b = (let p = unat a * unat b in
     (word_of_nat (p div 18446744073709551616), word_of_nat (p mod 18446744073709551616)))"
  by (simp only: mul64_def Let_def word_of_nat_int zdiv_int zmod_int of_nat_mult of_nat_unat
    of_nat_numeral)

lemma div64_nat: "div64 hi lo y = (if y = 0 \<or> y \<le> hi then Inl Panic
     else let n = unat hi * 18446744073709551616 + unat lo in
       Inr (word_of_nat (n div unat y), word_of_nat (n mod unat y)))"
  by (simp only: div64_def Let_def word_of_nat_int zdiv_int zmod_int of_nat_mult of_nat_add
    of_nat_unat of_nat_numeral)

lemma unat_bound: "unat (a :: u64) < 18446744073709551616"
proof -
  have "unat a < 2 ^ LENGTH(64)" by (rule unsigned_less)
  then show ?thesis by simp
qed

lemma unat_word_of_nat: "n < 18446744073709551616 \<Longrightarrow> unat (word_of_nat n :: u64) = n"
  by (simp add: unat_of_nat)

text \<open>The two halves put back together: the quotient and remainder of the exact product.\<close>

lemma div64_mul64:
  assumes fits: "unat a * unat b div unat y < 18446744073709551616" and y: "y \<noteq> 0"
  obtains q r where "div64 (fst (mul64 a b)) (snd (mul64 a b)) y = Inr (q, r)"
    "unat q = unat a * unat b div unat y" "unat r = unat a * unat b mod unat y"
proof -
  let ?M = "18446744073709551616 :: nat" and ?p = "unat a * unat b"
  have y0: "0 < unat y" using y by (simp add: unat_gt_0)
  have "?p < ?M * ?M"
    using mult_strict_mono [OF unat_bound [of a] unat_bound [of b]] by simp
  then have hi: "?p div ?M < ?M"
    by (simp add: div_less_iff_less_mult)
  have "?p div ?M < unat y"
  proof (rule ccontr)
    assume "\<not> ?p div ?M < unat y"
    then have "unat y * ?M \<le> ?p div ?M * ?M" by simp
    also have "\<dots> \<le> ?p" by simp
    finally have "?M \<le> ?p div unat y"
      using y0 by (simp add: less_eq_div_iff_mult_less_eq mult.commute)
    with fits show False by simp
  qed
  then have "\<not> y \<le> fst (mul64 a b)"
    using hi by (simp add: mul64_nat Let_def word_le_nat_alt unat_word_of_nat)
  moreover have "unat (fst (mul64 a b)) * ?M + unat (snd (mul64 a b)) = ?p"
    using hi by (simp add: mul64_nat Let_def unat_word_of_nat)
  ultimately have "div64 (fst (mul64 a b)) (snd (mul64 a b)) y =
      Inr (word_of_nat (?p div unat y), word_of_nat (?p mod unat y))"
    using y by (simp add: div64_nat Let_def)
  moreover have "?p mod unat y < ?M"
    using y0 unat_bound [of y] by (meson less_trans mod_less_divisor)
  ultimately show ?thesis
    using that fits by (simp add: unat_word_of_nat)
qed

text \<open>A non-negative int64 read as signed and as unsigned.\<close>

lemma uint_eq_sint: "0 \<le> sint (a :: i64) \<Longrightarrow> uint a = sint a"
proof -
  assume "0 \<le> sint a"
  then have "uint (word_of_int (sint a) :: i64) = sint a"
    using sint_bounds [of a] by (simp only: unsigned_of_int) (simp add: take_bit_eq_mod)
  then show ?thesis by simp
qed

lemma unat_eq_sint: "0 \<le> sint (a :: i64) \<Longrightarrow> int (unat a) = sint a"
  by (simp add: uint_eq_sint flip: uint_nat)

lemma sint_eq_unat: "unat (a :: i64) < 9223372036854775808 \<Longrightarrow> sint a = int (unat a)"
proof -
  assume a: "unat a < 9223372036854775808"
  have "sint (word_of_int (int (unat a)) :: i64) = int (unat a)"
    using a by (intro sint_of_int_eq) (simp only: in64_def, linarith)
  then show ?thesis by simp
qed

lemma unat_less_sint: "0 \<le> sint (a :: i64) \<Longrightarrow> unat a < 9223372036854775808"
  using unat_eq_sint [of a] sint_bounds [of a] by linarith

lemma sint_go_min: "sint (go_min a b) = min (sint a) (sint b)"
  by (auto simp: go_min_def i64_simps)

lemma go_mod_eq_0:
  assumes "0 \<le> sint a" "0 < sint b"
  shows "go_mod a b = 0 \<longleftrightarrow> sint b dvd sint (a :: i64)"
proof -
  have m: "sint a smod sint b = sint a mod sint b"
    using assms by (simp add: smod_int_range signed_modulo_int_def abs_of_pos abs_of_nonneg sgn_if)
  have "0 \<le> sint a mod sint b" "sint a mod sint b \<le> sint a"
    using assms by (simp_all add: zmod_le_nonneg_dividend)
  then have "in64 (sint a mod sint b)" using sint_bounds [of a] by (simp add: in64_def)
  then have "sint (go_mod a b) = sint a mod sint b" by (simp add: go_mod_def m sint_of_int_eq)
  then have "go_mod a b = 0 \<longleftrightarrow> sint a mod sint b = 0" by (metis sint_eq_0)
  then show ?thesis by (simp add: dvd_eq_mod_eq_0)
qed

end
