(* ===== verification/Centipoints.thy ===== *)
theory Centipoints
  imports Int64
begin

text \<open>
  Point amounts: \<open>core.Centipoints\<close> is an int64, and every amount the planners compute goes
  through the checked helpers of internal/strategy/common.go. Each helper returns \<open>(value, ok)\<close>
  in Go and an option here. The \<open>_exact\<close> lemmas read a helper over the integers: it returns the
  exact value when that fits an int64 and refuses otherwise. The last section is the banker's
  rounding of internal/core/centipoints.go.
\<close>

type_synonym centipoints = i64

definition basisPointsWhole :: i64 where "basisPointsWhole = 10000"

section \<open>Checked arithmetic\<close>

definition addCentipoints :: "centipoints \<Rightarrow> centipoints \<Rightarrow> centipoints option" where
  "addCentipoints a b = (let sum = a + b in
     if (0 <s b \<and> sum <s a) \<or> (b <s 0 \<and> a <s sum) then None else Some sum)"

definition subCentipoints :: "centipoints \<Rightarrow> centipoints \<Rightarrow> centipoints option" where
  "subCentipoints a b = (let diff = a - b in
     if (b <s 0 \<and> diff <s a) \<or> (0 <s b \<and> a <s diff) then None else Some diff)"

definition mulCentipoints :: "centipoints \<Rightarrow> i64 \<Rightarrow> centipoints option" where
  "mulCentipoints amount factor =
    (if factor = 0 \<or> amount = 0 then Some 0
     else let product = amount * factor in
       if go_div product factor \<noteq> amount then None else Some product)"

definition decayAmount :: "centipoints \<Rightarrow> i64 \<Rightarrow> centipoints res" where
  "decayAmount balance bp =
    (let (hi, lo) = mul64 balance bp in
     bindR (div64 hi lo basisPointsWhole) (\<lambda>(q, _). Inr q))"

definition scaleByBasisPoints :: "centipoints \<Rightarrow> i64 \<Rightarrow> centipoints option" where
  "scaleByBasisPoints amount bp =
    (if amount <s 0 \<or> bp <s 0 then None
     else case mulCentipoints amount bp of
       None \<Rightarrow> None
     | Some product \<Rightarrow> Some (go_div product basisPointsWhole))"

text \<open>From relative_bid.go: the share of a balance an amount is, in basis points.\<close>

definition shareBasisPoints :: "centipoints \<Rightarrow> centipoints \<Rightarrow> i64 option res" where
  "shareBasisPoints amount balance =
    (if balance \<le>s 0 \<or> amount <s 0 \<or> balance <s amount then Inr None
     else let (hi, lo) = mul64 amount basisPointsWhole in
       bindR (div64 hi lo balance) (\<lambda>(q, _). Inr (Some q)))"

subsection \<open>Exactness\<close>

lemma addCentipoints_exact:
  "addCentipoints a b = (if in64 (sint a + sint b) then Some (a + b) else None)"
proof -
  consider "in64 (sint a + sint b)" | "9223372036854775808 \<le> sint a + sint b"
    | "sint a + sint b < - 9223372036854775808"
    by (force simp: in64_def)
  then show ?thesis
    using sint_bounds [of a] sint_bounds [of b]
    by cases (auto simp: addCentipoints_def Let_def i64_simps sint_add sint_add_over
      sint_add_under in64_def)
qed

lemma addCentipoints_eq_Some [i64_simps]:
  "addCentipoints a b = Some s \<longleftrightarrow> in64 (sint a + sint b) \<and> s = a + b"
  by (auto simp: addCentipoints_exact)

lemma addCentipoints_sint: "addCentipoints a b = Some s \<Longrightarrow> sint s = sint a + sint b"
  by (auto simp: i64_simps sint_add)

lemma subCentipoints_exact:
  "subCentipoints a b = (if in64 (sint a - sint b) then Some (a - b) else None)"
proof -
  consider "in64 (sint a - sint b)" | "9223372036854775808 \<le> sint a - sint b"
    | "sint a - sint b < - 9223372036854775808"
    by (force simp: in64_def)
  then show ?thesis
    using sint_bounds [of a] sint_bounds [of b]
    by cases (auto simp: subCentipoints_def Let_def i64_simps sint_sub sint_sub_over
      sint_sub_under in64_def)
qed

lemma subCentipoints_sint: "subCentipoints a b = Some s \<Longrightarrow> sint s = sint a - sint b"
  by (auto simp: subCentipoints_exact sint_sub split: if_splits)

lemma div_le_self_int: "0 \<le> a \<Longrightarrow> 0 < b \<Longrightarrow> a div b \<le> (a :: int)"
  using zdiv_mono2 [of a 1 b] by simp

lemma sdiv_nonneg: "0 \<le> a \<Longrightarrow> 0 < b \<Longrightarrow> (a :: int) sdiv b = a div b"
  by (cases "a = 0") (simp_all add: signed_divide_int_def)

lemma sdiv_in64: "in64 a \<Longrightarrow> 0 < b \<Longrightarrow> in64 (a sdiv b)"
proof (cases "0 \<le> a")
  case False
  assume "in64 a" "0 < b"
  moreover have "a sdiv b = - ((- a) div b)"
    using False \<open>0 < b\<close> by (simp add: signed_divide_int_def)
  ultimately show ?thesis
    using div_le_self_int [of "- a" b] pos_imp_zdiv_nonneg_iff [of b "- a"] False
    by (auto simp: in64_def)
qed (use div_le_self_int [of a b] pos_imp_zdiv_nonneg_iff [of b a] in
  \<open>auto simp: in64_def sdiv_nonneg\<close>)

lemma sint_go_div: "0 < sint b \<Longrightarrow> sint (go_div a b) = sint a sdiv sint b"
  by (simp add: go_div_def sint_of_int_eq sdiv_in64)

lemma go_div_pos: "0 \<le> sint a \<Longrightarrow> 0 < sint b \<Longrightarrow> sint (go_div a b) = sint a div sint b"
  by (simp add: sint_go_div sdiv_nonneg)

text \<open>
  A wrapped product never divides back to its factor: the remainder of the division would be a
  non-zero multiple of \<open>2^64\<close> smaller than the divisor.
\<close>

lemma wrap_eqI:
  assumes "p - n = k * 18446744073709551616" and "\<bar>p - n\<bar> < 18446744073709551616"
  shows "p = (n :: int)"
  using assms by (cases "k = 0") (auto simp: abs_mult)

lemma sint_of_int_cong: "\<exists>k. sint (word_of_int n :: i64) - n = k * 18446744073709551616"
proof -
  have "sint (word_of_int n :: i64) mod 18446744073709551616 = n mod 18446744073709551616"
    using word_of_int_eq_iff [of "sint (word_of_int n :: i64)" n, where 'a = 64]
    by (simp add: take_bit_eq_mod)
  then show ?thesis
    by (metis mod_eq_dvd_iff dvd_div_mult_self)
qed

lemma mulCentipoints_exact:
  assumes f: "0 \<le> sint factor"
  shows "mulCentipoints amount factor =
    (if in64 (sint amount * sint factor) then Some (amount * factor) else None)"
proof (cases "factor = 0 \<or> amount = 0")
  case True
  then show ?thesis by (auto simp: mulCentipoints_def in64_def)
next
  case False
  let ?n = "sint amount" and ?f = "sint factor"
  let ?p = "sint (amount * factor)"
  have f0: "0 < ?f" using f False by (metis order_le_less sint_eq_0)
  have eq: "go_div (amount * factor) factor = amount \<longleftrightarrow> ?p sdiv ?f = ?n"
    using sint_go_div [OF f0, of "amount * factor"] by (metis sint_inject64)
  have "?p sdiv ?f = ?n \<longleftrightarrow> in64 (?n * ?f)"
  proof
    assume bk: "?p sdiv ?f = ?n"
    have "?p = ?f * ?n + ?p smod ?f"
      using mult_sdiv_smod_eq [of ?f ?p] bk by simp
    moreover have "\<bar>?p smod ?f\<bar> < ?f"
      using smod_int_compares [of ?p ?f] f0 by linarith
    ultimately have "\<bar>?p - ?n * ?f\<bar> < 18446744073709551616"
      using sint_bounds [of factor] by (simp add: mult.commute)
    moreover obtain k where "?p - ?n * ?f = k * 18446744073709551616"
      using sint_of_int_cong [of "?n * ?f"] mul_word_of_int [of amount factor] by metis
    ultimately have "?p = ?n * ?f" by (rule wrap_eqI [rotated])
    then show "in64 (?n * ?f)" by (metis in64_sint)
  next
    assume "in64 (?n * ?f)"
    then have "?p = ?n * ?f" by (rule sint_mul)
    then show "?p sdiv ?f = ?n"
      using f0 by (auto simp: signed_divide_int_def sgn_mult abs_mult sgn_mult_abs)
  qed
  then show ?thesis
    using False eq by (simp add: mulCentipoints_def Let_def)
qed

lemma mulCentipoints_sint:
  "0 \<le> sint factor \<Longrightarrow> mulCentipoints amount factor = Some p \<Longrightarrow>
    sint p = sint amount * sint factor"
  by (auto simp: mulCentipoints_exact sint_mul split: if_splits)

lemma sint_basisPointsWhole [simp]: "sint basisPointsWhole = 10000"
  by (simp add: basisPointsWhole_def)

lemma unat_basisPointsWhole [simp]: "unat basisPointsWhole = 10000"
  by (simp add: basisPointsWhole_def)

lemma basisPointsWhole_neq_0 [simp]: "basisPointsWhole \<noteq> 0"
  by (simp add: basisPointsWhole_def)

lemma mult_div_le: "0 \<le> a \<Longrightarrow> 0 \<le> b \<Longrightarrow> b \<le> c \<Longrightarrow> 0 < c \<Longrightarrow> a * b div c \<le> (a :: int)"
  using zdiv_mono1 [of "a * b" "a * c" c] mult_left_mono [of b c a] by simp

lemma scaled_quotient:
  assumes "0 \<le> sint a" "0 \<le> sint b" "0 < sint c"
    and fits: "sint a * sint b div sint c < 9223372036854775808"
  obtains q r where "div64 (fst (mul64 a b)) (snd (mul64 a b)) c = Inr (q, r)"
    "sint q = sint a * sint b div sint c"
proof -
  have eq: "int (unat a * unat b div unat c) = sint a * sint b div sint c"
    using assms by (simp add: zdiv_int uint_eq_sint)
  then have le: "unat a * unat b div unat c < 9223372036854775808"
    using fits by linarith
  then have "unat a * unat b div unat c < 18446744073709551616" by linarith
  moreover have "c \<noteq> 0" using assms by auto
  ultimately obtain q r where qr: "div64 (fst (mul64 a b)) (snd (mul64 a b)) c = Inr (q, r)"
    "unat q = unat a * unat b div unat c"
    by (rule div64_mul64)
  then have "sint q = sint a * sint b div sint c"
    using le eq by (simp only: sint_eq_unat)
  with qr(1) that show ?thesis by blast
qed

lemma decayAmount_exact:
  assumes "0 \<le> sint balance" "0 \<le> sint bp" "sint bp \<le> 10000"
  obtains d where "decayAmount balance bp = Inr d" "sint d = sint balance * sint bp div 10000"
proof -
  have "sint balance * sint bp div sint basisPointsWhole < 9223372036854775808"
    using mult_div_le [of "sint balance" "sint bp" 10000] assms sint_bounds [of balance] by simp
  then obtain q r where "div64 (fst (mul64 balance bp)) (snd (mul64 balance bp)) basisPointsWhole
      = Inr (q, r)" "sint q = sint balance * sint bp div sint basisPointsWhole"
    using assms by (auto elim: scaled_quotient [of balance bp basisPointsWhole])
  then show ?thesis
    using that by (simp add: decayAmount_def split_beta)
qed

lemma decayAmount_sint:
  assumes "decayAmount balance bp = Inr d" "0 \<le> sint balance" "0 \<le> sint bp" "sint bp \<le> 10000"
  shows "sint d = sint balance * sint bp div 10000"
  using decayAmount_exact [OF assms(2-4)] assms(1) by (metis sum.inject(2))

lemma decayAmount_range:
  assumes "decayAmount balance bp = Inr d" "0 \<le> sint balance" "0 \<le> sint bp" "sint bp \<le> 10000"
  shows "0 \<le> sint d" "sint d \<le> sint balance"
  using decayAmount_sint [OF assms] assms mult_div_le [of "sint balance" "sint bp" 10000]
  by (simp_all add: pos_imp_zdiv_nonneg_iff)

lemma scaleByBasisPoints_exact:
  "scaleByBasisPoints amount bp =
    (if 0 \<le> sint amount \<and> 0 \<le> sint bp \<and> in64 (sint amount * sint bp)
     then Some (go_div (amount * bp) basisPointsWhole) else None)"
  by (auto simp: scaleByBasisPoints_def i64_simps mulCentipoints_exact)

lemma scaleByBasisPoints_sint:
  "scaleByBasisPoints amount bp = Some s \<Longrightarrow>
    sint s = sint amount * sint bp div 10000 \<and> 0 \<le> sint amount \<and> 0 \<le> sint bp"
  by (auto simp: scaleByBasisPoints_exact go_div_pos sint_mul split: if_splits)

lemma shareBasisPoints_exact:
  assumes "0 < sint balance" "0 \<le> sint amount" "sint amount \<le> sint balance"
  obtains s where "shareBasisPoints amount balance = Inr (Some s)"
    "sint s = sint amount * 10000 div sint balance"
proof -
  have "sint amount * 10000 div sint balance \<le> 10000"
    using mult_div_le [of 10000 "sint amount" "sint balance"] assms by (simp add: mult.commute)
  then obtain q r where "div64 (fst (mul64 amount basisPointsWhole))
      (snd (mul64 amount basisPointsWhole)) balance = Inr (q, r)"
    "sint q = sint amount * 10000 div sint balance"
    using assms by (auto elim: scaled_quotient [of amount basisPointsWhole balance])
  then show ?thesis
    using that assms by (simp add: shareBasisPoints_def split_beta i64_simps)
qed

lemma shareBasisPoints_no_panic: "shareBasisPoints amount balance \<noteq> Inl e"
proof (cases "0 < sint balance \<and> 0 \<le> sint amount \<and> sint amount \<le> sint balance")
  case True
  then show ?thesis by (metis Inl_Inr_False shareBasisPoints_exact)
qed (auto simp: shareBasisPoints_def i64_simps)

lemma shareBasisPoints_Some:
  assumes "shareBasisPoints amount balance = Inr (Some s)"
  shows "0 < sint balance" "0 \<le> sint amount" "sint amount \<le> sint balance"
    "sint s = sint amount * 10000 div sint balance"
proof -
  show *: "0 < sint balance" "0 \<le> sint amount" "sint amount \<le> sint balance"
    using assms by (auto simp: shareBasisPoints_def i64_simps split: if_splits)
  show "sint s = sint amount * 10000 div sint balance"
    using shareBasisPoints_exact [OF *] assms by (metis option.inject sum.inject(2))
qed

section \<open>Banker's rounding\<close>

text \<open>
  \<open>core.roundHalfEven\<close> rounds the exact rational \<open>num/den\<close> (\<open>den\<close> positive, as big.Rat keeps
  it) to the nearest integer, ties to even. \<open>big.Int.DivMod\<close> is Euclidean, which for a positive
  divisor is \<open>div\<close> and \<open>mod\<close>.
\<close>

definition roundHalfEven :: "int \<Rightarrow> int \<Rightarrow> int" where
  "roundHalfEven num den =
    (let q = num div den; rem = num mod den; twiceRem = 2 * rem in
     if twiceRem < den then q
     else if den < twiceRem then q + 1
     else if odd q then q + 1 else q)"

lemma roundHalfEven_distance:
  assumes "0 < den"
  shows "roundHalfEven num den * den - num =
    (if 2 * (num mod den) < den \<or> (2 * (num mod den) = den \<and> even (num div den))
     then - (num mod den) else den - num mod den)"
proof -
  have "num div den * den - num = - (num mod den)"
    using div_mult_mod_eq [of num den] by linarith
  then show ?thesis
    by (auto simp: roundHalfEven_def Let_def distrib_right)
qed

lemma roundHalfEven_nearest:
  assumes "0 < den"
  shows "2 * \<bar>roundHalfEven num den * den - num\<bar> \<le> den"
proof -
  have "0 \<le> num mod den" "num mod den < den"
    using assms by simp_all
  then show ?thesis
    unfolding roundHalfEven_distance [OF assms] by (auto simp del: pos_mod_sign pos_mod_bound)
qed

lemma roundHalfEven_tie:
  assumes "0 < den" "2 * \<bar>roundHalfEven num den * den - num\<bar> = den"
  shows "even (roundHalfEven num den)"
proof -
  have "0 \<le> num mod den" "num mod den < den"
    using assms by simp_all
  then have "2 * (num mod den) = den"
    using assms(2) unfolding roundHalfEven_distance [OF assms(1)]
    by (auto simp del: pos_mod_sign pos_mod_bound split: if_splits)
  then show ?thesis
    by (simp add: roundHalfEven_def Let_def)
qed

end
