(* ===== verification/Kinds.thy ===== *)
theory Kinds
  imports Prelude
begin

text \<open>
  The closed string catalogues of internal/account/kinds, internal/ledger/kinds and
  internal/audit/kinds. The code keeps them as strings, because the value is also the database and
  the wire value, and so does the model.
\<close>

section \<open>Accounts\<close>

definition KindPerson :: string where "KindPerson = ''person''"
definition KindSystem :: string where "KindSystem = ''system''"

definition SystemKeyGuildBank :: string where "SystemKeyGuildBank = ''guild_bank''"
definition SystemKeyResidue :: string where "SystemKeyResidue = ''residue''"
definition SystemKeyWriteOff :: string where "SystemKeyWriteOff = ''write_off''"
definition SystemKeyImportOpening :: string where "SystemKeyImportOpening = ''import_opening''"

definition account_Kinds :: "string list" where
  "account_Kinds = [KindPerson, KindSystem]"

definition SystemKeys :: "string list" where
  "SystemKeys = [SystemKeyGuildBank, SystemKeyResidue, SystemKeyWriteOff, SystemKeyImportOpening]"

fun contains :: "string list \<Rightarrow> string \<Rightarrow> bool" where
  "contains [] v = False"
| "contains (c # cs) v = (if c = v then True else contains cs v)"

definition IsKind :: "string \<Rightarrow> bool" where
  "IsKind v = contains account_Kinds v"

definition IsSystemKey :: "string \<Rightarrow> bool" where
  "IsSystemKey v = contains SystemKeys v"

section \<open>Ledger batches\<close>

definition KindAttendance :: string where "KindAttendance = ''attendance''"
definition KindAward :: string where "KindAward = ''award''"
definition KindAdjustment :: string where "KindAdjustment = ''adjustment''"
definition KindDecay :: string where "KindDecay = ''decay''"
definition KindCap :: string where "KindCap = ''cap''"
definition KindStartPoints :: string where "KindStartPoints = ''start_points''"
definition KindReversal :: string where "KindReversal = ''reversal''"

definition BatchKinds :: "string list" where
  "BatchKinds = [KindAttendance, KindAward, KindAdjustment, KindDecay, KindCap, KindStartPoints,
     ''zero_sum_credit'', KindReversal, ''correction'', ''re_attribution'', ''migration'',
     ''import'', ''seed'', ''write_off'']"

definition BatchSources :: "string list" where
  "BatchSources = [''web'', ''api'', ''discord'', ''parser'', ''import'', ''system'']"

definition IsBatchKind :: "string \<Rightarrow> bool" where
  "IsBatchKind v = contains BatchKinds v"

definition IsBatchSource :: "string \<Rightarrow> bool" where
  "IsBatchSource v = contains BatchSources v"

lemma contains_set [simp]: "contains vs v \<longleftrightarrow> v \<in> set vs"
  by (induction vs) auto

lemmas batch_kind_defs = KindAttendance_def KindAward_def KindAdjustment_def KindDecay_def
  KindCap_def KindStartPoints_def KindReversal_def

lemmas account_kind_defs = KindPerson_def KindSystem_def

lemmas system_key_defs = SystemKeyGuildBank_def SystemKeyResidue_def SystemKeyWriteOff_def
  SystemKeyImportOpening_def

lemma planned_kinds_legal [simp]:
  "IsBatchKind KindAttendance" "IsBatchKind KindAward" "IsBatchKind KindAdjustment"
  "IsBatchKind KindDecay" "IsBatchKind KindCap" "IsBatchKind KindStartPoints"
  "IsBatchKind KindReversal"
  by (simp_all add: IsBatchKind_def BatchKinds_def)

lemma distinct_SystemKeys: "distinct SystemKeys"
  by (simp add: SystemKeys_def system_key_defs)

end
