(* ===== verification/Model.thy ===== *)
theory Model
  imports Centipoints Kinds
begin

text \<open>
  The data of internal/strategy: what a planner consumes (the events, the read-only facade
  \<open>ctx\<close>, the auction's bids and session) and what it produces (batch proposals and auction
  resolutions), from strategy.go, proposal.go and tier.go. A Go pointer is an option, an instant
  (\<open>core.Micros\<close>) an int64. A field keeps its Go name behind a prefix for its struct, since
  HOL record fields share one name space.
\<close>

type_synonym ulid = string
type_synonym micros = i64

section \<open>Accounts, shares and events\<close>

definition BalanceKindDKP :: string where "BalanceKindDKP = ''dkp''"

datatype rule_kind = RuleEarn | RuleSpend | RuleOverTime

fun rule_kind_string :: "rule_kind \<Rightarrow> string" where
  "rule_kind_string RuleEarn = ''earn''"
| "rule_kind_string RuleSpend = ''spend''"
| "rule_kind_string RuleOverTime = ''over_time''"

definition IsRuleKind :: "string \<Rightarrow> bool" where
  "IsRuleKind kind \<longleftrightarrow> kind = rule_kind_string RuleEarn \<or> kind = rule_kind_string RuleSpend \<or>
     kind = rule_kind_string RuleOverTime"

record share =
  sh_AccountID :: ulid
  sh_Weight :: i64
  sh_Role :: string

record allocation =
  al_AccountID :: ulid
  al_AmountCp :: centipoints

record account_ref =
  ar_ID :: ulid
  ar_Kind :: string
  ar_SystemKey :: string
  ar_Label :: string

definition IsSystem :: "account_ref \<Rightarrow> bool" where
  "IsSystem a \<longleftrightarrow> ar_Kind a = KindSystem"

record item_ref =
  it_ID :: ulid
  it_Name :: string
  it_FixedPriceCp :: "centipoints option"

record priority =
  pr_Rank :: i64
  pr_Tiebreak :: string
  pr_Reason :: string

record attendance_event =
  at_Attendees :: "share list"
  at_AmountCp :: "centipoints option"
  at_TickID :: "ulid option"
  at_RaidID :: "ulid option"
  at_EffectiveAt :: micros
  at_Reason :: string

record award_event =
  aw_Buyer :: account_ref
  aw_CharacterID :: "ulid option"
  aw_Item :: item_ref
  aw_PriceCp :: "centipoints option"
  aw_Beneficiaries :: "share list"
  aw_RaidID :: "ulid option"
  aw_ItemAwardID :: "ulid option"
  aw_EffectiveAt :: micros
  aw_Reason :: string

record adjustment_event =
  aj_Account :: account_ref
  aj_AmountCp :: centipoints
  aj_Counterparty :: ulid
  aj_EffectiveAt :: micros
  aj_Reason :: string

record expiry_window =
  ew_Days :: i64
  ew_FromSeq :: i64
  ew_ToSeq :: i64

record decay_run =
  dr_PeriodKey :: string
  dr_AsOfSeq :: i64
  dr_Accounts :: "account_ref list"
  dr_Window :: "expiry_window option"
  dr_EffectiveAt :: micros

section \<open>Proposals\<close>

datatype invariant_kind =
    InvariantSumZero
  | InvariantNonNegative
  | InvariantLargestRemainderSumsToDebit
  | InvariantConserved
  | InvariantMonotoneNonDecreasing
  | InvariantPermutation
  | InvariantRatioPreserved
  | InvariantOther string

record invariant =
  iv_Kind :: invariant_kind
  iv_BalanceKind :: string
  iv_FloorCp :: "centipoints option"
  iv_TotalCp :: "centipoints option"
  iv_ToleranceBp :: i64
  iv_SecondBalanceKind :: string

record entry_proposal =
  ep_AccountID :: ulid
  ep_CharacterID :: "ulid option"
  ep_BalanceKind :: string
  ep_AmountCp :: centipoints
  ep_ItemID :: "ulid option"
  ep_ItemAwardID :: "ulid option"
  ep_RaidID :: "ulid option"
  ep_TickID :: "ulid option"
  ep_MetadataJSON :: string

record batch_proposal =
  bp_Kind :: string
  bp_StrategyID :: string
  bp_StrategyVersion :: string
  bp_ConfigSnapshotJSON :: string
  bp_RngSeed :: "i64 option"
  bp_Reason :: string
  bp_ReversesBatchID :: "ulid option"
  bp_EffectiveAt :: micros
  bp_Entries :: "entry_proposal list"
  bp_Invariants :: "invariant list"

record ledger_batch =
  lb_ID :: ulid
  lb_Kind :: string
  lb_StrategyID :: string
  lb_StrategyVersion :: string
  lb_ConfigSnapshotJSON :: string
  lb_Reason :: string
  lb_EffectiveAt :: micros
  lb_Entries :: "entry_proposal list"

text \<open>Go composite literals leave the fields they do not name at their zero values.\<close>

definition entry0 :: entry_proposal where
  "entry0 = \<lparr>ep_AccountID = [], ep_CharacterID = None, ep_BalanceKind = [], ep_AmountCp = 0,
     ep_ItemID = None, ep_ItemAwardID = None, ep_RaidID = None, ep_TickID = None,
     ep_MetadataJSON = []\<rparr>"

definition dkp_entry :: "ulid \<Rightarrow> centipoints \<Rightarrow> entry_proposal" where
  "dkp_entry account amount =
     entry0\<lparr>ep_AccountID := account, ep_BalanceKind := BalanceKindDKP, ep_AmountCp := amount\<rparr>"

definition dkp_invariant :: "invariant_kind \<Rightarrow> centipoints option \<Rightarrow> invariant" where
  "dkp_invariant k floor = \<lparr>iv_Kind = k, iv_BalanceKind = BalanceKindDKP, iv_FloorCp = floor,
     iv_TotalCp = None, iv_ToleranceBp = 0, iv_SecondBalanceKind = []\<rparr>"

lemma dkp_entry_sel [simp]:
  "ep_AccountID (dkp_entry a n) = a" "ep_AmountCp (dkp_entry a n) = n"
  "ep_BalanceKind (dkp_entry a n) = BalanceKindDKP"
  by (simp_all add: dkp_entry_def)

section \<open>Bids and resolutions\<close>

record bid =
  bd_AccountID :: ulid
  bd_AmountCp :: centipoints
  bd_PlacedAt :: micros
  bd_Sealed :: bool
  bd_Tier :: string

record session =
  ss_ID :: ulid
  ss_Item :: item_ref
  ss_SeqAtOpen :: i64
  ss_OpenedAt :: micros
  ss_ClosesAt :: micros
  ss_MinAmountCp :: centipoints

record tier_count =
  tc_Tier :: string
  tc_Bids :: nat

datatype resolution_step_kind =
    ResolutionStepEligibility
  | ResolutionStepTier
  | ResolutionStepAmount
  | ResolutionStepShare
  | ResolutionStepBidSequence
  | ResolutionStepSeededRoll
  | ResolutionStepRebidRequired
  | ResolutionStepPrice

text \<open>
  The sentences a resolution carries are \<open>fmt.Sprintf\<close> of a constant format. A constructor
  of \<open>msg\<close> stands for one format and carries exactly the values the format is given, so the
  model says what a sentence discloses without rendering it.
\<close>

datatype (plugins only: code size) msg =
    MsgCleared nat nat centipoints
  | MsgTierAlone string string "tier_count list"
  | MsgTierWins string string nat "tier_count list"
  | MsgAmountAlone string centipoints
  | MsgAmountTied nat nat string centipoints
  | MsgSequence nat
  | MsgRoll nat i64
  | MsgNoBid nat centipoints
  | MsgExplained string nat string msg
  | MsgHighest nat centipoints
  | MsgAfterRoll msg
  | MsgPaysBid centipoints
  | MsgFirstPrice nat centipoints
  | MsgSecondCapped i64 centipoints
  | MsgSecondRunnerUp i64
  | MsgSoleInTier string centipoints nat
  | MsgSoleBidder centipoints
  | MsgTieStuck nat string centipoints
  | MsgTieRebid nat string centipoints centipoints
  | MsgTieStuckStep string nat centipoints
  | MsgTieRebidStep string nat centipoints
  | MsgNoShare nat i64 i64 i64
  | MsgShares nat nat i64 i64 i64
  | MsgLargestShare i64 i64 centipoints
  | MsgIgnored msg nat
  | MsgShareAlone string i64 i64
  | MsgShareTied nat nat string i64 i64
  | MsgPaysCommitted centipoints
  | MsgNobody
  | MsgEntrants nat i64 i64
  | MsgRollTie nat i64 i64 i64
  | MsgRollTieStep nat string i64 i64
  | MsgHighestRoll nat i64 i64 i64
  | MsgLowerRungs msg nat
  | MsgDrawn nat string i64 i64
  | MsgCost centipoints

record resolution_step =
  rs_Kind :: resolution_step_kind
  rs_Detail :: msg

record tie =
  ti_Tier :: string
  ti_AmountCp :: centipoints
  ti_Accounts :: "ulid list"
  ti_RebidRequired :: bool

record resolution =
  rn_Winners :: "allocation list"
  rn_Reason :: msg
  rn_RngSeed :: "i64 option"
  rn_Tie :: "tie option"
  rn_WinningTier :: string
  rn_TierCounts :: "tier_count list"
  rn_Trace :: "resolution_step list"

definition MinRebidCp :: "tie \<Rightarrow> centipoints option" where
  "MinRebidCp t = addCentipoints (ti_AmountCp t) 1"

definition MaxPasses :: "tie \<Rightarrow> nat" where
  "MaxPasses t = (if length (ti_Accounts t) = 0 then 0 else length (ti_Accounts t) - 1)"

section \<open>The facade\<close>

text \<open>
  \<open>strategy.Ctx\<close> is an interface; a value of it is a record of its methods. The clock is what
  \<open>core.FromTime(ctx.Clock().Now())\<close> returns. The random source is its seed and its draws:
  \<open>cx_IntN hist n\<close> is what \<open>IntN(n)\<close> returns after the draws with bounds \<open>hist\<close>, so any
  deterministic source is one function.
\<close>

record ctx =
  cx_PoolID :: ulid
  cx_HeadSeq :: i64
  cx_Now :: micros
  cx_Seed :: i64
  cx_IntN :: "nat list \<Rightarrow> nat \<Rightarrow> nat"
  cx_ConfigJSON :: string
  cx_Balance :: "ulid \<Rightarrow> string \<Rightarrow> i64 \<Rightarrow> centipoints res"
  cx_HasHistory :: "ulid \<Rightarrow> string \<Rightarrow> i64 \<Rightarrow> bool res"
  cx_EarnedBetween :: "ulid \<Rightarrow> string \<Rightarrow> i64 \<Rightarrow> i64 \<Rightarrow> centipoints res"
  cx_Roster :: "account_ref list res"
  cx_SystemAccount :: "string \<Rightarrow> ulid res"
  cx_Allocate :: "centipoints \<Rightarrow> share list \<Rightarrow> ulid \<Rightarrow> allocation list res"

end
