(* ===== verification/Proposal.thy ===== *)
theory Proposal
  imports Model
begin

text \<open>
  The operations of a batch proposal (internal/strategy/proposal.go): the overflow-checked net
  amount, the negation a reversal is made of, and \<open>LedgerBatch.Reversal\<close> of strategy.go. The
  lemmas read the net over the integers and show that a reversal undoes its batch, entry by entry.
\<close>

section \<open>The net of a batch\<close>

fun net_loop :: "centipoints \<Rightarrow> entry_proposal list \<Rightarrow> centipoints option" where
  "net_loop net [] = Some net"
| "net_loop net (e # es) =
    (let sum = net + ep_AmountCp e in
     if (0 <s ep_AmountCp e \<and> sum <s net) \<or> (ep_AmountCp e <s 0 \<and> net <s sum) then None
     else net_loop sum es)"

definition NetAmountCp :: "batch_proposal \<Rightarrow> centipoints option" where
  "NetAmountCp p = net_loop 0 (bp_Entries p)"

definition amounts :: "entry_proposal list \<Rightarrow> int list" where
  "amounts es = map (\<lambda>e. sint (ep_AmountCp e)) es"

lemma amounts_simps [simp]:
  "amounts [] = []" "amounts (e # es) = sint (ep_AmountCp e) # amounts es"
  "amounts (es @ fs) = amounts es @ amounts fs"
  by (simp_all add: amounts_def)

text \<open>Every partial sum fits, in the order of the entries.\<close>

definition prefixes_fit :: "int \<Rightarrow> int list \<Rightarrow> bool" where
  "prefixes_fit n xs \<longleftrightarrow> (\<forall>k \<le> length xs. in64 (n + sum_list (take k xs)))"

lemma net_loop_add:
  "net_loop net (e # es) =
    (case addCentipoints net (ep_AmountCp e) of None \<Rightarrow> None | Some s \<Rightarrow> net_loop s es)"
  by (simp add: addCentipoints_def Let_def)

declare net_loop.simps(2) [simp del]

lemma prefixes_fit_Cons:
  "prefixes_fit n (x # xs) \<longleftrightarrow> in64 n \<and> prefixes_fit (n + x) xs"
proof
  assume fit: "prefixes_fit n (x # xs)"
  have "in64 n" using fit by (auto simp: prefixes_fit_def dest: spec [of _ 0])
  moreover have "in64 (n + x + sum_list (take k xs))" if "k \<le> length xs" for k
    using fit that by (auto simp: prefixes_fit_def add.assoc dest!: spec [of _ "Suc k"])
  ultimately show "in64 n \<and> prefixes_fit (n + x) xs" by (simp add: prefixes_fit_def)
next
  assume fit: "in64 n \<and> prefixes_fit (n + x) xs"
  show "prefixes_fit n (x # xs)"
    unfolding prefixes_fit_def
  proof (intro allI impI)
    fix k assume "k \<le> length (x # xs)"
    then show "in64 (n + sum_list (take k (x # xs)))"
      using fit by (cases k) (auto simp: prefixes_fit_def add.assoc)
  qed
qed

lemma prefixes_fit_Nil: "prefixes_fit n [] \<longleftrightarrow> in64 n"
  by (simp add: prefixes_fit_def)

lemma net_loop_exact:
  "net_loop net es = Some r \<longleftrightarrow>
    prefixes_fit (sint net) (amounts es) \<and> sint r = sint net + sum_list (amounts es)"
proof (induction es arbitrary: net)
  case Nil
  then show ?case by (auto simp: prefixes_fit_Nil sint_inject64)
next
  case (Cons e es)
  show ?case
  proof (cases "in64 (sint net + sint (ep_AmountCp e))")
    case True
    then show ?thesis
      using Cons.IH [of "net + ep_AmountCp e"]
      by (simp add: net_loop_add addCentipoints_exact sint_add prefixes_fit_Cons add.assoc)
  next
    case False
    moreover have "prefixes_fit m xs \<Longrightarrow> in64 m" for m xs
      by (auto simp: prefixes_fit_def dest: spec [of _ 0])
    ultimately show ?thesis
      by (auto simp: net_loop_add addCentipoints_exact prefixes_fit_Cons)
  qed
qed

lemma net_loop_sint: "net_loop net es = Some r \<Longrightarrow> sint r = sint net + sum_list (amounts es)"
  by (simp add: net_loop_exact)

lemma NetAmountCp_zero_sum: "NetAmountCp p = Some 0 \<Longrightarrow> sum_list (amounts (bp_Entries p)) = 0"
  by (auto simp: NetAmountCp_def dest: net_loop_sint)

section \<open>Negation\<close>

fun negate_entries :: "entry_proposal list \<Rightarrow> entry_proposal list res" where
  "negate_entries [] = Inr []"
| "negate_entries (e # es) =
    (if ep_AmountCp e = min_int64 then Inl ErrNotNegatable
     else bindR (negate_entries es) (\<lambda>es'. Inr (e\<lparr>ep_AmountCp := - ep_AmountCp e\<rparr> # es')))"

fun reversalInvariants :: "invariant list \<Rightarrow> invariant list" where
  "reversalInvariants [] = []"
| "reversalInvariants (iv # ivs) =
    (if iv_Kind iv = InvariantNonNegative then reversalInvariants ivs
     else iv # reversalInvariants ivs)"

definition Negated :: "batch_proposal \<Rightarrow> ulid \<Rightarrow> batch_proposal res" where
  "Negated p reverses =
    (if length (bp_Entries p) = 0 then Inl ErrEmptyProposal
     else bindR (negate_entries (bp_Entries p)) (\<lambda>entries. Inr
       \<lparr>bp_Kind = KindReversal, bp_StrategyID = bp_StrategyID p,
        bp_StrategyVersion = bp_StrategyVersion p,
        bp_ConfigSnapshotJSON = bp_ConfigSnapshotJSON p, bp_RngSeed = None,
        bp_Reason = bp_Reason p, bp_ReversesBatchID = Some reverses, bp_EffectiveAt = 0,
        bp_Entries = entries, bp_Invariants = reversalInvariants (bp_Invariants p)\<rparr>))"

definition Reversal :: "ledger_batch \<Rightarrow> batch_proposal res" where
  "Reversal b = Negated
     \<lparr>bp_Kind = lb_Kind b, bp_StrategyID = lb_StrategyID b,
      bp_StrategyVersion = lb_StrategyVersion b,
      bp_ConfigSnapshotJSON = lb_ConfigSnapshotJSON b, bp_RngSeed = None,
      bp_Reason = lb_Reason b, bp_ReversesBatchID = None, bp_EffectiveAt = 0,
      bp_Entries = lb_Entries b, bp_Invariants = []\<rparr> (lb_ID b)"

lemma reversalInvariants_filter:
  "reversalInvariants ivs = filter (\<lambda>iv. iv_Kind iv \<noteq> InvariantNonNegative) ivs"
  by (induction ivs) auto

lemma negate_entries_eq_Inr:
  "negate_entries es = Inr es' \<longleftrightarrow>
    (\<forall>e \<in> set es. ep_AmountCp e \<noteq> min_int64) \<and>
    es' = map (\<lambda>e. e\<lparr>ep_AmountCp := - ep_AmountCp e\<rparr>) es"
  by (induction es arbitrary: es') (auto simp: res_simps)

lemma negate_entries_eq_Inl:
  "negate_entries es = Inl er \<longleftrightarrow>
    er = ErrNotNegatable \<and> (\<exists>e \<in> set es. ep_AmountCp e = min_int64)"
  by (induction es) (auto simp: res_simps)

lemma amounts_negated:
  "negate_entries es = Inr es' \<Longrightarrow> amounts es' = map uminus (amounts es)"
  by (auto simp: negate_entries_eq_Inr amounts_def sint_uminus)

lemma sum_list_uminus: "sum_list (map uminus xs) = - (sum_list xs :: int)"
  by (induction xs) auto

text \<open>Negating twice gives the entries back; their order and provenance are untouched.\<close>

lemma negate_entries_involutive:
  "negate_entries es = Inr es' \<Longrightarrow> negate_entries es' = Inr es"
proof -
  assume neg: "negate_entries es = Inr es'"
  have "- a = min_int64 \<Longrightarrow> a = min_int64" for a :: i64
    by (metis minus_minus uminus_min_int64)
  then show ?thesis
    using neg by (auto simp: negate_entries_eq_Inr o_def intro!: map_idI [symmetric])
qed

lemma Negated_eq_Inr:
  "Negated p r = Inr q \<longleftrightarrow> bp_Entries p \<noteq> [] \<and>
    (\<exists>es. negate_entries (bp_Entries p) = Inr es \<and> q =
      \<lparr>bp_Kind = KindReversal, bp_StrategyID = bp_StrategyID p,
        bp_StrategyVersion = bp_StrategyVersion p,
        bp_ConfigSnapshotJSON = bp_ConfigSnapshotJSON p, bp_RngSeed = None,
        bp_Reason = bp_Reason p, bp_ReversesBatchID = Some r, bp_EffectiveAt = 0,
        bp_Entries = es, bp_Invariants = reversalInvariants (bp_Invariants p)\<rparr>)"
  by (auto simp: Negated_def res_simps)

lemma Negated_error:
  "Negated p r = Inl e \<longleftrightarrow> (bp_Entries p = [] \<and> e = ErrEmptyProposal) \<or>
    (e = ErrNotNegatable \<and> (\<exists>x \<in> set (bp_Entries p). ep_AmountCp x = min_int64))"
  by (cases "bp_Entries p = []") (auto simp: Negated_def res_simps negate_entries_eq_Inl)

end
