(* ===== verification/Allocate.thy ===== *)
theory Allocate
  imports Proposal
begin

text \<open>
  Largest-remainder allocation (internal/ledger/allocate.go), on 64-bit words with the 128-bit
  product of math/bits. The lemmas follow the function's own stages: the weights' checked sum, the
  exact quota of each share, the shortfall, and the award of one centipoint to the largest
  remainders. They give the laws of the locale \<open>allocator\<close>, the contract the planners rely on.

  \<open>sort.Slice\<close> is not stable; the model sorts stably. The two agree where the comparator is a
  total order on the elements, which it is when the account ids are distinct, and every planner
  checks that they are before it calls.
\<close>

section \<open>The code\<close>

definition AccountIDResidue :: ulid where "AccountIDResidue = ''0000000000000000DKPACCTRES''"
definition AccountIDGuildBank :: ulid where "AccountIDGuildBank = ''0000000000000000DKPACCTBNK''"
definition AccountIDWriteOff :: ulid where "AccountIDWriteOff = ''0000000000000000DKPACCTWRF''"
definition AccountIDImportOpening :: ulid where
  "AccountIDImportOpening = ''0000000000000000DKPACCTMPN''"

definition SystemAccountIDs :: "string \<rightharpoonup> ulid" where
  "SystemAccountIDs = [SystemKeyResidue \<mapsto> AccountIDResidue, SystemKeyGuildBank \<mapsto> AccountIDGuildBank,
     SystemKeyWriteOff \<mapsto> AccountIDWriteOff, SystemKeyImportOpening \<mapsto> AccountIDImportOpening]"

record candidate =
  cd_accountID :: ulid
  cd_base :: u64
  cd_remainder :: u64

fun sumWeights_loop :: "i64 \<Rightarrow> share list \<Rightarrow> i64 res" where
  "sumWeights_loop tot [] = Inr tot"
| "sumWeights_loop tot (s # shares) =
    (if sh_Weight s <s 0 then Inl ErrNegativeWeight
     else let sum = tot + sh_Weight s in
       if sum <s tot then Inl ErrWeightOverflow else sumWeights_loop sum shares)"

definition sumWeights :: "share list \<Rightarrow> i64 res" where
  "sumWeights shares = sumWeights_loop 0 shares"

definition magnitudeOf :: "centipoints \<Rightarrow> u64 \<times> bool" where
  "magnitudeOf v = (if v <s 0 then (- v, True) else (v, False))"

fun quotas :: "u64 \<Rightarrow> i64 \<Rightarrow> share list \<Rightarrow> u64 \<Rightarrow> (candidate list \<times> u64) res" where
  "quotas magnitude weightSum [] allocated = Inr ([], allocated)"
| "quotas magnitude weightSum (s # shares) allocated =
    (let (hi, lo) = mul64 magnitude (sh_Weight s) in
     bindR (div64 hi lo weightSum) (\<lambda>(base, remainder).
     bindR (quotas magnitude weightSum shares (allocated + base)) (\<lambda>(cs, allocated').
     Inr (\<lparr>cd_accountID = sh_AccountID s, cd_base = base, cd_remainder = remainder\<rparr> # cs, allocated'))))"

fun award_shortfall :: "nat \<Rightarrow> u64 \<Rightarrow> candidate list \<Rightarrow> candidate list" where
  "award_shortfall i shortfall [] = []"
| "award_shortfall i shortfall (c # cs) =
    (if shortfall \<le> word_of_nat i then c # cs
     else c\<lparr>cd_base := cd_base c + 1\<rparr> # award_shortfall (Suc i) shortfall cs)"

fun emit_allocations :: "bool \<Rightarrow> candidate list \<Rightarrow> allocation list" where
  "emit_allocations negative [] = []"
| "emit_allocations negative (c # cs) =
    (if cd_base c = 0 then emit_allocations negative cs
     else \<lparr>al_AccountID = cd_accountID c,
           al_AmountCp = (if negative then - cd_base c else cd_base c)\<rparr>
          # emit_allocations negative cs)"

definition by_remainder :: "candidate \<Rightarrow> int \<times> ulid" where
  "by_remainder c = (- uint (cd_remainder c), cd_accountID c)"

definition Allocate :: "centipoints \<Rightarrow> share list \<Rightarrow> ulid \<Rightarrow> allocation list res" where
  "Allocate amount shares emptyAccount =
    (if amount = 0 then Inl ErrZeroTotal
     else if amount = min_int64 then Inl ErrAmountOutOfRange
     else if length shares = 0
       then Inr [\<lparr>al_AccountID = emptyAccount, al_AmountCp = amount\<rparr>]
     else bindR (sumWeights shares) (\<lambda>weightSum.
       if weightSum = 0 then Inr [\<lparr>al_AccountID = AccountIDResidue, al_AmountCp = amount\<rparr>]
       else let (magnitude, negative) = magnitudeOf amount in
         bindR (quotas magnitude weightSum shares 0) (\<lambda>(candidates, allocated).
         let shortfall = magnitude - allocated;
             awarded = award_shortfall 0 shortfall (sort_key by_remainder candidates)
         in Inr (emit_allocations negative (sort_key cd_accountID awarded)))))"

section \<open>Weights\<close>

definition weights :: "share list \<Rightarrow> int list" where
  "weights shares = map (\<lambda>s. sint (sh_Weight s)) shares"

lemma weights_simps [simp]:
  "weights [] = []" "weights (s # shares) = sint (sh_Weight s) # weights shares"
  by (simp_all add: weights_def)

lemma sum_list_nonneg': "\<forall>x \<in> set xs. 0 \<le> (x :: int) \<Longrightarrow> 0 \<le> sum_list xs"
  by (induction xs) auto

lemma sumWeights_loop_exact:
  "0 \<le> sint tot \<Longrightarrow> sumWeights_loop tot shares = Inr w \<longleftrightarrow>
    (\<forall>s \<in> set shares. 0 \<le> sint (sh_Weight s)) \<and>
    sint tot + sum_list (weights shares) < 9223372036854775808 \<and>
    sint w = sint tot + sum_list (weights shares)"
proof (induction shares arbitrary: tot)
  case Nil
  then show ?case using sint_bounds [of tot] by (auto simp: sint_inject64)
next
  case (Cons s shares)
  show ?case
  proof (cases "0 \<le> sint (sh_Weight s)")
    case False
    then show ?thesis by (auto simp: i64_simps)
  next
    case nn: True
    show ?thesis
    proof (cases "sint tot + sint (sh_Weight s) < 9223372036854775808")
      case True
      then have "sint (tot + sh_Weight s) = sint tot + sint (sh_Weight s)"
        using nn Cons.prems by (intro sint_add) (simp add: in64_def)
      then show ?thesis
        using nn Cons.prems Cons.IH [of "tot + sh_Weight s"]
        by (auto simp: i64_simps Let_def)
    next
      case False
      then have "sint (tot + sh_Weight s) < sint tot"
        using sint_add_over [of tot "sh_Weight s"] sint_bounds [of "sh_Weight s"] by simp
      moreover have "\<forall>s \<in> set shares. 0 \<le> sint (sh_Weight s) \<Longrightarrow> 0 \<le> sum_list (weights shares)"
        by (intro sum_list_nonneg') (auto simp: weights_def)
      ultimately show ?thesis
        using False nn by (auto simp: i64_simps Let_def)
    qed
  qed
qed

lemma sumWeights_exact:
  "sumWeights shares = Inr w \<longleftrightarrow> (\<forall>s \<in> set shares. 0 \<le> sint (sh_Weight s)) \<and>
    sum_list (weights shares) < 9223372036854775808 \<and> sint w = sum_list (weights shares)"
  by (simp add: sumWeights_def sumWeights_loop_exact)

lemma sumWeights_error:
  "sumWeights shares = Inl e \<Longrightarrow> e = ErrNegativeWeight \<or> e = ErrWeightOverflow"
proof -
  have "sumWeights_loop t shares = Inl e \<Longrightarrow> e = ErrNegativeWeight \<or> e = ErrWeightOverflow" for t
    by (induction shares arbitrary: t) (auto simp: Let_def split: if_splits)
  then show "sumWeights shares = Inl e \<Longrightarrow> e = ErrNegativeWeight \<or> e = ErrWeightOverflow"
    by (simp add: sumWeights_def)
qed

lemma weight_le_sum:
  "\<forall>s \<in> set shares. 0 \<le> sint (sh_Weight s) \<Longrightarrow> s \<in> set shares \<Longrightarrow>
    sint (sh_Weight s) \<le> sum_list (weights shares)"
proof (induction shares)
  case (Cons t shares)
  then show ?case
    using sum_list_nonneg' [of "weights shares"] by (auto simp: weights_def)
qed simp

section \<open>Quotas\<close>

text \<open>The exact candidate of a share: the quotient and remainder of \<open>P * w\<close> by \<open>W\<close>.\<close>

definition quota_of :: "u64 \<Rightarrow> i64 \<Rightarrow> share \<Rightarrow> candidate" where
  "quota_of P W s = \<lparr>cd_accountID = sh_AccountID s,
     cd_base = word_of_nat (unat P * unat (sh_Weight s) div unat W),
     cd_remainder = word_of_nat (unat P * unat (sh_Weight s) mod unat W)\<rparr>"

definition bases :: "candidate list \<Rightarrow> nat list" where
  "bases cs = map (\<lambda>c. unat (cd_base c)) cs"

lemma quota_le: "w \<le> W \<Longrightarrow> 0 < W \<Longrightarrow> P * w div W \<le> (P :: nat)"
  by (metis div_le_mono mult_le_mono2 nonzero_mult_div_cancel_right less_not_refl)

lemma quotas_exact:
  assumes W: "0 < unat W" and le: "\<forall>s \<in> set shares. unat (sh_Weight s) \<le> unat W"
  shows "quotas P W shares acc = Inr (map (quota_of P W) shares,
    acc + sum_list (map (\<lambda>s. cd_base (quota_of P W s)) shares))"
  using le
proof (induction shares arbitrary: acc)
  case (Cons s shares)
  have "unat P * unat (sh_Weight s) div unat W < 18446744073709551616"
    using quota_le [of "unat (sh_Weight s)" "unat W" "unat P"] Cons.prems W unat_bound [of P]
    by (meson le_less_trans list.set_intros(1))
  then obtain q r where qr: "div64 (fst (mul64 P (sh_Weight s))) (snd (mul64 P (sh_Weight s))) W
      = Inr (q, r)"
    "unat q = unat P * unat (sh_Weight s) div unat W"
    "unat r = unat P * unat (sh_Weight s) mod unat W"
    using W by (metis div64_mul64 unat_eq_zero less_not_refl)
  then have "q = cd_base (quota_of P W s)" "r = cd_remainder (quota_of P W s)"
    by (metis candidate.select_convs(2) quota_of_def word_unat_eq_iff of_nat_unat ucast_id)
       (metis candidate.select_convs(3) quota_of_def of_nat_unat ucast_id qr(3))
  with qr(1) Cons show ?case
    by (simp add: split_beta quota_of_def add.assoc)
qed simp

section \<open>Shortfall\<close>

text \<open>
  Over the natural numbers: the quotients of \<open>P * w\<close> by the weights' sum \<open>W\<close> fall short of \<open>P\<close>
  by less than one per non-zero remainder, so the shortfall is covered by awarding one to each of
  that many shares, and only a share with a remainder is ever awarded.
\<close>

lemma quotients_remainders:
  fixes P W :: nat
  shows "sum_list (map (\<lambda>x. P * w x div W) xs) * W + sum_list (map (\<lambda>x. P * w x mod W) xs)
    = P * sum_list (map w xs)"
proof (induction xs)
  case (Cons x xs)
  have "P * w x = P * w x div W * W + P * w x mod W" by simp
  with Cons show ?case by (simp add: distrib_left distrib_right)
qed simp

lemma quotients_le:
  "0 < W \<Longrightarrow> W = sum_list (map w xs) \<Longrightarrow> sum_list (map (\<lambda>x. P * w x div W) xs) \<le> (P :: nat)"
  using quotients_remainders [of P w W xs] by (metis le_add1 mult_le_cancel2 not_gr_zero)

lemma remainders_count:
  "0 < W \<Longrightarrow> sum_list (map (\<lambda>x. r x mod W) xs)
    \<le> length (filter (\<lambda>x. r x mod W \<noteq> 0) xs) * (W :: nat)"
proof (induction xs)
  case (Cons x xs)
  moreover have "r x mod W \<le> W" using Cons.prems by simp
  ultimately show ?case by (auto intro: add_mono)
qed simp

lemma shortfall_le_count:
  fixes P W :: nat
  assumes "0 < W" and "W = sum_list (map w xs)"
  shows "P - sum_list (map (\<lambda>x. P * w x div W) xs)
    \<le> length (filter (\<lambda>x. P * w x mod W \<noteq> 0) xs)" (is "P - ?q \<le> ?n")
proof -
  have "P * W \<le> ?q * W + ?n * W"
    using quotients_remainders [of P w W xs] remainders_count [of W "\<lambda>x. P * w x" xs] assms by simp
  then have "P * W \<le> (?q + ?n) * W" by (simp add: distrib_right)
  then show ?thesis using assms(1) by simp
qed

text \<open>In a list sorted so that the elements with a property come first, a prefix no longer than
  their number holds only such elements.\<close>

lemma take_sorted_holds:
  assumes "sorted (map f xs)" and "\<And>x y. f x \<le> f y \<Longrightarrow> Q y \<Longrightarrow> Q x"
    and "n \<le> length (filter Q xs)"
  shows "\<forall>x \<in> set (take n xs). Q x"
  using assms(1,3)
proof (induction xs arbitrary: n)
  case (Cons x xs)
  show ?case
  proof (cases n)
    case (Suc m)
    then have "filter Q (x # xs) \<noteq> []"
      using Cons.prems(2) by (metis list.size(3) not_less_eq_eq zero_le)
    then obtain y where y: "y \<in> set (x # xs)" "Q y"
      unfolding filter_empty_conv by blast
    have "f x \<le> f y" using y(1) Cons.prems(1) by auto
    then have "Q x" using y(2) assms(2) by blast
    moreover have "\<forall>z \<in> set (take m xs). Q z"
    proof (rule Cons.IH)
      show "sorted (map f xs)" using Cons.prems(1) by simp
      show "m \<le> length (filter Q xs)" using Cons.prems(2) Suc \<open>Q x\<close> by simp
    qed
    ultimately show ?thesis using Suc by simp
  qed simp
qed simp

definition bump :: "candidate \<Rightarrow> candidate" where
  "bump c = c\<lparr>cd_base := cd_base c + 1\<rparr>"

lemma award_shortfall_eq:
  "i \<le> unat sf \<Longrightarrow> award_shortfall i sf cs
    = map bump (take (unat sf - i) cs) @ drop (unat sf - i) cs"
proof (induction i sf cs rule: award_shortfall.induct)
  case (2 i sf c cs)
  have "unat (word_of_nat i :: u64) = i"
    using 2(2) unat_bound [of sf] by (intro unat_word_of_nat) linarith
  then have "sf \<le> word_of_nat i \<longleftrightarrow> unat sf = i"
    using 2(2) by (auto simp: word_le_nat_alt)
  then show ?case
    using 2 by (cases "unat sf = i") (auto simp: bump_def Suc_diff_Suc [symmetric] simp del: of_nat_Suc)
qed simp

section \<open>The allocation over the integers\<close>

definition awarded_of :: "u64 \<Rightarrow> i64 \<Rightarrow> share list \<Rightarrow> candidate list" where
  "awarded_of P W shares =
    (let cs = sort_key by_remainder (map (quota_of P W) shares);
         n = unat P - sum_list (bases (map (quota_of P W) shares))
     in map bump (take n cs) @ drop n cs)"

text \<open>What the two checks in front of the quotas leave: non-negative weights with a positive sum.\<close>

definition good_weights :: "share list \<Rightarrow> i64 \<Rightarrow> bool" where
  "good_weights shares W \<longleftrightarrow> (\<forall>s \<in> set shares. 0 \<le> sint (sh_Weight s)) \<and>
     sint W = sum_list (weights shares) \<and> 0 < sint W"

lemma good_weightsI: "sumWeights shares = Inr W \<Longrightarrow> W \<noteq> 0 \<Longrightarrow> good_weights shares W"
  using sum_list_nonneg' [of "weights shares"] sint_eq_0 [of W]
  by (auto simp: good_weights_def sumWeights_exact weights_def less_le)

lemma good_weights_unat:
  assumes "good_weights shares W"
  shows "0 < unat W" and "unat W = sum_list (map (\<lambda>s. unat (sh_Weight s)) shares)"
    and "\<forall>s \<in> set shares. unat (sh_Weight s) \<le> unat W"
proof -
  have nn: "\<forall>s \<in> set shares. 0 \<le> sint (sh_Weight s)" and W: "sint W = sum_list (weights shares)"
    "0 < sint W"
    using assms by (auto simp: good_weights_def)
  have intW: "int (unat W) = sint W" using W(2) unat_eq_sint [of W] by linarith
  then show "0 < unat W" using W(2) by linarith
  have "sum_list (weights shares) = int (sum_list (map (\<lambda>s. unat (sh_Weight s)) shares))"
    using nn by (induction shares) (auto simp: uint_eq_sint)
  then show "unat W = sum_list (map (\<lambda>s. unat (sh_Weight s)) shares)"
    using intW W(1) by (simp only: of_nat_eq_iff [where 'a = int, symmetric])
  show "\<forall>s \<in> set shares. unat (sh_Weight s) \<le> unat W"
    using weight_le_sum nn W by (metis less_imp_le nat_le_eq_zle unat_eq_sint zero_le_imp_eq_int nat_int)
qed

lemma base_quota:
  assumes "good_weights shares W" "s \<in> set shares"
  shows "unat (cd_base (quota_of P W s)) = unat P * unat (sh_Weight s) div unat W"
    and "unat (cd_remainder (quota_of P W s)) = unat P * unat (sh_Weight s) mod unat W"
    and "unat (cd_base (quota_of P W s)) \<le> unat P"
proof -
  have w: "0 < unat W" "unat (sh_Weight s) \<le> unat W"
    using good_weights_unat [OF assms(1)] assms(2) by auto
  have le: "unat P * unat (sh_Weight s) div unat W \<le> unat P"
    by (rule quota_le [OF w(2,1)])
  then show base: "unat (cd_base (quota_of P W s)) = unat P * unat (sh_Weight s) div unat W"
    using unat_bound [of P] by (simp only: quota_of_def candidate.select_convs)
      (intro unat_word_of_nat, linarith)
  show "unat (cd_base (quota_of P W s)) \<le> unat P" using base le by simp
  have "unat P * unat (sh_Weight s) mod unat W < unat W" using w by simp
  then show "unat (cd_remainder (quota_of P W s)) = unat P * unat (sh_Weight s) mod unat W"
    using unat_bound [of W] by (simp only: quota_of_def candidate.select_convs)
      (intro unat_word_of_nat, linarith)
qed

lemma sum_bases:
  assumes "good_weights shares W"
  shows "sum_list (bases (map (quota_of P W) shares))
    = sum_list (map (\<lambda>s. unat P * unat (sh_Weight s) div unat W) shares)"
    and "sum_list (bases (map (quota_of P W) shares)) \<le> unat P"
    and "unat (sum_list (map (\<lambda>s. cd_base (quota_of P W s)) shares))
    = sum_list (bases (map (quota_of P W) shares))"
proof -
  show eq: "sum_list (bases (map (quota_of P W) shares))
    = sum_list (map (\<lambda>s. unat P * unat (sh_Weight s) div unat W) shares)"
    using base_quota(1) [OF assms] by (simp add: bases_def o_def cong: map_cong)
  show le: "sum_list (bases (map (quota_of P W) shares)) \<le> unat P"
    unfolding eq by (rule quotients_le) (use good_weights_unat [OF assms] in auto)
  have "sum_list (map unat xs) < 18446744073709551616 \<Longrightarrow> unat (sum_list xs) = sum_list (map unat xs)"
    for xs :: "u64 list"
    by (induction xs) (auto simp: unat_word_ariths(1))
  from this [of "map (\<lambda>s. cd_base (quota_of P W s)) shares"]
  show "unat (sum_list (map (\<lambda>s. cd_base (quota_of P W s)) shares))
    = sum_list (bases (map (quota_of P W) shares))"
    using le unat_bound [of P] by (simp add: bases_def o_def)
qed

lemma Allocate_eq:
  assumes "amount \<noteq> 0" "amount \<noteq> min_int64" "shares \<noteq> []" "sumWeights shares = Inr W" "W \<noteq> 0"
  shows "Allocate amount shares emptyAccount = Inr (emit_allocations (amount <s 0)
    (sort_key cd_accountID (awarded_of (fst (magnitudeOf amount)) W shares)))"
proof -
  let ?P = "fst (magnitudeOf amount)"
  note good = good_weightsI [OF assms(4,5)]
  have neg: "snd (magnitudeOf amount) = (amount <s 0)" by (simp add: magnitudeOf_def)
  have "unat (?P - sum_list (map (\<lambda>s. cd_base (quota_of ?P W s)) shares))
      = unat ?P - sum_list (bases (map (quota_of ?P W) shares))"
    using sum_bases(2,3) [OF good, of ?P] by (subst unat_sub) (simp_all add: word_le_nat_alt)
  then have "award_shortfall 0 (?P - sum_list (map (\<lambda>s. cd_base (quota_of ?P W s)) shares))
      (sort_key by_remainder (map (quota_of ?P W) shares)) = awarded_of ?P W shares"
    by (simp add: award_shortfall_eq awarded_of_def Let_def)
  then show ?thesis
    using assms quotas_exact [of W shares ?P 0] good_weights_unat [OF good] neg
    by (simp add: Allocate_def split_beta)
qed

section \<open>Conservation and quotas\<close>

lemma sum_list_perm: "mset xs = mset ys \<Longrightarrow> sum_list (map f xs) = sum_list (map f ys)"
  for f :: "'a \<Rightarrow> 'b :: comm_monoid_add"
  by (metis mset_map sum_mset_sum_list)

lemma int_sum_list: "sum_list (map (\<lambda>x. int (f x)) xs) = int (sum_list (map f xs))"
  by (induction xs) simp_all

lemma sum_bases_bump:
  "\<forall>c \<in> set cs. unat (cd_base c) < 9223372036854775808 \<Longrightarrow>
    sum_list (bases (map bump cs)) = sum_list (bases cs) + length cs"
  by (induction cs) (auto simp: bases_def bump_def unat_word_ariths(1))

lemma unat_magnitude:
  assumes "amount \<noteq> min_int64"
  shows "int (unat (fst (magnitudeOf amount))) = \<bar>sint amount\<bar>"
    and "unat (fst (magnitudeOf amount)) < 9223372036854775808"
proof -
  show eq: "int (unat (fst (magnitudeOf amount))) = \<bar>sint amount\<bar>"
  proof (cases "sint amount < 0")
    case True
    then have "sint (- amount) = - sint amount" using assms by (simp add: sint_uminus)
    then show ?thesis using True by (simp add: magnitudeOf_def i64_simps uint_eq_sint)
  qed (simp add: magnitudeOf_def i64_simps uint_eq_sint)
  have "\<bar>sint amount\<bar> < 9223372036854775808"
    using sint_bounds [of amount] assms sint_min_int64 sint_inject64 [of amount min_int64] by auto
  then show "unat (fst (magnitudeOf amount)) < 9223372036854775808"
    using eq by linarith
qed

text \<open>Every awarded candidate is the quota of a share, or one above it where it is not exact.\<close>

definition fair_for :: "u64 \<Rightarrow> i64 \<Rightarrow> share \<Rightarrow> candidate \<Rightarrow> bool" where
  "fair_for P W s c \<longleftrightarrow> cd_accountID c = sh_AccountID s \<and>
     (unat (cd_base c) = unat P * unat (sh_Weight s) div unat W \<or>
      unat (cd_base c) = unat P * unat (sh_Weight s) div unat W + 1 \<and>
      unat P * unat (sh_Weight s) mod unat W \<noteq> 0)"

lemma awarded_prefix:
  assumes good: "good_weights shares W" and P: "unat P < 9223372036854775808"
    and n: "n = unat P - sum_list (bases (map (quota_of P W) shares))"
    and cs: "cs = sort_key by_remainder (map (quota_of P W) shares)"
  shows "\<forall>c \<in> set (take n cs). cd_remainder c \<noteq> 0" and "n \<le> length cs"
proof -
  have "n \<le> length (filter (\<lambda>s. unat P * unat (sh_Weight s) mod unat W \<noteq> 0) shares)"
    unfolding n sum_bases(1) [OF good]
    by (rule shortfall_le_count) (use good_weights_unat [OF good] in auto)
  also have "\<dots> = length (filter (\<lambda>s. cd_remainder (quota_of P W s) \<noteq> 0) shares)"
    by (rule arg_cong [where f = length], rule filter_cong)
      (use base_quota(2) [OF good] in \<open>auto simp: unat_eq_zero [symmetric] simp del: unat_eq_zero\<close>)
  also have "\<dots> = length (filter (\<lambda>c. cd_remainder c \<noteq> 0) (map (quota_of P W) shares))"
    by (simp add: filter_map o_def)
  also have "\<dots> = length (filter (\<lambda>c. cd_remainder c \<noteq> 0) cs)"
    unfolding cs by (simp only: size_mset [symmetric] mset_filter mset_sort)
  finally have le: "n \<le> length (filter (\<lambda>c. cd_remainder c \<noteq> 0) cs)" .
  then show "n \<le> length cs"
    using length_filter_le le_trans by blast
  show "\<forall>c \<in> set (take n cs). cd_remainder c \<noteq> 0"
  proof (rule take_sorted_holds [where f = by_remainder])
    show "sorted (map by_remainder cs)" unfolding cs by simp
    show "cd_remainder x \<noteq> 0" if "by_remainder x \<le> by_remainder y" "cd_remainder y \<noteq> 0" for x y
      using that by (auto simp: by_remainder_def less_eq_prod_def uint_0_iff)
  qed (rule le)
qed

lemma awarded_fair:
  assumes good: "good_weights shares W" and P: "unat P < 9223372036854775808"
    and "c \<in> set (awarded_of P W shares)"
  shows "\<exists>s \<in> set shares. fair_for P W s c"
proof -
  define cs where "cs = sort_key by_remainder (map (quota_of P W) shares)"
  define n where "n = unat P - sum_list (bases (map (quota_of P W) shares))"
  have fair: "\<exists>s \<in> set shares. d = quota_of P W s" if "d \<in> set cs" for d
    using that by (auto simp: cs_def)
  from assms(3) consider d where "d \<in> set (take n cs)" "c = bump d" | "c \<in> set (drop n cs)"
    by (auto simp: awarded_of_def Let_def cs_def n_def)
  then show ?thesis
  proof cases
    case 1
    then obtain s where s: "s \<in> set shares" "d = quota_of P W s"
      using fair in_set_takeD by metis
    have "unat (cd_base d) < 9223372036854775808"
      unfolding s(2) by (rule le_less_trans [OF base_quota(3) [OF good s(1)] P])
    then have "unat (cd_base (bump d)) = unat (cd_base d) + 1"
      by (simp add: bump_def unat_word_ariths(1))
    moreover have "unat (cd_remainder d) \<noteq> 0"
      using awarded_prefix(1) [OF good P n_def cs_def] 1(1) unat_eq_zero by blast
    moreover have "cd_accountID (bump d) = sh_AccountID s" by (simp add: bump_def s quota_of_def)
    ultimately show ?thesis
      using s 1(2) base_quota(1,2) [OF good s(1), of P] by (auto simp: fair_for_def intro!: bexI [of _ s])
  next
    case 2
    then obtain s where s: "s \<in> set shares" "c = quota_of P W s"
      using fair in_set_dropD by metis
    moreover have "cd_accountID c = sh_AccountID s" by (simp add: s quota_of_def)
    ultimately show ?thesis
      using base_quota(1) [OF good s(1), of P] by (auto simp: fair_for_def)
  qed
qed

lemma awarded_ids:
  assumes good: "good_weights shares W" and P: "unat P < 9223372036854775808"
  shows "mset (map cd_accountID (awarded_of P W shares)) = mset (map sh_AccountID shares)"
proof -
  define cs where "cs = sort_key by_remainder (map (quota_of P W) shares)"
  have "map cd_accountID (awarded_of P W shares) = map cd_accountID cs"
    by (simp add: awarded_of_def Let_def cs_def [symmetric] bump_def o_def
      take_map [symmetric] drop_map [symmetric])
  moreover have "mset (map cd_accountID cs) = mset (map cd_accountID (map (quota_of P W) shares))"
    by (simp only: cs_def mset_map mset_sort)
  moreover have "map cd_accountID (map (quota_of P W) shares) = map sh_AccountID shares"
    by (simp add: quota_of_def)
  ultimately show ?thesis by (simp only:)
qed

lemma awarded_sum:
  assumes good: "good_weights shares W" and P: "unat P < 9223372036854775808"
  shows "sum_list (bases (awarded_of P W shares)) = unat P"
proof -
  define cs where "cs = sort_key by_remainder (map (quota_of P W) shares)"
  define n where "n = unat P - sum_list (bases (map (quota_of P W) shares))"
  have "mset cs = mset (map (quota_of P W) shares)" by (simp add: cs_def)
  then have sum: "sum_list (bases cs) = sum_list (bases (map (quota_of P W) shares))"
    unfolding bases_def by (rule sum_list_perm)
  have "unat (cd_base c) < 9223372036854775808" if c: "c \<in> set cs" for c
  proof -
    obtain s where s: "s \<in> set shares" "c = quota_of P W s" using c by (auto simp: cs_def)
    then show ?thesis using base_quota(3) [OF good s(1), of P] P by simp
  qed
  then have "sum_list (bases (map bump (take n cs))) = sum_list (bases (take n cs)) + n"
    using awarded_prefix(2) [OF good P n_def cs_def] by (subst sum_bases_bump) (auto dest: in_set_takeD)
  moreover have "sum_list (bases (take n cs)) + sum_list (bases (drop n cs)) = sum_list (bases cs)"
    by (metis append_take_drop_id bases_def map_append sum_list.append)
  moreover have "awarded_of P W shares = map bump (take n cs) @ drop n cs"
    by (simp add: awarded_of_def Let_def cs_def n_def)
  moreover have "sum_list (bases (map (quota_of P W) shares)) \<le> unat P"
    by (rule sum_bases(2) [OF good])
  ultimately show ?thesis
    using sum by (simp add: n_def bases_def)
qed

section \<open>What an allocation credits\<close>

definition sum_alloc :: "allocation list \<Rightarrow> int" where
  "sum_alloc as = sum_list (map (\<lambda>a. sint (al_AmountCp a)) as)"

definition credited :: "allocation list \<Rightarrow> ulid \<Rightarrow> int" where
  "credited as account =
     sum_list (map (\<lambda>a. of_bool (al_AccountID a = account) * sint (al_AmountCp a)) as)"

lemma sum_alloc_simps [simp]:
  "sum_alloc [] = 0" "sum_alloc (a # as) = sint (al_AmountCp a) + sum_alloc as"
  by (simp_all add: sum_alloc_def)

lemma emit_eq: "emit_allocations neg cs = map (\<lambda>c. \<lparr>al_AccountID = cd_accountID c,
    al_AmountCp = (if neg then - cd_base c else cd_base c)\<rparr>) (filter (\<lambda>c. cd_base c \<noteq> 0) cs)"
  by (induction cs) auto

lemma emit_sum:
  fixes g :: "ulid \<Rightarrow> int"
  assumes "\<forall>c \<in> set cs. unat (cd_base c) < 9223372036854775808"
  shows "sum_list (map (\<lambda>a. g (al_AccountID a) * sint (al_AmountCp a)) (emit_allocations neg cs))
    = (if neg then - 1 else 1) * sum_list (map (\<lambda>c. g (cd_accountID c) * int (unat (cd_base c))) cs)"
  using assms
proof (induction cs)
  case (Cons c cs)
  then have b: "sint (cd_base c) = int (unat (cd_base c))" by (simp only: sint_eq_unat list.set_intros)
  then have "sint (- cd_base c) = - int (unat (cd_base c))" by (subst sint_uminus_pos) simp_all
  with Cons b show ?case by (auto simp: algebra_simps simp del: int_nat_eq)
qed simp

lemma emit_props:
  assumes "a \<in> set (emit_allocations neg cs)"
    and "\<forall>c \<in> set cs. unat (cd_base c) < 9223372036854775808"
  shows "(if neg then sint (al_AmountCp a) < 0 else 0 < sint (al_AmountCp a))"
    and "al_AccountID a \<in> cd_accountID ` set cs"
proof -
  obtain c where c: "c \<in> set cs" "cd_base c \<noteq> 0" "al_AccountID a = cd_accountID c"
    "al_AmountCp a = (if neg then - cd_base c else cd_base c)"
    using assms(1) by (auto simp: emit_eq)
  have b: "sint (cd_base c) = int (unat (cd_base c))" using c(1) assms(2) by (metis sint_eq_unat)
  then have pos: "0 < sint (cd_base c)" using c(2) sint_eq_0 [of "cd_base c"] by linarith
  then have "sint (- cd_base c) = - sint (cd_base c)" by (simp add: sint_uminus_pos)
  with c pos show "(if neg then sint (al_AmountCp a) < 0 else 0 < sint (al_AmountCp a))" by auto
  show "al_AccountID a \<in> cd_accountID ` set cs" using c by auto
qed

lemma awarded_small:
  assumes "good_weights shares W" "unat P < 9223372036854775808"
  shows "\<forall>c \<in> set (awarded_of P W shares). unat (cd_base c) < 9223372036854775808"
proof
  fix c assume "c \<in> set (awarded_of P W shares)"
  then have "unat (cd_base c) \<le> sum_list (bases (awarded_of P W shares))"
    unfolding bases_def by (intro member_le_sum_list) auto
  then show "unat (cd_base c) < 9223372036854775808"
    using awarded_sum [OF assms] assms(2) by simp
qed

lemma Allocate_weightless:
  assumes "amount \<noteq> 0" "amount \<noteq> min_int64" "shares \<noteq> []" "sumWeights shares = Inr 0"
  shows "Allocate amount shares emptyAccount = Inr [\<lparr>al_AccountID = AccountIDResidue, al_AmountCp = amount\<rparr>]"
  using assms by (simp add: Allocate_def)

text \<open>The cases of a successful call, for the theorems below.\<close>

lemma Allocate_cases:
  assumes "Allocate amount shares emptyAccount = Inr as"
  obtains (one) acct where "as = [\<lparr>al_AccountID = acct, al_AmountCp = amount\<rparr>]" "amount \<noteq> 0"
      "sum_list (weights shares) = 0"
      "acct = (if shares = [] then emptyAccount else AccountIDResidue)"
  | (split) W where "good_weights shares W" "amount \<noteq> 0" "amount \<noteq> min_int64"
      "as = emit_allocations (amount <s 0)
         (sort_key cd_accountID (awarded_of (fst (magnitudeOf amount)) W shares))"
proof -
  have nz: "amount \<noteq> 0" "amount \<noteq> min_int64"
    using assms by (auto simp: Allocate_def split: if_splits)
  show thesis
  proof (cases "shares = []")
    case True
    then show thesis using one assms nz by (simp add: Allocate_def)
  next
    case False
    then obtain W where W: "sumWeights shares = Inr W"
      using assms nz by (auto simp: Allocate_def res_simps)
    show thesis
    proof (cases "W = 0")
      case True
      then have "sum_list (weights shares) = 0" using W by (simp add: sumWeights_exact)
      then show thesis using one assms nz False W True by (simp add: Allocate_def)
    next
      case ne: False
      then show thesis
        using split [OF good_weightsI [OF W ne] nz] Allocate_eq [OF nz False W ne] assms by simp
    qed
  qed
qed

lemma Allocate_sums:
  assumes "Allocate amount shares emptyAccount = Inr as"
  shows "sum_alloc as = sint amount"
  using assms
proof (cases rule: Allocate_cases)
  case (split W)
  let ?P = "fst (magnitudeOf amount)"
  let ?cs = "sort_key cd_accountID (awarded_of ?P W shares)"
  note P = unat_magnitude [OF split(3)]
  have "mset ?cs = mset (awarded_of ?P W shares)" by simp
  then have "sum_list (map (\<lambda>c. int (unat (cd_base c))) ?cs)
      = sum_list (map (\<lambda>c. int (unat (cd_base c))) (awarded_of ?P W shares))"
    by (rule sum_list_perm)
  also have "\<dots> = int (sum_list (bases (awarded_of ?P W shares)))"
    unfolding bases_def by (rule int_sum_list)
  also have "\<dots> = \<bar>sint amount\<bar>" using awarded_sum [OF split(1) P(2)] P(1) by simp
  finally have "sum_list (map (\<lambda>c. int (unat (cd_base c))) ?cs) = \<bar>sint amount\<bar>" .
  then show ?thesis
    using emit_sum [of ?cs "\<lambda>_. 1" "amount <s 0"] awarded_small [OF split(1) P(2)]
    by (auto simp: sum_alloc_def split(4) i64_simps)
qed simp

lemma Allocate_signs:
  assumes "Allocate amount shares emptyAccount = Inr as" and "a \<in> set as"
  shows "if sint amount < 0 then sint (al_AmountCp a) < 0 else 0 < sint (al_AmountCp a)"
  using assms
proof (cases rule: Allocate_cases)
  case (one acct)
  then have "sint amount < 0 \<or> 0 < sint amount" by (simp flip: linorder_neq_iff)
  then show ?thesis using one assms(2) by auto
next
  case (split W)
  let ?cs = "sort_key cd_accountID (awarded_of (fst (magnitudeOf amount)) W shares)"
  have "\<forall>c \<in> set ?cs. unat (cd_base c) < 9223372036854775808"
    using awarded_small [OF split(1) unat_magnitude(2) [OF split(3)]] by simp
  then show ?thesis
    using emit_props(1) [of a "amount <s 0" ?cs] assms(2) split(4) by (simp add: i64_simps)
qed

section \<open>Fairness, determinism and errors\<close>

lemma credited_distinct:
  assumes "distinct (map cd_accountID cs)" "c \<in> set cs"
    and "\<forall>c \<in> set cs. unat (cd_base c) < 9223372036854775808"
  shows "credited (emit_allocations neg cs) (cd_accountID c)
    = (if neg then - 1 else 1) * int (unat (cd_base c))"
proof -
  have "sum_list (map (\<lambda>d. of_bool (cd_accountID d = cd_accountID c) * int (unat (cd_base d))) cs)
      = int (unat (cd_base c))"
    using assms(1,2)
  proof (induction cs)
    case (Cons d cs)
    have zero: "cd_accountID c \<notin> cd_accountID ` set ds \<Longrightarrow>
      sum_list (map (\<lambda>d. of_bool (cd_accountID d = cd_accountID c) * int (unat (cd_base d))) ds) = 0"
      for ds by (induction ds) auto
    show ?case
    proof (cases "c = d")
      case True
      then show ?thesis using Cons.prems zero [of cs] by simp
    next
      case False
      then have "c \<in> set cs" "cd_accountID d \<noteq> cd_accountID c" using Cons.prems by auto
      then show ?thesis using Cons by simp
    qed
  qed simp
  then show ?thesis
    unfolding credited_def
    by (subst emit_sum [OF assms(3), of "\<lambda>i. of_bool (i = cd_accountID c)"]) (simp only:)
qed

text \<open>A count within one of the exact quotient, and only where that is not whole.\<close>

lemma near_quotient:
  assumes "q = p div W \<or> q = p div W + 1 \<and> p mod W \<noteq> 0" "0 < (W :: nat)"
  shows "\<bar>int q * int W - int p\<bar> < int W"
proof -
  have "int (p div W) * int W + int (p mod W) = int p"
    by (metis div_mult_mod_eq of_nat_add of_nat_mult)
  moreover have "int (p mod W) < int W" using assms(2) by simp
  ultimately show ?thesis
    using assms(1) by (auto simp: distrib_right simp del: of_nat_mod of_nat_div)
qed

lemma Allocate_within_one:
  assumes "Allocate amount shares emptyAccount = Inr as"
    and "distinct (map sh_AccountID shares)" and "s \<in> set shares"
    and pos: "0 < sum_list (weights shares)"
  shows "\<bar>credited as (sh_AccountID s) * sum_list (weights shares) - sint amount * sint (sh_Weight s)\<bar>
    < sum_list (weights shares)"
  using assms(1)
proof (cases rule: Allocate_cases)
  case (split W)
  let ?P = "fst (magnitudeOf amount)"
  let ?cs = "sort_key cd_accountID (awarded_of ?P W shares)"
  note P = unat_magnitude [OF split(3)] and w = good_weights_unat [OF split(1)]
  have ids: "mset (map cd_accountID ?cs) = mset (map sh_AccountID shares)"
    using awarded_ids [OF split(1) P(2)] by simp
  then have dist: "distinct (map cd_accountID ?cs)"
    using assms(2) by (metis mset_eq_imp_distinct_iff)
  have "sh_AccountID s \<in> set (map cd_accountID ?cs)"
    using assms(3) mset_eq_setD [OF ids] by simp
  then obtain c where c: "c \<in> set ?cs" "cd_accountID c = sh_AccountID s" by auto
  then obtain t where t: "t \<in> set shares" "fair_for ?P W t c"
    using awarded_fair [OF split(1) P(2)] by auto
  then have "t = s" using assms(2,3) c(2) by (auto simp: fair_for_def distinct_map dest: inj_onD)
  have small: "\<forall>c \<in> set ?cs. unat (cd_base c) < 9223372036854775808"
    using awarded_small [OF split(1) P(2)] by simp
  have sw: "int (unat (sh_Weight s)) = sint (sh_Weight s)"
    using split(1) assms(3) by (auto simp: good_weights_def uint_eq_sint)
  have sW: "int (unat W) = sum_list (weights shares)"
    using split(1) by (auto simp: good_weights_def uint_eq_sint)
  have "\<bar>int (unat (cd_base c)) * int (unat W) - int (unat ?P * unat (sh_Weight s))\<bar> < int (unat W)"
    by (rule near_quotient) (use t(2) \<open>t = s\<close> w in \<open>auto simp: fair_for_def\<close>)
  then have "\<bar>int (unat (cd_base c)) * sum_list (weights shares) - \<bar>sint amount\<bar> * sint (sh_Weight s)\<bar>
      < sum_list (weights shares)"
    by (simp only: of_nat_mult P(1) sw sW)
  moreover have "credited as (sh_AccountID s) = (if sint amount < 0 then - 1 else 1) * int (unat (cd_base c))"
    using credited_distinct [OF dist c(1) small, of "amount <s 0"] by (simp add: split(4) c(2) i64_simps)
  ultimately show ?thesis by (auto simp: abs_minus_commute split: if_splits)
qed (use pos in simp)

lemma Allocate_perm:
  assumes "Allocate amount shares emptyAccount = Inr as"
    and "distinct (map sh_AccountID shares)" and "mset shares' = mset shares"
  shows "Allocate amount shares' emptyAccount = Inr as"
proof -
  have set: "set shares' = set shares" using assms(3) by (rule mset_eq_setD)
  have sum: "sum_list (weights shares') = sum_list (weights shares)"
    unfolding weights_def by (rule sum_list_perm [OF assms(3)])
  have sw: "sumWeights shares' = Inr W \<longleftrightarrow> sumWeights shares = Inr W" for W
    by (simp add: sumWeights_exact set sum)
  have emp: "shares' = [] \<longleftrightarrow> shares = []" using set by auto
  have aw: "awarded_of P W shares' = awarded_of P W shares" for P W
  proof -
    have perm: "mset (map (quota_of P W) shares') = mset (map (quota_of P W) shares)"
      using assms(3) by simp
    have "inj_on by_remainder (set (map (quota_of P W) shares'))"
      using assms(2) by (auto simp: inj_on_def by_remainder_def quota_of_def set distinct_map)
    then have "sort_key by_remainder (map (quota_of P W) shares')
        = sort_key by_remainder (map (quota_of P W) shares)"
      by (rule sort_key_perm_eq [OF perm])
    moreover have "sum_list (bases (map (quota_of P W) shares')) = sum_list (bases (map (quota_of P W) shares))"
      unfolding bases_def by (rule sum_list_perm [OF perm])
    ultimately show ?thesis by (simp add: awarded_of_def)
  qed
  have nz: "amount \<noteq> 0" "amount \<noteq> min_int64"
    using assms(1) by (auto simp: Allocate_def split: if_splits)
  show ?thesis
  proof (cases "shares = []")
    case True
    then show ?thesis using assms(1) emp by simp
  next
    case False
    then obtain W where W: "sumWeights shares = Inr W"
      using assms(1) nz by (auto simp: Allocate_def res_simps)
    show ?thesis
    proof (cases "W = 0")
      case True
      have "shares' \<noteq> []" "sumWeights shares' = Inr 0" "sumWeights shares = Inr 0"
        using False emp W sw True by auto
      then show ?thesis using Allocate_weightless nz False assms(1) by metis
    next
      case ne: False
      then show ?thesis
        using Allocate_eq [OF nz False W ne] Allocate_eq [OF nz _ _ ne, of shares'] assms(1) W sw emp False
        by (simp add: aw)
    qed
  qed
qed

lemma Allocate_succeeds:
  "(\<exists>as. Allocate amount shares emptyAccount = Inr as) \<longleftrightarrow>
    amount \<noteq> 0 \<and> amount \<noteq> min_int64 \<and>
    (\<forall>s \<in> set shares. 0 \<le> sint (sh_Weight s)) \<and> sum_list (weights shares) < 9223372036854775808"
proof (cases "amount \<noteq> 0 \<and> amount \<noteq> min_int64 \<and> shares \<noteq> []")
  case True
  have fits: "(\<exists>W. sumWeights shares = Inr W) \<longleftrightarrow>
      (\<forall>s \<in> set shares. 0 \<le> sint (sh_Weight s)) \<and> sum_list (weights shares) < 9223372036854775808"
  proof
    assume ok: "(\<forall>s \<in> set shares. 0 \<le> sint (sh_Weight s)) \<and> sum_list (weights shares) < 9223372036854775808"
    then have "0 \<le> sum_list (weights shares)"
      by (intro sum_list_nonneg') (auto simp: weights_def)
    then have "sint (word_of_int (sum_list (weights shares)) :: i64) = sum_list (weights shares)"
      using ok by (intro sint_of_int_eq) (simp add: in64_def)
    then show "\<exists>W. sumWeights shares = Inr W" using ok by (auto simp: sumWeights_exact)
  qed (auto simp: sumWeights_exact)
  show ?thesis
  proof (cases "sumWeights shares")
    case (Inl e)
    then show ?thesis using fits True by (auto simp: Allocate_def)
  next
    case (Inr W)
    then show ?thesis using fits True Allocate_eq [of amount shares W emptyAccount]
      by (cases "W = 0") (auto simp: Allocate_def)
  qed
qed (auto simp: Allocate_def)

lemma Allocate_errors:
  assumes "Allocate amount shares emptyAccount = Inl e"
  shows "e \<in> {ErrZeroTotal, ErrAmountOutOfRange, ErrNegativeWeight, ErrWeightOverflow}"
proof -
  have "Allocate amount shares emptyAccount \<noteq> Inl e"
    if "amount \<noteq> 0" "amount \<noteq> min_int64" "shares \<noteq> []" "sumWeights shares = Inr W" for W
    using Allocate_eq [OF that] that by (cases "W = 0") (auto simp: Allocate_def)
  then show ?thesis
    using assms sumWeights_error [of shares] by (fastforce simp: Allocate_def res_simps split: if_splits)
qed

section \<open>The contract\<close>

text \<open>
  What the planners use of the allocator they are handed: a successful call credits the whole
  amount, and every share of it has the amount's sign.
\<close>

locale allocator =
  fixes alloc :: "centipoints \<Rightarrow> share list \<Rightarrow> ulid \<Rightarrow> allocation list res"
  assumes alloc_sums: "alloc amount shares e = Inr as \<Longrightarrow> sum_alloc as = sint amount"
    and alloc_signs: "alloc amount shares e = Inr as \<Longrightarrow> a \<in> set as \<Longrightarrow>
      if sint amount < 0 then sint (al_AmountCp a) < 0 else 0 < sint (al_AmountCp a)"
    and alloc_total: "alloc amount shares e \<noteq> Inl Panic"

interpretation largest_remainder: allocator Allocate
proof
  show "Allocate amount shares e \<noteq> Inl Panic" for amount shares e
    using Allocate_errors by fastforce
qed (rule Allocate_sums Allocate_signs; assumption)+

section \<open>Properties\<close>

definition three_shares :: "share list" where
  "three_shares = map (\<lambda>a. \<lparr>sh_AccountID = a, sh_Weight = 1, sh_Role = []\<rparr>) [''C'', ''A'', ''B'']"

lemma three_shares_allocated:
  "Allocate (- 100) three_shares ''X'' = Inr [\<lparr>al_AccountID = ''A'', al_AmountCp = - 34\<rparr>,
    \<lparr>al_AccountID = ''B'', al_AmountCp = - 33\<rparr>, \<lparr>al_AccountID = ''C'', al_AmountCp = - 33\<rparr>]"
  by code_simp

text \<open>C1: An allocation conserves value. Whatever the weights, and for a negative amount as for a
  positive one, the shares sum to exactly the amount that was asked to be allocated, and every
  share has the sign of the amount and is not zero.\<close>

theorem allocate_conserves:
  assumes "Allocate amount shares emptyAccount = Inr as"
  shows "sum_alloc as = sint amount \<and>
    (\<forall>a \<in> set as. if sint amount < 0 then sint (al_AmountCp a) < 0 else 0 < sint (al_AmountCp a))"
  using largest_remainder.alloc_sums [OF assms] largest_remainder.alloc_signs [OF assms] by blast

theorem allocate_conserves_witness:
  "sum_alloc (projr (Allocate (- 100) three_shares ''X'')) = - 100"
  using allocate_conserves [OF three_shares_allocated] by (simp add: three_shares_allocated)

text \<open>C2: An allocation is fair to the centipoint: each account of a list without duplicates gets
  its exact proportional share rounded to one of the two neighbouring whole amounts, so the amount
  it gets differs from \<open>amount * weight / total weight\<close> by less than one.\<close>

theorem allocate_within_one_centipoint:
  assumes "Allocate amount shares emptyAccount = Inr as" "distinct (map sh_AccountID shares)"
    and "s \<in> set shares" "0 < sum_list (weights shares)"
  shows "\<bar>credited as (sh_AccountID s) * sum_list (weights shares) - sint amount * sint (sh_Weight s)\<bar>
    < sum_list (weights shares)"
  by (rule Allocate_within_one [OF assms])

theorem allocate_within_one_centipoint_witness:
  "\<bar>credited (projr (Allocate (- 100) three_shares ''X'')) ''A'' * 3 - - 100 * 1\<bar> < 3"
  using allocate_within_one_centipoint [OF three_shares_allocated, of "three_shares ! 1"]
  by (simp add: three_shares_allocated, simp add: three_shares_def)

text \<open>C3: The order in which the shares are listed does not matter: distinct accounts with the same
  weights are allocated the same amounts, in the same order, however the caller lists them.\<close>

theorem allocate_order_independent:
  assumes "Allocate amount shares emptyAccount = Inr as" "distinct (map sh_AccountID shares)"
    and "mset shares' = mset shares"
  shows "Allocate amount shares' emptyAccount = Inr as"
  by (rule Allocate_perm [OF assms])

theorem allocate_order_independent_witness:
  "Allocate (- 100) (rev three_shares) ''X'' = Allocate (- 100) three_shares ''X''"
  using allocate_order_independent [OF three_shares_allocated, of "rev three_shares"]
  by (simp add: three_shares_allocated, simp add: three_shares_def)

text \<open>C4: An allocation fails in exactly the documented cases (a zero amount, the one amount without
  a magnitude, a negative weight, weights whose sum overflows), and it never panics: the 128-bit
  division is always in range.\<close>

theorem allocate_total:
  "((\<exists>as. Allocate amount shares emptyAccount = Inr as) \<longleftrightarrow>
      amount \<noteq> 0 \<and> amount \<noteq> min_int64 \<and> list_all (\<lambda>s. 0 \<le> sint (sh_Weight s)) shares \<and>
      sum_list (weights shares) < 9223372036854775808) \<and>
    Allocate amount shares emptyAccount \<noteq> Inl Panic"
  using Allocate_succeeds largest_remainder.alloc_total by (auto simp: list_all_iff)

end
