(* ===== verification/Json.thy ===== *)
theory Json
  imports Int64
begin

text \<open>
  What the configs are read with: \<open>encoding/json\<close> and \<open>strings.TrimSpace\<close>, as far as
  \<open>decodeConfig\<close> of common.go uses them. A document is parsed into a tree (\<open>json\<close>), keeping the
  members of an object in order and with their duplicates and a number as its literal; a knob of a
  config struct is then set from a tree as \<open>encoding/json\<close> sets a field of its type.

  The parser recurses on fuel. The lemma \<open>parse_fuel\<close> shows that any fuel above twice the length of
  the input gives the same answer, so \<open>json_parse\<close> starts with just that. The package's limit on
  nesting (10,000) is left out: the configs nest three deep, and a deeper document is refused
  with the same error for its type.
\<close>

datatype (plugins only: code size) json =
    JNull
  | JBool bool
  | JNum string
  | JStr string
  | JArr "json list"
  | JObj "(string \<times> json) list"

section \<open>Bytes\<close>

definition byte :: "char \<Rightarrow> int" where "byte c = of_char c"
definition chr :: "int \<Rightarrow> char" where "chr n = char_of n"

definition in_range :: "int \<Rightarrow> int \<Rightarrow> char \<Rightarrow> bool" where
  "in_range lo hi c \<longleftrightarrow> lo \<le> byte c \<and> byte c \<le> hi"

definition is_digit :: "char \<Rightarrow> bool" where "is_digit c = in_range 48 57 c"

definition is_ws :: "char \<Rightarrow> bool" where
  "is_ws c \<longleftrightarrow> byte c = 32 \<or> byte c = 9 \<or> byte c = 10 \<or> byte c = 13"

definition hex_val :: "char \<Rightarrow> int option" where
  "hex_val c = (if is_digit c then Some (byte c - 48)
     else if in_range 97 102 c then Some (byte c - 87)
     else if in_range 65 70 c then Some (byte c - 55) else None)"

definition hex4 :: "char \<Rightarrow> char \<Rightarrow> char \<Rightarrow> char \<Rightarrow> int option" where
  "hex4 a b c d = (case (hex_val a, hex_val b, hex_val c, hex_val d) of
     (Some w, Some x, Some y, Some z) \<Rightarrow> Some (w * 4096 + x * 256 + y * 16 + z) | _ \<Rightarrow> None)"

definition encode_rune :: "int \<Rightarrow> string" where
  "encode_rune r =
    (if r < 128 then [chr r]
     else if r < 2048 then [chr (192 + r div 64), chr (128 + r mod 64)]
     else if r < 65536 then
       [chr (224 + r div 4096), chr (128 + r div 64 mod 64), chr (128 + r mod 64)]
     else [chr (240 + r div 262144), chr (128 + r div 4096 mod 64), chr (128 + r div 64 mod 64),
       chr (128 + r mod 64)])"

definition rune_error :: string where "rune_error = encode_rune 65533"

text \<open>The length of the valid UTF-8 sequence a string starts with, or 0.\<close>

definition cont :: "char \<Rightarrow> bool" where "cont c = in_range 128 191 c"

fun rune_len :: "string \<Rightarrow> nat" where
  "rune_len [] = 0"
| "rune_len (a # s) =
    (if byte a < 128 then 1
     else case s of [] \<Rightarrow> 0 | b # s1 \<Rightarrow>
       if in_range 194 223 a then (if cont b then 2 else 0)
       else case s1 of [] \<Rightarrow> 0 | c # s2 \<Rightarrow>
         if in_range 224 239 a then
           (if cont c \<and> cont b \<and> (byte a = 224 \<longrightarrow> 160 \<le> byte b) \<and> (byte a = 237 \<longrightarrow> byte b \<le> 159)
            then 3 else 0)
         else case s2 of [] \<Rightarrow> 0 | d # _ \<Rightarrow>
           if in_range 240 244 a \<and> cont d \<and> cont c \<and> cont b \<and>
             (byte a = 240 \<longrightarrow> 144 \<le> byte b) \<and> (byte a = 244 \<longrightarrow> byte b \<le> 143)
           then 4 else 0)"

section \<open>strings.TrimSpace\<close>

text \<open>The encodings of the code points for which \<open>unicode.IsSpace\<close> holds.\<close>

definition spaces :: "string list" where
  "spaces = map encode_rune ([9, 10, 11, 12, 13, 32, 133, 160, 5760] @
     [8192, 8193, 8194, 8195, 8196, 8197, 8198, 8199, 8200, 8201, 8202] @
     [8232, 8233, 8239, 8287, 12288])"

fun strip_prefix :: "string \<Rightarrow> string \<Rightarrow> string option" where
  "strip_prefix [] s = Some s"
| "strip_prefix (p # ps) [] = None"
| "strip_prefix (p # ps) (c # s) = (if p = c then strip_prefix ps s else None)"

fun strip_any :: "string list \<Rightarrow> string \<Rightarrow> string option" where
  "strip_any [] s = None"
| "strip_any (p # ps) s = (case strip_prefix p s of Some r \<Rightarrow> Some r | None \<Rightarrow> strip_any ps s)"

fun trim_fuel :: "nat \<Rightarrow> string list \<Rightarrow> string \<Rightarrow> string" where
  "trim_fuel 0 ps s = s"
| "trim_fuel (Suc n) ps s = (case strip_any ps s of None \<Rightarrow> s | Some r \<Rightarrow> trim_fuel n ps r)"

definition trim_left :: "string list \<Rightarrow> string \<Rightarrow> string" where
  "trim_left ps s = trim_fuel (length s) ps s"

definition TrimSpace :: "string \<Rightarrow> string" where
  "TrimSpace s = rev (trim_left (map rev spaces) (rev (trim_left spaces s)))"

section \<open>Strings\<close>

text \<open>The raw body of a string literal, up to its closing quote, and what follows it.\<close>

fun scan_string :: "string \<Rightarrow> (string \<times> string) option" where
  "scan_string [] = None"
| "scan_string (c # s) =
    (if byte c = 34 then Some ([], s)
     else if byte c < 32 then None
     else if byte c = 92 then
       (case s of [] \<Rightarrow> None | e # s1 \<Rightarrow>
         if e \<in> set [CHR ''b'', CHR ''f'', CHR ''n'', CHR ''r'', CHR ''t'', CHR 0x5C, CHR ''/'', CHR 0x22]
         then (case scan_string s1 of None \<Rightarrow> None | Some (b, r) \<Rightarrow> Some (c # e # b, r))
         else if e = CHR ''u'' then
           (case s1 of h1 # h2 # h3 # h4 # s2 \<Rightarrow>
              if hex4 h1 h2 h3 h4 = None then None
              else (case scan_string s2 of None \<Rightarrow> None
                | Some (b, r) \<Rightarrow> Some (c # e # h1 # h2 # h3 # h4 # b, r))
            | _ \<Rightarrow> None)
         else None)
     else (case scan_string s of None \<Rightarrow> None | Some (b, r) \<Rightarrow> Some (c # b, r)))"

definition unescape :: "char \<Rightarrow> char" where
  "unescape e = (if e = CHR ''b'' then CHR 0x08 else if e = CHR ''f'' then CHR 0x0C
     else if e = CHR ''n'' then CHR 0x0A else if e = CHR ''r'' then CHR 0x0D
     else if e = CHR ''t'' then CHR 0x09 else e)"

text \<open>\<open>getu4\<close>: the code unit of the \<open>\u\<close> escape a string starts with.\<close>

fun getu4 :: "string \<Rightarrow> int option" where
  "getu4 (b # u # h1 # h2 # h3 # h4 # s) =
     (if byte b = 92 \<and> u = CHR ''u'' then hex4 h1 h2 h3 h4 else None)"
| "getu4 _ = None"

definition surrogate_pair :: "int \<Rightarrow> int option \<Rightarrow> int option" where
  "surrogate_pair r1 r2 = (case r2 of None \<Rightarrow> None | Some l \<Rightarrow>
     if 55296 \<le> r1 \<and> r1 < 56320 \<and> 56320 \<le> l \<and> l < 57344
     then Some ((r1 - 55296) * 1024 + (l - 56320) + 65536) else None)"

function unquote :: "string \<Rightarrow> string" where
  "unquote [] = []"
| "unquote (c # s) =
    (if byte c = 92 then
       (case getu4 (c # s) of
          Some r1 \<Rightarrow>
            (if 55296 \<le> r1 \<and> r1 < 57344 then
               (case surrogate_pair r1 (getu4 (drop 5 s)) of
                  Some r \<Rightarrow> encode_rune r @ unquote (drop 11 s)
                | None \<Rightarrow> rune_error @ unquote (drop 5 s))
             else encode_rune r1 @ unquote (drop 5 s))
        | None \<Rightarrow> (case s of [] \<Rightarrow> [] | e # s1 \<Rightarrow> unescape e # unquote s1))
     else (case rune_len (c # s) of
         0 \<Rightarrow> rune_error @ unquote s
       | Suc n \<Rightarrow> c # take n s @ unquote (drop n s)))"
  by pat_completeness auto
termination by (relation "measure length") auto

section \<open>Values\<close>

fun skip_ws :: "string \<Rightarrow> string" where
  "skip_ws [] = []"
| "skip_ws (c # s) = (if is_ws c then skip_ws s else c # s)"

fun span_digits :: "string \<Rightarrow> string \<times> string" where
  "span_digits [] = ([], [])"
| "span_digits (c # s) =
    (if is_digit c then (let (d, r) = span_digits s in (c # d, r)) else ([], c # s))"

definition scan_sign :: "string \<Rightarrow> string \<times> string" where
  "scan_sign s = (case s of c # r \<Rightarrow> if c = CHR ''-'' then ([c], r) else ([], s) | [] \<Rightarrow> ([], []))"

definition scan_int :: "string \<Rightarrow> (string \<times> string) option" where
  "scan_int s = (case s of [] \<Rightarrow> None | c # r \<Rightarrow>
     if c = CHR ''0'' then Some ([c], r)
     else if is_digit c then Some (span_digits s) else None)"

definition scan_frac :: "string \<Rightarrow> (string \<times> string) option" where
  "scan_frac s = (case s of
       c # r \<Rightarrow> if c = CHR ''.'' then
         (case span_digits r of ([], _) \<Rightarrow> None | (d, r') \<Rightarrow> Some (c # d, r'))
         else Some ([], s)
     | [] \<Rightarrow> Some ([], []))"

definition scan_exp :: "string \<Rightarrow> (string \<times> string) option" where
  "scan_exp s = (case s of
       c # r \<Rightarrow> if c = CHR ''e'' \<or> c = CHR ''E'' then
         (let (sg, r1) = (case r of x # xs \<Rightarrow>
              if x = CHR ''+'' \<or> x = CHR ''-'' then ([x], xs) else ([], r) | [] \<Rightarrow> ([], []))
          in case span_digits r1 of ([], _) \<Rightarrow> None | (d, r') \<Rightarrow> Some (c # sg @ d, r'))
         else Some ([], s)
     | [] \<Rightarrow> Some ([], []))"

definition scan_number :: "string \<Rightarrow> (string \<times> string) option" where
  "scan_number s =
    (let (sg, s1) = scan_sign s in
     case scan_int s1 of None \<Rightarrow> None | Some (i, s2) \<Rightarrow>
     case scan_frac s2 of None \<Rightarrow> None | Some (f, s3) \<Rightarrow>
     case scan_exp s3 of None \<Rightarrow> None | Some (e, s4) \<Rightarrow> Some (sg @ i @ f @ e, s4))"

fun parse_value :: "nat \<Rightarrow> string \<Rightarrow> (json \<times> string) option"
  and parse_elems :: "nat \<Rightarrow> string \<Rightarrow> (json list \<times> string) option"
  and parse_members :: "nat \<Rightarrow> string \<Rightarrow> ((string \<times> json) list \<times> string) option" where
  "parse_value 0 s = None"
| "parse_value (Suc n) s =
    (case skip_ws s of [] \<Rightarrow> None | c # r \<Rightarrow>
       if c = CHR ''{'' then
         (case skip_ws r of
            d # r1 \<Rightarrow> if d = CHR ''}'' then Some (JObj [], r1)
              else (case parse_members n r of None \<Rightarrow> None | Some (ms, r2) \<Rightarrow> Some (JObj ms, r2))
          | [] \<Rightarrow> None)
       else if c = CHR ''['' then
         (case skip_ws r of
            d # r1 \<Rightarrow> if d = CHR '']'' then Some (JArr [], r1)
              else (case parse_elems n r of None \<Rightarrow> None | Some (vs, r2) \<Rightarrow> Some (JArr vs, r2))
          | [] \<Rightarrow> None)
       else if byte c = 34 then
         (case scan_string r of None \<Rightarrow> None | Some (b, r1) \<Rightarrow> Some (JStr (unquote b), r1))
       else if c = CHR ''t'' then map_option (Pair (JBool True)) (strip_prefix ''rue'' r)
       else if c = CHR ''f'' then map_option (Pair (JBool False)) (strip_prefix ''alse'' r)
       else if c = CHR ''n'' then map_option (Pair JNull) (strip_prefix ''ull'' r)
       else (case scan_number (c # r) of None \<Rightarrow> None | Some (l, r1) \<Rightarrow> Some (JNum l, r1)))"
| "parse_elems 0 s = None"
| "parse_elems (Suc n) s =
    (case parse_value n s of None \<Rightarrow> None | Some (v, r) \<Rightarrow>
     case skip_ws r of [] \<Rightarrow> None | c # r1 \<Rightarrow>
       if c = CHR '']'' then Some ([v], r1)
       else if c = CHR '','' then
         (case parse_elems n r1 of None \<Rightarrow> None | Some (vs, r2) \<Rightarrow> Some (v # vs, r2))
       else None)"
| "parse_members 0 s = None"
| "parse_members (Suc n) s =
    (case skip_ws s of [] \<Rightarrow> None | q # s1 \<Rightarrow>
     if byte q \<noteq> 34 then None
     else case scan_string s1 of None \<Rightarrow> None | Some (k, s2) \<Rightarrow>
     case skip_ws s2 of [] \<Rightarrow> None | c # s3 \<Rightarrow>
     if c \<noteq> CHR '':'' then None
     else case parse_value n s3 of None \<Rightarrow> None | Some (v, r) \<Rightarrow>
     case skip_ws r of [] \<Rightarrow> None | c # r1 \<Rightarrow>
       if c = CHR ''}'' then Some ([(unquote k, v)], r1)
       else if c = CHR '','' then
         (case parse_members n r1 of None \<Rightarrow> None | Some (ms, r2) \<Rightarrow> Some ((unquote k, v) # ms, r2))
       else None)"

text \<open>One value and nothing after it: what \<open>json.Unmarshal\<close> accepts.\<close>

definition json_parse :: "string \<Rightarrow> json option" where
  "json_parse s = (case parse_value (Suc (2 * length s)) s of
     Some (v, r) \<Rightarrow> if skip_ws r = [] then Some v else None
   | None \<Rightarrow> None)"

section \<open>Enough fuel\<close>

lemma skip_ws_length: "length (skip_ws s) \<le> length s"
  by (induction s) auto

lemma skip_ws_Cons: "skip_ws s = c # r \<Longrightarrow> length r < length s"
  using skip_ws_length [of s] by simp

lemma strip_prefix_length: "strip_prefix p s = Some r \<Longrightarrow> length r \<le> length s"
  by (induction p s rule: strip_prefix.induct) (auto split: if_splits)

lemma scan_string_length: "scan_string s = Some (b, r) \<Longrightarrow> length r < length s"
proof (induction s arbitrary: b r rule: length_induct)
  case (1 s)
  then have IH: "length t < length s \<Longrightarrow> scan_string t = Some (b, r) \<Longrightarrow> length r < length t" for t b r
    by blast
  show ?case
    using "1.prems"
    by (cases s) (auto split: if_splits option.splits list.splits simp del: set_simps
      dest!: IH [rotated])
qed

lemma span_digits_length: "span_digits s = (d, r) \<Longrightarrow> length r + length d = length s"
  by (induction s arbitrary: d r) (auto split: if_splits prod.splits)

lemma scan_number_length:
  assumes "scan_number s = Some (l, r)"
  shows "length r < length s"
proof -
  have sign: "length (snd (scan_sign s)) \<le> length s"
    by (auto simp: scan_sign_def split: list.splits)
  have int: "scan_int t = Some (i, u) \<Longrightarrow> length u < length t" for t i u
    by (auto simp: scan_int_def split: list.splits if_splits prod.splits dest: span_digits_length)
  have frac: "scan_frac t = Some (i, u) \<Longrightarrow> length u \<le> length t" for t i u
    by (auto simp: scan_frac_def split: list.splits if_splits prod.splits dest: span_digits_length)
  have exp: "scan_exp t = Some (i, u) \<Longrightarrow> length u \<le> length t" for t i u
    by (auto simp: scan_exp_def Let_def split: list.splits if_splits prod.splits
      dest!: span_digits_length)
  from assms show ?thesis
    using sign by (auto simp: scan_number_def Let_def split: prod.splits option.splits
      dest!: int frac exp)
qed

lemma parse_length:
  "parse_value n s = Some (v, r) \<Longrightarrow> length r < length s"
  "parse_elems n s = Some (vs, r) \<Longrightarrow> length r < length s"
  "parse_members n s = Some (ms, r) \<Longrightarrow> length r < length s"
proof (induction n arbitrary: s v r vs ms)
  case (Suc n)
  {
    case 1
    then show ?case
      by (auto split: list.splits if_splits option.splits dest!: skip_ws_Cons strip_prefix_length
        scan_string_length scan_number_length Suc.IH)
  next
    case 2
    then show ?case
      by (auto split: list.splits if_splits option.splits dest!: skip_ws_Cons Suc.IH)
  next
    case 3
    then show ?case
      by (auto split: list.splits if_splits option.splits
        dest!: skip_ws_Cons scan_string_length Suc.IH)
  }
qed simp_all

lemma parse_fuel:
  "2 * length s < n \<Longrightarrow> 2 * length s < m \<Longrightarrow> parse_value n s = parse_value m s"
  "2 * length s + 1 < n \<Longrightarrow> 2 * length s + 1 < m \<Longrightarrow> parse_elems n s = parse_elems m s"
  "2 * length s + 1 < n \<Longrightarrow> 2 * length s + 1 < m \<Longrightarrow> parse_members n s = parse_members m s"
proof (induction n arbitrary: s m)
  case (Suc n)
  {
    case 1
    then obtain k where m: "m = Suc k" by (cases m) auto
    have "parse_elems n r = parse_elems k r" "parse_members n r = parse_members k r"
      if "skip_ws s = c # r" for c r
      using 1 m skip_ws_Cons [OF that] Suc.IH(2,3) [of r k] by auto
    then show ?case by (auto simp: m split: list.splits)
  next
    case 2
    then obtain k where m: "m = Suc k" by (cases m) auto
    have v: "parse_value n s = parse_value k s" using 2 m by (intro Suc.IH) auto
    have "parse_elems n r1 = parse_elems k r1"
      if "parse_value k s = Some (x, r)" "skip_ws r = c # r1" for x r c r1
      using 2 m parse_length(1) [OF that(1)] skip_ws_Cons [OF that(2)] by (intro Suc.IH) auto
    then show ?case by (auto simp: m v split: list.splits option.splits)
  next
    case 3
    then obtain k where m: "m = Suc k" by (cases m) auto
    have v: "parse_value n s3 = parse_value k s3"
      if "skip_ws s = q # s1" "scan_string s1 = Some (b, s2)" "skip_ws s2 = c # s3" for q s1 b s2 c s3
      using 3 m skip_ws_Cons [OF that(1)] scan_string_length [OF that(2)] skip_ws_Cons [OF that(3)]
      by (intro Suc.IH) auto
    have "parse_members n r1 = parse_members k r1"
      if "skip_ws s = q # s1" "scan_string s1 = Some (b, s2)" "skip_ws s2 = c # s3"
        "parse_value k s3 = Some (x, r)" "skip_ws r = d # r1" for q s1 b s2 c s3 x r d r1
      using 3 m skip_ws_Cons [OF that(1)] scan_string_length [OF that(2)] skip_ws_Cons [OF that(3)]
        parse_length(1) [OF that(4)] skip_ws_Cons [OF that(5)]
      by (intro Suc.IH) auto
    with v show ?case by (auto simp: m split: list.splits option.splits)
  }
qed simp_all

text \<open>More fuel never changes what a document parses to.\<close>

lemma json_parse_fuel:
  assumes "2 * length s < n"
  shows "json_parse s = (case parse_value n s of
     Some (v, r) \<Rightarrow> if skip_ws r = [] then Some v else None | None \<Rightarrow> None)"
  unfolding json_parse_def using assms by (subst parse_fuel(1) [of s _ n]) auto

end
