(* ===== verification/Config.thy ===== *)
theory Config
  imports Json
begin

text \<open>
  \<open>decodeConfig\<close> of internal/strategy/common.go: a pool's config document is read into a config
  struct that already holds the defaults. A struct is described by its knobs, one per field with a
  \<open>json\<close> tag: the tag's name and how a value of the document sets the field. The lemmas say which
  documents are accepted and what the knobs hold afterwards.
\<close>

type_synonym 'c knob = "string \<times> (json \<Rightarrow> 'c \<Rightarrow> 'c option)"

section \<open>Setting one field\<close>

fun digits_val :: "int \<Rightarrow> string \<Rightarrow> int option" where
  "digits_val acc [] = Some acc"
| "digits_val acc (c # s) = (if is_digit c then digits_val (acc * 10 + (byte c - 48)) s else None)"

text \<open>\<open>strconv.ParseInt(s, 10, 64)\<close> of a JSON number: an integer literal in range, nothing else.\<close>

definition ParseInt64 :: "string \<Rightarrow> i64 option" where
  "ParseInt64 lit =
    (let (neg, ds) = (case lit of c # r \<Rightarrow> if c = CHR ''-'' then (True, r) else (False, lit)
                      | [] \<Rightarrow> (False, []))
     in if ds = [] then None
        else case digits_val 0 ds of None \<Rightarrow> None | Some n \<Rightarrow>
          let v = (if neg then - n else n) in if in64 v then Some (word_of_int v) else None)"

text \<open>A JSON null leaves a field as it is; a value of another type is refused.\<close>

definition set_int :: "((i64 \<Rightarrow> i64) \<Rightarrow> 'c \<Rightarrow> 'c) \<Rightarrow> json \<Rightarrow> 'c \<Rightarrow> 'c option" where
  "set_int upd j c = (case j of JNum l \<Rightarrow> map_option (\<lambda>v. upd (\<lambda>_. v) c) (ParseInt64 l)
     | JNull \<Rightarrow> Some c | _ \<Rightarrow> None)"

definition set_string :: "((string \<Rightarrow> string) \<Rightarrow> 'c \<Rightarrow> 'c) \<Rightarrow> json \<Rightarrow> 'c \<Rightarrow> 'c option" where
  "set_string upd j c = (case j of JStr s \<Rightarrow> Some (upd (\<lambda>_. s) c) | JNull \<Rightarrow> Some c | _ \<Rightarrow> None)"

definition set_bool :: "((bool \<Rightarrow> bool) \<Rightarrow> 'c \<Rightarrow> 'c) \<Rightarrow> json \<Rightarrow> 'c \<Rightarrow> 'c option" where
  "set_bool upd j c = (case j of JBool b \<Rightarrow> Some (upd (\<lambda>_. b) c) | JNull \<Rightarrow> Some c | _ \<Rightarrow> None)"

section \<open>Setting the fields of a struct\<close>

text \<open>
  \<open>encoding/json\<close> matches a member to a field by name, and failing that by the name with its case
  folded. Folding a name takes the smallest code point of each fold orbit: an ASCII letter becomes
  upper case, and so do the two code points beyond ASCII that fold to one (U+017F to S, U+212A to
  K). Field names are ASCII and distinct after folding, so matching the folded names is enough.
\<close>

fun fold_name :: "string \<Rightarrow> string" where
  "fold_name (a # b # c # s) =
    (if byte a = 197 \<and> byte b = 191 then CHR ''S'' # fold_name (c # s)
     else if byte a = 226 \<and> byte b = 132 \<and> byte c = 170 then CHR ''K'' # fold_name s
     else (if in_range 97 122 a then chr (byte a - 32) else a) # fold_name (b # c # s))"
| "fold_name (a # b # s) =
    (if byte a = 197 \<and> byte b = 191 then CHR ''S'' # fold_name s
     else (if in_range 97 122 a then chr (byte a - 32) else a) # fold_name (b # s))"
| "fold_name (a # s) = (if in_range 97 122 a then chr (byte a - 32) else a) # fold_name s"
| "fold_name [] = []"

fun find_knob :: "'c knob list \<Rightarrow> string \<Rightarrow> (json \<Rightarrow> 'c \<Rightarrow> 'c option) option" where
  "find_knob [] key = None"
| "find_knob ((name, upd) # ks) key =
    (if fold_name name = fold_name key then Some upd else find_knob ks key)"

fun decode_members :: "'c knob list \<Rightarrow> (string \<times> json) list \<Rightarrow> 'c \<Rightarrow> 'c option" where
  "decode_members ks [] c = Some c"
| "decode_members ks ((key, v) # ms) c =
    (case find_knob ks key of None \<Rightarrow> None | Some upd \<Rightarrow>
     case upd v c of None \<Rightarrow> None | Some c' \<Rightarrow> decode_members ks ms c')"

text \<open>A struct that is itself a value, of an array say: an object, or a null that changes nothing.\<close>

definition decode_object :: "'c knob list \<Rightarrow> json \<Rightarrow> 'c \<Rightarrow> 'c option" where
  "decode_object ks j c = (case j of JObj ms \<Rightarrow> decode_members ks ms c | JNull \<Rightarrow> Some c | _ \<Rightarrow> None)"

text \<open>
  A pointer field takes null as nil. A slice field takes null as an empty slice; an array is decoded
  over the elements the slice already has, which keep the fields an object of the array does not
  name. A slice is its backing elements and its length.
\<close>

definition set_int_ptr :: "((i64 option \<Rightarrow> i64 option) \<Rightarrow> 'c \<Rightarrow> 'c) \<Rightarrow> json \<Rightarrow> 'c \<Rightarrow> 'c option" where
  "set_int_ptr upd j c = (case j of JNum l \<Rightarrow> map_option (\<lambda>v. upd (\<lambda>_. Some v) c) (ParseInt64 l)
     | JNull \<Rightarrow> Some (upd (\<lambda>_. None) c) | _ \<Rightarrow> None)"

type_synonym 'e slice = "'e list \<times> nat"

definition slice_elems :: "'e slice \<Rightarrow> 'e list" where
  "slice_elems sl = take (snd sl) (fst sl)"

fun decode_elems :: "'e knob list \<Rightarrow> 'e \<Rightarrow> json list \<Rightarrow> 'e list \<Rightarrow> 'e list option" where
  "decode_elems ks zero [] backing = Some backing"
| "decode_elems ks zero (v # vs) backing =
    (let (old, rest) = (case backing of [] \<Rightarrow> (zero, []) | b # bs \<Rightarrow> (b, bs)) in
     case decode_object ks v old of None \<Rightarrow> None
     | Some e \<Rightarrow> map_option ((#) e) (decode_elems ks zero vs rest))"

definition set_slice :: "('c \<Rightarrow> 'e slice) \<Rightarrow> (('e slice \<Rightarrow> 'e slice) \<Rightarrow> 'c \<Rightarrow> 'c) \<Rightarrow> 'e knob list \<Rightarrow> 'e \<Rightarrow>
    json \<Rightarrow> 'c \<Rightarrow> 'c option" where
  "set_slice get upd ks zero j c = (case j of
     JArr vs \<Rightarrow> map_option (\<lambda>es. upd (\<lambda>_. if vs = [] then ([], 0) else (es, length vs)) c)
       (decode_elems ks zero vs (fst (get c)))
   | JNull \<Rightarrow> Some (upd (\<lambda>_. ([], 0)) c) | _ \<Rightarrow> None)"

section \<open>decodeConfig\<close>

definition rawConfigMembers :: "string \<Rightarrow> (string \<times> json) list res" where
  "rawConfigMembers raw = (case json_parse raw of
     Some (JObj ms) \<Rightarrow> Inr ms
   | Some JNull \<Rightarrow> Inl ErrInvalidConfig
   | _ \<Rightarrow> Inl ErrInvalidConfig)"

definition isJSONNull :: "json \<Rightarrow> bool" where "isJSONNull member = (member = JNull)"

text \<open>The last of several members with one name is the one a Go map keeps.\<close>

definition member_null :: "(string \<times> json) list \<Rightarrow> bool" where
  "member_null ms = list_ex (\<lambda>(name, _). case map_of (rev ms) name of
     Some v \<Rightarrow> isJSONNull v | None \<Rightarrow> False) ms"

definition decodeConfig :: "'c knob list \<Rightarrow> string \<Rightarrow> 'c \<Rightarrow> 'c res" where
  "decodeConfig ks configJSON cfg =
    (let raw = TrimSpace configJSON in
     if raw = '''' \<or> raw = ''{}'' then Inr cfg
     else bindR (rawConfigMembers raw) (\<lambda>members.
       if member_null members then Inl ErrInvalidConfig
       else ok_or ErrInvalidConfig (decode_members ks members cfg)))"

section \<open>What is accepted and what it sets\<close>

lemma decodeConfig_error: "decodeConfig ks json cfg = Inl e \<Longrightarrow> e = ErrInvalidConfig"
  by (auto simp: decodeConfig_def Let_def rawConfigMembers_def res_simps
    split: if_splits option.splits json.splits)

lemma decodeConfig_Inr:
  "decodeConfig ks json cfg = Inr c \<longleftrightarrow>
    (TrimSpace json \<in> {'''', ''{}''} \<and> c = cfg) \<or>
    (TrimSpace json \<notin> {'''', ''{}''} \<and> (\<exists>ms. json_parse (TrimSpace json) = Some (JObj ms) \<and>
      \<not> member_null ms \<and> decode_members ks ms cfg = Some c))"
  by (auto simp: decodeConfig_def Let_def rawConfigMembers_def res_simps
    split: option.splits json.splits)

text \<open>A member that names no knob, at any place, refuses the document.\<close>

lemma decode_members_known:
  "decode_members ks ms c = Some c' \<Longrightarrow> (key, v) \<in> set ms \<Longrightarrow>
    \<exists>name \<in> fst ` set ks. fold_name name = fold_name key"
proof (induction ms arbitrary: c)
  case (Cons m ms)
  have "find_knob ks key = Some s \<Longrightarrow> \<exists>name \<in> fst ` set ks. fold_name name = fold_name key" for s
    by (induction ks) (auto split: if_splits)
  with Cons show ?case by (cases m) (auto split: option.splits)
qed simp

text \<open>
  The value of one knob after decoding. The members that name it are read from left to right, a
  null changing nothing, so the last of the others decides, and the default where there is none.
\<close>

definition named :: "string \<Rightarrow> (string \<times> json) list \<Rightarrow> json list" where
  "named name ms = map snd (filter (\<lambda>(k, v). fold_name k = fold_name name \<and> v \<noteq> JNull) ms)"

lemma named_simps [simp]:
  "named name [] = []"
  "named name ((k, v) # ms) =
    (if fold_name k = fold_name name \<and> v \<noteq> JNull then v # named name ms else named name ms)"
  by (simp_all add: named_def)

lemma decode_members_get:
  assumes "decode_members ks ms c = Some c'"
    and knob: "find_knob ks name = Some upd"
    and sets: "\<And>v c c'. upd v c = Some c' \<Longrightarrow> v \<noteq> JNull \<Longrightarrow> dec v = Some (get c')"
    and null: "\<And>c c'. upd JNull c = Some c' \<Longrightarrow> get c' = get c"
    and frame: "\<And>key s v c c'. find_knob ks key = Some s \<Longrightarrow> fold_name key \<noteq> fold_name name \<Longrightarrow>
      s v c = Some c' \<Longrightarrow> get c' = get c"
  shows "(case named name ms of [] \<Rightarrow> get c' = get c
    | v # vs \<Rightarrow> dec (last (v # vs)) = Some (get c'))"
  using assms(1)
proof (induction ms arbitrary: c)
  case Nil
  then show ?case by simp
next
  case (Cons m ms)
  obtain key v where m: "m = (key, v)" by (cases m)
  then obtain s c1 where s: "find_knob ks key = Some s" "s v c = Some c1"
    "decode_members ks ms c1 = Some c'"
    using Cons.prems by (auto split: option.splits)
  note IH = Cons.IH [OF s(3)]
  show ?case
  proof (cases "fold_name key = fold_name name")
    case False
    then have "get c1 = get c" using frame s by blast
    with False IH show ?thesis by (cases "named name ms") (auto simp: m)
  next
    case True
    have "find_knob ks key = find_knob ks name"
      using True by (induction ks) auto
    then have "s = upd" using s(1) knob by simp
    then show ?thesis
      using IH sets [of v c c1] null [of c c1] s(2) True
      by (cases "v = JNull") (auto simp: m split: list.splits)
  qed
qed

end
