(* ===== verification/Common.thy ===== *)
theory Common
  imports Proposal Allocate Config
begin

text \<open>
  The helpers every strategy shares (internal/strategy/common.go): the assembly of a proposal with
  its zero-sum assertion, the reversal and the adjustment, and the checks on events. Most planners
  add up one entry per account in a loop; \<open>accrue\<close> is that loop, with the step that prices an
  account as its parameter.
\<close>

section \<open>Assembling a proposal\<close>

definition Unsupported :: "'a res" where "Unsupported = Inl ErrUnsupported"

definition effectiveAtOr :: "ctx \<Rightarrow> micros \<Rightarrow> micros" where
  "effectiveAtOr ctx supplied = (if supplied \<noteq> 0 then supplied else cx_Now ctx)"

definition proposeZeroSum :: "ctx \<Rightarrow> string \<Rightarrow> string \<Rightarrow> string \<Rightarrow> micros \<Rightarrow> string \<Rightarrow>
    entry_proposal list \<Rightarrow> invariant list \<Rightarrow> batch_proposal res" where
  "proposeZeroSum ctx strategyID strategyVersion kind effectiveAt reason entries invariants =
    (let p = \<lparr>bp_Kind = kind, bp_StrategyID = strategyID, bp_StrategyVersion = strategyVersion,
       bp_ConfigSnapshotJSON = cx_ConfigJSON ctx, bp_RngSeed = None, bp_Reason = reason,
       bp_ReversesBatchID = None, bp_EffectiveAt = effectiveAtOr ctx effectiveAt,
       bp_Entries = entries, bp_Invariants = invariants\<rparr>
     in bindR (ok_or ErrInvalidEvent (NetAmountCp p)) (\<lambda>net.
        if net \<noteq> 0 then Inl ErrInvalidEvent else Inr p))"

definition reversePlan :: "ctx \<Rightarrow> string \<Rightarrow> ledger_batch \<Rightarrow> batch_proposal res" where
  "reversePlan ctx strategyID b =
    (if lb_StrategyID b \<noteq> [] \<and> lb_StrategyID b \<noteq> strategyID then Inl ErrInvalidEvent
     else bindR (Reversal b) (\<lambda>reversal. Inr (reversal
       \<lparr>bp_Invariants := [dkp_invariant InvariantSumZero None],
        bp_EffectiveAt := effectiveAtOr ctx 0\<rparr>)))"

definition adjustmentProposal ::
    "ctx \<Rightarrow> string \<Rightarrow> string \<Rightarrow> centipoints \<Rightarrow> adjustment_event \<Rightarrow> batch_proposal res" where
  "adjustmentProposal ctx strategyID strategyVersion floorCp ev =
    (if ar_ID (aj_Account ev) = [] then Inl ErrInvalidEvent
     else if aj_AmountCp ev = 0 then Inl ErrInvalidEvent
     else bindR (if aj_Counterparty ev = [] then cx_SystemAccount ctx SystemKeyGuildBank
                 else Inr (aj_Counterparty ev)) (\<lambda>counterparty.
       if counterparty = ar_ID (aj_Account ev) then Inl ErrInvalidEvent
       else proposeZeroSum ctx strategyID strategyVersion KindAdjustment (aj_EffectiveAt ev)
         (aj_Reason ev)
         [dkp_entry (ar_ID (aj_Account ev)) (aj_AmountCp ev),
          dkp_entry counterparty (- aj_AmountCp ev)]
         [dkp_invariant InvariantSumZero None, dkp_invariant InvariantNonNegative (Some floorCp)]))"

section \<open>Reading balances and accounts\<close>

definition sortedShares :: "share list \<Rightarrow> share list" where
  "sortedShares xs = sort_key sh_AccountID xs"

definition sortedAccounts :: "account_ref list \<Rightarrow> account_ref list" where
  "sortedAccounts xs = sort_key ar_ID xs"

definition checkDistinctShares :: "share list \<Rightarrow> unit res" where
  "checkDistinctShares xs = (if no_adjacent sh_AccountID xs then Inr () else Inl ErrInvalidEvent)"

definition checkDistinctAccounts :: "account_ref list \<Rightarrow> unit res" where
  "checkDistinctAccounts xs = (if no_adjacent ar_ID xs then Inr () else Inl ErrInvalidEvent)"

definition cadenceTargets :: "ctx \<Rightarrow> decay_run \<Rightarrow> (account_ref list \<times> ulid) res" where
  "cadenceTargets ctx run =
    bindR (if length (dr_Accounts run) = 0 then cx_Roster ctx else Inr (dr_Accounts run)) (\<lambda>accounts.
    bindR (cx_SystemAccount ctx SystemKeyGuildBank) (\<lambda>bank.
    let targets = sortedAccounts accounts in
    bindR (checkDistinctAccounts targets) (\<lambda>_. Inr (targets, bank))))"

definition spendableBalance :: "ctx \<Rightarrow> account_ref \<Rightarrow> centipoints res" where
  "spendableBalance ctx acct = cx_Balance ctx (ar_ID acct) BalanceKindDKP (cx_HeadSeq ctx)"

definition priorityBySpendable :: "ctx \<Rightarrow> account_ref \<Rightarrow> priority res" where
  "priorityBySpendable ctx acct = bindR (spendableBalance ctx acct) (\<lambda>spendable.
     Inr \<lparr>pr_Rank = spendable, pr_Tiebreak = ar_ID acct, pr_Reason = ''spendable balance''\<rparr>)"

fun system_accounts :: "ctx \<Rightarrow> string list \<Rightarrow> ulid list res" where
  "system_accounts ctx [] = Inr []"
| "system_accounts ctx (key # keys) =
    bindR (cx_SystemAccount ctx key) (\<lambda>i. bindR (system_accounts ctx keys) (\<lambda>is. Inr (i # is)))"

definition checkNoSystemAccounts :: "ctx \<Rightarrow> share list \<Rightarrow> unit res" where
  "checkNoSystemAccounts ctx xs =
    (if length xs = 0 then Inr ()
     else bindR (system_accounts ctx SystemKeys) (\<lambda>system.
       all_ok (\<lambda>s. if sh_AccountID s \<in> set system then Inl ErrInvalidEvent else Inr ()) xs))"

section \<open>Checks on events\<close>

definition checkBuyer :: "account_ref \<Rightarrow> unit res" where
  "checkBuyer buyer =
    (if ar_ID buyer = [] then Inl ErrInvalidEvent
     else if IsSystem buyer then Inl ErrInvalidEvent else Inr ())"

definition resolvePrice :: "centipoints \<Rightarrow> award_event \<Rightarrow> centipoints res" where
  "resolvePrice defaultPriceCp ev =
    (let price = (case aw_PriceCp ev of Some p \<Rightarrow> p
       | None \<Rightarrow> (case it_FixedPriceCp (aw_Item ev) of Some p \<Rightarrow> p | None \<Rightarrow> defaultPriceCp))
     in if price \<le>s 0 then Inl ErrInvalidEvent else Inr price)"

definition checkShare :: "share \<Rightarrow> unit res" where
  "checkShare s =
    (if sh_AccountID s = [] then Inl ErrInvalidEvent
     else if sh_Weight s <s 0 then Inl ErrInvalidEvent else Inr ())"

definition optionalULID :: "ulid \<Rightarrow> ulid option" where
  "optionalULID i = (if i = [] then None else Some i)"

section \<open>The accrual loop\<close>

text \<open>
  The body of the planners' loops over accounts: price the account, skip it when the price is
  zero, add the price to the running total with the overflow check, append the entry.
\<close>

fun accrue :: "('a \<Rightarrow> centipoints res) \<Rightarrow> ('a \<Rightarrow> centipoints \<Rightarrow> entry_proposal) \<Rightarrow>
    centipoints \<Rightarrow> 'a list \<Rightarrow> (entry_proposal list \<times> centipoints) res" where
  "accrue price mk tot [] = Inr ([], tot)"
| "accrue price mk tot (x # xs) =
    bindR (price x) (\<lambda>amount.
      if amount = 0 then accrue price mk tot xs
      else bindR (ok_or ErrInvalidEvent (addCentipoints tot amount)) (\<lambda>sum.
           bindR (accrue price mk sum xs) (\<lambda>(es, t). Inr (mk x amount # es, t))))"

section \<open>What a planned batch is\<close>

text \<open>
  \<open>zero_sum_plan\<close> is what every planner promises the ledger: the batch carries the strategy's own
  provenance and the pool's config as it was, a seed on it is the facade's, it reverses nothing,
  and it mints nothing.
\<close>

definition zero_sum_plan :: "string \<Rightarrow> string \<Rightarrow> ctx \<Rightarrow> batch_proposal \<Rightarrow> bool" where
  "zero_sum_plan strategyID version ctx p \<longleftrightarrow>
     bp_StrategyID p = strategyID \<and> bp_StrategyVersion p = version \<and>
     bp_ConfigSnapshotJSON p = cx_ConfigJSON ctx \<and> bp_RngSeed p \<in> {None, Some (cx_Seed ctx)} \<and>
     bp_ReversesBatchID p = None \<and> sum_list (amounts (bp_Entries p)) = 0"

lemma NetAmountCp_entries: "NetAmountCp p = net_loop 0 (bp_Entries p)"
  by (simp add: NetAmountCp_def)

lemma proposeZeroSum_Inr:
  "proposeZeroSum ctx sid ver kind eff reason entries invs = Inr p \<longleftrightarrow>
    prefixes_fit 0 (amounts entries) \<and> sum_list (amounts entries) = 0 \<and>
    p = \<lparr>bp_Kind = kind, bp_StrategyID = sid, bp_StrategyVersion = ver,
       bp_ConfigSnapshotJSON = cx_ConfigJSON ctx, bp_RngSeed = None, bp_Reason = reason,
       bp_ReversesBatchID = None, bp_EffectiveAt = effectiveAtOr ctx eff,
       bp_Entries = entries, bp_Invariants = invs\<rparr>"
proof -
  have "net_loop 0 entries = Some 0 \<longleftrightarrow> prefixes_fit 0 (amounts entries) \<and> sum_list (amounts entries) = 0"
    by (auto simp: net_loop_exact)
  then show ?thesis
    by (cases "net_loop 0 entries") (auto simp: proposeZeroSum_def Let_def NetAmountCp_entries)
qed

lemma proposeZeroSum_zero_sum:
  "proposeZeroSum ctx sid ver kind eff reason entries invs = Inr p \<Longrightarrow> zero_sum_plan sid ver ctx p"
  by (auto simp: proposeZeroSum_Inr zero_sum_plan_def)

lemma proposeZeroSum_fields:
  assumes "proposeZeroSum ctx sid ver kind eff reason entries invs = Inr p"
  shows "bp_Entries p = entries" "bp_Kind p = kind" "bp_Invariants p = invs"
    "bp_Reason p = reason" "bp_EffectiveAt p = effectiveAtOr ctx eff"
  using assms by (auto simp: proposeZeroSum_Inr)

lemma proposeZeroSum_error:
  "proposeZeroSum ctx sid ver kind eff reason entries invs = Inl e \<Longrightarrow> e = ErrInvalidEvent"
  by (auto simp: proposeZeroSum_def Let_def res_simps split: if_splits)

text \<open>A list of one sign has its partial sums between its ends.\<close>

lemma prefixes_fit_nonneg:
  assumes "\<forall>x \<in> set xs. 0 \<le> x" "in64 n" "in64 (n + sum_list xs)"
  shows "prefixes_fit n xs"
  using assms
proof (induction xs arbitrary: n)
  case (Cons x xs)
  moreover have "0 \<le> sum_list xs" using Cons.prems(1) by (intro sum_list_nonneg') auto
  ultimately have "prefixes_fit (n + x) xs" by (intro Cons.IH) (auto simp: in64_def)
  then show ?case using Cons.prems by (simp add: prefixes_fit_Cons)
qed (simp add: prefixes_fit_Nil)

lemma prefixes_fit_uminus:
  "(\<And>k. in64 k \<Longrightarrow> k \<noteq> - 9223372036854775808 \<Longrightarrow> in64 (- k))"
  by (auto simp: in64_def)

lemma prefixes_fit_nonpos:
  assumes "\<forall>x \<in> set xs. x \<le> 0" "in64 n" "in64 (n + sum_list xs)"
  shows "prefixes_fit n xs"
  using assms
proof (induction xs arbitrary: n)
  case (Cons x xs)
  moreover have "0 \<le> sum_list (map uminus xs)" using Cons.prems(1) by (intro sum_list_nonneg') auto
  ultimately have "prefixes_fit (n + x) xs" by (intro Cons.IH) (auto simp: in64_def sum_list_uminus)
  then show ?case using Cons.prems by (simp add: prefixes_fit_Cons)
qed (simp add: prefixes_fit_Nil)

lemma prefixes_fit_append:
  "prefixes_fit n (xs @ ys) \<longleftrightarrow> prefixes_fit n xs \<and> prefixes_fit (n + sum_list xs) ys"
proof (induction xs arbitrary: n)
  case Nil
  have "prefixes_fit n ys \<Longrightarrow> in64 n" by (cases ys) (simp_all add: prefixes_fit_Nil prefixes_fit_Cons)
  then show ?case by (auto simp: prefixes_fit_Nil)
qed (auto simp: prefixes_fit_Cons add.assoc)

section \<open>What the loop adds up\<close>

definition priced :: "('a \<Rightarrow> centipoints res) \<Rightarrow> 'a \<Rightarrow> centipoints" where
  "priced price x = (case price x of Inr a \<Rightarrow> a | Inl _ \<Rightarrow> 0)"

text \<open>
  The loop succeeds when every account can be priced and no partial sum overflows; it emits one
  entry per account with a non-zero price, in order, and the exact total.
\<close>

lemma accrue_Cons:
  assumes "accrue price mk tot (x # xs) = Inr (es, t)"
  obtains (skip) "price x = Inr 0" "accrue price mk tot xs = Inr (es, t)"
  | (entry) a s es' where "price x = Inr a" "a \<noteq> 0" "addCentipoints tot a = Some s"
      "accrue price mk s xs = Inr (es', t)" "es = mk x a # es'"
  using assms by (auto simp: res_simps split: if_splits)

lemma accrue_Inr:
  assumes "accrue price mk tot xs = Inr (es, t)"
  shows "(\<forall>x \<in> set xs. \<exists>a. price x = Inr a) \<and>
    es = map (\<lambda>x. mk x (priced price x)) (filter (\<lambda>x. priced price x \<noteq> 0) xs) \<and>
    sint t = sint tot + sum_list (map (\<lambda>x. sint (priced price x)) xs)"
  using assms
proof (induction xs arbitrary: tot es t)
  case (Cons x xs)
  from Cons.prems show ?case
  proof (cases rule: accrue_Cons)
    case skip
    then show ?thesis using Cons.IH [OF skip(2)] by (simp add: priced_def)
  next
    case (entry a s es')
    then show ?thesis using Cons.IH [OF entry(4)]
      by (simp add: priced_def addCentipoints_sint [OF entry(3)])
  qed
qed simp

lemma sum_list_filter_nonzero:
  "sum_list (map (\<lambda>x. sint (f x)) (filter (\<lambda>x. f x \<noteq> 0) xs)) = sum_list (map (\<lambda>x. sint (f x)) xs)"
  for f :: "'a \<Rightarrow> i64"
  by (induction xs) auto

text \<open>
  The credits of an earn batch and the debit that funds them (\<open>accrue_credits\<close>), and the debits
  of a cadence batch with the bank's credit after them (\<open>accrue_debits\<close>), always pass the
  planner's own zero-sum assertion: the running net never leaves the range of an int64.
\<close>

lemma accrue_credits:
  assumes acc: "accrue price mk 0 xs = Inr (es, t)"
    and nn: "\<forall>x \<in> set xs. 0 \<le> sint (priced price x)"
    and mk: "\<And>x a. ep_AmountCp (mk x a) = a" and fund: "ep_AmountCp b = - t"
  shows "prefixes_fit 0 (amounts (b # es))" and "sum_list (amounts (b # es)) = 0"
    and "0 \<le> sint t"
proof -
  have es: "amounts es = map (\<lambda>x. sint (priced price x)) (filter (\<lambda>x. priced price x \<noteq> 0) xs)"
    using accrue_Inr [OF acc] by (simp add: amounts_def mk o_def)
  then have sum: "sum_list (amounts es) = sint t"
    using accrue_Inr [OF acc] by (simp add: sum_list_filter_nonzero)
  have nn': "\<forall>x \<in> set (amounts es). 0 \<le> x" using nn es by auto
  then have t: "0 \<le> sint t" using sum sum_list_nonneg' by metis
  then have b: "sint (ep_AmountCp b) = - sint t" by (simp add: fund sint_uminus_pos)
  show "sum_list (amounts (b # es)) = 0" using b sum by simp
  have "in64 (- sint t)" using t sint_bounds [of t] by (simp add: in64_def)
  then have "prefixes_fit (- sint t) (amounts es)"
    using nn' sum by (intro prefixes_fit_nonneg) (auto simp: in64_def)
  then show "prefixes_fit 0 (amounts (b # es))" using b by (simp add: prefixes_fit_Cons in64_def)
  show "0 \<le> sint t" by (rule t)
qed

lemma accrue_debits:
  assumes acc: "accrue price mk 0 xs = Inr (es, t)"
    and nn: "\<forall>x \<in> set xs. 0 \<le> sint (priced price x)"
    and mk: "\<And>x a. ep_AmountCp (mk x a) = - a" and fund: "ep_AmountCp b = t"
  shows "prefixes_fit 0 (amounts (es @ [b]))" and "sum_list (amounts (es @ [b])) = 0"
    and "0 \<le> sint t"
proof -
  have es: "amounts es = map (\<lambda>x. - sint (priced price x)) (filter (\<lambda>x. priced price x \<noteq> 0) xs)"
    using accrue_Inr [OF acc] nn by (simp add: amounts_def mk o_def sint_uminus_pos)
  have "sum_list (map (\<lambda>x. - sint (priced price x)) ys) = - sum_list (map (\<lambda>x. sint (priced price x)) ys)"
    for ys by (induction ys) simp_all
  then have sum: "sum_list (amounts es) = - sint t"
    using accrue_Inr [OF acc] es by (simp add: sum_list_filter_nonzero)
  have t: "0 \<le> sint t" using accrue_Inr [OF acc] nn by (auto intro!: sum_list_nonneg')
  have np: "\<forall>x \<in> set (amounts es). x \<le> 0" using nn es by auto
  show "sum_list (amounts (es @ [b])) = 0" using fund sum by simp
  have "in64 (- sint t)" using t sint_bounds [of t] by (simp add: in64_def)
  then have "prefixes_fit 0 (amounts es)"
    using np sum by (intro prefixes_fit_nonpos) (auto simp: in64_def)
  then show "prefixes_fit 0 (amounts (es @ [b]))"
    using fund sum \<open>in64 (- sint t)\<close>
    by (simp add: prefixes_fit_append prefixes_fit_Cons prefixes_fit_Nil in64_def)
  show "0 \<le> sint t" by (rule t)
qed

section \<open>Adjustments, reversals and the shared checks\<close>

lemma adjustmentProposal_Inr:
  assumes "adjustmentProposal ctx sid ver fl ev = Inr p"
  obtains c where "ar_ID (aj_Account ev) \<noteq> []" "aj_AmountCp ev \<noteq> 0" "c \<noteq> ar_ID (aj_Account ev)"
    "(if aj_Counterparty ev = [] then cx_SystemAccount ctx SystemKeyGuildBank
      else Inr (aj_Counterparty ev)) = Inr c"
    "bp_Entries p = [dkp_entry (ar_ID (aj_Account ev)) (aj_AmountCp ev), dkp_entry c (- aj_AmountCp ev)]"
    "bp_Kind p = KindAdjustment" "zero_sum_plan sid ver ctx p"
    "bp_Invariants p = [dkp_invariant InvariantSumZero None, dkp_invariant InvariantNonNegative (Some fl)]"
proof -
  from assms obtain c where c: "ar_ID (aj_Account ev) \<noteq> []" "aj_AmountCp ev \<noteq> 0"
    "c \<noteq> ar_ID (aj_Account ev)"
    "(if aj_Counterparty ev = [] then cx_SystemAccount ctx SystemKeyGuildBank
      else Inr (aj_Counterparty ev)) = Inr c"
    "proposeZeroSum ctx sid ver KindAdjustment (aj_EffectiveAt ev) (aj_Reason ev)
       [dkp_entry (ar_ID (aj_Account ev)) (aj_AmountCp ev), dkp_entry c (- aj_AmountCp ev)]
       [dkp_invariant InvariantSumZero None, dkp_invariant InvariantNonNegative (Some fl)] = Inr p"
    unfolding adjustmentProposal_def bindR_eq_Inr if_Inl_eq_Inr by blast
  show ?thesis
    by (rule that [OF c(1-4)])
      (use proposeZeroSum_fields [OF c(5)] proposeZeroSum_zero_sum [OF c(5)] in auto)
qed

lemma adjustment_amount_fits: "prefixes_fit 0 [sint a, sint (- a :: i64)] \<longleftrightarrow> a \<noteq> min_int64"
proof (cases "a = min_int64")
  case True
  then show ?thesis by (simp add: prefixes_fit_Cons prefixes_fit_Nil in64_def sint_min_int64)
next
  case False
  then show ?thesis
    using in64_sint [of a] in64_uminus [OF False]
    by (simp add: prefixes_fit_Cons prefixes_fit_Nil sint_uminus) (simp add: in64_def)
qed

lemma reversePlan_Inr:
  "reversePlan ctx sid b = Inr p \<longleftrightarrow> (lb_StrategyID b = [] \<or> lb_StrategyID b = sid) \<and>
    (\<exists>es. lb_Entries b \<noteq> [] \<and> negate_entries (lb_Entries b) = Inr es \<and> p =
      \<lparr>bp_Kind = KindReversal, bp_StrategyID = lb_StrategyID b,
       bp_StrategyVersion = lb_StrategyVersion b, bp_ConfigSnapshotJSON = lb_ConfigSnapshotJSON b,
       bp_RngSeed = None, bp_Reason = lb_Reason b, bp_ReversesBatchID = Some (lb_ID b),
       bp_EffectiveAt = effectiveAtOr ctx 0, bp_Entries = es,
       bp_Invariants = [dkp_invariant InvariantSumZero None]\<rparr>)"
  by (auto simp: reversePlan_def Reversal_def Negated_eq_Inr res_simps)

lemma mset_sortedShares [simp]: "mset (sortedShares xs) = mset xs" "set (sortedShares xs) = set xs"
  by (simp_all add: sortedShares_def)

lemma set_sortedAccounts [simp]: "mset (sortedAccounts xs) = mset xs" "set (sortedAccounts xs) = set xs"
  by (simp_all add: sortedAccounts_def)

text \<open>On a sorted list the check by neighbours refuses exactly the lists with a repeated account.\<close>

lemma checkDistinctShares_Inr [res_simps]:
  "checkDistinctShares (sortedShares xs) = Inr u \<longleftrightarrow> distinct (map sh_AccountID xs)"
proof -
  have "distinct (map sh_AccountID (sortedShares xs)) \<longleftrightarrow> distinct (map sh_AccountID xs)"
    by (rule mset_eq_imp_distinct_iff) simp
  then show ?thesis
    using no_adjacent_sorted [of sh_AccountID "sortedShares xs"]
    by (simp add: checkDistinctShares_def sortedShares_def)
qed

lemma checkDistinctAccounts_Inr [res_simps]:
  "checkDistinctAccounts (sortedAccounts xs) = Inr u \<longleftrightarrow> distinct (map ar_ID xs)"
proof -
  have "distinct (map ar_ID (sortedAccounts xs)) \<longleftrightarrow> distinct (map ar_ID xs)"
    by (rule mset_eq_imp_distinct_iff) simp
  then show ?thesis
    using no_adjacent_sorted [of ar_ID "sortedAccounts xs"]
    by (simp add: checkDistinctAccounts_def sortedAccounts_def)
qed

lemma checkShare_Inr [res_simps]:
  "checkShare s = Inr u \<longleftrightarrow> sh_AccountID s \<noteq> [] \<and> 0 \<le> sint (sh_Weight s)"
  by (auto simp: checkShare_def i64_simps)

lemma checkBuyer_Inr [res_simps]: "checkBuyer a = Inr u \<longleftrightarrow> ar_ID a \<noteq> [] \<and> \<not> IsSystem a"
  by (auto simp: checkBuyer_def)

lemma resolvePrice_Inr:
  "resolvePrice d ev = Inr price \<longleftrightarrow> 0 < sint price \<and>
    price = (case aw_PriceCp ev of Some p \<Rightarrow> p
      | None \<Rightarrow> (case it_FixedPriceCp (aw_Item ev) of Some p \<Rightarrow> p | None \<Rightarrow> d))"
  by (auto simp: resolvePrice_def Let_def i64_simps)

lemma cadenceTargets_Inr:
  "cadenceTargets ctx run = Inr (targets, bank) \<longleftrightarrow>
    (\<exists>accounts. (if dr_Accounts run = [] then cx_Roster ctx else Inr (dr_Accounts run)) = Inr accounts \<and>
      cx_SystemAccount ctx SystemKeyGuildBank = Inr bank \<and> distinct (map ar_ID accounts) \<and>
      targets = sortedAccounts accounts)"
  by (auto simp: cadenceTargets_def res_simps Let_def split: if_splits)

lemma system_accounts_set:
  "system_accounts ctx keys = Inr is \<Longrightarrow> set is = {i. \<exists>k \<in> set keys. cx_SystemAccount ctx k = Inr i}"
  by (induction keys arbitrary: "is") (auto simp: res_simps)

lemma checkNoSystemAccounts_Inr:
  assumes "checkNoSystemAccounts ctx xs = Inr u" "s \<in> set xs" "key \<in> set SystemKeys"
  shows "cx_SystemAccount ctx key \<noteq> Inr (sh_AccountID s)"
  using assms
  by (auto simp: checkNoSystemAccounts_def res_simps split: if_splits dest!: system_accounts_set)

end
