(* ===== verification/Tier.thy ===== *)
theory Tier
  imports Common
begin

text \<open>
  The roster-tier ladder (internal/strategy/tier.go): the rank of a tier, and \<open>resolveTier\<close>, which
  picks the highest rung that holds an eligible bid and drops every bid below it before any amount
  is compared.
\<close>

definition TierMain :: string where "TierMain = ''main''"
definition TierMainOffspec :: string where "TierMainOffspec = ''main_offspec''"
definition TierAlt :: string where "TierAlt = ''alt''"
definition TierAnyone :: string where "TierAnyone = ''anyone''"

definition Tiers :: "string list" where
  "Tiers = [TierMain, TierMainOffspec, TierAlt, TierAnyone]"

fun rank_from :: "string list \<Rightarrow> string \<Rightarrow> nat option" where
  "rank_from [] tier = None"
| "rank_from (t # ladder) tier = (if t = tier then Some (length (t # ladder)) else rank_from ladder tier)"

definition tierRank :: "string \<Rightarrow> nat option" where
  "tierRank tier = rank_from Tiers (if tier = [] then TierAnyone else tier)"

definition tierOf :: "bid \<Rightarrow> string" where
  "tierOf b = (if bd_Tier b = [] then TierAnyone else bd_Tier b)"

definition checkTier :: "bid \<Rightarrow> nat res" where
  "checkTier b = ok_or ErrInvalidEvent (tierRank (bd_Tier b))"

record tier_outcome =
  to_tier :: string
  to_bids :: "bid list"
  to_counts :: "tier_count list"
  to_below :: nat
  to_noun :: string

definition thing :: "tier_outcome \<Rightarrow> string" where
  "thing o' = (if to_noun o' = [] then ''bid'' else to_noun o')"

fun count_tiers :: "(string \<Rightarrow> nat) \<Rightarrow> nat \<Rightarrow> bid list \<Rightarrow> ((string \<Rightarrow> nat) \<times> nat) res" where
  "count_tiers counts best [] = Inr (counts, best)"
| "count_tiers counts best (b # bs) = bindR (checkTier b) (\<lambda>rank.
     count_tiers (counts(tierOf b := counts (tierOf b) + 1)) (if best < rank then rank else best) bs)"

fun walk_ladder :: "(string \<Rightarrow> nat) \<Rightarrow> nat \<Rightarrow> string list \<Rightarrow> tier_outcome \<Rightarrow> tier_outcome" where
  "walk_ladder counts best [] out = out"
| "walk_ladder counts best (t # ts) out =
    (let n = counts t in
     if n = 0 then walk_ladder counts best ts out
     else let out = out\<lparr>to_counts := to_counts out @ [\<lparr>tc_Tier = t, tc_Bids = n\<rparr>]\<rparr> in
       walk_ladder counts best ts
         (if (case tierRank t of Some r \<Rightarrow> r | None \<Rightarrow> 0) = best then out\<lparr>to_tier := t\<rparr>
          else out\<lparr>to_below := to_below out + n\<rparr>))"

definition outcome0 :: tier_outcome where
  "outcome0 = \<lparr>to_tier = [], to_bids = [], to_counts = [], to_below = 0, to_noun = []\<rparr>"

definition resolveTier :: "bid list \<Rightarrow> tier_outcome res" where
  "resolveTier eligible =
    bindR (count_tiers (\<lambda>_. 0) 0 eligible) (\<lambda>(counts, best).
    let out = walk_ladder counts best Tiers outcome0
    in Inr (out\<lparr>to_bids := filter (\<lambda>b. tierOf b = to_tier out) eligible\<rparr>))"

definition explain :: "tier_outcome \<Rightarrow> msg \<Rightarrow> msg" where
  "explain o' reason =
    (if to_below o' = 0 then reason
     else MsgExplained (to_tier o') (to_below o') (thing o') reason)"

definition tier_step :: "tier_outcome \<Rightarrow> resolution_step" where
  "tier_step o' =
    (if to_below o' = 0
     then \<lparr>rs_Kind = ResolutionStepTier, rs_Detail = MsgTierAlone (thing o') (to_tier o') (to_counts o')\<rparr>
     else \<lparr>rs_Kind = ResolutionStepTier,
       rs_Detail = MsgTierWins (to_tier o') (thing o') (to_below o') (to_counts o')\<rparr>)"

section \<open>The ladder\<close>

lemmas tier_defs = TierMain_def TierMainOffspec_def TierAlt_def TierAnyone_def

text \<open>Four rungs, the empty tier standing on the lowest.\<close>

lemma tierRank_cases:
  "tierRank t = (if t = TierMain then Some 4 else if t = TierMainOffspec then Some 3
     else if t = TierAlt then Some 2 else if t = TierAnyone \<or> t = [] then Some 1 else None)"
  by (auto simp: tierRank_def Tiers_def tier_defs)

lemma tierRank_tierOf: "tierRank (tierOf b) = tierRank (bd_Tier b)"
  by (auto simp: tierOf_def tierRank_def TierAnyone_def)

lemma tierRank_inj:
  "tierRank (tierOf a) = Some r \<Longrightarrow> tierRank (tierOf b) = Some r \<Longrightarrow> tierOf a = tierOf b"
  by (auto simp: tierRank_cases tierOf_def TierAnyone_def split: if_splits)

lemma tierRank_bounds: "tierRank t = Some r \<Longrightarrow> 1 \<le> r \<and> r \<le> 4"
  by (auto simp: tierRank_cases split: if_splits)

lemma checkTier_Inr [res_simps]: "checkTier b = Inr r \<longleftrightarrow> tierRank (bd_Tier b) = Some r"
  by (auto simp: checkTier_def res_simps)

lemma checkTier_Inl [res_simps]:
  "checkTier b = Inl e \<longleftrightarrow> tierRank (bd_Tier b) = None \<and> e = ErrInvalidEvent"
  by (auto simp: checkTier_def res_simps)

definition rank_of :: "bid \<Rightarrow> nat" where
  "rank_of b = (case tierRank (bd_Tier b) of Some r \<Rightarrow> r | None \<Rightarrow> 0)"

lemma tierOf_Tiers: "tierRank (bd_Tier b) = Some r \<Longrightarrow> tierOf b \<in> set Tiers"
  by (auto simp: tierRank_cases tierOf_def Tiers_def split: if_splits)

section \<open>The rung a settlement is decided on\<close>

lemma count_tiers_Inr:
  "count_tiers counts best bs = Inr (counts', best') \<longleftrightarrow>
    (\<forall>b \<in> set bs. tierRank (bd_Tier b) \<noteq> None) \<and>
    counts' = (\<lambda>t. counts t + length (filter (\<lambda>b. tierOf b = t) bs)) \<and>
    best' = fold max (map rank_of bs) best"
proof (induction bs arbitrary: counts best)
  case (Cons b bs)
  show ?case
  proof (cases "tierRank (bd_Tier b)")
    case (Some r)
    have "(if best < r then r else best) = max r best" by auto
    then show ?thesis
      using Some by (auto simp: Cons.IH fun_eq_iff checkTier_def rank_of_def)
  qed (auto simp: checkTier_def)
qed auto

lemma fold_max_eq_Max: "fold max xs b = Max (insert b (set xs))" for b :: nat
  using Max.set_eq_fold [of b xs] by simp

text \<open>The walk over the ladder: the rung whose rank is the best one, and how many stand below it.\<close>

lemma walk_ladder_tier:
  "to_tier (walk_ladder counts best ts out) =
    (case filter (\<lambda>t. counts t \<noteq> 0 \<and> tierRank t = Some best) ts of
       [] \<Rightarrow> to_tier out | t # us \<Rightarrow> last (t # us))"
  if "\<forall>t \<in> set ts. tierRank t \<noteq> None"
  using that
  by (induction ts arbitrary: out) (auto simp: Let_def split: list.splits option.splits)

lemma walk_ladder_below:
  "to_below (walk_ladder counts best ts out) = to_below out +
    sum_list (map counts (filter (\<lambda>t. tierRank t \<noteq> Some best) ts))"
  if "\<forall>t \<in> set ts. tierRank t \<noteq> None"
  using that by (induction ts arbitrary: out) (auto simp: Let_def split: option.splits)

lemma walk_ladder_counts:
  "to_counts (walk_ladder counts best ts out) = to_counts out @
    map (\<lambda>t. \<lparr>tc_Tier = t, tc_Bids = counts t\<rparr>) (filter (\<lambda>t. counts t \<noteq> 0) ts)"
  by (induction ts arbitrary: out) (auto simp: Let_def)

lemma walk_ladder_rest:
  "to_bids (walk_ladder counts best ts out) = to_bids out"
  "to_noun (walk_ladder counts best ts out) = to_noun out"
  by (induction ts arbitrary: out) (auto simp: Let_def)

lemma Tiers_ranked: "\<forall>t \<in> set Tiers. tierRank t \<noteq> None"
  by (auto simp: Tiers_def tierRank_cases)

lemma resolveTier_Inr:
  assumes "resolveTier eligible = Inr out" and "eligible \<noteq> []"
  shows "to_bids out \<noteq> []"
    and "\<forall>b \<in> set (to_bids out). tierOf b = to_tier out \<and> rank_of b = Max (rank_of ` set eligible)"
    and "to_bids out = filter (\<lambda>b. rank_of b = Max (rank_of ` set eligible)) eligible"
    and "\<forall>b \<in> set eligible. tierRank (bd_Tier b) \<noteq> None"
    and "to_noun out = []"
proof -
  let ?counts = "\<lambda>t. length (filter (\<lambda>b. tierOf b = t) eligible)"
  define best where "best = Max (rank_of ` set eligible)"
  have known: "\<forall>b \<in> set eligible. tierRank (bd_Tier b) \<noteq> None"
    and out: "out = (let w = walk_ladder ?counts (fold max (map rank_of eligible) 0) Tiers outcome0
      in w\<lparr>to_bids := filter (\<lambda>b. tierOf b = to_tier w) eligible\<rparr>)"
    using assms(1) by (auto simp: resolveTier_def bindR_eq_Inr count_tiers_Inr Let_def split: prod.splits)
  have "fold max (map rank_of eligible) 0 = best"
    unfolding fold_max_eq_Max best_def using assms(2) by (cases eligible) (auto simp: max_def)
  then have w: "out = (let w = walk_ladder ?counts best Tiers outcome0
      in w\<lparr>to_bids := filter (\<lambda>b. tierOf b = to_tier w) eligible\<rparr>)"
    using out by simp
  have "best \<in> rank_of ` set eligible" unfolding best_def using assms(2) by (intro Max_in) auto
  then obtain b where b: "b \<in> set eligible" "rank_of b = best" by auto
  then have rb: "tierRank (tierOf b) = Some best"
    using known by (auto simp: rank_of_def tierRank_tierOf)
  let ?top = "filter (\<lambda>t. ?counts t \<noteq> 0 \<and> tierRank t = Some best) Tiers"
  have only: "t = tierOf b" if "t \<in> set ?top" for t
  proof -
    from that obtain a where "a \<in> set eligible" "tierOf a = t" by (auto simp: filter_empty_conv)
    then show ?thesis using that rb tierRank_inj [of a best b] by auto
  qed
  have "tierOf b \<in> set ?top"
    using b(1) rb tierOf_Tiers [of b best] by (auto simp: tierRank_tierOf filter_empty_conv)
  then have "?top \<noteq> []" by (metis empty_iff empty_set)
  then have "last ?top = tierOf b" using only last_in_set by blast
  then have tier: "to_tier out = tierOf b"
    using walk_ladder_tier [OF Tiers_ranked, of ?counts best outcome0] \<open>?top \<noteq> []\<close>
    by (cases ?top) (auto simp: w Let_def)
  have eq: "tierOf a = to_tier out \<longleftrightarrow> rank_of a = best" if "a \<in> set eligible" for a
  proof
    assume "tierOf a = to_tier out"
    then have "tierRank (bd_Tier a) = Some best" using rb tier by (metis tierRank_tierOf)
    then show "rank_of a = best" by (simp add: rank_of_def)
  next
    assume "rank_of a = best"
    then have "tierRank (tierOf a) = Some best"
      using known that by (auto simp: rank_of_def tierRank_tierOf)
    then show "tierOf a = to_tier out" using rb tier tierRank_inj by simp
  qed
  have bids: "to_bids out = filter (\<lambda>b. tierOf b = to_tier out) eligible"
    by (simp add: w Let_def)
  show "to_bids out \<noteq> []" using b eq by (auto simp: bids filter_empty_conv)
  show "\<forall>b \<in> set (to_bids out). tierOf b = to_tier out \<and> rank_of b = Max (rank_of ` set eligible)"
    using eq by (auto simp: bids best_def)
  show "to_bids out = filter (\<lambda>b. rank_of b = Max (rank_of ` set eligible)) eligible"
    unfolding bids by (rule filter_cong) (auto simp: eq best_def)
  show "\<forall>b \<in> set eligible. tierRank (bd_Tier b) \<noteq> None" by (rule known)
  show "to_noun out = []" by (simp add: w Let_def walk_ladder_rest outcome0_def)
qed

text \<open>The rung does not depend on the order in which the bids are listed.\<close>

lemma mset_filter_length: "mset xs = mset ys \<Longrightarrow> length (filter P xs) = length (filter P ys)"
  by (metis mset_filter size_mset)

lemma count_tiers_perm:
  assumes "mset bs' = mset bs"
  shows "count_tiers (\<lambda>_. 0) 0 bs' = Inr r \<longleftrightarrow> count_tiers (\<lambda>_. 0) 0 bs = Inr r"
proof -
  have "set bs' = set bs" using assms by (rule mset_eq_setD)
  then show ?thesis
    by (cases r) (simp add: count_tiers_Inr fold_max_eq_Max mset_filter_length [OF assms])
qed

lemma resolveTier_perm:
  assumes "mset bs' = mset bs" "resolveTier bs = Inr out"
  shows "\<exists>bids. resolveTier bs' = Inr (out\<lparr>to_bids := bids\<rparr>) \<and> mset bids = mset (to_bids out)"
proof -
  obtain c where c: "count_tiers (\<lambda>_. 0) 0 bs = Inr c"
    using assms(2) by (auto simp: resolveTier_def bindR_eq_Inr)
  then have "count_tiers (\<lambda>_. 0) 0 bs' = Inr c" using count_tiers_perm [OF assms(1)] by simp
  then show ?thesis
    using c assms by (auto simp: resolveTier_def Let_def split: prod.splits)
qed

end
