(* ===== verification/Spend.thy ===== *)
theory Spend
  imports Tier
begin

text \<open>
  What the spend rules share (internal/strategy/spend.go): the award with its routed proceeds, the
  total order in which bids are ranked, the ties at its top, the seeded roll, and the trace that
  explains a settlement.
\<close>

section \<open>Awards\<close>

definition ProceedsGuildBank :: string where "ProceedsGuildBank = ''guild_bank''"
definition ProceedsAttendees :: string where "ProceedsAttendees = ''attendees''"
definition SoloPolicyGuildBank :: string where "SoloPolicyGuildBank = SystemKeyGuildBank"
definition SoloPolicyWriteOff :: string where "SoloPolicyWriteOff = SystemKeyWriteOff"

record spend_terms =
  st_Proceeds :: string
  st_SoloPolicy :: string
  st_FloorCp :: centipoints

definition validateSpendTerms :: "spend_terms \<Rightarrow> unit res" where
  "validateSpendTerms terms =
    (if st_Proceeds terms \<noteq> ProceedsGuildBank \<and> st_Proceeds terms \<noteq> ProceedsAttendees
     then Inl ErrInvalidConfig
     else if st_SoloPolicy terms \<noteq> SoloPolicyGuildBank \<and> st_SoloPolicy terms \<noteq> SoloPolicyWriteOff
     then Inl ErrInvalidConfig
     else Inr ())"

definition routeProceeds :: "ctx \<Rightarrow> spend_terms \<Rightarrow> share list \<Rightarrow> centipoints \<Rightarrow>
    (allocation list \<times> bool) res" where
  "routeProceeds ctx terms beneficiaries price =
    (if st_Proceeds terms = ProceedsGuildBank
     then bindR (cx_SystemAccount ctx SystemKeyGuildBank) (\<lambda>bank.
       Inr ([\<lparr>al_AccountID = bank, al_AmountCp = price\<rparr>], False))
     else let shares = sortedShares beneficiaries in
       bindR (checkDistinctShares shares) (\<lambda>_.
       bindR (all_ok checkShare shares) (\<lambda>_.
       bindR (checkNoSystemAccounts ctx shares) (\<lambda>_.
       bindR (cx_SystemAccount ctx (st_SoloPolicy terms)) (\<lambda>solo.
       bindR (cx_Allocate ctx price shares solo) (\<lambda>credits.
       Inr (credits, True)))))))"

definition spend_debit :: "award_event \<Rightarrow> centipoints \<Rightarrow> entry_proposal" where
  "spend_debit ev price = entry0\<lparr>ep_AccountID := ar_ID (aw_Buyer ev),
     ep_CharacterID := aw_CharacterID ev, ep_BalanceKind := BalanceKindDKP, ep_AmountCp := - price,
     ep_ItemID := optionalULID (it_ID (aw_Item ev)), ep_ItemAwardID := aw_ItemAwardID ev,
     ep_RaidID := aw_RaidID ev\<rparr>"

definition spend_credit :: "award_event \<Rightarrow> allocation \<Rightarrow> entry_proposal" where
  "spend_credit ev c = entry0\<lparr>ep_AccountID := al_AccountID c, ep_BalanceKind := BalanceKindDKP,
     ep_AmountCp := al_AmountCp c, ep_ItemID := optionalULID (it_ID (aw_Item ev)),
     ep_ItemAwardID := aw_ItemAwardID ev, ep_RaidID := aw_RaidID ev\<rparr>"

definition spendAward :: "ctx \<Rightarrow> string \<Rightarrow> string \<Rightarrow> spend_terms \<Rightarrow> award_event \<Rightarrow> centipoints \<Rightarrow>
    batch_proposal res" where
  "spendAward ctx strategyID strategyVersion terms ev price =
    bindR (checkBuyer (aw_Buyer ev)) (\<lambda>_.
    if price \<le>s 0 then Inl ErrInvalidEvent
    else bindR (routeProceeds ctx terms (aw_Beneficiaries ev) price) (\<lambda>(credits, split).
      proposeZeroSum ctx strategyID strategyVersion KindAward (aw_EffectiveAt ev) (aw_Reason ev)
        (spend_debit ev price # map (spend_credit ev) credits)
        ([dkp_invariant InvariantSumZero None,
          dkp_invariant InvariantNonNegative (Some (st_FloorCp terms))] @
         (if split then [dkp_invariant InvariantLargestRemainderSumsToDebit None] else []))))"

definition spendPlanAttendance :: "batch_proposal res" where "spendPlanAttendance = Unsupported"
definition spendPlanDecay :: "batch_proposal res" where "spendPlanDecay = Unsupported"

section \<open>Ranking bids\<close>

record ranked_bid =
  rb_bid :: bid
  rb_rank :: i64
  rb_tier :: nat

fun tier_bids :: "ranked_bid list \<Rightarrow> ranked_bid list res" where
  "tier_bids [] = Inr []"
| "tier_bids (r # rs) = bindR (checkTier (rb_bid r)) (\<lambda>tier.
     bindR (tier_bids rs) (\<lambda>rs'. Inr (r\<lparr>rb_tier := tier\<rparr> # rs')))"

definition bid_order :: "ranked_bid \<Rightarrow> int \<times> int \<times> int \<times> ulid" where
  "bid_order r = (- int (rb_tier r), - sint (rb_rank r), sint (bd_PlacedAt (rb_bid r)),
     bd_AccountID (rb_bid r))"

definition rankBids :: "ranked_bid list \<Rightarrow> ranked_bid list res" where
  "rankBids inp = bindR (tier_bids inp) (\<lambda>out. Inr (sort_key bid_order out))"

fun run_from :: "('a \<Rightarrow> 'a \<Rightarrow> bool) \<Rightarrow> 'a list \<Rightarrow> nat" where
  "run_from same [] = 1"
| "run_from same [r] = 1"
| "run_from same (r # s # rs) = (if \<not> same r s then 1 else Suc (run_from same (r # rs)))"

definition tiedAtTop :: "ranked_bid list \<Rightarrow> nat" where
  "tiedAtTop ranked = run_from (\<lambda>r s. rb_tier s = rb_tier r \<and> rb_rank s = rb_rank r \<and>
     bd_PlacedAt (rb_bid s) = bd_PlacedAt (rb_bid r)) ranked"

definition tiedOnTier :: "ranked_bid list \<Rightarrow> nat" where
  "tiedOnTier ranked = run_from (\<lambda>r s. rb_tier s = rb_tier r) ranked"

definition tiedOnRank :: "ranked_bid list \<Rightarrow> nat" where
  "tiedOnRank ranked = run_from (\<lambda>r s. rb_tier s = rb_tier r \<and> rb_rank s = rb_rank r) ranked"

definition lowerRungs :: "ranked_bid list \<Rightarrow> nat" where
  "lowerRungs ranked = (if length ranked = 0 then 0 else length ranked - tiedOnTier ranked)"

fun tierCountsOf_loop :: "tier_count list \<Rightarrow> ranked_bid list \<Rightarrow> tier_count list" where
  "tierCountsOf_loop out [] = out"
| "tierCountsOf_loop out (r # rs) =
    (let tier = tierOf (rb_bid r) in
     if out \<noteq> [] \<and> tc_Tier (last out) = tier
     then tierCountsOf_loop (butlast out @ [(last out)\<lparr>tc_Bids := tc_Bids (last out) + 1\<rparr>]) rs
     else tierCountsOf_loop (out @ [\<lparr>tc_Tier = tier, tc_Bids = 1\<rparr>]) rs)"

definition tierCountsOf :: "ranked_bid list \<Rightarrow> tier_count list" where
  "tierCountsOf ranked = tierCountsOf_loop [] ranked"

definition tierOutcomeOf :: "ranked_bid list \<Rightarrow> string \<Rightarrow> tier_outcome res" where
  "tierOutcomeOf ranked noun = (case ranked of [] \<Rightarrow> Inl Panic | r # _ \<Rightarrow>
     Inr \<lparr>to_tier = tierOf (rb_bid r), to_bids = [], to_counts = tierCountsOf ranked,
       to_below = lowerRungs ranked, to_noun = noun\<rparr>)"

section \<open>Ties\<close>

fun bidPerAccount_loop :: "ranked_bid list \<Rightarrow> ranked_bid list \<Rightarrow> ranked_bid list" where
  "bidPerAccount_loop out [] = out"
| "bidPerAccount_loop out (r # rs) =
    (if list_ex (\<lambda>kept. bd_AccountID (rb_bid kept) = bd_AccountID (rb_bid r)) out
     then bidPerAccount_loop out rs else bidPerAccount_loop (out @ [r]) rs)"

definition bidPerAccount :: "ranked_bid list \<Rightarrow> ranked_bid list" where
  "bidPerAccount ranked = bidPerAccount_loop [] ranked"

definition tiedAccounts :: "ranked_bid list \<Rightarrow> ulid list" where
  "tiedAccounts ranked = (if length ranked = 0 then []
     else sort (map (\<lambda>r. bd_AccountID (rb_bid r)) (bidPerAccount (take (tiedOnRank ranked) ranked))))"

definition contested :: "ranked_bid list \<Rightarrow> bool" where
  "contested ranked \<longleftrightarrow> 1 < length (tiedAccounts ranked)"

definition tiedBiddersAtTop :: "ranked_bid list \<Rightarrow> nat" where
  "tiedBiddersAtTop ranked = (if length ranked = 0 then 0
     else length (bidPerAccount (take (tiedAtTop ranked) ranked)))"

definition settleHighest :: "ctx \<Rightarrow> ranked_bid list \<Rightarrow> (ranked_bid \<times> i64 option) res" where
  "settleHighest ctx ranked =
    (if ranked = [] then Inl Panic
     else let candidates = bidPerAccount (take (tiedAtTop ranked) ranked) in
       if length candidates = 1 then Inr (candidates ! 0, None)
       else let i = cx_IntN ctx [] (length candidates) in
         if i < length candidates then Inr (candidates ! i, Some (cx_Seed ctx)) else Inl Panic)"

section \<open>Traces and gates\<close>

definition mk_step :: "resolution_step_kind \<Rightarrow> msg \<Rightarrow> resolution_step" where
  "mk_step k m = \<lparr>rs_Kind = k, rs_Detail = m\<rparr>"

definition auctionTraceThroughAmount :: "nat \<Rightarrow> nat \<Rightarrow> centipoints \<Rightarrow> tier_outcome \<Rightarrow>
    ranked_bid list \<Rightarrow> resolution_step list res" where
  "auctionTraceThroughAmount placed eligible minimum phase ordered =
    (case ordered of [] \<Rightarrow> Inl Panic | first # _ \<Rightarrow>
     let trace = [mk_step ResolutionStepEligibility (MsgCleared eligible placed minimum), tier_step phase];
         atAmount = tiedOnRank ordered
     in Inr (trace @ [mk_step ResolutionStepAmount
          (if atAmount = 1 then MsgAmountAlone (to_tier phase) (bd_AmountCp (rb_bid first))
           else MsgAmountTied atAmount (length ordered) (to_tier phase) (bd_AmountCp (rb_bid first)))]))"

definition sequenceOrRoll :: "ranked_bid list \<Rightarrow> i64 option \<Rightarrow> resolution_step" where
  "sequenceOrRoll ordered seed = (case seed of
     None \<Rightarrow> mk_step ResolutionStepBidSequence (MsgSequence (tiedOnRank ordered))
   | Some sd \<Rightarrow> mk_step ResolutionStepSeededRoll (MsgRoll (tiedBiddersAtTop ordered) sd))"

definition auctionTrace :: "nat \<Rightarrow> nat \<Rightarrow> centipoints \<Rightarrow> tier_outcome \<Rightarrow> ranked_bid list \<Rightarrow>
    i64 option \<Rightarrow> resolution_step list res" where
  "auctionTrace placed eligible minimum phase ordered seed =
    bindR (auctionTraceThroughAmount placed eligible minimum phase ordered) (\<lambda>trace.
    Inr (if \<not> contested ordered then trace else trace @ [sequenceOrRoll ordered seed]))"

definition resolution0 :: resolution where
  "resolution0 = \<lparr>rn_Winners = [], rn_Reason = MsgNobody, rn_RngSeed = None, rn_Tie = None,
     rn_WinningTier = [], rn_TierCounts = [], rn_Trace = []\<rparr>"

definition rotResolution :: "nat \<Rightarrow> centipoints \<Rightarrow> resolution" where
  "rotResolution placed minimum = resolution0\<lparr>rn_Reason := MsgNoBid placed minimum,
     rn_Trace := [mk_step ResolutionStepEligibility (MsgNoBid placed minimum)]\<rparr>"

definition eligibleBids :: "bid list \<Rightarrow> centipoints \<Rightarrow> bid list" where
  "eligibleBids bids minAmountCp = filter (\<lambda>b. minAmountCp \<le>s bd_AmountCp b \<and> 0 <s bd_AmountCp b) bids"

definition sessionMinimum :: "session \<Rightarrow> centipoints \<Rightarrow> centipoints" where
  "sessionMinimum s configuredCp =
    (if configuredCp <s ss_MinAmountCp s then ss_MinAmountCp s else configuredCp)"

definition checkBidIdentity :: "account_ref \<Rightarrow> bid \<Rightarrow> unit res" where
  "checkBidIdentity acct b =
    (if ar_ID acct = [] then Inl ErrInvalidEvent
     else if bd_AccountID b \<noteq> ar_ID acct then Inl ErrInvalidEvent
     else if IsSystem acct then Inl ErrInvalidEvent
     else bindR (checkTier b) (\<lambda>_. Inr ()))"

definition checkBidAffordable :: "ctx \<Rightarrow> account_ref \<Rightarrow> bid \<Rightarrow> unit res" where
  "checkBidAffordable ctx acct b = bindR (spendableBalance ctx acct) (\<lambda>spendable.
     if spendable <s bd_AmountCp b then Inl ErrInvalidEvent else Inr ())"

section \<open>Award batches\<close>

text \<open>A facade whose allocator keeps the allocator contract.\<close>

definition fair_allocator :: "ctx \<Rightarrow> bool" where
  "fair_allocator ctx \<longleftrightarrow> cx_Allocate ctx = Allocate"

text \<open>The proceeds are the whole price, in positive parts, wherever they go.\<close>

context allocator begin

lemma routeProceeds_credits:
  assumes "routeProceeds ctx terms bens price = Inr (credits, split)"
    and ctx: "cx_Allocate ctx = alloc" and pos: "0 < sint price"
  shows "sum_alloc credits = sint price" and "\<forall>c \<in> set credits. 0 < sint (al_AmountCp c)"
proof -
  consider bank where "credits = [\<lparr>al_AccountID = bank, al_AmountCp = price\<rparr>]"
    | shares solo where "alloc price shares solo = Inr credits"
    using assms(1) by (auto simp: routeProceeds_def Let_def res_simps ctx split: if_splits)
  then have "sum_alloc credits = sint price \<and> (\<forall>c \<in> set credits. 0 < sint (al_AmountCp c))"
  proof cases
    case 1
    then show ?thesis using pos by simp
  next
    case 2
    then show ?thesis using alloc_sums [OF 2] alloc_signs [OF 2] pos by auto
  qed
  then show "sum_alloc credits = sint price" "\<forall>c \<in> set credits. 0 < sint (al_AmountCp c)" by auto
qed

lemma spend_entries_fit:
  assumes "sum_alloc credits = sint price" and "\<forall>c \<in> set credits. 0 < sint (al_AmountCp c)"
    and pos: "0 < sint price"
  shows "prefixes_fit 0 (amounts (spend_debit ev price # map (spend_credit ev) credits))"
    and "sum_list (amounts (spend_debit ev price # map (spend_credit ev) credits)) = 0"
proof -
  have debit: "sint (ep_AmountCp (spend_debit ev price)) = - sint price"
    using pos by (simp add: spend_debit_def sint_uminus_pos)
  have credit: "amounts (map (spend_credit ev) credits) = map (\<lambda>c. sint (al_AmountCp c)) credits"
    by (simp add: amounts_def spend_credit_def o_def)
  then have sum: "sum_list (amounts (map (spend_credit ev) credits)) = sint price"
    using assms(1) by (simp add: sum_alloc_def)
  have "in64 (- sint price)" using pos sint_bounds [of price] by (simp add: in64_def)
  then have "prefixes_fit (- sint price) (amounts (map (spend_credit ev) credits))"
    using assms(2) sum by (intro prefixes_fit_nonneg) (auto simp: credit in64_def)
  then show "prefixes_fit 0 (amounts (spend_debit ev price # map (spend_credit ev) credits))"
    by (simp add: debit prefixes_fit_Cons in64_def)
  show "sum_list (amounts (spend_debit ev price # map (spend_credit ev) credits)) = 0"
    using debit sum by simp
qed

text \<open>An award is planned exactly when its checks pass: its own assertion never refuses it.\<close>

lemma spendAward_Inr:
  assumes ctx: "cx_Allocate ctx = alloc"
  shows "(\<exists>p. spendAward ctx sid ver terms ev price = Inr p) \<longleftrightarrow>
    checkBuyer (aw_Buyer ev) = Inr () \<and> 0 < sint price \<and>
    (\<exists>r. routeProceeds ctx terms (aw_Beneficiaries ev) price = Inr r)"
proof
  assume "\<exists>p. spendAward ctx sid ver terms ev price = Inr p"
  then show "checkBuyer (aw_Buyer ev) = Inr () \<and> 0 < sint price \<and>
      (\<exists>r. routeProceeds ctx terms (aw_Beneficiaries ev) price = Inr r)"
    by (auto simp: spendAward_def bindR_eq_Inr if_Inl_eq_Inr i64_simps)
next
  assume ok: "checkBuyer (aw_Buyer ev) = Inr () \<and> 0 < sint price \<and>
      (\<exists>r. routeProceeds ctx terms (aw_Beneficiaries ev) price = Inr r)"
  then obtain credits split where r: "routeProceeds ctx terms (aw_Beneficiaries ev) price = Inr (credits, split)"
    by auto
  note c = routeProceeds_credits [OF r ctx]
  then have "sum_alloc credits = sint price" "\<forall>c \<in> set credits. 0 < sint (al_AmountCp c)"
    using ok by auto
  from spend_entries_fit [OF this, of ev] show "\<exists>p. spendAward ctx sid ver terms ev price = Inr p"
    using ok r by (simp add: spendAward_def proposeZeroSum_Inr i64_simps)
qed

lemma spendAward_batch:
  assumes "spendAward ctx sid ver terms ev price = Inr p" and ctx: "cx_Allocate ctx = alloc"
  obtains credits where "bp_Entries p = spend_debit ev price # map (spend_credit ev) credits"
    "sum_alloc credits = sint price" "\<forall>c \<in> set credits. 0 < sint (al_AmountCp c)"
    "0 < sint price" "ar_ID (aw_Buyer ev) \<noteq> []" "\<not> IsSystem (aw_Buyer ev)" "bp_Kind p = KindAward"
    "dkp_invariant InvariantNonNegative (Some (st_FloorCp terms)) \<in> set (bp_Invariants p)"
proof -
  from assms(1) obtain credits split where r: "checkBuyer (aw_Buyer ev) = Inr ()" "0 < sint price"
    "routeProceeds ctx terms (aw_Beneficiaries ev) price = Inr (credits, split)"
    "proposeZeroSum ctx sid ver KindAward (aw_EffectiveAt ev) (aw_Reason ev)
       (spend_debit ev price # map (spend_credit ev) credits)
       ([dkp_invariant InvariantSumZero None, dkp_invariant InvariantNonNegative (Some (st_FloorCp terms))] @
         (if split then [dkp_invariant InvariantLargestRemainderSumsToDebit None] else [])) = Inr p"
    by (auto simp: spendAward_def bindR_eq_Inr if_Inl_eq_Inr i64_simps)
  show ?thesis
    by (rule that [of credits])
      (use routeProceeds_credits [OF r(3) ctx r(2)] proposeZeroSum_fields [OF r(4)] r(1,2) in
        \<open>auto simp: checkBuyer_Inr\<close>)
qed

end

lemma spendAward_law:
  "spendAward ctx sid ver terms ev price = Inr p \<Longrightarrow>
    zero_sum_plan sid ver ctx p \<and> bp_Kind p = KindAward"
  by (auto simp: spendAward_def bindR_eq_Inr if_Inl_eq_Inr
    dest: proposeZeroSum_zero_sum proposeZeroSum_fields)

lemma validateSpendTerms_Inr:
  "validateSpendTerms t = Inr u \<longleftrightarrow> st_Proceeds t \<in> {ProceedsGuildBank, ProceedsAttendees} \<and>
    st_SoloPolicy t \<in> {SoloPolicyGuildBank, SoloPolicyWriteOff}"
  by (auto simp: validateSpendTerms_def)

section \<open>The order of bids\<close>

lemma tier_bids_Inr:
  "tier_bids rs = Inr rs' \<longleftrightarrow> (\<forall>r \<in> set rs. tierRank (bd_Tier (rb_bid r)) \<noteq> None) \<and>
    rs' = map (\<lambda>r. r\<lparr>rb_tier := rank_of (rb_bid r)\<rparr>) rs"
  by (induction rs arbitrary: rs') (auto simp: res_simps rank_of_def)

lemma rankBids_Inr:
  "rankBids rs = Inr out \<longleftrightarrow> (\<forall>r \<in> set rs. tierRank (bd_Tier (rb_bid r)) \<noteq> None) \<and>
    out = sort_key bid_order (map (\<lambda>r. r\<lparr>rb_tier := rank_of (rb_bid r)\<rparr>) rs)"
  by (auto simp: rankBids_def res_simps tier_bids_Inr)

text \<open>Bids that can be told apart are ranked in one order, whatever order they arrive in.\<close>

lemma rankBids_perm:
  assumes "rankBids rs = Inr out" "mset rs' = mset rs"
    and "inj_on bid_order ((\<lambda>r. r\<lparr>rb_tier := rank_of (rb_bid r)\<rparr>) ` set rs)"
  shows "rankBids rs' = Inr out"
proof -
  have "set rs' = set rs" using assms(2) by (rule mset_eq_setD)
  moreover have "sort_key bid_order (map (\<lambda>r. r\<lparr>rb_tier := rank_of (rb_bid r)\<rparr>) rs')
      = sort_key bid_order (map (\<lambda>r. r\<lparr>rb_tier := rank_of (rb_bid r)\<rparr>) rs)"
    by (rule sort_key_perm_eq) (use assms(2,3) \<open>set rs' = set rs\<close> in auto)
  ultimately show ?thesis using assms(1) by (simp add: rankBids_Inr)
qed

lemma run_from_takeWhile: "run_from same (r # rs) = Suc (length (takeWhile (same r) rs))"
  by (induction rs) auto

lemma take_run:
  "take (run_from same (r # rs)) (r # rs) = r # takeWhile (same r) rs"
  by (simp add: run_from_takeWhile takeWhile_eq_take [symmetric])

text \<open>The lexicographic order of the ranking, read component by component.\<close>

lemma bid_order_le:
  "bid_order r \<le> bid_order s \<longleftrightarrow>
    rb_tier s < rb_tier r \<or> rb_tier s = rb_tier r \<and>
    (sint (rb_rank s) < sint (rb_rank r) \<or> rb_rank s = rb_rank r \<and>
    (sint (bd_PlacedAt (rb_bid r)) < sint (bd_PlacedAt (rb_bid s)) \<or>
     bd_PlacedAt (rb_bid r) = bd_PlacedAt (rb_bid s) \<and>
     bd_AccountID (rb_bid r) \<le> bd_AccountID (rb_bid s)))"
  by (auto simp: bid_order_def sint_inject64)

lemma sorted_takeWhile_filter:
  assumes "sorted (map f (r # rs))"
    and "\<And>a b. f r \<le> f a \<Longrightarrow> f a \<le> f b \<Longrightarrow> same r b \<Longrightarrow> same r a"
  shows "takeWhile (same r) rs = filter (same r) rs"
  using assms(1)
proof (induction rs)
  case (Cons a rs)
  show ?case
  proof (cases "same r a")
    case False
    then have "\<not> same r b" if "b \<in> set rs" for b
      using assms(2) [of a b] Cons.prems that by auto
    then show ?thesis using False by (auto simp: filter_empty_conv)
  qed (use Cons in auto)
qed simp

lemma prod_between:
  fixes r a b :: "'a :: linorder \<times> 'b :: linorder"
  assumes "r \<le> a" "a \<le> b" "fst b = fst r"
  shows "fst a = fst r \<and> snd r \<le> snd a \<and> snd a \<le> snd b"
  using assms by (auto simp: less_eq_prod_def)

lemma bid_order_between:
  assumes "bid_order r \<le> bid_order a" "bid_order a \<le> bid_order b"
  shows "rb_tier b = rb_tier r \<Longrightarrow> rb_tier a = rb_tier r"
    and "rb_tier b = rb_tier r \<Longrightarrow> rb_rank b = rb_rank r \<Longrightarrow> rb_rank a = rb_rank r"
    and "rb_tier b = rb_tier r \<Longrightarrow> rb_rank b = rb_rank r \<Longrightarrow>
      bd_PlacedAt (rb_bid b) = bd_PlacedAt (rb_bid r) \<Longrightarrow>
      bd_PlacedAt (rb_bid a) = bd_PlacedAt (rb_bid r)"
proof -
  have t: "rb_tier a = rb_tier r \<and> snd (bid_order r) \<le> snd (bid_order a) \<and>
      snd (bid_order a) \<le> snd (bid_order b)" if "rb_tier b = rb_tier r"
    using prod_between [OF assms] that by (simp add: bid_order_def)
  then show "rb_tier b = rb_tier r \<Longrightarrow> rb_tier a = rb_tier r" by blast
  have k: "rb_rank a = rb_rank r \<and> snd (snd (bid_order r)) \<le> snd (snd (bid_order a)) \<and>
      snd (snd (bid_order a)) \<le> snd (snd (bid_order b))"
    if "rb_tier b = rb_tier r" "rb_rank b = rb_rank r"
    using prod_between [of "snd (bid_order r)" "snd (bid_order a)" "snd (bid_order b)"] t that
    by (simp add: bid_order_def sint_inject64)
  then show "rb_tier b = rb_tier r \<Longrightarrow> rb_rank b = rb_rank r \<Longrightarrow> rb_rank a = rb_rank r" by blast
  show "bd_PlacedAt (rb_bid a) = bd_PlacedAt (rb_bid r)"
    if "rb_tier b = rb_tier r" "rb_rank b = rb_rank r" "bd_PlacedAt (rb_bid b) = bd_PlacedAt (rb_bid r)"
    using prod_between [of "snd (snd (bid_order r))" "snd (snd (bid_order a))" "snd (snd (bid_order b))"]
      k that by (simp add: bid_order_def sint_inject64)
qed

lemma tied_prefix:
  assumes "sorted (map bid_order (r # rs))"
  shows "take (tiedAtTop (r # rs)) (r # rs) = filter (\<lambda>s. rb_tier s = rb_tier r \<and>
      rb_rank s = rb_rank r \<and> bd_PlacedAt (rb_bid s) = bd_PlacedAt (rb_bid r)) (r # rs)" (is ?top)
    and "take (tiedOnRank (r # rs)) (r # rs) =
      filter (\<lambda>s. rb_tier s = rb_tier r \<and> rb_rank s = rb_rank r) (r # rs)" (is ?rank)
    and "take (tiedOnTier (r # rs)) (r # rs) = filter (\<lambda>s. rb_tier s = rb_tier r) (r # rs)" (is ?tier)
proof -
  show ?top
    unfolding tiedAtTop_def take_run
    by (subst sorted_takeWhile_filter [OF assms]) (use bid_order_between in blast, simp)
  show ?rank
    unfolding tiedOnRank_def take_run
    by (subst sorted_takeWhile_filter [OF assms]) (use bid_order_between in blast, simp)
  show ?tier
    unfolding tiedOnTier_def take_run
    by (subst sorted_takeWhile_filter [OF assms]) (use bid_order_between in blast, simp)
qed

section \<open>One bid per account\<close>

abbreviation rb_account :: "ranked_bid \<Rightarrow> ulid" where
  "rb_account r \<equiv> bd_AccountID (rb_bid r)"

lemma bidPerAccount_loop_props:
  "set (bidPerAccount_loop out rs) \<subseteq> set out \<union> set rs"
  "rb_account ` set (bidPerAccount_loop out rs) = rb_account ` (set out \<union> set rs)"
  "distinct (map rb_account out) \<Longrightarrow> distinct (map rb_account (bidPerAccount_loop out rs))"
proof (induction rs arbitrary: out)
  case (Cons r rs)
  {
    case 1
    show ?case using Cons.IH(1) [of out] Cons.IH(1) [of "out @ [r]"] by auto
  next
    case 2
    show ?case
    proof (cases "rb_account r \<in> rb_account ` set out")
      case True
      then have "list_ex (\<lambda>kept. rb_account kept = rb_account r) out" by (auto simp: list_ex_iff)
      then show ?thesis using Cons.IH(2) [of out] True by (simp add: image_Un insert_absorb)
    next
      case False
      then have "\<not> list_ex (\<lambda>kept. rb_account kept = rb_account r) out"
        by (fastforce simp: list_ex_iff image_iff)
      then show ?thesis using Cons.IH(2) [of "out @ [r]"] by simp
    qed
  next
    case 3
    then show ?case using Cons.IH(3) [of out] Cons.IH(3) [of "out @ [r]"]
      by (fastforce simp: list_ex_iff image_iff)
  }
qed auto

lemma bidPerAccount_set: "set (bidPerAccount rs) \<subseteq> set rs"
  and bidPerAccount_accounts: "rb_account ` set (bidPerAccount rs) = rb_account ` set rs"
  and bidPerAccount_distinct: "distinct (map rb_account (bidPerAccount rs))"
  using bidPerAccount_loop_props [of "[]" rs] by (auto simp: bidPerAccount_def)

lemma bidPerAccount_length: "length (bidPerAccount rs) = card (rb_account ` set rs)"
  by (metis bidPerAccount_accounts bidPerAccount_distinct distinct_card length_map list.set_map)

lemma bidPerAccount_Nil [simp]: "bidPerAccount rs = [] \<longleftrightarrow> rs = []"
proof -
  have "rb_account ` set (bidPerAccount rs) = {} \<longleftrightarrow> rb_account ` set rs = {}"
    by (simp only: bidPerAccount_accounts)
  then show ?thesis by simp
qed

lemma tiedAccounts_set:
  assumes "sorted (map bid_order (r # rs))"
  shows "set (tiedAccounts (r # rs)) =
    {rb_account s | s. s \<in> set (r # rs) \<and> rb_tier s = rb_tier r \<and> rb_rank s = rb_rank r}"
    and "distinct (tiedAccounts (r # rs))" and "sorted (tiedAccounts (r # rs))"
proof -
  have "set (tiedAccounts (r # rs)) = rb_account ` set (take (tiedOnRank (r # rs)) (r # rs))"
    by (simp add: tiedAccounts_def bidPerAccount_accounts)
  then show "set (tiedAccounts (r # rs)) =
    {rb_account s | s. s \<in> set (r # rs) \<and> rb_tier s = rb_tier r \<and> rb_rank s = rb_rank r}"
    unfolding tied_prefix(2) [OF assms] by auto
  show "distinct (tiedAccounts (r # rs))" "sorted (tiedAccounts (r # rs))"
    using bidPerAccount_distinct by (simp_all add: tiedAccounts_def)
qed

section \<open>The winner of a ranking\<close>

text \<open>The documented contract of \<open>IntN\<close>: a draw below its bound.\<close>

definition rng_in_range :: "ctx \<Rightarrow> bool" where
  "rng_in_range ctx \<longleftrightarrow> (\<forall>h n. 0 < n \<longrightarrow> cx_IntN ctx h n < n)"

definition tops :: "ranked_bid \<Rightarrow> ranked_bid \<Rightarrow> bool" where
  "tops w r \<longleftrightarrow> rb_tier w = rb_tier r \<and> rb_rank w = rb_rank r \<and>
     bd_PlacedAt (rb_bid w) = bd_PlacedAt (rb_bid r)"

lemma settleHighest_Inr:
  assumes "settleHighest ctx (r # rs) = Inr (w, seed)" and "sorted (map bid_order (r # rs))"
  shows "w \<in> set (r # rs)" and "tops w r"
    and "seed = (if tiedBiddersAtTop (r # rs) = 1 then None else Some (cx_Seed ctx))"
proof -
  let ?cands = "bidPerAccount (take (tiedAtTop (r # rs)) (r # rs))"
  have "?cands \<noteq> []"
    using run_from_takeWhile [of "\<lambda>r s. rb_tier s = rb_tier r \<and> rb_rank s = rb_rank r \<and>
      bd_PlacedAt (rb_bid s) = bd_PlacedAt (rb_bid r)" r rs] by (simp add: tiedAtTop_def)
  then have "w \<in> set ?cands"
    using assms(1) by (auto simp: settleHighest_def Let_def length_Suc_conv split: if_splits)
  then have "w \<in> set (take (tiedAtTop (r # rs)) (r # rs))" using bidPerAccount_set by blast
  then show "w \<in> set (r # rs)" "tops w r"
    unfolding tied_prefix(1) [OF assms(2)] by (auto simp: tops_def)
  show "seed = (if tiedBiddersAtTop (r # rs) = 1 then None else Some (cx_Seed ctx))"
    using assms(1) by (auto simp: settleHighest_def tiedBiddersAtTop_def Let_def split: if_splits)
qed

text \<open>The candidates of a roll are the tied accounts, in order.\<close>

lemma bidPerAccount_loop_sorted:
  "sorted (map rb_account (out @ rs)) \<Longrightarrow> sorted (map rb_account (bidPerAccount_loop out rs))"
proof (induction rs arbitrary: out)
  case (Cons r rs)
  have "sorted (map rb_account (out @ rs))" using Cons.prems by (auto simp: sorted_append)
  moreover have "sorted (map rb_account ((out @ [r]) @ rs))" using Cons.prems by simp
  ultimately show ?case using Cons.IH by (simp del: map_append)
qed simp

lemma tied_accounts_sorted:
  assumes "sorted (map bid_order (r # rs))"
  shows "sorted (map rb_account (take (tiedAtTop (r # rs)) (r # rs)))"
proof -
  have "sorted_wrt (\<lambda>s t. bid_order s \<le> bid_order t) (take (tiedAtTop (r # rs)) (r # rs))"
    using assms unfolding sorted_map by (rule sorted_wrt_take)
  then show ?thesis unfolding sorted_map
    by (rule sorted_wrt_mono_rel [rotated]) (auto simp: tied_prefix(1) [OF assms] bid_order_def)
qed

lemma settleHighest_draw:
  assumes "settleHighest ctx (r # rs) = Inr (w, seed)" "sorted (map bid_order (r # rs))"
  defines "accounts \<equiv> sorted_list_of_set (rb_account ` {s \<in> set (r # rs). tops s r})"
  shows "if length accounts = 1 then seed = None
    else seed = Some (cx_Seed ctx) \<and> rb_account w = accounts ! cx_IntN ctx [] (length accounts)"
proof -
  let ?cands = "bidPerAccount (take (tiedAtTop (r # rs)) (r # rs))"
  have "set (take (tiedAtTop (r # rs)) (r # rs)) = {s \<in> set (r # rs). tops s r}"
    unfolding tied_prefix(1) [OF assms(2)] by (auto simp: tops_def)
  moreover have "sorted (map rb_account ?cands)"
    using bidPerAccount_loop_sorted [of "[]"] tied_accounts_sorted [OF assms(2)] by (simp add: bidPerAccount_def)
  ultimately have cands: "map rb_account ?cands = accounts"
    using sorted_list_of_set.idem_if_sorted_distinct [OF _ bidPerAccount_distinct]
    unfolding accounts_def by (metis bidPerAccount_accounts list.set_map)
  then have "length ?cands = length accounts" by (metis length_map)
  then show ?thesis
    using assms(1) by (auto simp: settleHighest_def Let_def cands [symmetric] split: if_splits)
qed

lemma settleHighest_total:
  assumes "ranked \<noteq> []" "rng_in_range ctx"
  shows "\<exists>w seed. settleHighest ctx ranked = Inr (w, seed)"
proof -
  let ?cands = "bidPerAccount (take (tiedAtTop ranked) ranked)"
  obtain r rs where r: "ranked = r # rs" using assms(1) by (cases ranked) auto
  have "?cands \<noteq> []"
    using run_from_takeWhile [of "\<lambda>r s. rb_tier s = rb_tier r \<and> rb_rank s = rb_rank r \<and>
      bd_PlacedAt (rb_bid s) = bd_PlacedAt (rb_bid r)" r rs] by (simp add: tiedAtTop_def r)
  then have "cx_IntN ctx [] (length ?cands) < length ?cands"
    using assms(2) by (auto simp: rng_in_range_def)
  then show ?thesis using assms(1) by (simp add: settleHighest_def Let_def)
qed

lemma card_gt_1: "finite T \<Longrightarrow> x \<in> T \<Longrightarrow> 1 < card T \<longleftrightarrow> (\<exists>a \<in> T. a \<noteq> x)"
proof -
  assume T: "finite T" "x \<in> T"
  then have "card T = Suc (card (T - {x}))" by (rule card.remove)
  then have "1 < card T \<longleftrightarrow> card (T - {x}) \<noteq> 0" by linarith
  also have "\<dots> \<longleftrightarrow> T - {x} \<noteq> {}" using T(1) by (simp only: card_0_eq finite_Diff)
  finally show ?thesis by auto
qed

lemma contested_iff:
  assumes "sorted (map bid_order (r # rs))"
  shows "contested (r # rs) \<longleftrightarrow>
    (\<exists>s \<in> set rs. rb_tier s = rb_tier r \<and> rb_rank s = rb_rank r \<and> rb_account s \<noteq> rb_account r)"
proof -
  let ?T = "set (tiedAccounts (r # rs))"
  have "length (tiedAccounts (r # rs)) = card ?T"
    using tiedAccounts_set(2) [OF assms] by (simp add: distinct_card)
  moreover have "rb_account r \<in> ?T" by (auto simp: tiedAccounts_set [OF assms])
  then have "1 < card ?T \<longleftrightarrow> (\<exists>a \<in> ?T. a \<noteq> rb_account r)"
    by (rule card_gt_1 [OF finite_set])
  ultimately show ?thesis
    unfolding contested_def by (auto simp: tiedAccounts_set [OF assms])
qed

lemma eligibleBids_set:
  "b \<in> set (eligibleBids bids m) \<longleftrightarrow> b \<in> set bids \<and> sint m \<le> sint (bd_AmountCp b) \<and> 0 < sint (bd_AmountCp b)"
  by (auto simp: eligibleBids_def i64_simps)

lemma sessionMinimum_sint: "sint (sessionMinimum s c) = max (sint (ss_MinAmountCp s)) (sint c)"
  by (auto simp: sessionMinimum_def i64_simps)

lemma checkBidIdentity_Inr:
  "checkBidIdentity acct b = Inr u \<longleftrightarrow> ar_ID acct \<noteq> [] \<and> bd_AccountID b = ar_ID acct \<and>
    \<not> IsSystem acct \<and> tierRank (bd_Tier b) \<noteq> None"
  by (auto simp: checkBidIdentity_def res_simps)

lemma checkBidAffordable_Inr:
  "checkBidAffordable ctx acct b = Inr u \<longleftrightarrow>
    (\<exists>s. spendableBalance ctx acct = Inr s \<and> sint (bd_AmountCp b) \<le> sint s)"
  by (auto simp: checkBidAffordable_def res_simps i64_simps)

end
