(* ===== verification/Strategy.thy ===== *)
theory Strategy
  imports Spend
begin

text \<open>
  The interface every strategy implements (\<open>PointStrategy\<close> of strategy.go) as a record of its
  methods, the laws a strategy promises the ledger as a locale, and the attendance tick that three
  strategies share up to the step that prices an attendee.
\<close>

record point_strategy =
  ps_ID :: string
  ps_Version :: string
  ps_RuleKind :: rule_kind
  ps_BalanceKinds :: "string list"
  ps_PlanAttendance :: "ctx \<Rightarrow> attendance_event \<Rightarrow> batch_proposal res"
  ps_PlanAward :: "ctx \<Rightarrow> award_event \<Rightarrow> batch_proposal res"
  ps_PlanAdjustment :: "ctx \<Rightarrow> adjustment_event \<Rightarrow> batch_proposal res"
  ps_PlanDecay :: "ctx \<Rightarrow> decay_run \<Rightarrow> batch_proposal res"
  ps_PlanReversal :: "ctx \<Rightarrow> ledger_batch \<Rightarrow> batch_proposal res"
  ps_Spendable :: "ctx \<Rightarrow> account_ref \<Rightarrow> centipoints res"
  ps_Priority :: "ctx \<Rightarrow> account_ref \<Rightarrow> priority res"
  ps_PriceHint :: "ctx \<Rightarrow> item_ref \<Rightarrow> centipoints option res"
  ps_ValidateBid :: "ctx \<Rightarrow> account_ref \<Rightarrow> bid \<Rightarrow> unit res"
  ps_SettleAuction :: "ctx \<Rightarrow> session \<Rightarrow> bid list \<Rightarrow> resolution res"
  ps_Invariants :: "invariant list"

definition unsupported_award :: "ctx \<Rightarrow> award_event \<Rightarrow> batch_proposal res" where
  "unsupported_award ctx ev = Unsupported"
definition unsupported_attendance :: "ctx \<Rightarrow> attendance_event \<Rightarrow> batch_proposal res" where
  "unsupported_attendance ctx ev = Unsupported"
definition unsupported_decay :: "ctx \<Rightarrow> decay_run \<Rightarrow> batch_proposal res" where
  "unsupported_decay ctx run = Unsupported"
definition unsupported_hint :: "ctx \<Rightarrow> item_ref \<Rightarrow> centipoints option res" where
  "unsupported_hint ctx item = Unsupported"
definition unsupported_bid :: "ctx \<Rightarrow> account_ref \<Rightarrow> bid \<Rightarrow> unit res" where
  "unsupported_bid ctx acct b = Unsupported"
definition unsupported_auction :: "ctx \<Rightarrow> session \<Rightarrow> bid list \<Rightarrow> resolution res" where
  "unsupported_auction ctx s bids = Unsupported"

lemmas unsupported_defs = unsupported_award_def unsupported_attendance_def unsupported_decay_def
  unsupported_hint_def unsupported_bid_def unsupported_auction_def Unsupported_def

definition balance_invariants :: "invariant list" where
  "balance_invariants = [dkp_invariant InvariantSumZero None,
     dkp_invariant InvariantNonNegative (Some 0)]"

definition split_invariants :: "invariant list" where
  "split_invariants = [dkp_invariant InvariantSumZero None,
     dkp_invariant InvariantLargestRemainderSumsToDebit None,
     dkp_invariant InvariantNonNegative (Some 0)]"

section \<open>The laws of a strategy\<close>

text \<open>
  Whatever a strategy plans is a zero-sum batch that carries the strategy's own provenance, of the
  kind its operation writes; and its reversals are the shared one. What follows from the laws is
  proved here once: a reversal undoes its batch.
\<close>

locale ledger_strategy =
  fixes s :: point_strategy
  assumes attendance_law: "ps_PlanAttendance s ctx ev = Inr p \<Longrightarrow>
      zero_sum_plan (ps_ID s) (ps_Version s) ctx p \<and> bp_Kind p = KindAttendance"
    and award_law: "ps_PlanAward s ctx aw = Inr p \<Longrightarrow>
      zero_sum_plan (ps_ID s) (ps_Version s) ctx p \<and> bp_Kind p = KindAward"
    and adjustment_law: "ps_PlanAdjustment s ctx ad = Inr p \<Longrightarrow>
      zero_sum_plan (ps_ID s) (ps_Version s) ctx p \<and> bp_Kind p = KindAdjustment"
    and decay_law: "ps_PlanDecay s ctx run = Inr p \<Longrightarrow>
      zero_sum_plan (ps_ID s) (ps_Version s) ctx p \<and> bp_Kind p \<in> {KindDecay, KindCap, KindStartPoints}"
    and reversal_law: "ps_PlanReversal s ctx b = reversePlan ctx (ps_ID s) b"
    and id_law: "ps_ID s \<noteq> []"

text \<open>A batch of the ledger that a proposal was committed as.\<close>

definition committed_as :: "batch_proposal \<Rightarrow> ledger_batch \<Rightarrow> bool" where
  "committed_as p b \<longleftrightarrow> lb_Entries b = bp_Entries p \<and> lb_StrategyID b = bp_StrategyID p \<and>
     lb_StrategyVersion b = bp_StrategyVersion p \<and>
     lb_ConfigSnapshotJSON b = bp_ConfigSnapshotJSON p"

definition posted :: "entry_proposal list \<Rightarrow> ulid \<Rightarrow> int" where
  "posted es account = sum_list (map (\<lambda>e. of_bool (ep_AccountID e = account) * sint (ep_AmountCp e)) es)"

lemma posted_simps [simp]:
  "posted [] a = 0"
  "posted (e # es) a = of_bool (ep_AccountID e = a) * sint (ep_AmountCp e) + posted es a"
  "posted (es @ fs) a = posted es a + posted fs a"
  by (simp_all add: posted_def)

lemma posted_negated: "negate_entries es = Inr es' \<Longrightarrow> posted es' a = - posted es a"
  by (induction es arbitrary: es') (auto simp: res_simps sint_uminus)

text \<open>A batch that some planner of a strategy proposes for some event.\<close>

definition plans :: "point_strategy \<Rightarrow> ctx \<Rightarrow> batch_proposal \<Rightarrow> bool" where
  "plans s ctx p \<longleftrightarrow> (\<exists>ev. ps_PlanAttendance s ctx ev = Inr p) \<or> (\<exists>ev. ps_PlanAward s ctx ev = Inr p) \<or>
     (\<exists>ev. ps_PlanAdjustment s ctx ev = Inr p) \<or> (\<exists>run. ps_PlanDecay s ctx run = Inr p)"

context ledger_strategy begin

lemma plans_zero_sum: "plans s ctx p \<Longrightarrow> zero_sum_plan (ps_ID s) (ps_Version s) ctx p"
  unfolding plans_def by (elim disjE exE) (simp_all add: attendance_law award_law adjustment_law decay_law)

lemma plans_kind: "plans s ctx p \<Longrightarrow> IsBatchKind (bp_Kind p)"
  unfolding plans_def
  by (elim disjE exE) (use attendance_law award_law adjustment_law decay_law in fastforce)+

text \<open>A planned and committed batch can be reversed by its strategy, and by no other one.\<close>

lemma planned_reversal:
  assumes "plans s ctx p" "committed_as p b" "ps_PlanReversal s ctx' b = Inr r"
  shows "posted (bp_Entries r) a = - posted (bp_Entries p) a"
    and "sum_list (amounts (bp_Entries r)) = 0"
    and "bp_ConfigSnapshotJSON r = cx_ConfigJSON ctx"
proof -
  obtain es where es: "negate_entries (lb_Entries b) = Inr es" "bp_Entries r = es"
    "bp_ConfigSnapshotJSON r = lb_ConfigSnapshotJSON b"
    using assms(3) by (auto simp: reversal_law reversePlan_Inr)
  then show "posted (bp_Entries r) a = - posted (bp_Entries p) a"
    using posted_negated assms(2) by (simp add: committed_as_def)
  show "sum_list (amounts (bp_Entries r)) = 0"
    using amounts_negated [OF es(1)] plans_zero_sum [OF assms(1)] assms(2) es(2)
    by (simp add: committed_as_def sum_list_uminus zero_sum_plan_def)
  show "bp_ConfigSnapshotJSON r = cx_ConfigJSON ctx"
    using es(3) plans_zero_sum [OF assms(1)] assms(2) by (simp add: committed_as_def zero_sum_plan_def)
qed

end

section \<open>The attendance tick\<close>

text \<open>
  \<open>PlanAttendance\<close> of fixed_price.go, tick.go and cap.go: the three bodies differ in the config
  knob that is the default award and in the price of one attendee.
\<close>

definition attendance_entry :: "attendance_event \<Rightarrow> ulid \<Rightarrow> centipoints \<Rightarrow> entry_proposal" where
  "attendance_entry ev account amount = entry0\<lparr>ep_AccountID := account,
     ep_BalanceKind := BalanceKindDKP, ep_AmountCp := amount, ep_RaidID := at_RaidID ev,
     ep_TickID := at_TickID ev\<rparr>"

definition attendance_tick :: "string \<Rightarrow> string \<Rightarrow> centipoints \<Rightarrow>
    (centipoints \<Rightarrow> share \<Rightarrow> centipoints res) \<Rightarrow> ctx \<Rightarrow> attendance_event \<Rightarrow> batch_proposal res" where
  "attendance_tick sid ver award price ctx ev =
    (if length (at_Attendees ev) = 0 then Inl ErrInvalidEvent
     else let amount = (case at_AmountCp ev of Some a \<Rightarrow> a | None \<Rightarrow> award) in
       if amount \<le>s 0 then Inl ErrInvalidEvent
       else bindR (cx_SystemAccount ctx SystemKeyGuildBank) (\<lambda>bank.
         let attendees = sortedShares (at_Attendees ev) in
         bindR (checkDistinctShares attendees) (\<lambda>_.
         bindR (accrue (price amount) (\<lambda>a earned. attendance_entry ev (sh_AccountID a) earned)
                  0 attendees) (\<lambda>(credits, tot).
         if length credits = 0 then Inl ErrNothingToPlan
         else proposeZeroSum ctx sid ver KindAttendance (at_EffectiveAt ev) (at_Reason ev)
                (attendance_entry ev bank (- tot) # credits)
                [dkp_invariant InvariantSumZero None]))))"

definition tick_amount :: "centipoints \<Rightarrow> attendance_event \<Rightarrow> centipoints" where
  "tick_amount award ev = (case at_AmountCp ev of Some a \<Rightarrow> a | None \<Rightarrow> award)"

lemma attendance_entry_sel [simp]:
  "ep_AmountCp (attendance_entry ev a n) = n" "ep_AccountID (attendance_entry ev a n) = a"
  "ep_BalanceKind (attendance_entry ev a n) = BalanceKindDKP"
  by (simp_all add: attendance_entry_def)

lemma attendance_tick_Inr:
  assumes "attendance_tick sid ver award price ctx ev = Inr p"
  obtains bank credits tot where "cx_SystemAccount ctx SystemKeyGuildBank = Inr bank"
    "distinct (map sh_AccountID (at_Attendees ev))" "0 < sint (tick_amount award ev)"
    "accrue (price (tick_amount award ev))
       (\<lambda>a earned. attendance_entry ev (sh_AccountID a) earned) 0 (sortedShares (at_Attendees ev))
       = Inr (credits, tot)"
    "credits \<noteq> []"
    "proposeZeroSum ctx sid ver KindAttendance (at_EffectiveAt ev) (at_Reason ev)
       (attendance_entry ev bank (- tot) # credits) [dkp_invariant InvariantSumZero None] = Inr p"
  using assms
  by (auto simp: attendance_tick_def tick_amount_def [symmetric] Let_def bindR_eq_Inr if_Inl_eq_Inr
    checkDistinctShares_Inr i64_simps)

lemma attendance_tick_law:
  "attendance_tick sid ver award price ctx ev = Inr p \<Longrightarrow>
    zero_sum_plan sid ver ctx p \<and> bp_Kind p = KindAttendance"
  by (auto elim!: attendance_tick_Inr dest: proposeZeroSum_zero_sum proposeZeroSum_fields)

text \<open>Every attendee is credited its price, once; the bank pays the sum.\<close>

lemma accrue_posted:
  assumes "accrue price mk 0 xs = Inr (es, t)"
    and mk: "\<And>x n. ep_AccountID (mk x n) = acct x" "\<And>x n. ep_AmountCp (mk x n) = f n" "f 0 = 0"
    and "distinct (map acct xs)"
  shows "x \<in> set xs \<Longrightarrow> posted es (acct x) = sint (f (priced price x))"
    and "a \<notin> acct ` set xs \<Longrightarrow> posted es a = 0"
proof -
  have es: "es = map (\<lambda>x. mk x (priced price x)) (filter (\<lambda>x. priced price x \<noteq> 0) xs)"
    using accrue_Inr [OF assms(1)] by simp
  have none: "a \<notin> acct ` set ys \<Longrightarrow>
    posted (map (\<lambda>x. mk x (priced price x)) (filter (\<lambda>x. priced price x \<noteq> 0) ys)) a = 0" for ys a
    by (induction ys) (auto simp: mk)
  then show "a \<notin> acct ` set xs \<Longrightarrow> posted es a = 0" unfolding es .
  show "posted es (acct x) = sint (f (priced price x))" if "x \<in> set xs"
    unfolding es using assms(5) that
  proof (induction xs)
    case (Cons y ys)
    show ?case
    proof (cases "x = y")
      case True
      then show ?thesis using Cons.prems none [of "acct y" ys] by (auto simp: mk)
    next
      case False
      then have "x \<in> set ys" "acct y \<noteq> acct x" using Cons.prems by auto
      then show ?thesis using Cons by (auto simp: mk)
    qed
  qed simp
qed

section \<open>Cadence runs that debit\<close>

text \<open>
  \<open>PlanDecay\<close> of fixed_price.go, cap.go and decay_window.go after their own checks: read every
  account of the run, skip the system accounts, debit what the price says, credit the bank.
\<close>

definition skip_system :: "(account_ref \<Rightarrow> centipoints res) \<Rightarrow> account_ref \<Rightarrow> centipoints res" where
  "skip_system price a = (if IsSystem a then Inr 0 else price a)"

definition cadence_debits :: "string \<Rightarrow> string \<Rightarrow> string \<Rightarrow> string \<Rightarrow> centipoints \<Rightarrow>
    (account_ref \<Rightarrow> centipoints res) \<Rightarrow> ctx \<Rightarrow> decay_run \<Rightarrow> batch_proposal res" where
  "cadence_debits sid ver kind reason floor_cp price ctx run =
    bindR (cadenceTargets ctx run) (\<lambda>(targets, bank).
    bindR (accrue (skip_system price) (\<lambda>a amount. dkp_entry (ar_ID a) (- amount)) 0 targets)
      (\<lambda>(debits, tot).
       if length debits = 0 then Inl ErrNothingToPlan
       else proposeZeroSum ctx sid ver kind (dr_EffectiveAt run) reason
         (debits @ [dkp_entry bank tot])
         [dkp_invariant InvariantSumZero None, dkp_invariant InvariantNonNegative (Some floor_cp)]))"

definition run_accounts :: "ctx \<Rightarrow> decay_run \<Rightarrow> account_ref list res" where
  "run_accounts ctx run = (if dr_Accounts run = [] then cx_Roster ctx else Inr (dr_Accounts run))"

lemma cadenceTargets_run:
  "cadenceTargets ctx run = Inr (targets, bank) \<longleftrightarrow>
    (\<exists>accounts. run_accounts ctx run = Inr accounts \<and> distinct (map ar_ID accounts) \<and>
      cx_SystemAccount ctx SystemKeyGuildBank = Inr bank \<and> targets = sortedAccounts accounts)"
  by (auto simp: cadenceTargets_Inr run_accounts_def)

lemma cadence_debits_Inr:
  assumes "cadence_debits sid ver kind reason fl price ctx run = Inr p"
  obtains accounts bank debits tot where "run_accounts ctx run = Inr accounts"
    "distinct (map ar_ID accounts)" "cx_SystemAccount ctx SystemKeyGuildBank = Inr bank"
    "accrue (skip_system price) (\<lambda>a amount. dkp_entry (ar_ID a) (- amount)) 0
       (sortedAccounts accounts) = Inr (debits, tot)" "debits \<noteq> []"
    "proposeZeroSum ctx sid ver kind (dr_EffectiveAt run) reason (debits @ [dkp_entry bank tot])
       [dkp_invariant InvariantSumZero None, dkp_invariant InvariantNonNegative (Some fl)] = Inr p"
  using assms by (auto simp: cadence_debits_def bindR_eq_Inr if_Inl_eq_Inr cadenceTargets_run)

lemma cadence_debits_law:
  "cadence_debits sid ver kind reason fl price ctx run = Inr p \<Longrightarrow>
    zero_sum_plan sid ver ctx p \<and> bp_Kind p = kind"
  by (auto elim!: cadence_debits_Inr dest: proposeZeroSum_zero_sum proposeZeroSum_fields)

lemma distinct_sortedAccounts [simp]:
  "distinct (map ar_ID (sortedAccounts xs)) \<longleftrightarrow> distinct (map ar_ID xs)"
  by (rule mset_eq_imp_distinct_iff) simp

lemma distinct_sortedShares [simp]:
  "distinct (map sh_AccountID (sortedShares xs)) \<longleftrightarrow> distinct (map sh_AccountID xs)"
  by (rule mset_eq_imp_distinct_iff) simp

text \<open>What a run takes from each account it reads, the bank aside.\<close>

lemma cadence_debits_posted:
  assumes "cadence_debits sid ver kind reason fl price ctx run = Inr p"
    and "run_accounts ctx run = Inr accounts" "a \<in> set accounts"
    and "cx_SystemAccount ctx SystemKeyGuildBank \<noteq> Inr (ar_ID a)"
  shows "\<exists>d. skip_system price a = Inr d \<and> posted (bp_Entries p) (ar_ID a) = sint (- d)"
  using assms(1)
proof (cases rule: cadence_debits_Inr)
  case (1 accounts' bank debits tot)
  have a: "a \<in> set (sortedAccounts accounts')" using assms(2,3) 1(1) by simp
  then obtain d where d: "skip_system price a = Inr d" using accrue_Inr [OF 1(4)] by auto
  then have "posted debits (ar_ID a) = sint (- d)"
    using accrue_posted(1) [OF 1(4), where acct = ar_ID and f = uminus] 1(2) a
    by (simp add: priced_def)
  moreover have "bank \<noteq> ar_ID a" using assms(4) 1(3) by auto
  ultimately show ?thesis
    using d proposeZeroSum_fields(1) [OF 1(6)] by simp
qed

lemma adjustment_batch_law:
  "adjustmentProposal ctx sid ver fl ev = Inr p \<Longrightarrow>
    zero_sum_plan sid ver ctx p \<and> bp_Kind p = KindAdjustment"
  by (auto elim!: adjustmentProposal_Inr)

lemmas batch_laws = attendance_tick_law adjustment_batch_law cadence_debits_law
  spendAward_law

section \<open>A facade for examples\<close>

text \<open>
  A pool in which every account that is asked for holds \<open>balance\<close>, the guild bank is the
  account \<open>bank\<close> and the allocator is the ledger's own. The concrete instances that show the
  hypotheses of a theorem can hold are evaluated on it.
\<close>

definition sample_ctx :: "string \<Rightarrow> centipoints \<Rightarrow> ctx" where
  "sample_ctx config balance = \<lparr>cx_PoolID = ''pool'', cx_HeadSeq = 7, cx_Now = 1000, cx_Seed = 42,
     cx_IntN = (\<lambda>_ _. 0), cx_ConfigJSON = config,
     cx_Balance = (\<lambda>_ _ _. Inr balance), cx_HasHistory = (\<lambda>_ _ _. Inr True),
     cx_EarnedBetween = (\<lambda>_ _ _ _. Inr balance), cx_Roster = Inr [],
     cx_SystemAccount = (\<lambda>k. if k = SystemKeyGuildBank then Inr ''bank'' else Inr ''sink''),
     cx_Allocate = Allocate\<rparr>"

lemma sample_ctx_fair [simp]: "rng_in_range (sample_ctx c b)" "fair_allocator (sample_ctx c b)"
  by (simp_all add: rng_in_range_def fair_allocator_def sample_ctx_def)

definition sample_bid :: "ulid \<Rightarrow> centipoints \<Rightarrow> micros \<Rightarrow> string \<Rightarrow> bid" where
  "sample_bid account amount at tier = \<lparr>bd_AccountID = account, bd_AmountCp = amount,
     bd_PlacedAt = at, bd_Sealed = False, bd_Tier = tier\<rparr>"

definition sample_session :: session where
  "sample_session = \<lparr>ss_ID = ''s'', ss_Item = \<lparr>it_ID = ''i'', it_Name = ''Item'',
     it_FixedPriceCp = None\<rparr>, ss_SeqAtOpen = 5, ss_OpenedAt = 1, ss_ClosesAt = 9,
     ss_MinAmountCp = 0\<rparr>"

definition sample_account :: "ulid \<Rightarrow> account_ref" where
  "sample_account i = \<lparr>ar_ID = i, ar_Kind = KindPerson, ar_SystemKey = [], ar_Label = []\<rparr>"

definition sample_award :: "ulid \<Rightarrow> centipoints \<Rightarrow> award_event" where
  "sample_award i price = \<lparr>aw_Buyer = sample_account i, aw_CharacterID = None,
     aw_Item = ss_Item sample_session, aw_PriceCp = Some price, aw_Beneficiaries = [],
     aw_RaidID = None, aw_ItemAwardID = None, aw_EffectiveAt = 0, aw_Reason = ''won''\<rparr>"

definition sample_batch :: "batch_proposal \<Rightarrow> ledger_batch" where
  "sample_batch p = \<lparr>lb_ID = ''batch'', lb_Kind = bp_Kind p, lb_StrategyID = bp_StrategyID p,
     lb_StrategyVersion = bp_StrategyVersion p, lb_ConfigSnapshotJSON = bp_ConfigSnapshotJSON p,
     lb_Reason = bp_Reason p, lb_EffectiveAt = bp_EffectiveAt p, lb_Entries = bp_Entries p\<rparr>"

lemma sample_batch_committed: "committed_as p (sample_batch p)"
  by (simp add: committed_as_def sample_batch_def)

end
