(* ===== verification/Tick.thy ===== *)
theory Tick
  imports Strategy
begin

text \<open>
  \<open>tick\<close> (internal/strategy/tick.go): every attendance snapshot credits a fixed value, scaled by
  the attendee's weight and by the multiplier of the role it raided as, and the guild bank pays.
\<close>

definition tickID :: string where "tickID = ''tick''"
definition tickVersion :: string where "tickVersion = ''0.1.0''"
definition maxRoleMultiplierBp :: i64 where "maxRoleMultiplierBp = 100000"

record role_multiplier =
  rm_Role :: string
  rm_MultiplierBp :: "i64 option"

record tick_config =
  tk_TickAwardCp :: centipoints
  tk_DefaultMultiplierBp :: i64
  tk_RoleMultipliers :: "role_multiplier slice"
  tk_FloorCp :: centipoints

definition role_knobs :: "role_multiplier knob list" where
  "role_knobs = [(''role'', set_string rm_Role_update),
     (''multiplier_bp'', set_int_ptr rm_MultiplierBp_update)]"

definition tick_knobs :: "tick_config knob list" where
  "tick_knobs = [(''tick_award_cp'', set_int tk_TickAwardCp_update),
     (''default_multiplier_bp'', set_int tk_DefaultMultiplierBp_update),
     (''role_multipliers'', set_slice tk_RoleMultipliers tk_RoleMultipliers_update role_knobs
        \<lparr>rm_Role = [], rm_MultiplierBp = None\<rparr>),
     (''floor_cp'', set_int tk_FloorCp_update)]"

definition defaultTickConfig :: tick_config where
  "defaultTickConfig = \<lparr>tk_TickAwardCp = 100, tk_DefaultMultiplierBp = basisPointsWhole,
     tk_RoleMultipliers = ([], 0), tk_FloorCp = 0\<rparr>"

definition role_multipliers :: "tick_config \<Rightarrow> role_multiplier list" where
  "role_multipliers cfg = slice_elems (tk_RoleMultipliers cfg)"

fun check_roles :: "string list \<Rightarrow> role_multiplier list \<Rightarrow> unit res" where
  "check_roles seen [] = Inr ()"
| "check_roles seen (rm # rms) =
    (if rm_Role rm = [] then Inl ErrInvalidConfig
     else if rm_Role rm \<in> set seen then Inl ErrInvalidConfig
     else case rm_MultiplierBp rm of None \<Rightarrow> Inl ErrInvalidConfig
     | Some m \<Rightarrow> if m <s 0 \<or> maxRoleMultiplierBp <s m then Inl ErrInvalidConfig
         else check_roles (rm_Role rm # seen) rms)"

definition validateTickConfig :: "tick_config \<Rightarrow> tick_config res" where
  "validateTickConfig cfg =
    (if tk_TickAwardCp cfg \<le>s 0 then Inl ErrInvalidConfig
     else if tk_DefaultMultiplierBp cfg <s 0 \<or> maxRoleMultiplierBp <s tk_DefaultMultiplierBp cfg
     then Inl ErrInvalidConfig
     else bindR (check_roles [] (role_multipliers cfg)) (\<lambda>_. Inr cfg))"

definition tick_config_of :: "ctx \<Rightarrow> tick_config res" where
  "tick_config_of ctx =
    bindR (decodeConfig tick_knobs (cx_ConfigJSON ctx) defaultTickConfig) validateTickConfig"

fun multiplierFor_loop :: "i64 \<Rightarrow> role_multiplier list \<Rightarrow> string \<Rightarrow> i64 res" where
  "multiplierFor_loop dflt [] role = Inr dflt"
| "multiplierFor_loop dflt (rm # rms) role =
    (if rm_Role rm = role then ok_or Panic (rm_MultiplierBp rm)
     else multiplierFor_loop dflt rms role)"

definition multiplierFor :: "tick_config \<Rightarrow> string \<Rightarrow> i64 res" where
  "multiplierFor cfg role = multiplierFor_loop (tk_DefaultMultiplierBp cfg) (role_multipliers cfg) role"

definition tickEarned :: "centipoints \<Rightarrow> share \<Rightarrow> i64 \<Rightarrow> centipoints res" where
  "tickEarned amount a multiplierBp =
    bindR (ok_or ErrInvalidEvent (mulCentipoints amount (sh_Weight a))) (\<lambda>base.
    ok_or ErrInvalidEvent (scaleByBasisPoints base multiplierBp))"

definition tick_price :: "tick_config \<Rightarrow> centipoints \<Rightarrow> share \<Rightarrow> centipoints res" where
  "tick_price cfg amount a =
    bindR (checkShare a) (\<lambda>_.
    bindR (multiplierFor cfg (sh_Role a)) (\<lambda>multiplierBp. tickEarned amount a multiplierBp))"

definition tick_PlanAttendance :: "ctx \<Rightarrow> attendance_event \<Rightarrow> batch_proposal res" where
  "tick_PlanAttendance ctx ev = bindR (tick_config_of ctx) (\<lambda>cfg.
     attendance_tick tickID tickVersion (tk_TickAwardCp cfg) (tick_price cfg) ctx ev)"

definition tick_PlanAdjustment :: "ctx \<Rightarrow> adjustment_event \<Rightarrow> batch_proposal res" where
  "tick_PlanAdjustment ctx ev = bindR (tick_config_of ctx) (\<lambda>cfg.
     adjustmentProposal ctx tickID tickVersion (tk_FloorCp cfg) ev)"

definition tick_PlanReversal :: "ctx \<Rightarrow> ledger_batch \<Rightarrow> batch_proposal res" where
  "tick_PlanReversal ctx b = reversePlan ctx tickID b"

definition Tick :: point_strategy where
  "Tick = \<lparr>ps_ID = tickID, ps_Version = tickVersion, ps_RuleKind = RuleEarn,
     ps_BalanceKinds = [BalanceKindDKP], ps_PlanAttendance = tick_PlanAttendance,
     ps_PlanAward = unsupported_award, ps_PlanAdjustment = tick_PlanAdjustment,
     ps_PlanDecay = unsupported_decay, ps_PlanReversal = tick_PlanReversal,
     ps_Spendable = spendableBalance, ps_Priority = priorityBySpendable,
     ps_PriceHint = unsupported_hint, ps_ValidateBid = unsupported_bid,
     ps_SettleAuction = unsupported_auction, ps_Invariants = balance_invariants\<rparr>"

section \<open>The configuration\<close>

lemma check_roles_Inr:
  "check_roles seen rms = Inr u \<longleftrightarrow> distinct (map rm_Role rms) \<and>
    rm_Role ` set rms \<inter> set seen = {} \<and> (\<forall>rm \<in> set rms. rm_Role rm \<noteq> [] \<and>
      (\<exists>m. rm_MultiplierBp rm = Some m \<and> 0 \<le> sint m \<and> sint m \<le> 100000))"
  by (induction seen rms rule: check_roles.induct)
     (auto simp: i64_simps maxRoleMultiplierBp_def split: option.splits)

definition good_tick_config :: "tick_config \<Rightarrow> bool" where
  "good_tick_config cfg \<longleftrightarrow> 0 < sint (tk_TickAwardCp cfg) \<and>
     0 \<le> sint (tk_DefaultMultiplierBp cfg) \<and> sint (tk_DefaultMultiplierBp cfg) \<le> 100000 \<and>
     distinct (map rm_Role (role_multipliers cfg)) \<and>
     (\<forall>rm \<in> set (role_multipliers cfg). rm_Role rm \<noteq> [] \<and>
       (\<exists>m. rm_MultiplierBp rm = Some m \<and> 0 \<le> sint m \<and> sint m \<le> 100000))"

lemma validateTickConfig_Inr: "validateTickConfig cfg = Inr c \<longleftrightarrow> c = cfg \<and> good_tick_config cfg"
  by (auto simp: validateTickConfig_def good_tick_config_def res_simps check_roles_Inr i64_simps
    maxRoleMultiplierBp_def)

lemma tick_config_of_Inr:
  "tick_config_of ctx = Inr cfg \<longleftrightarrow>
    decodeConfig tick_knobs (cx_ConfigJSON ctx) defaultTickConfig = Inr cfg \<and> good_tick_config cfg"
  by (auto simp: tick_config_of_def res_simps validateTickConfig_Inr)

text \<open>The multiplier of a role: its own entry, or the default. A validated config never panics.\<close>

definition multiplier_of :: "tick_config \<Rightarrow> string \<Rightarrow> int" where
  "multiplier_of cfg role = (case find (\<lambda>rm. rm_Role rm = role) (role_multipliers cfg) of
     Some rm \<Rightarrow> sint (the (rm_MultiplierBp rm)) | None \<Rightarrow> sint (tk_DefaultMultiplierBp cfg))"

lemma multiplierFor_good:
  assumes "good_tick_config cfg"
  obtains m where "multiplierFor cfg role = Inr m" "sint m = multiplier_of cfg role"
    "0 \<le> sint m" "sint m \<le> 100000"
proof -
  have "\<exists>m. multiplierFor_loop (tk_DefaultMultiplierBp cfg) rms role = Inr m \<and>
      sint m = (case find (\<lambda>rm. rm_Role rm = role) rms of
        Some rm \<Rightarrow> sint (the (rm_MultiplierBp rm)) | None \<Rightarrow> sint (tk_DefaultMultiplierBp cfg)) \<and>
      0 \<le> sint m \<and> sint m \<le> 100000"
    if "set rms \<subseteq> set (role_multipliers cfg)" for rms
    using that
  proof (induction rms)
    case Nil
    then show ?case using assms by (simp add: good_tick_config_def)
  next
    case (Cons rm rms)
    then obtain m where "rm_MultiplierBp rm = Some m" "0 \<le> sint m" "sint m \<le> 100000"
      using assms by (auto simp: good_tick_config_def)
    with Cons show ?case by auto
  qed
  from this [OF subset_refl] show thesis
    using that by (auto simp: multiplierFor_def multiplier_of_def)
qed

section \<open>What an attendee earns\<close>

lemma tickEarned_Inr:
  assumes "tickEarned amount a m = Inr e" "0 \<le> sint (sh_Weight a)"
  shows "sint e = sint amount * sint (sh_Weight a) * sint m div 10000" "0 \<le> sint e"
proof -
  from assms obtain base where base: "mulCentipoints amount (sh_Weight a) = Some base"
    "scaleByBasisPoints base m = Some e"
    by (auto simp: tickEarned_def res_simps)
  have "sint base = sint amount * sint (sh_Weight a)"
    using mulCentipoints_sint [OF assms(2) base(1)] .
  with scaleByBasisPoints_sint [OF base(2)]
  show "sint e = sint amount * sint (sh_Weight a) * sint m div 10000" "0 \<le> sint e"
    by (auto simp: pos_imp_zdiv_nonneg_iff)
qed

lemma tick_price_Inr:
  assumes "tick_price cfg amount a = Inr e" "good_tick_config cfg"
  shows "sint e = sint amount * sint (sh_Weight a) * multiplier_of cfg (sh_Role a) div 10000"
    and "0 \<le> sint e"
proof -
  obtain m where m: "multiplierFor cfg (sh_Role a) = Inr m" "sint m = multiplier_of cfg (sh_Role a)"
    using multiplierFor_good [OF assms(2)] by metis
  then have e: "tickEarned amount a m = Inr e" "0 \<le> sint (sh_Weight a)"
    using assms(1) by (auto simp: tick_price_def res_simps)
  from tickEarned_Inr [OF e] m(2)
  show "sint e = sint amount * sint (sh_Weight a) * multiplier_of cfg (sh_Role a) div 10000"
    "0 \<le> sint e" by simp_all
qed

lemma tickID_ne [simp]: "tickID \<noteq> []"
  by (simp add: tickID_def)

interpretation tick: ledger_strategy Tick
  by unfold_locales (auto simp: Tick_def tick_PlanAttendance_def tick_PlanAdjustment_def
    tick_PlanReversal_def unsupported_defs bindR_eq_Inr dest: batch_laws)

end
