(* ===== verification/StartPoints.thy ===== *)
theory StartPoints
  imports Strategy
begin

text \<open>
  \<open>start_points\<close> (internal/strategy/start_points.go): an over-time rule that grants an opening
  balance, once, to every account without ledger history.
\<close>

definition startPointsID :: string where "startPointsID = ''start_points''"
definition startPointsVersion :: string where "startPointsVersion = ''0.1.0''"

record start_points_config =
  sp_GrantCp :: centipoints
  sp_FloorCp :: centipoints

definition start_points_knobs :: "start_points_config knob list" where
  "start_points_knobs = [(''grant_cp'', set_int sp_GrantCp_update),
     (''floor_cp'', set_int sp_FloorCp_update)]"

definition defaultStartPointsConfig :: start_points_config where
  "defaultStartPointsConfig = \<lparr>sp_GrantCp = 0, sp_FloorCp = 0\<rparr>"

definition validateStartPointsConfig :: "start_points_config \<Rightarrow> start_points_config res" where
  "validateStartPointsConfig cfg = (if sp_GrantCp cfg <s 0 then Inl ErrInvalidConfig else Inr cfg)"

definition start_points_config_of :: "ctx \<Rightarrow> start_points_config res" where
  "start_points_config_of ctx =
    bindR (decodeConfig start_points_knobs (cx_ConfigJSON ctx) defaultStartPointsConfig)
      validateStartPointsConfig"

definition start_points_grant :: "centipoints \<Rightarrow> ctx \<Rightarrow> decay_run \<Rightarrow> account_ref \<Rightarrow> centipoints res" where
  "start_points_grant grant ctx run a =
    bindR (cx_HasHistory ctx (ar_ID a) BalanceKindDKP (dr_AsOfSeq run)) (\<lambda>granted.
      if granted then Inr 0 else Inr grant)"

definition start_points_PlanDecay :: "ctx \<Rightarrow> decay_run \<Rightarrow> batch_proposal res" where
  "start_points_PlanDecay ctx run = bindR (start_points_config_of ctx) (\<lambda>cfg.
     if sp_GrantCp cfg = 0 then Inl ErrInvalidConfig
     else if dr_PeriodKey run = [] then Inl ErrInvalidEvent
     else bindR (cadenceTargets ctx run) (\<lambda>(targets, bank).
       bindR (accrue (skip_system (start_points_grant (sp_GrantCp cfg) ctx run))
                (\<lambda>a amount. dkp_entry (ar_ID a) amount) 0 targets) (\<lambda>(credits, tot).
       if length credits = 0 then Inl ErrNothingToPlan
       else proposeZeroSum ctx startPointsID startPointsVersion KindStartPoints (dr_EffectiveAt run)
         (''start points '' @ dr_PeriodKey run) (dkp_entry bank (- tot) # credits)
         [dkp_invariant InvariantSumZero None])))"

definition start_points_PlanAdjustment :: "ctx \<Rightarrow> adjustment_event \<Rightarrow> batch_proposal res" where
  "start_points_PlanAdjustment ctx ev = bindR (start_points_config_of ctx) (\<lambda>cfg.
     adjustmentProposal ctx startPointsID startPointsVersion (sp_FloorCp cfg) ev)"

definition start_points_PlanReversal :: "ctx \<Rightarrow> ledger_batch \<Rightarrow> batch_proposal res" where
  "start_points_PlanReversal ctx b = reversePlan ctx startPointsID b"

definition StartPoints :: point_strategy where
  "StartPoints = \<lparr>ps_ID = startPointsID, ps_Version = startPointsVersion,
     ps_RuleKind = RuleOverTime, ps_BalanceKinds = [BalanceKindDKP],
     ps_PlanAttendance = unsupported_attendance, ps_PlanAward = unsupported_award,
     ps_PlanAdjustment = start_points_PlanAdjustment, ps_PlanDecay = start_points_PlanDecay,
     ps_PlanReversal = start_points_PlanReversal, ps_Spendable = spendableBalance,
     ps_Priority = priorityBySpendable, ps_PriceHint = unsupported_hint,
     ps_ValidateBid = unsupported_bid, ps_SettleAuction = unsupported_auction,
     ps_Invariants = balance_invariants\<rparr>"

lemma startPointsID_ne [simp]: "startPointsID \<noteq> []"
  by (simp add: startPointsID_def)

lemma start_points_config_of_Inr:
  "start_points_config_of ctx = Inr cfg \<longleftrightarrow> 0 \<le> sint (sp_GrantCp cfg) \<and>
    decodeConfig start_points_knobs (cx_ConfigJSON ctx) defaultStartPointsConfig = Inr cfg"
  by (auto simp: start_points_config_of_def validateStartPointsConfig_def res_simps i64_simps)

lemma start_points_Inr:
  assumes "start_points_PlanDecay ctx run = Inr p"
  obtains cfg accounts bank credits tot where "start_points_config_of ctx = Inr cfg"
    "0 < sint (sp_GrantCp cfg)" "run_accounts ctx run = Inr accounts"
    "distinct (map ar_ID accounts)" "cx_SystemAccount ctx SystemKeyGuildBank = Inr bank"
    "accrue (skip_system (start_points_grant (sp_GrantCp cfg) ctx run))
       (\<lambda>a amount. dkp_entry (ar_ID a) amount) 0 (sortedAccounts accounts) = Inr (credits, tot)"
    "credits \<noteq> []" "bp_Entries p = dkp_entry bank (- tot) # credits"
    "bp_Kind p = KindStartPoints" "zero_sum_plan startPointsID startPointsVersion ctx p"
proof -
  from assms obtain cfg targets bank credits tot where c: "start_points_config_of ctx = Inr cfg"
    "sp_GrantCp cfg \<noteq> 0" "cadenceTargets ctx run = Inr (targets, bank)"
    "accrue (skip_system (start_points_grant (sp_GrantCp cfg) ctx run))
       (\<lambda>a amount. dkp_entry (ar_ID a) amount) 0 targets = Inr (credits, tot)" "credits \<noteq> []"
    "proposeZeroSum ctx startPointsID startPointsVersion KindStartPoints (dr_EffectiveAt run)
       (''start points '' @ dr_PeriodKey run) (dkp_entry bank (- tot) # credits)
       [dkp_invariant InvariantSumZero None] = Inr p"
    by (auto simp: start_points_PlanDecay_def bindR_eq_Inr if_Inl_eq_Inr)
  moreover have "0 < sint (sp_GrantCp cfg)"
    using c(1,2) sint_eq_0 [of "sp_GrantCp cfg"] by (auto simp: start_points_config_of_Inr less_le)
  ultimately show thesis
    using proposeZeroSum_fields [OF c(6)] proposeZeroSum_zero_sum [OF c(6)]
    by (auto simp: cadenceTargets_run intro!: that)
qed

interpretation start_points: ledger_strategy StartPoints
  by unfold_locales (auto simp: StartPoints_def start_points_PlanAdjustment_def
    start_points_PlanReversal_def unsupported_defs bindR_eq_Inr dest: batch_laws
    elim: start_points_Inr)

section \<open>Who is granted what\<close>

text \<open>An account of the run gains the grant when it is a person without history, and nothing else.\<close>

lemma start_points_posted:
  assumes "start_points_PlanDecay ctx run = Inr p" "start_points_config_of ctx = Inr cfg"
    and "run_accounts ctx run = Inr accounts" "a \<in> set accounts"
    and "cx_SystemAccount ctx SystemKeyGuildBank \<noteq> Inr (ar_ID a)"
  shows "posted (bp_Entries p) (ar_ID a) =
    (if \<not> IsSystem a \<and> cx_HasHistory ctx (ar_ID a) BalanceKindDKP (dr_AsOfSeq run) = Inr False
     then sint (sp_GrantCp cfg) else 0)"
  using assms(1)
proof (cases rule: start_points_Inr)
  case (1 cfg' accounts' bank credits tot)
  let ?price = "skip_system (start_points_grant (sp_GrantCp cfg) ctx run)"
  have acc: "accrue ?price (\<lambda>a amount. dkp_entry (ar_ID a) amount) 0 (sortedAccounts accounts)
      = Inr (credits, tot)" and a: "a \<in> set (sortedAccounts accounts)"
    using 1 assms(2-4) by simp_all
  obtain d where d: "?price a = Inr d" using accrue_Inr [OF acc] a by auto
  have "posted credits (ar_ID a) = sint d"
    using accrue_posted(1) [OF acc, where acct = ar_ID and f = "\<lambda>n. n"] 1(3,4) assms(3) a d
    by (simp add: priced_def)
  moreover have "sint d = (if \<not> IsSystem a \<and>
      cx_HasHistory ctx (ar_ID a) BalanceKindDKP (dr_AsOfSeq run) = Inr False
      then sint (sp_GrantCp cfg) else 0)"
    using d by (auto simp: skip_system_def start_points_grant_def bindR_eq_Inr split: if_splits)
  moreover have "bank \<noteq> ar_ID a" using assms(5) 1(5) by auto
  ultimately show ?thesis by (simp add: 1(8))
qed

end
