(* ===== verification/FixedPrice.thy ===== *)
theory FixedPrice
  imports Strategy
begin

text \<open>
  \<open>fixed_price\<close> (internal/strategy/fixed_price.go): items have a set price; a tick credits every
  attendee its weight times the award; a decay run takes the same share of every positive balance.
\<close>

definition fixedPriceID :: string where "fixedPriceID = ''fixed_price''"
definition fixedPriceVersion :: string where "fixedPriceVersion = ''0.1.0''"

record fixed_price_config =
  fp_DefaultPriceCp :: centipoints
  fp_TickAwardCp :: centipoints
  fp_Proceeds :: string
  fp_SoloPolicy :: string
  fp_FloorCp :: centipoints
  fp_DecayBp :: i64

definition fixed_price_knobs :: "fixed_price_config knob list" where
  "fixed_price_knobs = [(''default_price_cp'', set_int fp_DefaultPriceCp_update),
     (''tick_award_cp'', set_int fp_TickAwardCp_update),
     (''proceeds'', set_string fp_Proceeds_update),
     (''solo_policy'', set_string fp_SoloPolicy_update),
     (''floor_cp'', set_int fp_FloorCp_update),
     (''decay_bp'', set_int fp_DecayBp_update)]"

definition defaultFixedPriceConfig :: fixed_price_config where
  "defaultFixedPriceConfig = \<lparr>fp_DefaultPriceCp = 0, fp_TickAwardCp = 100,
     fp_Proceeds = ProceedsGuildBank, fp_SoloPolicy = SoloPolicyGuildBank, fp_FloorCp = 0,
     fp_DecayBp = 0\<rparr>"

definition fixed_price_terms :: "fixed_price_config \<Rightarrow> spend_terms" where
  "fixed_price_terms cfg = \<lparr>st_Proceeds = fp_Proceeds cfg, st_SoloPolicy = fp_SoloPolicy cfg,
     st_FloorCp = fp_FloorCp cfg\<rparr>"

definition validateFixedPriceConfig :: "fixed_price_config \<Rightarrow> fixed_price_config res" where
  "validateFixedPriceConfig cfg =
    bindR (validateSpendTerms (fixed_price_terms cfg)) (\<lambda>_.
    if fp_DefaultPriceCp cfg <s 0 then Inl ErrInvalidConfig
    else if fp_TickAwardCp cfg \<le>s 0 then Inl ErrInvalidConfig
    else if fp_DecayBp cfg <s 0 \<or> basisPointsWhole <s fp_DecayBp cfg then Inl ErrInvalidConfig
    else Inr cfg)"

definition fixed_price_config_of :: "ctx \<Rightarrow> fixed_price_config res" where
  "fixed_price_config_of ctx =
    bindR (decodeConfig fixed_price_knobs (cx_ConfigJSON ctx) defaultFixedPriceConfig)
      validateFixedPriceConfig"

definition fixed_price_earned :: "centipoints \<Rightarrow> share \<Rightarrow> centipoints res" where
  "fixed_price_earned amount a = bindR (checkShare a) (\<lambda>_.
     ok_or ErrInvalidEvent (mulCentipoints amount (sh_Weight a)))"

definition fixed_price_PlanAttendance :: "ctx \<Rightarrow> attendance_event \<Rightarrow> batch_proposal res" where
  "fixed_price_PlanAttendance ctx ev = bindR (fixed_price_config_of ctx) (\<lambda>cfg.
     attendance_tick fixedPriceID fixedPriceVersion (fp_TickAwardCp cfg) fixed_price_earned ctx ev)"

definition fixed_price_PlanAward :: "ctx \<Rightarrow> award_event \<Rightarrow> batch_proposal res" where
  "fixed_price_PlanAward ctx ev = bindR (fixed_price_config_of ctx) (\<lambda>cfg.
     bindR (resolvePrice (fp_DefaultPriceCp cfg) ev) (\<lambda>price.
     spendAward ctx fixedPriceID fixedPriceVersion (fixed_price_terms cfg) ev price))"

definition fixed_price_PlanAdjustment :: "ctx \<Rightarrow> adjustment_event \<Rightarrow> batch_proposal res" where
  "fixed_price_PlanAdjustment ctx ev = bindR (fixed_price_config_of ctx) (\<lambda>cfg.
     adjustmentProposal ctx fixedPriceID fixedPriceVersion (fp_FloorCp cfg) ev)"

definition fixed_price_decay :: "i64 \<Rightarrow> ctx \<Rightarrow> decay_run \<Rightarrow> account_ref \<Rightarrow> centipoints res" where
  "fixed_price_decay bp ctx run a =
    bindR (cx_Balance ctx (ar_ID a) BalanceKindDKP (dr_AsOfSeq run)) (\<lambda>balance.
      if balance \<le>s 0 then Inr 0 else decayAmount balance bp)"

definition fixed_price_PlanDecay :: "ctx \<Rightarrow> decay_run \<Rightarrow> batch_proposal res" where
  "fixed_price_PlanDecay ctx run = bindR (fixed_price_config_of ctx) (\<lambda>cfg.
     if fp_DecayBp cfg = 0 then Inl ErrInvalidConfig
     else if dr_PeriodKey run = [] then Inl ErrInvalidEvent
     else cadence_debits fixedPriceID fixedPriceVersion KindDecay (''decay '' @ dr_PeriodKey run)
       (fp_FloorCp cfg) (fixed_price_decay (fp_DecayBp cfg) ctx run) ctx run)"

definition fixed_price_PlanReversal :: "ctx \<Rightarrow> ledger_batch \<Rightarrow> batch_proposal res" where
  "fixed_price_PlanReversal ctx b = reversePlan ctx fixedPriceID b"

definition FixedPrice :: point_strategy where
  "FixedPrice = \<lparr>ps_ID = fixedPriceID, ps_Version = fixedPriceVersion, ps_RuleKind = RuleSpend,
     ps_BalanceKinds = [BalanceKindDKP], ps_PlanAttendance = fixed_price_PlanAttendance,
     ps_PlanAward = fixed_price_PlanAward, ps_PlanAdjustment = fixed_price_PlanAdjustment,
     ps_PlanDecay = fixed_price_PlanDecay, ps_PlanReversal = fixed_price_PlanReversal,
     ps_Spendable = spendableBalance, ps_Priority = priorityBySpendable,
     ps_PriceHint = unsupported_hint, ps_ValidateBid = unsupported_bid,
     ps_SettleAuction = unsupported_auction, ps_Invariants = split_invariants\<rparr>"

section \<open>The configuration\<close>

definition good_fixed_price_config :: "fixed_price_config \<Rightarrow> bool" where
  "good_fixed_price_config cfg \<longleftrightarrow> validateSpendTerms (fixed_price_terms cfg) = Inr () \<and>
     0 \<le> sint (fp_DefaultPriceCp cfg) \<and> 0 < sint (fp_TickAwardCp cfg) \<and>
     0 \<le> sint (fp_DecayBp cfg) \<and> sint (fp_DecayBp cfg) \<le> 10000"

lemma fixed_price_config_of_Inr:
  "fixed_price_config_of ctx = Inr cfg \<longleftrightarrow>
    decodeConfig fixed_price_knobs (cx_ConfigJSON ctx) defaultFixedPriceConfig = Inr cfg \<and>
    good_fixed_price_config cfg"
  by (auto simp: fixed_price_config_of_def validateFixedPriceConfig_def good_fixed_price_config_def
    res_simps i64_simps)

lemma fixedPriceID_ne [simp]: "fixedPriceID \<noteq> []"
  by (simp add: fixedPriceID_def)

interpretation fixed_price: ledger_strategy FixedPrice
  by unfold_locales (auto simp: FixedPrice_def fixed_price_PlanAttendance_def fixed_price_PlanAward_def
    fixed_price_PlanAdjustment_def fixed_price_PlanDecay_def fixed_price_PlanReversal_def
    bindR_eq_Inr if_Inl_eq_Inr dest: batch_laws)

section \<open>Ticks and decay\<close>

lemma fixed_price_earned_Inr:
  assumes "fixed_price_earned amount a = Inr e"
  shows "sint e = sint amount * sint (sh_Weight a)" "0 \<le> sint (sh_Weight a)"
  using assms by (auto simp: fixed_price_earned_def res_simps dest: mulCentipoints_sint)

lemma fixed_price_decay_Inr:
  assumes "fixed_price_decay bp ctx run a = Inr d" "0 \<le> sint bp" "sint bp \<le> 10000"
  obtains bal where "cx_Balance ctx (ar_ID a) BalanceKindDKP (dr_AsOfSeq run) = Inr bal"
    "sint d = max 0 (sint bal) * sint bp div 10000" "0 \<le> sint d" "sint d \<le> max 0 (sint bal)"
proof -
  from assms(1) obtain bal where bal: "cx_Balance ctx (ar_ID a) BalanceKindDKP (dr_AsOfSeq run) = Inr bal"
    "(if sint bal \<le> 0 then Inr 0 else decayAmount bal bp) = Inr d"
    by (auto simp: fixed_price_decay_def bindR_eq_Inr i64_simps)
  show thesis
  proof (cases "sint bal \<le> 0")
    case True
    then show ?thesis using that bal by (simp add: max_def)
  next
    case False
    then show ?thesis
      using that [OF bal(1)] bal(2) decayAmount_sint [of bal bp d] decayAmount_range [of bal bp d] assms(2,3)
      by (simp add: max_def)
  qed
qed

end
