(* ===== verification/Auction.thy ===== *)
theory Auction
  imports Strategy
begin

text \<open>
  What the two auctions share beyond spend.go: the bids of the winning rung ranked by their amounts.
  The lemmas describe the ranking once, for the settlement of both.
\<close>

definition amount_ranked :: "bid list \<Rightarrow> ranked_bid list" where
  "amount_ranked bids = map (\<lambda>b. \<lparr>rb_bid = b, rb_rank = bd_AmountCp b, rb_tier = 0\<rparr>) bids"

definition auction_ranking :: "bid list \<Rightarrow> (tier_outcome \<times> ranked_bid list) res" where
  "auction_ranking eligible =
    bindR (resolveTier eligible) (\<lambda>phase.
    bindR (rankBids (amount_ranked (to_bids phase))) (\<lambda>ordered. Inr (phase, ordered)))"

definition best_rank :: "bid list \<Rightarrow> nat" where
  "best_rank bids = Max (rank_of ` set bids)"

lemma auction_ranking_Inr:
  assumes "auction_ranking eligible = Inr (phase, ordered)" "eligible \<noteq> []"
  shows "ordered \<noteq> []" and "sorted (map bid_order ordered)"
    and "\<And>r. r \<in> set ordered \<Longrightarrow> rb_tier r = best_rank eligible \<and> rb_rank r = bd_AmountCp (rb_bid r) \<and>
      tierOf (rb_bid r) = to_tier phase"
    and "rb_bid ` set ordered = {b \<in> set eligible. rank_of b = best_rank eligible}"
    and "length ordered = length (to_bids phase)"
    and "\<forall>b \<in> set eligible. tierRank (bd_Tier b) \<noteq> None"
    and "to_noun phase = []"
proof -
  from assms(1) have ph: "resolveTier eligible = Inr phase"
    and rk: "rankBids (amount_ranked (to_bids phase)) = Inr ordered"
    by (auto simp: auction_ranking_def bindR_eq_Inr)
  note t = resolveTier_Inr [OF ph assms(2)]
  let ?f = "\<lambda>b. \<lparr>rb_bid = b, rb_rank = bd_AmountCp b, rb_tier = rank_of b\<rparr>"
  have o: "ordered = sort_key bid_order (map ?f (to_bids phase))"
    using rk by (simp add: rankBids_Inr amount_ranked_def o_def)
  have so: "set ordered = ?f ` set (to_bids phase)" by (simp add: o)
  show "ordered \<noteq> []" using t(1) so by auto
  show "sorted (map bid_order ordered)" by (simp add: o)
  show "rb_tier r = best_rank eligible \<and> rb_rank r = bd_AmountCp (rb_bid r) \<and>
      tierOf (rb_bid r) = to_tier phase" if "r \<in> set ordered" for r
    using that t(2) by (auto simp: so best_rank_def)
  show "rb_bid ` set ordered = {b \<in> set eligible. rank_of b = best_rank eligible}"
    using t(3) by (auto simp: so best_rank_def image_image)
  show "length ordered = length (to_bids phase)" by (simp add: o)
  show "\<forall>b \<in> set eligible. tierRank (bd_Tier b) \<noteq> None" by (rule t(4))
  show "to_noun phase = []" by (rule t(5))
qed

text \<open>A bid whose tier is not on the ladder refuses the settlement; nothing else does.\<close>

lemma auction_ranking_total:
  assumes "eligible \<noteq> []"
  shows "(\<exists>r. auction_ranking eligible = Inr r) \<longleftrightarrow> (\<forall>b \<in> set eligible. tierRank (bd_Tier b) \<noteq> None)"
proof
  assume "\<exists>r. auction_ranking eligible = Inr r"
  then show "\<forall>b \<in> set eligible. tierRank (bd_Tier b) \<noteq> None"
    using auction_ranking_Inr(6) assms by fast
next
  assume known: "\<forall>b \<in> set eligible. tierRank (bd_Tier b) \<noteq> None"
  then have "\<exists>c. count_tiers (\<lambda>_. 0) 0 eligible = Inr c"
    using count_tiers_Inr [of "\<lambda>_. 0" 0 eligible] by blast
  then obtain phase where ph: "resolveTier eligible = Inr phase"
    by (auto simp: resolveTier_def Let_def)
  have "set (to_bids phase) \<subseteq> set eligible"
    using resolveTier_Inr(3) [OF ph assms] by auto
  then have "\<exists>ordered. rankBids (amount_ranked (to_bids phase)) = Inr ordered"
    using known by (auto simp: rankBids_Inr amount_ranked_def)
  then show "\<exists>r. auction_ranking eligible = Inr r"
    using ph by (auto simp: auction_ranking_def)
qed

lemma auction_ranking_error: "auction_ranking eligible = Inl e \<Longrightarrow> e = ErrInvalidEvent"
proof -
  have "count_tiers c n bs = Inl e \<Longrightarrow> e = ErrInvalidEvent" for c n bs
    by (induction c n bs rule: count_tiers.induct) (auto simp: bindR_eq_Inl checkTier_Inl)
  moreover have "tier_bids rs = Inl e \<Longrightarrow> e = ErrInvalidEvent" for rs
    by (induction rs) (auto simp: bindR_eq_Inl checkTier_Inl)
  ultimately show "auction_ranking eligible = Inl e \<Longrightarrow> e = ErrInvalidEvent"
    by (auto simp: auction_ranking_def resolveTier_def rankBids_def bindR_eq_Inl Let_def)
qed

text \<open>
  What it means for a bid to win: it is eligible, no eligible bid stands on a higher rung, none on
  its rung offers more, and none on its rung offers as much earlier.
\<close>

definition wins :: "bid \<Rightarrow> bid list \<Rightarrow> bool" where
  "wins w eligible \<longleftrightarrow> w \<in> set eligible \<and> (\<forall>b \<in> set eligible. rank_of b < rank_of w \<or>
     rank_of b = rank_of w \<and> (sint (bd_AmountCp b) < sint (bd_AmountCp w) \<or>
       bd_AmountCp b = bd_AmountCp w \<and> sint (bd_PlacedAt w) \<le> sint (bd_PlacedAt b)))"

lemma ranking_head_wins:
  assumes "auction_ranking eligible = Inr (phase, r # rs)" "eligible \<noteq> []"
    and "w \<in> set (r # rs)" "tops w r"
  shows "wins (rb_bid w) eligible"
proof -
  note R = auction_ranking_Inr [OF assms(1,2)]
  have w: "rb_bid w \<in> set eligible" "rank_of (rb_bid w) = best_rank eligible"
    using R(4) assms(3) by (auto simp: set_eq_iff)
  have head: "bid_order r \<le> bid_order s" if "s \<in> set (r # rs)" for s
    using R(2) that by auto
  have rw: "bd_AmountCp (rb_bid w) = rb_rank r" "bd_PlacedAt (rb_bid w) = bd_PlacedAt (rb_bid r)"
    using R(3) [OF assms(3)] assms(4) by (auto simp: tops_def)
  show ?thesis
    unfolding wins_def
  proof (intro conjI ballI)
    show "rb_bid w \<in> set eligible" by (rule w(1))
    fix b assume b: "b \<in> set eligible"
    show "rank_of b < rank_of (rb_bid w) \<or> rank_of b = rank_of (rb_bid w) \<and>
      (sint (bd_AmountCp b) < sint (bd_AmountCp (rb_bid w)) \<or> bd_AmountCp b = bd_AmountCp (rb_bid w) \<and>
        sint (bd_PlacedAt (rb_bid w)) \<le> sint (bd_PlacedAt b))"
    proof (cases "rank_of b = best_rank eligible")
      case True
      then have "b \<in> rb_bid ` set (r # rs)" using R(4) b by blast
      then obtain s where s: "s \<in> set (r # rs)" "rb_bid s = b" by (elim imageE) simp
      then show ?thesis
        using head [OF s(1)] R(3) [OF s(1)] R(3) [of r] rw w(2) True
        by (auto simp: bid_order_le)
    next
      case False
      have "rank_of b \<le> best_rank eligible" unfolding best_rank_def using b by simp
      then show ?thesis using False w(2) by simp
    qed
  qed
qed

section \<open>The order in which bids are listed\<close>

text \<open>Bids that differ in what the ranking reads: the rung, the amount, the time or the account.\<close>

definition bid_key :: "bid \<Rightarrow> nat \<times> int \<times> int \<times> ulid" where
  "bid_key b = (rank_of b, sint (bd_AmountCp b), sint (bd_PlacedAt b), bd_AccountID b)"

lemma auction_ranking_perm:
  assumes "mset bs' = mset bs" "inj_on bid_key (set bs)" "auction_ranking bs = Inr (phase, ordered)"
  shows "\<exists>bids. auction_ranking bs' = Inr (phase\<lparr>to_bids := bids\<rparr>, ordered) \<and>
    length bids = length (to_bids phase)"
proof -
  from assms(3) have ph: "resolveTier bs = Inr phase"
    and rk: "rankBids (amount_ranked (to_bids phase)) = Inr ordered"
    by (auto simp: auction_ranking_def bindR_eq_Inr)
  obtain bids where b: "resolveTier bs' = Inr (phase\<lparr>to_bids := bids\<rparr>)" "mset bids = mset (to_bids phase)"
    using resolveTier_perm [OF assms(1) ph] by blast
  have "set (to_bids phase) \<subseteq> set bs"
    using ph resolveTier_Inr(3) [OF ph]
    by (cases "bs = []") (auto simp: resolveTier_def bindR_eq_Inr Let_def split: prod.splits)
  then have inj: "inj_on bid_key (set (to_bids phase))" using assms(2) inj_on_subset by blast
  have "inj_on bid_order ((\<lambda>r. r\<lparr>rb_tier := rank_of (rb_bid r)\<rparr>) ` set (amount_ranked (to_bids phase)))"
    by (rule inj_onI) (use inj in \<open>auto simp: amount_ranked_def bid_order_def sint_inject64
      bid_key_def inj_on_def\<close>)
  moreover have "mset (amount_ranked bids) = mset (amount_ranked (to_bids phase))"
    using b(2) by (simp add: amount_ranked_def)
  ultimately have "rankBids (amount_ranked bids) = Inr ordered" using rankBids_perm [OF rk] by blast
  then show ?thesis
    using b by (auto simp: auction_ranking_def dest: mset_eq_length)
qed

lemma eligibleBids_perm: "mset bs' = mset bs \<Longrightarrow> mset (eligibleBids bs' m) = mset (eligibleBids bs m)"
  by (simp add: eligibleBids_def)

lemma eligibleBids_subset: "set (eligibleBids bs m) \<subseteq> set bs"
  by (auto simp: eligibleBids_def)

lemma auctionTrace_total: "ordered \<noteq> [] \<Longrightarrow> \<exists>t. auctionTrace p e m phase ordered seed = Inr t"
  by (auto simp: auctionTrace_def auctionTraceThroughAmount_def Let_def split: list.splits)

text \<open>What is said of a settlement reads the rung, never the list of its bids.\<close>

lemma to_bids_unread [simp]:
  "explain (phase\<lparr>to_bids := bs\<rparr>) m = explain phase m"
  "tier_step (phase\<lparr>to_bids := bs\<rparr>) = tier_step phase"
  "auctionTraceThroughAmount p e m' (phase\<lparr>to_bids := bs\<rparr>) ordered =
    auctionTraceThroughAmount p e m' phase ordered"
  "auctionTrace p e m' (phase\<lparr>to_bids := bs\<rparr>) ordered seed = auctionTrace p e m' phase ordered seed"
proof -
  show e: "explain (phase\<lparr>to_bids := bs\<rparr>) m = explain phase m"
    "tier_step (phase\<lparr>to_bids := bs\<rparr>) = tier_step phase"
    by (simp_all add: explain_def tier_step_def thing_def)
  show a: "auctionTraceThroughAmount p e m' (phase\<lparr>to_bids := bs\<rparr>) ordered =
      auctionTraceThroughAmount p e m' phase ordered"
    by (cases ordered) (simp_all add: auctionTraceThroughAmount_def e Let_def)
  show "auctionTrace p e m' (phase\<lparr>to_bids := bs\<rparr>) ordered seed = auctionTrace p e m' phase ordered seed"
    by (simp add: auctionTrace_def a)
qed

section \<open>The bids that stand at the top\<close>

definition top_bids :: "bid list \<Rightarrow> bid list" where
  "top_bids es = filter (\<lambda>b. rank_of b = best_rank es \<and>
     (\<forall>c \<in> set es. rank_of c = best_rank es \<longrightarrow> sint (bd_AmountCp c) \<le> sint (bd_AmountCp b))) es"

lemma ranking_bid:
  assumes "auction_ranking eligible = Inr (phase, ordered)" "eligible \<noteq> []"
    and "b \<in> set eligible" "rank_of b = best_rank eligible"
  obtains s where "s \<in> set ordered" "rb_bid s = b"
proof -
  have "b \<in> rb_bid ` set ordered" using auction_ranking_Inr(4) [OF assms(1,2)] assms(3,4) by blast
  then show thesis using that by blast
qed

lemma ranking_in_eligible:
  assumes "auction_ranking eligible = Inr (phase, ordered)" "eligible \<noteq> []" "s \<in> set ordered"
  shows "rb_bid s \<in> set eligible" "rank_of (rb_bid s) = best_rank eligible"
  using auction_ranking_Inr(4) [OF assms(1,2)] assms(3) by blast+

lemma ranking_winners:
  assumes "auction_ranking eligible = Inr (phase, r # rs)" "eligible \<noteq> []"
  shows "rb_bid ` {s \<in> set (r # rs). tops s r} = {b. wins b eligible}"
proof (intro set_eqI iffI)
  fix b assume "b \<in> rb_bid ` {s \<in> set (r # rs). tops s r}"
  then show "b \<in> {b. wins b eligible}" using ranking_head_wins [OF assms] by auto
next
  fix b assume "b \<in> {b. wins b eligible}"
  then have b: "wins b eligible" by simp
  have r: "wins (rb_bid r) eligible" by (rule ranking_head_wins [OF assms]) (simp_all add: tops_def)
  have eq: "rank_of b = rank_of (rb_bid r)" "bd_AmountCp b = bd_AmountCp (rb_bid r)" "bd_PlacedAt b = bd_PlacedAt (rb_bid r)"
    using b r unfolding wins_def by (force simp: sint_inject64 [symmetric])+
  have "rank_of b = best_rank eligible" using eq ranking_in_eligible(2) [OF assms, of r] by simp
  then obtain s where s: "s \<in> set (r # rs)" "rb_bid s = b"
    using ranking_bid [OF assms, of b] b by (auto simp: wins_def)
  then have "tops s r" using eq auction_ranking_Inr(3) [OF assms] by (simp add: tops_def)
  then show "b \<in> rb_bid ` {s \<in> set (r # rs). tops s r}" using s by blast
qed

lemma ranking_head_most:
  assumes "auction_ranking eligible = Inr (phase, r # rs)" "eligible \<noteq> []" "s \<in> set (r # rs)"
  shows "sint (bd_AmountCp (rb_bid s)) \<le> sint (bd_AmountCp (rb_bid r))"
proof -
  note R = auction_ranking_Inr [OF assms(1,2)]
  have "bid_order r \<le> bid_order s" using R(2) assms(3) by auto
  then show ?thesis using R(3) [OF assms(3)] R(3) [of r] by (auto simp: bid_order_le)
qed

lemma ranking_top:
  assumes "auction_ranking eligible = Inr (phase, r # rs)" "eligible \<noteq> []"
  shows "rb_bid ` {s \<in> set (r # rs). rb_tier s = rb_tier r \<and> rb_rank s = rb_rank r} = set (top_bids eligible)"
    (is "?L = ?R")
proof -
  note R = auction_ranking_Inr [OF assms] and E = ranking_in_eligible [OF assms]
    and M = ranking_head_most [OF assms]
  show ?thesis
  proof (intro set_eqI iffI)
    fix b assume "b \<in> ?L"
    then obtain s where s: "s \<in> set (r # rs)" "rb_rank s = rb_rank r" "b = rb_bid s" by auto
    have "sint (bd_AmountCp c) \<le> sint (bd_AmountCp b)"
      if c: "c \<in> set eligible" "rank_of c = best_rank eligible" for c
    proof -
      obtain t where "t \<in> set (r # rs)" "rb_bid t = c" using ranking_bid [OF assms c] .
      then show ?thesis using M s(2,3) R(3) [OF s(1)] R(3) [of r] by auto
    qed
    then show "b \<in> ?R" using E [OF s(1)] s(3) by (simp add: top_bids_def)
  next
    fix b assume b: "b \<in> ?R"
    then obtain s where s: "s \<in> set (r # rs)" "rb_bid s = b"
      using ranking_bid [OF assms, of b] by (auto simp: top_bids_def)
    have "sint (bd_AmountCp (rb_bid r)) \<le> sint (bd_AmountCp b)"
      using b E [of r] by (auto simp: top_bids_def)
    then have "rb_rank s = rb_rank r"
      using M [OF s(1)] s(2) R(3) [OF s(1)] R(3) [of r] by (auto simp: sint_inject64)
    then show "b \<in> ?L" using s R(3) [OF s(1)] R(3) [of r] by auto
  qed
qed

lemma ranking_tied:
  assumes "auction_ranking eligible = Inr (phase, r # rs)" "eligible \<noteq> []"
  shows "set (tiedAccounts (r # rs)) = bd_AccountID ` set (top_bids eligible)"
    and "distinct (tiedAccounts (r # rs))" and "sorted (tiedAccounts (r # rs))"
    and "1 < length (tiedAccounts (r # rs)) \<longleftrightarrow>
      (\<exists>a \<in> set (top_bids eligible). \<exists>b \<in> set (top_bids eligible). bd_AccountID a \<noteq> bd_AccountID b)"
proof -
  note T = tiedAccounts_set [OF auction_ranking_Inr(2) [OF assms]]
  show s: "set (tiedAccounts (r # rs)) = bd_AccountID ` set (top_bids eligible)"
    unfolding T(1) ranking_top [OF assms, symmetric] by auto
  show d: "distinct (tiedAccounts (r # rs))" and "sorted (tiedAccounts (r # rs))" by (rule T)+
  have r: "rb_account r \<in> set (tiedAccounts (r # rs))" unfolding T(1) by auto
  have "1 < length (tiedAccounts (r # rs)) \<longleftrightarrow>
      (\<exists>a \<in> set (tiedAccounts (r # rs)). a \<noteq> rb_account r)"
    using card_gt_1 [OF finite_set r] distinct_card [OF d] by simp
  also have "\<dots> \<longleftrightarrow> (\<exists>a \<in> set (tiedAccounts (r # rs)). \<exists>b \<in> set (tiedAccounts (r # rs)). a \<noteq> b)"
    using r by metis
  finally show "1 < length (tiedAccounts (r # rs)) \<longleftrightarrow>
      (\<exists>a \<in> set (top_bids eligible). \<exists>b \<in> set (top_bids eligible). bd_AccountID a \<noteq> bd_AccountID b)"
    unfolding s by simp
qed

section \<open>From a settlement to an award\<close>

text \<open>
  What a rule that settles sessions promises whoever turns its resolution into an award: at most one
  winner, who entered the session, on the rung the resolution names; and an award at a named price
  that debits the buyer exactly that price and credits it in positive parts.
\<close>

definition settled_for :: "bid list \<Rightarrow> resolution \<Rightarrow> bool" where
  "settled_for bids r \<longleftrightarrow> (case rn_Winners r of [] \<Rightarrow> True
     | [w] \<Rightarrow> rn_Tie r = None \<and> 0 \<le> sint (al_AmountCp w) \<and>
         (\<exists>b \<in> set bids. bd_AccountID b = al_AccountID w \<and> tierOf b = rn_WinningTier r)
     | _ \<Rightarrow> False)"

definition award_entries :: "award_event \<Rightarrow> centipoints \<Rightarrow> batch_proposal \<Rightarrow> bool" where
  "award_entries ev price p \<longleftrightarrow> 0 < sint price \<and>
     (\<exists>credits. bp_Entries p = spend_debit ev price # map (spend_credit ev) credits \<and>
       sum_alloc credits = sint price \<and> (\<forall>c \<in> set credits. 0 < sint (al_AmountCp c)))"

lemma spendAward_entries:
  assumes "spendAward ctx sid ver terms ev price = Inr p" "fair_allocator ctx"
  shows "award_entries ev price p"
proof -
  have "cx_Allocate ctx = Allocate" using assms(2) by (simp add: fair_allocator_def)
  then obtain credits where "bp_Entries p = spend_debit ev price # map (spend_credit ev) credits"
    "sum_alloc credits = sint price" "\<forall>c \<in> set credits. 0 < sint (al_AmountCp c)" "0 < sint price"
    by (rule largest_remainder.spendAward_batch [OF assms(1)])
  then show ?thesis unfolding award_entries_def by (intro conjI exI)
qed

locale auction_rule = ledger_strategy +
  assumes settle_law: "ps_SettleAuction s ctx ses bids = Inr r \<Longrightarrow> settled_for bids r"
    and priced_award_law: "ps_PlanAward s ctx ev = Inr p \<Longrightarrow> aw_PriceCp ev = Some price \<Longrightarrow>
      fair_allocator ctx \<Longrightarrow> award_entries ev price p"

locale bid_auction = auction_rule +
  assumes price_law: "ps_SettleAuction s ctx ses bids = Inr r \<Longrightarrow> w \<in> set (rn_Winners r) \<Longrightarrow>
      \<exists>b \<in> set bids. bd_AccountID b = al_AccountID w \<and> 0 < sint (al_AmountCp w) \<and>
        sint (al_AmountCp w) \<le> sint (bd_AmountCp b)"

text \<open>An award event that carries out a resolution.\<close>

definition awards :: "resolution \<Rightarrow> award_event \<Rightarrow> bool" where
  "awards r ev \<longleftrightarrow> (\<exists>w. rn_Winners r = [w] \<and> ar_ID (aw_Buyer ev) = al_AccountID w \<and>
     aw_PriceCp ev = Some (al_AmountCp w))"

context auction_rule begin

lemma settled_award:
  assumes "ps_SettleAuction s ctx ses bids = Inr r" "awards r ev" "ps_PlanAward s ctx' ev = Inr p"
    and "fair_allocator ctx'"
  obtains w debit credits where "rn_Winners r = [w]" "bp_Entries p = debit # credits"
    "ep_AccountID debit = al_AccountID w" "sint (ep_AmountCp debit) = - sint (al_AmountCp w)"
    "0 < sint (al_AmountCp w)" "\<exists>b \<in> set bids. bd_AccountID b = al_AccountID w"
    "\<forall>e \<in> set credits. 0 < sint (ep_AmountCp e)" "sum_list (amounts credits) = sint (al_AmountCp w)"
proof -
  obtain w where w: "rn_Winners r = [w]" "ar_ID (aw_Buyer ev) = al_AccountID w"
    "aw_PriceCp ev = Some (al_AmountCp w)" using assms(2) unfolding awards_def by blast
  from priced_award_law [OF assms(3) w(3) assms(4)] obtain credits where
    c: "0 < sint (al_AmountCp w)" "bp_Entries p = spend_debit ev (al_AmountCp w) # map (spend_credit ev) credits"
    "sum_alloc credits = sint (al_AmountCp w)" "\<forall>c \<in> set credits. 0 < sint (al_AmountCp c)"
    unfolding award_entries_def by blast
  have "\<exists>b \<in> set bids. bd_AccountID b = al_AccountID w"
    using settle_law [OF assms(1)] w(1) by (auto simp: settled_for_def)
  moreover have "sint (ep_AmountCp (spend_debit ev (al_AmountCp w))) = - sint (al_AmountCp w)"
    using c(1) by (simp add: spend_debit_def sint_uminus_pos)
  moreover have "ep_AccountID (spend_debit ev (al_AmountCp w)) = al_AccountID w"
    by (simp add: spend_debit_def w(2))
  moreover have "sum_list (amounts (map (spend_credit ev) credits)) = sint (al_AmountCp w)"
    using c(3) by (simp add: amounts_def sum_alloc_def spend_credit_def o_def)
  moreover have "\<forall>e \<in> set (map (spend_credit ev) credits). 0 < sint (ep_AmountCp e)"
    using c(4) by (simp add: spend_credit_def)
  ultimately show thesis using that w(1) c(1,2) by blast
qed

end

context bid_auction begin

lemma never_overcharged:
  assumes "ps_SettleAuction s ctx ses bids = Inr r" "awards r ev" "ps_PlanAward s ctx' ev = Inr p"
    and "fair_allocator ctx'"
  shows "\<exists>b \<in> set bids. bd_AccountID b = ar_ID (aw_Buyer ev) \<and>
    - sint (bd_AmountCp b) \<le> sint (ep_AmountCp (hd (bp_Entries p))) \<and>
    ep_AccountID (hd (bp_Entries p)) = ar_ID (aw_Buyer ev) \<and>
    (\<forall>e \<in> set (tl (bp_Entries p)). 0 < sint (ep_AmountCp e)) \<and> sum_list (amounts (bp_Entries p)) = 0"
proof -
  obtain w debit credits where w: "rn_Winners r = [w]" "bp_Entries p = debit # credits"
    "ep_AccountID debit = al_AccountID w" "sint (ep_AmountCp debit) = - sint (al_AmountCp w)"
    "\<forall>e \<in> set credits. 0 < sint (ep_AmountCp e)" "sum_list (amounts credits) = sint (al_AmountCp w)"
    by (rule settled_award [OF assms])
  have "al_AccountID w = ar_ID (aw_Buyer ev)" using assms(2) w(1) by (auto simp: awards_def)
  moreover have "\<exists>b \<in> set bids. bd_AccountID b = al_AccountID w \<and> 0 < sint (al_AmountCp w) \<and>
      sint (al_AmountCp w) \<le> sint (bd_AmountCp b)"
    using price_law [OF assms(1), of w] w(1) by simp
  ultimately show ?thesis unfolding w(2) using w(3-6) by (simp add: amounts_def) (meson neg_le_iff_le)
qed

end

end
