(* ===== verification/AuctionOpen.thy ===== *)
theory AuctionOpen
  imports Auction
begin

text \<open>
  \<open>auction_open\<close> (internal/strategy/auction_open.go): the ascending auction. A bid is the minimum
  plus a whole number of increments; the highest bid of the best rung wins and pays itself; equal
  bids are separated by time, and by a seeded roll where the time is equal too.
\<close>

definition auctionOpenID :: string where "auctionOpenID = ''auction_open''"
definition auctionOpenVersion :: string where "auctionOpenVersion = ''0.1.0''"

record auction_open_config =
  ao_MinBidCp :: centipoints
  ao_IncrementCp :: centipoints
  ao_Proceeds :: string
  ao_SoloPolicy :: string
  ao_FloorCp :: centipoints

definition auction_open_knobs :: "auction_open_config knob list" where
  "auction_open_knobs = [(''min_bid_cp'', set_int ao_MinBidCp_update),
     (''increment_cp'', set_int ao_IncrementCp_update),
     (''proceeds'', set_string ao_Proceeds_update),
     (''solo_policy'', set_string ao_SoloPolicy_update),
     (''floor_cp'', set_int ao_FloorCp_update)]"

definition defaultAuctionOpenConfig :: auction_open_config where
  "defaultAuctionOpenConfig = \<lparr>ao_MinBidCp = 100, ao_IncrementCp = 100,
     ao_Proceeds = ProceedsGuildBank, ao_SoloPolicy = SoloPolicyGuildBank, ao_FloorCp = 0\<rparr>"

definition auction_open_terms :: "auction_open_config \<Rightarrow> spend_terms" where
  "auction_open_terms cfg = \<lparr>st_Proceeds = ao_Proceeds cfg, st_SoloPolicy = ao_SoloPolicy cfg,
     st_FloorCp = ao_FloorCp cfg\<rparr>"

definition validateAuctionOpenConfig :: "auction_open_config \<Rightarrow> auction_open_config res" where
  "validateAuctionOpenConfig cfg =
    bindR (validateSpendTerms (auction_open_terms cfg)) (\<lambda>_.
    if ao_MinBidCp cfg \<le>s 0 then Inl ErrInvalidConfig
    else if ao_IncrementCp cfg \<le>s 0 then Inl ErrInvalidConfig
    else Inr cfg)"

definition auction_open_config_of :: "ctx \<Rightarrow> auction_open_config res" where
  "auction_open_config_of ctx =
    bindR (decodeConfig auction_open_knobs (cx_ConfigJSON ctx) defaultAuctionOpenConfig)
      validateAuctionOpenConfig"

definition auction_open_PlanAward :: "ctx \<Rightarrow> award_event \<Rightarrow> batch_proposal res" where
  "auction_open_PlanAward ctx ev = bindR (auction_open_config_of ctx) (\<lambda>cfg.
     case aw_PriceCp ev of None \<Rightarrow> Inl ErrInvalidEvent
     | Some price \<Rightarrow>
         spendAward ctx auctionOpenID auctionOpenVersion (auction_open_terms cfg) ev price)"

definition auction_open_PlanAttendance :: "ctx \<Rightarrow> attendance_event \<Rightarrow> batch_proposal res" where
  "auction_open_PlanAttendance ctx ev = spendPlanAttendance"

definition auction_open_PlanDecay :: "ctx \<Rightarrow> decay_run \<Rightarrow> batch_proposal res" where
  "auction_open_PlanDecay ctx run = spendPlanDecay"

definition auction_open_PlanAdjustment :: "ctx \<Rightarrow> adjustment_event \<Rightarrow> batch_proposal res" where
  "auction_open_PlanAdjustment ctx ev = bindR (auction_open_config_of ctx) (\<lambda>cfg.
     adjustmentProposal ctx auctionOpenID auctionOpenVersion (ao_FloorCp cfg) ev)"

definition auction_open_PlanReversal :: "ctx \<Rightarrow> ledger_batch \<Rightarrow> batch_proposal res" where
  "auction_open_PlanReversal ctx b = reversePlan ctx auctionOpenID b"

definition auction_open_PriceHint :: "ctx \<Rightarrow> item_ref \<Rightarrow> centipoints option res" where
  "auction_open_PriceHint ctx item = bindR (auction_open_config_of ctx) (\<lambda>cfg.
     case it_FixedPriceCp item of Some hint \<Rightarrow> Inr (Some hint) | None \<Rightarrow> Inr (Some (ao_MinBidCp cfg)))"

definition auction_open_ValidateBid :: "ctx \<Rightarrow> account_ref \<Rightarrow> bid \<Rightarrow> unit res" where
  "auction_open_ValidateBid ctx acct b = bindR (auction_open_config_of ctx) (\<lambda>cfg.
     bindR (checkBidIdentity acct b) (\<lambda>_.
     if bd_Sealed b then Inl ErrInvalidEvent
     else if bd_AmountCp b <s ao_MinBidCp cfg then Inl ErrInvalidEvent
     else if go_mod (bd_AmountCp b - ao_MinBidCp cfg) (ao_IncrementCp cfg) \<noteq> 0 then Inl ErrInvalidEvent
     else checkBidAffordable ctx acct b))"

definition auction_open_SettleAuction :: "ctx \<Rightarrow> session \<Rightarrow> bid list \<Rightarrow> resolution res" where
  "auction_open_SettleAuction ctx ses bids = bindR (auction_open_config_of ctx) (\<lambda>cfg.
     let minimum = sessionMinimum ses (ao_MinBidCp cfg);
         eligible = eligibleBids bids minimum
     in if length eligible = 0 then Inr (rotResolution (length bids) minimum)
     else bindR (auction_ranking eligible) (\<lambda>(phase, ordered).
       bindR (settleHighest ctx ordered) (\<lambda>(winner, seed).
       let won = bd_AmountCp (rb_bid winner);
           reason = MsgHighest (length (to_bids phase)) won;
           reason = (if seed \<noteq> None then MsgAfterRoll reason else reason)
       in bindR (auctionTrace (length bids) (length eligible) minimum phase ordered seed) (\<lambda>trace.
       Inr (resolution0\<lparr>
         rn_Winners := [\<lparr>al_AccountID = bd_AccountID (rb_bid winner), al_AmountCp = won\<rparr>],
         rn_Reason := explain phase reason,
         rn_RngSeed := seed,
         rn_WinningTier := to_tier phase,
         rn_TierCounts := to_counts phase,
         rn_Trace := trace @ [mk_step ResolutionStepPrice (MsgPaysBid won)]\<rparr>)))))"

definition AuctionOpen :: point_strategy where
  "AuctionOpen = \<lparr>ps_ID = auctionOpenID, ps_Version = auctionOpenVersion, ps_RuleKind = RuleSpend,
     ps_BalanceKinds = [BalanceKindDKP], ps_PlanAttendance = auction_open_PlanAttendance,
     ps_PlanAward = auction_open_PlanAward, ps_PlanAdjustment = auction_open_PlanAdjustment,
     ps_PlanDecay = auction_open_PlanDecay, ps_PlanReversal = auction_open_PlanReversal,
     ps_Spendable = spendableBalance, ps_Priority = priorityBySpendable,
     ps_PriceHint = auction_open_PriceHint, ps_ValidateBid = auction_open_ValidateBid,
     ps_SettleAuction = auction_open_SettleAuction, ps_Invariants = split_invariants\<rparr>"

section \<open>The configuration and the ledger laws\<close>

definition good_auction_open_config :: "auction_open_config \<Rightarrow> bool" where
  "good_auction_open_config cfg \<longleftrightarrow> validateSpendTerms (auction_open_terms cfg) = Inr () \<and>
     0 < sint (ao_MinBidCp cfg) \<and> 0 < sint (ao_IncrementCp cfg)"

lemma auction_open_config_of_Inr:
  "auction_open_config_of ctx = Inr cfg \<longleftrightarrow>
    decodeConfig auction_open_knobs (cx_ConfigJSON ctx) defaultAuctionOpenConfig = Inr cfg \<and>
    good_auction_open_config cfg"
  by (auto simp: auction_open_config_of_def validateAuctionOpenConfig_def good_auction_open_config_def
    res_simps i64_simps)

lemma auctionOpenID_ne [simp]: "auctionOpenID \<noteq> []"
  by (simp add: auctionOpenID_def)

lemmas auction_open_plans = auction_open_PlanAttendance_def auction_open_PlanAward_def
  auction_open_PlanAdjustment_def auction_open_PlanDecay_def auction_open_PlanReversal_def
  spendPlanAttendance_def spendPlanDecay_def Unsupported_def

interpretation auction_open: ledger_strategy AuctionOpen
  by unfold_locales (auto simp: AuctionOpen_def auction_open_plans bindR_eq_Inr
    split: option.splits dest: batch_laws)

section \<open>Settlement\<close>

lemma auction_open_settle_Inr:
  assumes "auction_open_SettleAuction ctx ses bids = Inr r" "auction_open_config_of ctx = Inr cfg"
  defines "eligible \<equiv> eligibleBids bids (sessionMinimum ses (ao_MinBidCp cfg))"
  obtains (rot) "eligible = []" "r = rotResolution (length bids) (sessionMinimum ses (ao_MinBidCp cfg))"
  | (won) phase head rest winner seed trace where "eligible \<noteq> []"
      "auction_ranking eligible = Inr (phase, head # rest)"
      "settleHighest ctx (head # rest) = Inr (winner, seed)"
      "auctionTrace (length bids) (length eligible) (sessionMinimum ses (ao_MinBidCp cfg)) phase
         (head # rest) seed = Inr trace"
      "rn_Winners r = [\<lparr>al_AccountID = bd_AccountID (rb_bid winner),
         al_AmountCp = bd_AmountCp (rb_bid winner)\<rparr>]"
      "rn_RngSeed r = seed" "rn_Tie r = None" "rn_WinningTier r = to_tier phase"
      "rn_Trace r = trace @ [mk_step ResolutionStepPrice (MsgPaysBid (bd_AmountCp (rb_bid winner)))]"
proof (cases "eligible = []")
  case True
  then show ?thesis
    using assms(1,2) rot by (simp add: auction_open_SettleAuction_def eligible_def)
next
  case False
  then obtain phase ordered where rank: "auction_ranking eligible = Inr (phase, ordered)"
    using assms(1,2) by (auto simp: auction_open_SettleAuction_def eligible_def bindR_eq_Inr Let_def)
  then obtain head rest where o: "ordered = head # rest"
    using auction_ranking_Inr(1) False by (cases ordered) auto
  obtain winner seed where w: "settleHighest ctx (head # rest) = Inr (winner, seed)"
    using assms(1,2) False rank o
    by (auto simp: auction_open_SettleAuction_def eligible_def bindR_eq_Inr Let_def)
  obtain trace where t: "auctionTrace (length bids) (length eligible)
      (sessionMinimum ses (ao_MinBidCp cfg)) phase (head # rest) seed = Inr trace"
    using auctionTrace_total by blast
  show ?thesis
    by (rule won [OF False, of phase head rest winner seed trace])
      (use assms(1,2) False rank o w t in \<open>auto simp: auction_open_SettleAuction_def eligible_def
        Let_def resolution0_def\<close>)
qed

lemma auction_open_bid_law:
  assumes "auction_open_SettleAuction ctx ses bids = Inr r"
  shows "rn_Winners r = [] \<or> (\<exists>w \<in> set bids. 0 < sint (bd_AmountCp w) \<and> rn_Tie r = None \<and>
    rn_Winners r = [\<lparr>al_AccountID = bd_AccountID w, al_AmountCp = bd_AmountCp w\<rparr>] \<and> rn_WinningTier r = tierOf w)"
proof -
  obtain cfg where cfg: "auction_open_config_of ctx = Inr cfg"
    using assms by (auto simp: auction_open_SettleAuction_def bindR_eq_Inr)
  show ?thesis
    using assms cfg
  proof (cases rule: auction_open_settle_Inr)
    case rot
    then show ?thesis by (simp add: rotResolution_def resolution0_def)
  next
    case (won phase head rest winner seed trace)
    note R = auction_ranking_Inr [OF won(2,1)]
    have w: "winner \<in> set (head # rest)" by (rule settleHighest_Inr(1) [OF won(3) R(2)])
    have b: "rb_bid winner \<in> set bids" "0 < sint (bd_AmountCp (rb_bid winner))"
      using ranking_in_eligible(1) [OF won(2,1) w] by (simp_all add: eligibleBids_set)
    have "rn_WinningTier r = tierOf (rb_bid winner)" using won(8) R(3) [OF w] by simp
    then show ?thesis using b won(5,7) by blast
  qed
qed

interpretation auction_open: bid_auction AuctionOpen
proof unfold_locales
  show "settled_for bids r" if "ps_SettleAuction AuctionOpen ctx ses bids = Inr r" for ctx ses bids r
    using auction_open_bid_law [of ctx ses bids r] that
    by (auto simp: AuctionOpen_def settled_for_def)
  show "award_entries ev price p" if "ps_PlanAward AuctionOpen ctx ev = Inr p" "aw_PriceCp ev = Some price"
    "fair_allocator ctx" for ctx ev p price
    using that by (auto simp: AuctionOpen_def auction_open_PlanAward_def bindR_eq_Inr
      intro: spendAward_entries)
  show "\<exists>b \<in> set bids. bd_AccountID b = al_AccountID w \<and> 0 < sint (al_AmountCp w) \<and>
      sint (al_AmountCp w) \<le> sint (bd_AmountCp b)"
    if "ps_SettleAuction AuctionOpen ctx ses bids = Inr r" "w \<in> set (rn_Winners r)" for ctx ses bids r w
    using auction_open_bid_law [of ctx ses bids r] that by (auto simp: AuctionOpen_def)
qed

text \<open>C8: The open auction awards the item to a bid that is eligible, stands on the highest rung that
  holds an eligible bid, offers the most on that rung and is the earliest to offer it; the winner pays
  exactly that bid. When only one account holds such a bid no roll is held and no seed is recorded; when
  several do, the winner is drawn from those accounts, once each and in order, by the seeded roll, and its
  seed is recorded. With no eligible bid nobody wins and no seed is recorded.\<close>

theorem open_auction_winner:
  assumes "auction_open_SettleAuction ctx ses bids = Inr r" "auction_open_config_of ctx = Inr cfg"
  shows "let eligible = eligibleBids bids (sessionMinimum ses (ao_MinBidCp cfg));
      accounts = sorted_list_of_set (bd_AccountID ` {b. wins b eligible}) in
    if eligible = [] then rn_Winners r = [] \<and> rn_RngSeed r = None
    else \<exists>w. wins w eligible \<and>
      rn_Winners r = [\<lparr>al_AccountID = bd_AccountID w, al_AmountCp = bd_AmountCp w\<rparr>] \<and>
      rn_WinningTier r = tierOf w \<and> rn_Tie r = None \<and>
      (if length accounts = 1 then rn_RngSeed r = None
       else rn_RngSeed r = Some (cx_Seed ctx) \<and> bd_AccountID w = accounts ! cx_IntN ctx [] (length accounts))"
  using assms
proof (cases rule: auction_open_settle_Inr)
  case rot
  then show ?thesis by (simp add: rotResolution_def resolution0_def)
next
  case (won phase head rest winner seed trace)
  note R = auction_ranking_Inr [OF won(2,1)]
  have sorted: "sorted (map bid_order (head # rest))" by (rule R(2))
  note S = settleHighest_Inr [OF won(3) sorted] and D = settleHighest_draw [OF won(3) sorted]
  have "rb_account ` {s \<in> set (head # rest). tops s head} =
      bd_AccountID ` {b. wins b (eligibleBids bids (sessionMinimum ses (ao_MinBidCp cfg)))}"
    unfolding ranking_winners [OF won(2,1), symmetric] by (simp add: image_image)
  then show ?thesis unfolding Let_def if_not_P [OF won(1)]
    using won ranking_head_wins [OF won(2,1) S(1,2)] R(3) [OF S(1)] D by (intro exI [of _ "rb_bid winner"]) simp
qed

text \<open>The open auction settles every session whose eligible bids name rungs of the ladder, and
  refuses the others as an invalid event; it never panics.\<close>

theorem open_auction_settles:
  assumes "auction_open_config_of ctx = Inr cfg" "rng_in_range ctx"
  shows "auction_open_SettleAuction ctx ses bids \<in>
    (if \<forall>b \<in> set (eligibleBids bids (sessionMinimum ses (ao_MinBidCp cfg))). tierRank (bd_Tier b) \<noteq> None
     then range Inr else {Inl ErrInvalidEvent})"
proof (cases "eligibleBids bids (sessionMinimum ses (ao_MinBidCp cfg)) = []")
  case True
  then show ?thesis by (simp add: auction_open_SettleAuction_def assms(1))
next
  case False
  show ?thesis
  proof (cases "auction_ranking (eligibleBids bids (sessionMinimum ses (ao_MinBidCp cfg)))")
    case (Inl e)
    then show ?thesis
      using False auction_ranking_total [OF False] auction_ranking_error [OF Inl]
      by (auto simp: auction_open_SettleAuction_def assms(1) Let_def)
  next
    case (Inr r)
    then obtain phase ordered where r: "r = (phase, ordered)" by (cases r)
    have ne: "ordered \<noteq> []" using auction_ranking_Inr(1) Inr r False by blast
    obtain winner seed where w: "settleHighest ctx ordered = Inr (winner, seed)"
      using settleHighest_total [OF ne assms(2)] by blast
    show ?thesis
      using False Inr r w auctionTrace_total [OF ne] auction_ranking_total [OF False]
      by (auto simp: auction_open_SettleAuction_def assms(1) Let_def bindR_eq_Inr image_iff)
  qed
qed

text \<open>Which open auction is settled does not depend on the order in which its bids are listed,
  as long as no two different bids agree on rung, amount, time and account: the whole resolution,
  the trace and the error included, is the same for every permutation.\<close>

theorem open_auction_order_independent:
  assumes "mset bids' = mset bids" "inj_on bid_key (set bids)"
  shows "auction_open_SettleAuction ctx ses bids' = auction_open_SettleAuction ctx ses bids"
proof (cases "auction_open_config_of ctx")
  case (Inl e)
  then show ?thesis by (simp add: auction_open_SettleAuction_def)
next
  case (Inr cfg)
  let ?m = "sessionMinimum ses (ao_MinBidCp cfg)"
  have ms: "mset (eligibleBids bids' ?m) = mset (eligibleBids bids ?m)"
    by (rule eligibleBids_perm [OF assms(1)])
  have len: "length (eligibleBids bids' ?m) = length (eligibleBids bids ?m)" "length bids' = length bids"
    using ms assms(1) by (auto dest: mset_eq_length)
  then have nil: "eligibleBids bids' ?m = [] \<longleftrightarrow> eligibleBids bids ?m = []" by force
  have inj: "inj_on bid_key (set (eligibleBids bids ?m))"
    using assms(2) eligibleBids_subset by (rule inj_on_subset)
  then have inj': "inj_on bid_key (set (eligibleBids bids' ?m))"
    using mset_eq_setD [OF ms] by simp
  show ?thesis
  proof (cases "auction_ranking (eligibleBids bids ?m)")
    case (Inl e)
    then have "\<exists>e'. auction_ranking (eligibleBids bids' ?m) = Inl e'"
      using auction_ranking_perm [OF ms [symmetric] inj']
      by (cases "auction_ranking (eligibleBids bids' ?m)") auto
    then have "auction_ranking (eligibleBids bids' ?m) = Inl e"
      using Inl auction_ranking_error by blast
    then show ?thesis using Inl Inr len nil by (simp add: auction_open_SettleAuction_def Let_def)
  next
    case R: (Inr r)
    obtain phase ordered where r: "r = (phase, ordered)" by (cases r)
    obtain bs where "auction_ranking (eligibleBids bids' ?m) = Inr (phase\<lparr>to_bids := bs\<rparr>, ordered)"
      "length bs = length (to_bids phase)"
      using auction_ranking_perm [OF ms inj R [unfolded r]] by blast
    then show ?thesis
      using R r Inr len nil by (simp add: auction_open_SettleAuction_def Let_def cong: if_cong)
  qed
qed

text \<open>The open auction accepts a bid exactly when it is an unsealed bid of a member account for
  itself, on a rung of the ladder, of the minimum plus a whole number of increments, that the account
  can spend.\<close>

theorem open_auction_accepts:
  assumes "auction_open_config_of ctx = Inr cfg"
  shows "auction_open_ValidateBid ctx acct b = Inr () \<longleftrightarrow>
    ar_ID acct \<noteq> [] \<and> bd_AccountID b = ar_ID acct \<and> \<not> IsSystem acct \<and> tierRank (bd_Tier b) \<noteq> None \<and>
    \<not> bd_Sealed b \<and>
    (\<exists>k \<ge> 0. sint (bd_AmountCp b) = sint (ao_MinBidCp cfg) + k * sint (ao_IncrementCp cfg)) \<and>
    (\<exists>s. spendableBalance ctx acct = Inr s \<and> sint (bd_AmountCp b) \<le> sint s)"
proof -
  let ?a = "sint (bd_AmountCp b)" and ?m = "sint (ao_MinBidCp cfg)" and ?i = "sint (ao_IncrementCp cfg)"
  have pos: "0 < ?m" "0 < ?i"
    using assms by (simp_all add: auction_open_config_of_Inr good_auction_open_config_def)
  have step: "(\<not> ?a < ?m \<and> go_mod (bd_AmountCp b - ao_MinBidCp cfg) (ao_IncrementCp cfg) = 0) \<longleftrightarrow>
    (\<exists>k \<ge> 0. ?a = ?m + k * ?i)"
  proof (cases "?a < ?m")
    case True
    then have "?a \<noteq> ?m + k * ?i" if "0 \<le> k" for k
      using that pos mult_nonneg_nonneg [of k ?i] by linarith
    then show ?thesis using True by blast
  next
    case False
    then have "sint (bd_AmountCp b - ao_MinBidCp cfg) = ?a - ?m"
      using pos sint_bounds [of "bd_AmountCp b"] by (intro sint_sub) (simp add: in64_def)
    then have "go_mod (bd_AmountCp b - ao_MinBidCp cfg) (ao_IncrementCp cfg) = 0 \<longleftrightarrow> ?i dvd ?a - ?m"
      using False pos by (simp add: go_mod_eq_0)
    also have "\<dots> \<longleftrightarrow> (\<exists>k \<ge> 0. ?a = ?m + k * ?i)"
      using False pos by (auto simp: dvd_def algebra_simps mult_less_0_iff
        intro!: exI [where x = "(?a - ?m) div ?i"])
    finally show ?thesis using False by simp
  qed
  show ?thesis
    unfolding auction_open_ValidateBid_def assms bindR_Inr
    by (simp add: bindR_eq_Inr if_Inl_eq_Inr checkBidIdentity_Inr checkBidAffordable_Inr sless_sint
      step [symmetric] conj_ac)
qed

section \<open>Instances\<close>

definition sample_bids :: "bid list" where
  "sample_bids = [sample_bid ''a'' 300 1 ''main'', sample_bid ''b'' 200 1 ''main'',
     sample_bid ''c'' 400 1 '''']"

lemma sample_open: "auction_open_config_of (sample_ctx ''{}'' 500) = Inr defaultAuctionOpenConfig"
  by code_simp

lemma sample_open_settles:
  "\<exists>r. auction_open_SettleAuction (sample_ctx ''{}'' 500) sample_session sample_bids = Inr r"
  by (rule not_isl_Inr, code_simp)

lemma sample_open_eligible: "eligibleBids sample_bids
    (sessionMinimum sample_session (ao_MinBidCp defaultAuctionOpenConfig)) = sample_bids"
  by code_simp

theorem open_auction_winner_witness:
  "\<exists>r w. auction_open_SettleAuction (sample_ctx ''{}'' 500) sample_session sample_bids = Inr r \<and>
    wins w sample_bids \<and> rn_WinningTier r = tierOf w"
  using sample_open_settles open_auction_winner [OF _ sample_open, of sample_session sample_bids]
  unfolding sample_open_eligible Let_def by (auto simp: sample_bids_def)

theorem open_auction_settles_witness:
  "auction_open_SettleAuction (sample_ctx ''{}'' 500) sample_session sample_bids \<in> range Inr"
  using open_auction_settles [OF sample_open, of sample_session sample_bids]
  unfolding sample_open_eligible by (simp add: sample_bids_def sample_bid_def tierRank_cases tier_defs)

theorem open_auction_order_independent_witness:
  "auction_open_SettleAuction (sample_ctx ''{}'' 500) sample_session (rev sample_bids) =
    auction_open_SettleAuction (sample_ctx ''{}'' 500) sample_session sample_bids"
  by (rule open_auction_order_independent) (simp, simp add: sample_bids_def sample_bid_def bid_key_def)

theorem open_auction_accepts_witness:
  "auction_open_ValidateBid (sample_ctx ''{}'' 500)
     \<lparr>ar_ID = ''a'', ar_Kind = KindPerson, ar_SystemKey = [], ar_Label = []\<rparr>
     (sample_bid ''a'' 300 1 ''main'') = Inr ()"
  unfolding open_auction_accepts [OF sample_open]
  by (auto simp: sample_bid_def tierRank_cases tier_defs IsSystem_def account_kind_defs spendableBalance_def
    sample_ctx_def defaultAuctionOpenConfig_def intro!: exI [where x = 2])

end
