(* ===== verification/AuctionSealed.thy ===== *)
theory AuctionSealed
  imports Auction
begin

text \<open>
  \<open>auction_sealed\<close> (internal/strategy/auction_sealed.go): hidden bids. The highest bid of the best
  rung wins and pays either itself or the runner-up plus one increment; bidders who tie at the top
  are never separated by time or by a roll, their tie is handed back for a rebid round.
\<close>

definition auctionSealedID :: string where "auctionSealedID = ''auction_sealed''"
definition auctionSealedVersion :: string where "auctionSealedVersion = ''0.1.0''"
definition PayRuleFirstPrice :: string where "PayRuleFirstPrice = ''first_price''"
definition PayRuleSecondPrice :: string where "PayRuleSecondPrice = ''second_price''"

record auction_sealed_config =
  as_PayRule :: string
  as_MinBidCp :: centipoints
  as_IncrementCp :: centipoints
  as_Proceeds :: string
  as_SoloPolicy :: string
  as_FloorCp :: centipoints

definition auction_sealed_knobs :: "auction_sealed_config knob list" where
  "auction_sealed_knobs = [(''pay_rule'', set_string as_PayRule_update),
     (''min_bid_cp'', set_int as_MinBidCp_update),
     (''increment_cp'', set_int as_IncrementCp_update),
     (''proceeds'', set_string as_Proceeds_update),
     (''solo_policy'', set_string as_SoloPolicy_update),
     (''floor_cp'', set_int as_FloorCp_update)]"

definition defaultAuctionSealedConfig :: auction_sealed_config where
  "defaultAuctionSealedConfig = \<lparr>as_PayRule = PayRuleSecondPrice, as_MinBidCp = 100,
     as_IncrementCp = 100, as_Proceeds = ProceedsGuildBank, as_SoloPolicy = SoloPolicyGuildBank,
     as_FloorCp = 0\<rparr>"

definition auction_sealed_terms :: "auction_sealed_config \<Rightarrow> spend_terms" where
  "auction_sealed_terms cfg = \<lparr>st_Proceeds = as_Proceeds cfg, st_SoloPolicy = as_SoloPolicy cfg,
     st_FloorCp = as_FloorCp cfg\<rparr>"

definition validateAuctionSealedConfig :: "auction_sealed_config \<Rightarrow> auction_sealed_config res" where
  "validateAuctionSealedConfig cfg =
    bindR (validateSpendTerms (auction_sealed_terms cfg)) (\<lambda>_.
    if as_PayRule cfg \<noteq> PayRuleFirstPrice \<and> as_PayRule cfg \<noteq> PayRuleSecondPrice
    then Inl ErrInvalidConfig
    else if as_MinBidCp cfg \<le>s 0 then Inl ErrInvalidConfig
    else if as_IncrementCp cfg \<le>s 0 then Inl ErrInvalidConfig
    else Inr cfg)"

definition auction_sealed_config_of :: "ctx \<Rightarrow> auction_sealed_config res" where
  "auction_sealed_config_of ctx =
    bindR (decodeConfig auction_sealed_knobs (cx_ConfigJSON ctx) defaultAuctionSealedConfig)
      validateAuctionSealedConfig"

definition auction_sealed_PlanAward :: "ctx \<Rightarrow> award_event \<Rightarrow> batch_proposal res" where
  "auction_sealed_PlanAward ctx ev = bindR (auction_sealed_config_of ctx) (\<lambda>cfg.
     case aw_PriceCp ev of None \<Rightarrow> Inl ErrInvalidEvent
     | Some price \<Rightarrow>
         spendAward ctx auctionSealedID auctionSealedVersion (auction_sealed_terms cfg) ev price)"

definition auction_sealed_PlanAttendance :: "ctx \<Rightarrow> attendance_event \<Rightarrow> batch_proposal res" where
  "auction_sealed_PlanAttendance ctx ev = spendPlanAttendance"

definition auction_sealed_PlanDecay :: "ctx \<Rightarrow> decay_run \<Rightarrow> batch_proposal res" where
  "auction_sealed_PlanDecay ctx run = spendPlanDecay"

definition auction_sealed_PlanAdjustment :: "ctx \<Rightarrow> adjustment_event \<Rightarrow> batch_proposal res" where
  "auction_sealed_PlanAdjustment ctx ev = bindR (auction_sealed_config_of ctx) (\<lambda>cfg.
     adjustmentProposal ctx auctionSealedID auctionSealedVersion (as_FloorCp cfg) ev)"

definition auction_sealed_PlanReversal :: "ctx \<Rightarrow> ledger_batch \<Rightarrow> batch_proposal res" where
  "auction_sealed_PlanReversal ctx b = reversePlan ctx auctionSealedID b"

definition auction_sealed_PriceHint :: "ctx \<Rightarrow> item_ref \<Rightarrow> centipoints option res" where
  "auction_sealed_PriceHint ctx item = bindR (auction_sealed_config_of ctx) (\<lambda>cfg.
     Inr (Some (as_MinBidCp cfg)))"

definition auction_sealed_ValidateBid :: "ctx \<Rightarrow> account_ref \<Rightarrow> bid \<Rightarrow> unit res" where
  "auction_sealed_ValidateBid ctx acct b = bindR (auction_sealed_config_of ctx) (\<lambda>cfg.
     bindR (checkBidIdentity acct b) (\<lambda>_.
     if \<not> bd_Sealed b then Inl ErrInvalidEvent
     else if bd_AmountCp b <s as_MinBidCp cfg then Inl ErrInvalidEvent
     else checkBidAffordable ctx acct b))"

section \<open>Settlement\<close>

definition rebidResolution :: "nat \<Rightarrow> nat \<Rightarrow> centipoints \<Rightarrow> tier_outcome \<Rightarrow> ranked_bid list \<Rightarrow>
    ulid list \<Rightarrow> resolution res" where
  "rebidResolution placed eligible minimum phase ordered tied =
    (case ordered of [] \<Rightarrow> Inl Panic | first # _ \<Rightarrow>
     let amount = bd_AmountCp (rb_bid first);
         t = \<lparr>ti_Tier = to_tier phase, ti_AmountCp = amount, ti_Accounts = tied,
               ti_RebidRequired = True\<rparr>;
         (reason, rebid) = (case MinRebidCp t of
             None \<Rightarrow> (MsgTieStuck (length tied) (to_tier phase) amount,
                      MsgTieStuckStep (to_tier phase) (length tied) amount)
           | Some floor_cp \<Rightarrow> (MsgTieRebid (length tied) (to_tier phase) amount floor_cp,
                      MsgTieRebidStep (to_tier phase) (length tied) floor_cp))
     in bindR (auctionTraceThroughAmount placed eligible minimum phase ordered) (\<lambda>trace.
       Inr (resolution0\<lparr>rn_Reason := explain phase reason, rn_Tie := Some t,
         rn_Trace := trace @ [mk_step ResolutionStepRebidRequired rebid]\<rparr>)))"

fun settlePrice_loop :: "auction_sealed_config \<Rightarrow> ranked_bid \<Rightarrow> ranked_bid list \<Rightarrow>
    (centipoints \<times> msg) option" where
  "settlePrice_loop cfg winner [] = None"
| "settlePrice_loop cfg winner (r # rs) =
    (if bd_AccountID (rb_bid r) = bd_AccountID (rb_bid winner) then settlePrice_loop cfg winner rs
     else let won = bd_AmountCp (rb_bid winner) in
       Some (case addCentipoints (bd_AmountCp (rb_bid r)) (as_IncrementCp cfg) of
         None \<Rightarrow> (won, MsgSecondCapped (as_IncrementCp cfg) won)
       | Some raised \<Rightarrow> if won <s raised then (won, MsgSecondCapped (as_IncrementCp cfg) won)
           else (raised, MsgSecondRunnerUp (as_IncrementCp cfg))))"

definition settlePrice :: "auction_sealed_config \<Rightarrow> ranked_bid \<Rightarrow> ranked_bid list \<Rightarrow> tier_outcome \<Rightarrow>
    centipoints \<Rightarrow> centipoints \<times> msg" where
  "settlePrice cfg winner ordered phase minimum =
    (if as_PayRule cfg = PayRuleFirstPrice
     then (bd_AmountCp (rb_bid winner), MsgFirstPrice (length ordered) (bd_AmountCp (rb_bid winner)))
     else case settlePrice_loop cfg winner ordered of
       Some r \<Rightarrow> r
     | None \<Rightarrow> if 0 < to_below phase
         then (minimum, MsgSoleInTier (to_tier phase) minimum (to_below phase))
         else (minimum, MsgSoleBidder minimum))"

definition auction_sealed_SettleAuction :: "ctx \<Rightarrow> session \<Rightarrow> bid list \<Rightarrow> resolution res" where
  "auction_sealed_SettleAuction ctx ses bids = bindR (auction_sealed_config_of ctx) (\<lambda>cfg.
     let minimum = sessionMinimum ses (as_MinBidCp cfg);
         eligible = eligibleBids bids minimum
     in if length eligible = 0 then Inr (rotResolution (length bids) minimum)
     else bindR (auction_ranking eligible) (\<lambda>(phase, ordered).
       let tied = tiedAccounts ordered in
       if 1 < length tied
       then rebidResolution (length bids) (length eligible) minimum phase ordered tied
       else case ordered of [] \<Rightarrow> Inl Panic | winner # _ \<Rightarrow>
         let (price, reason) = settlePrice cfg winner ordered phase minimum in
         bindR (auctionTrace (length bids) (length eligible) minimum phase ordered None) (\<lambda>trace.
         Inr (resolution0\<lparr>
           rn_Winners := [\<lparr>al_AccountID = bd_AccountID (rb_bid winner), al_AmountCp = price\<rparr>],
           rn_Reason := explain phase reason,
           rn_WinningTier := to_tier phase,
           rn_TierCounts := to_counts phase,
           rn_Trace := trace @ [mk_step ResolutionStepPrice reason]\<rparr>))))"

definition AuctionSealed :: point_strategy where
  "AuctionSealed = \<lparr>ps_ID = auctionSealedID, ps_Version = auctionSealedVersion,
     ps_RuleKind = RuleSpend, ps_BalanceKinds = [BalanceKindDKP],
     ps_PlanAttendance = auction_sealed_PlanAttendance,
     ps_PlanAward = auction_sealed_PlanAward, ps_PlanAdjustment = auction_sealed_PlanAdjustment,
     ps_PlanDecay = auction_sealed_PlanDecay, ps_PlanReversal = auction_sealed_PlanReversal,
     ps_Spendable = spendableBalance, ps_Priority = priorityBySpendable,
     ps_PriceHint = auction_sealed_PriceHint, ps_ValidateBid = auction_sealed_ValidateBid,
     ps_SettleAuction = auction_sealed_SettleAuction, ps_Invariants = split_invariants\<rparr>"

section \<open>The configuration and the ledger laws\<close>

definition good_auction_sealed_config :: "auction_sealed_config \<Rightarrow> bool" where
  "good_auction_sealed_config cfg \<longleftrightarrow> validateSpendTerms (auction_sealed_terms cfg) = Inr () \<and>
     as_PayRule cfg \<in> {PayRuleFirstPrice, PayRuleSecondPrice} \<and>
     0 < sint (as_MinBidCp cfg) \<and> 0 < sint (as_IncrementCp cfg)"

lemma auction_sealed_config_of_Inr:
  "auction_sealed_config_of ctx = Inr cfg \<longleftrightarrow>
    decodeConfig auction_sealed_knobs (cx_ConfigJSON ctx) defaultAuctionSealedConfig = Inr cfg \<and>
    good_auction_sealed_config cfg"
  by (auto simp: auction_sealed_config_of_def validateAuctionSealedConfig_def
    good_auction_sealed_config_def res_simps i64_simps)

lemma auctionSealedID_ne [simp]: "auctionSealedID \<noteq> []"
  by (simp add: auctionSealedID_def)

lemmas auction_sealed_plans = auction_sealed_PlanAttendance_def auction_sealed_PlanAward_def
  auction_sealed_PlanAdjustment_def auction_sealed_PlanDecay_def auction_sealed_PlanReversal_def
  spendPlanAttendance_def spendPlanDecay_def Unsupported_def

interpretation auction_sealed: ledger_strategy AuctionSealed
  by unfold_locales (auto simp: AuctionSealed_def auction_sealed_plans bindR_eq_Inr
    split: option.splits dest: batch_laws)

section \<open>What the winner pays\<close>

lemma settlePrice_loop_filter:
  "settlePrice_loop cfg w rs = (case filter (\<lambda>r. rb_account r \<noteq> rb_account w) rs of [] \<Rightarrow> None
     | r # _ \<Rightarrow> Some (case addCentipoints (bd_AmountCp (rb_bid r)) (as_IncrementCp cfg) of
         None \<Rightarrow> (bd_AmountCp (rb_bid w), MsgSecondCapped (as_IncrementCp cfg) (bd_AmountCp (rb_bid w)))
       | Some raised \<Rightarrow> if bd_AmountCp (rb_bid w) <s raised
           then (bd_AmountCp (rb_bid w), MsgSecondCapped (as_IncrementCp cfg) (bd_AmountCp (rb_bid w)))
           else (raised, MsgSecondRunnerUp (as_IncrementCp cfg))))"
  by (induction rs) (auto simp: Let_def)

text \<open>The runner-up is the first bid of another account; where the raise overflows the winner's
  own bid is the smaller one.\<close>

lemma raise_sint:
  assumes "0 < sint inc"
  shows "sint (fst (case addCentipoints x inc of None \<Rightarrow> (won, m)
     | Some raised \<Rightarrow> if won <s raised then (won, m) else (raised, m'))) = min (sint won) (sint x + sint inc)"
  using sint_bounds [of won] sint_bounds [of x] assms
  by (auto simp: addCentipoints_exact i64_simps in64_def sint_add split: option.splits)

definition rivals :: "bid \<Rightarrow> bid list \<Rightarrow> int set" where
  "rivals w es = (\<lambda>b. sint (bd_AmountCp b)) `
     set (filter (\<lambda>b. rank_of b = rank_of w \<and> bd_AccountID b \<noteq> bd_AccountID w) es)"

lemma settlePrice_exact:
  assumes "auction_ranking eligible = Inr (phase, r # rs)" "eligible \<noteq> []" "0 < sint (as_IncrementCp cfg)"
  shows "sint (fst (settlePrice cfg r (r # rs) phase minimum)) =
    (if as_PayRule cfg = PayRuleFirstPrice then sint (bd_AmountCp (rb_bid r))
     else if rivals (rb_bid r) eligible = {} then sint minimum
     else min (sint (bd_AmountCp (rb_bid r))) (Max (rivals (rb_bid r) eligible) + sint (as_IncrementCp cfg)))"
proof -
  note R = auction_ranking_Inr [OF assms(1,2)] and E = ranking_in_eligible [OF assms(1,2)]
  let ?os = "filter (\<lambda>s. rb_account s \<noteq> rb_account r) (r # rs)"
  have riv: "rivals (rb_bid r) eligible = (\<lambda>s. sint (bd_AmountCp (rb_bid s))) ` set ?os"
  proof (intro set_eqI iffI)
    fix x assume "x \<in> rivals (rb_bid r) eligible"
    then obtain b where b: "b \<in> set eligible" "rank_of b = best_rank eligible"
      "bd_AccountID b \<noteq> rb_account r" "x = sint (bd_AmountCp b)"
      using E(2) [of r] by (auto simp: rivals_def)
    obtain s where "s \<in> set (r # rs)" "rb_bid s = b" using ranking_bid [OF assms(1,2) b(1,2)] .
    then have "s \<in> set ?os" "x = sint (bd_AmountCp (rb_bid s))" using b by auto
    then show "x \<in> (\<lambda>s. sint (bd_AmountCp (rb_bid s))) ` set ?os" by blast
  next
    fix x assume "x \<in> (\<lambda>s. sint (bd_AmountCp (rb_bid s))) ` set ?os"
    then obtain s where s: "s \<in> set ?os" "x = sint (bd_AmountCp (rb_bid s))" by blast
    then have "s \<in> set (r # rs)" by simp
    then show "x \<in> rivals (rb_bid r) eligible"
      unfolding rivals_def using E [OF \<open>s \<in> set (r # rs)\<close>] E(2) [of r] s
      by (intro image_eqI [where x = "rb_bid s"]) auto
  qed
  show ?thesis
  proof (cases ?os)
    case Nil
    then show ?thesis by (simp add: settlePrice_def settlePrice_loop_filter riv)
  next
    case (Cons s ss)
    have "sorted (map bid_order (s # ss))"
      unfolding Cons [symmetric] by (rule sorted_filter [OF R(2)])
    then have le: "bid_order s \<le> bid_order t" if "t \<in> set (s # ss)" for t using that by auto
    have mem: "t \<in> set (r # rs)" if "t \<in> set (s # ss)" for t
      using that unfolding Cons [symmetric] by simp
    have "sint (bd_AmountCp (rb_bid t)) \<le> sint (bd_AmountCp (rb_bid s))" if "t \<in> set (s # ss)" for t
      using le [OF that] R(3) [OF mem [OF that]] R(3) [OF mem [of s]] by (auto simp: bid_order_le)
    then have "Max (rivals (rb_bid r) eligible) = sint (bd_AmountCp (rb_bid s))"
      unfolding riv Cons by (intro Max_eqI) auto
    moreover have "rivals (rb_bid r) eligible \<noteq> {}" unfolding riv Cons by simp
    ultimately show ?thesis
      unfolding settlePrice_def settlePrice_loop_filter Cons by (simp add: raise_sint [OF assms(3)])
  qed
qed

lemma settlePrice_range:
  assumes "auction_ranking eligible = Inr (phase, r # rs)" "eligible \<noteq> []" "0 < sint (as_IncrementCp cfg)"
    and "\<forall>b \<in> set eligible. sint minimum \<le> sint (bd_AmountCp b)"
  shows "sint minimum \<le> sint (fst (settlePrice cfg r (r # rs) phase minimum)) \<and>
    sint (fst (settlePrice cfg r (r # rs) phase minimum)) \<le> sint (bd_AmountCp (rb_bid r))"
proof -
  have w: "sint minimum \<le> sint (bd_AmountCp (rb_bid r))"
    using assms(4) ranking_in_eligible(1) [OF assms(1,2), of r] by simp
  have fin: "finite (rivals (rb_bid r) eligible)"
    unfolding rivals_def by simp
  have "sint minimum \<le> Max (rivals (rb_bid r) eligible)" if "rivals (rb_bid r) eligible \<noteq> {}"
    using Max_in [OF fin that] assms(4) by (auto simp: rivals_def)
  then have "rivals (rb_bid r) eligible = {} \<or>
      sint minimum \<le> Max (rivals (rb_bid r) eligible) + sint (as_IncrementCp cfg)"
    using assms(3) by fastforce
  then show ?thesis using w unfolding settlePrice_exact [OF assms(1-3)] by auto
qed

lemma auction_sealed_settle_Inr:
  assumes "auction_sealed_SettleAuction ctx ses bids = Inr r" "auction_sealed_config_of ctx = Inr cfg"
  defines "minimum \<equiv> sessionMinimum ses (as_MinBidCp cfg)"
  defines "eligible \<equiv> eligibleBids bids minimum"
  obtains (rot) "eligible = []" "r = rotResolution (length bids) minimum"
  | (tied) phase head rest trace reason rebid where "eligible \<noteq> []"
      "auction_ranking eligible = Inr (phase, head # rest)" "1 < length (tiedAccounts (head # rest))"
      "r = resolution0\<lparr>rn_Reason := explain phase reason, rn_Tie := Some \<lparr>ti_Tier = to_tier phase,
         ti_AmountCp = bd_AmountCp (rb_bid head), ti_Accounts = tiedAccounts (head # rest),
         ti_RebidRequired = True\<rparr>,
         rn_Trace := trace @ [mk_step ResolutionStepRebidRequired rebid]\<rparr>"
      "auctionTraceThroughAmount (length bids) (length eligible) minimum phase (head # rest) = Inr trace"
  | (won) phase head rest price reason trace where "eligible \<noteq> []"
      "auction_ranking eligible = Inr (phase, head # rest)" "\<not> 1 < length (tiedAccounts (head # rest))"
      "settlePrice cfg head (head # rest) phase minimum = (price, reason)"
      "r = resolution0\<lparr>rn_Winners := [\<lparr>al_AccountID = rb_account head, al_AmountCp = price\<rparr>],
         rn_Reason := explain phase reason, rn_WinningTier := to_tier phase,
         rn_TierCounts := to_counts phase, rn_Trace := trace @ [mk_step ResolutionStepPrice reason]\<rparr>"
      "auctionTrace (length bids) (length eligible) minimum phase (head # rest) None = Inr trace"
proof (cases "eligible = []")
  case True
  then show ?thesis
    using assms(1,2) rot by (simp add: auction_sealed_SettleAuction_def eligible_def minimum_def)
next
  case False
  have s: "auction_sealed_SettleAuction ctx ses bids = bindR (auction_ranking eligible) (\<lambda>(phase, ordered).
       let tied = tiedAccounts ordered in
       if 1 < length tied then rebidResolution (length bids) (length eligible) minimum phase ordered tied
       else case ordered of [] \<Rightarrow> Inl Panic | winner # _ \<Rightarrow>
         let (price, reason) = settlePrice cfg winner ordered phase minimum in
         bindR (auctionTrace (length bids) (length eligible) minimum phase ordered None) (\<lambda>trace.
         Inr (resolution0\<lparr>
           rn_Winners := [\<lparr>al_AccountID = bd_AccountID (rb_bid winner), al_AmountCp = price\<rparr>],
           rn_Reason := explain phase reason,
           rn_WinningTier := to_tier phase,
           rn_TierCounts := to_counts phase,
           rn_Trace := trace @ [mk_step ResolutionStepPrice reason]\<rparr>)))"
    using False unfolding auction_sealed_SettleAuction_def assms(2) bindR_Inr eligible_def minimum_def
      Let_def by simp
  obtain phase ordered where rank: "auction_ranking eligible = Inr (phase, ordered)"
    using assms(1) unfolding s by (auto simp: bindR_eq_Inr)
  then obtain head rest where o: "ordered = head # rest"
    using auction_ranking_Inr(1) False by (cases ordered) auto
  show ?thesis
  proof (cases "1 < length (tiedAccounts (head # rest))")
    case True
    then have rb: "rebidResolution (length bids) (length eligible) minimum phase (head # rest)
      (tiedAccounts (head # rest)) = Inr r"
      using assms(1) unfolding s rank o by (simp add: Let_def)
    then obtain trace where t: "auctionTraceThroughAmount (length bids) (length eligible) minimum phase
        (head # rest) = Inr trace"
      by (auto simp: rebidResolution_def Let_def bindR_eq_Inr split: prod.splits option.splits)
    show ?thesis
      by (cases "MinRebidCp \<lparr>ti_Tier = to_tier phase, ti_AmountCp = bd_AmountCp (rb_bid head),
          ti_Accounts = tiedAccounts (head # rest), ti_RebidRequired = True\<rparr>")
        (use rb t tied [OF False rank [unfolded o] True _ t] in \<open>auto simp: rebidResolution_def Let_def\<close>)
  next
    case n: False
    obtain price reason where p: "settlePrice cfg head (head # rest) phase minimum = (price, reason)"
      by (cases "settlePrice cfg head (head # rest) phase minimum")
    obtain trace where t: "auctionTrace (length bids) (length eligible) minimum phase (head # rest) None
        = Inr trace"
      using auctionTrace_total by blast
    show ?thesis
      by (rule won [OF False rank [unfolded o] n p _ t])
        (use assms(1) n p t in \<open>simp add: s rank o Let_def\<close>)
  qed
qed

section \<open>Ties and sales\<close>

definition contested_top :: "bid list \<Rightarrow> bool" where
  "contested_top es \<longleftrightarrow> (\<exists>a \<in> set (top_bids es). \<exists>b \<in> set (top_bids es). bd_AccountID a \<noteq> bd_AccountID b)"

lemma sealed_tied:
  assumes "auction_sealed_SettleAuction ctx ses bids = Inr r" "auction_sealed_config_of ctx = Inr cfg"
  defines "eligible \<equiv> eligibleBids bids (sessionMinimum ses (as_MinBidCp cfg))"
  shows "if contested_top eligible
    then rn_Winners r = [] \<and> rn_RngSeed r = None \<and> rn_WinningTier r = [] \<and>
      (\<exists>t. rn_Tie r = Some t \<and> ti_RebidRequired t \<and> distinct (ti_Accounts t) \<and> sorted (ti_Accounts t) \<and>
        set (ti_Accounts t) = bd_AccountID ` set (top_bids eligible) \<and>
        (\<forall>b \<in> set (top_bids eligible). bd_AmountCp b = ti_AmountCp t \<and> tierOf b = ti_Tier t))
    else rn_Tie r = None"
  using assms(1,2)
proof (cases rule: auction_sealed_settle_Inr)
  case rot
  then show ?thesis
    by (simp add: contested_top_def top_bids_def eligible_def rotResolution_def resolution0_def)
next
  case (tied phase head rest trace reason rebid)
  note rank = tied(2) [folded eligible_def] and ne = tied(1) [folded eligible_def]
  note T = ranking_tied [OF rank ne]
  have "bd_AmountCp b = bd_AmountCp (rb_bid head) \<and> tierOf b = to_tier phase"
    if "b \<in> set (top_bids eligible)" for b
  proof -
    have "b \<in> rb_bid ` {s \<in> set (head # rest). rb_tier s = rb_tier head \<and> rb_rank s = rb_rank head}"
      using that ranking_top [OF rank ne] by simp
    then obtain s where "s \<in> {s \<in> set (head # rest). rb_tier s = rb_tier head \<and> rb_rank s = rb_rank head}"
      and b: "b = rb_bid s" by (rule imageE)
    then have s: "s \<in> set (head # rest)" "rb_rank s = rb_rank head" by simp_all
    show ?thesis
      using auction_ranking_Inr(3) [OF rank ne s(1)] auction_ranking_Inr(3) [OF rank ne, of head] s(2) b
      by simp
  qed
  moreover have "contested_top eligible" unfolding contested_top_def T(4) [symmetric] by (rule tied(3))
  ultimately show ?thesis using T(1-3) by (simp add: tied(4) resolution0_def)
next
  case (won phase head rest price reason trace)
  have "\<not> contested_top eligible"
    using won(3) unfolding contested_top_def eligible_def ranking_tied(4) [OF won(2,1)] .
  then show ?thesis by (simp add: won(5) resolution0_def)
qed

lemma sealed_sold:
  assumes "auction_sealed_SettleAuction ctx ses bids = Inr r" "auction_sealed_config_of ctx = Inr cfg"
  defines "minimum \<equiv> sessionMinimum ses (as_MinBidCp cfg)"
  defines "eligible \<equiv> eligibleBids bids minimum"
  assumes "eligible \<noteq> []" "rn_Tie r = None"
  obtains w price where "wins w eligible" "rn_WinningTier r = tierOf w" "rn_RngSeed r = None"
    "rn_Winners r = [\<lparr>al_AccountID = bd_AccountID w, al_AmountCp = price\<rparr>]"
    "sint minimum \<le> sint price" "sint price \<le> sint (bd_AmountCp w)"
    "sint price = (if as_PayRule cfg = PayRuleFirstPrice then sint (bd_AmountCp w)
       else if rivals w eligible = {} then sint minimum
       else min (sint (bd_AmountCp w)) (Max (rivals w eligible) + sint (as_IncrementCp cfg)))"
    "w \<in> set (top_bids eligible)" "tierRank (bd_Tier w) \<noteq> None"
  using assms(1,2)
proof (cases rule: auction_sealed_settle_Inr)
  case rot
  then show ?thesis using assms(5) by (simp add: eligible_def minimum_def)
next
  case (tied phase head rest trace reason rebid)
  then show ?thesis using assms(6) by (simp add: resolution0_def)
next
  case (won phase head rest price reason trace)
  note rank = won(2) [folded minimum_def, folded eligible_def]
  have pos: "0 < sint (as_IncrementCp cfg)"
    using assms(2) by (simp add: auction_sealed_config_of_Inr good_auction_sealed_config_def)
  have price: "price = fst (settlePrice cfg head (head # rest) phase minimum)"
    using won(4) by (simp add: minimum_def)
  have elig: "\<forall>b \<in> set eligible. sint minimum \<le> sint (bd_AmountCp b)"
    by (auto simp: eligible_def eligibleBids_set)
  show ?thesis
  proof (rule that)
    show "wins (rb_bid head) eligible"
      by (rule ranking_head_wins [OF rank assms(5)]) (simp_all add: tops_def)
    show "rn_WinningTier r = tierOf (rb_bid head)"
      using auction_ranking_Inr(3) [OF rank assms(5), of head] won(5) by simp
    show "rb_bid head \<in> set (top_bids eligible)"
      using ranking_top [OF rank assms(5)] by auto
    show "tierRank (bd_Tier (rb_bid head)) \<noteq> None"
      using auction_ranking_Inr(6) [OF rank assms(5)] ranking_in_eligible(1) [OF rank assms(5), of head] by simp
    show "rn_Winners r = [\<lparr>al_AccountID = rb_account head, al_AmountCp = price\<rparr>]" "rn_RngSeed r = None"
      using won(5) by (simp_all add: resolution0_def)
  qed (use settlePrice_range [OF rank assms(5) pos elig] settlePrice_exact [OF rank assms(5) pos]
    in \<open>simp_all add: price\<close>)
qed

lemma auction_sealed_bid_law:
  assumes "auction_sealed_SettleAuction ctx ses bids = Inr r"
  shows "rn_Winners r = [] \<or> (\<exists>w \<in> set bids. \<exists>price. 0 < sint price \<and> sint price \<le> sint (bd_AmountCp w) \<and>
    rn_Tie r = None \<and> rn_Winners r = [\<lparr>al_AccountID = bd_AccountID w, al_AmountCp = price\<rparr>] \<and>
    rn_WinningTier r = tierOf w)"
proof -
  obtain cfg where cfg: "auction_sealed_config_of ctx = Inr cfg"
    using assms by (auto simp: auction_sealed_SettleAuction_def bindR_eq_Inr)
  then have pos: "0 < sint (sessionMinimum ses (as_MinBidCp cfg))"
    by (simp add: auction_sealed_config_of_Inr good_auction_sealed_config_def sessionMinimum_sint
      less_max_iff_disj)
  let ?es = "eligibleBids bids (sessionMinimum ses (as_MinBidCp cfg))"
  show ?thesis
  proof (cases "?es = [] \<or> contested_top ?es")
    case True
    then show ?thesis
    proof
      assume "?es = []"
      then have "r = rotResolution (length bids) (sessionMinimum ses (as_MinBidCp cfg))"
        using assms cfg by (simp add: auction_sealed_SettleAuction_def)
      then show ?thesis by (simp add: rotResolution_def resolution0_def)
    next
      assume "contested_top ?es"
      then show ?thesis using sealed_tied [OF assms cfg] by simp
    qed
  next
    case False
    then have t: "rn_Tie r = None" and ne: "?es \<noteq> []" using sealed_tied [OF assms cfg] by simp_all
    obtain w price where w: "wins w ?es" "rn_WinningTier r = tierOf w"
      "rn_Winners r = [\<lparr>al_AccountID = bd_AccountID w, al_AmountCp = price\<rparr>]"
      "sint (sessionMinimum ses (as_MinBidCp cfg)) \<le> sint price" "sint price \<le> sint (bd_AmountCp w)"
      by (rule sealed_sold [OF assms cfg ne t])
    have "w \<in> set bids" using w(1) by (auto simp: wins_def eligibleBids_set)
    moreover have "0 < sint price" using w(4) pos by linarith
    ultimately show ?thesis using w t by blast
  qed
qed

interpretation auction_sealed: bid_auction AuctionSealed
proof unfold_locales
  show "settled_for bids r" if "ps_SettleAuction AuctionSealed ctx ses bids = Inr r" for ctx ses bids r
    using auction_sealed_bid_law [of ctx ses bids r] that
    by (auto simp: AuctionSealed_def settled_for_def)
  show "award_entries ev price p" if "ps_PlanAward AuctionSealed ctx ev = Inr p" "aw_PriceCp ev = Some price"
    "fair_allocator ctx" for ctx ev p price
    using that by (auto simp: AuctionSealed_def auction_sealed_PlanAward_def bindR_eq_Inr
      intro: spendAward_entries)
  show "\<exists>b \<in> set bids. bd_AccountID b = al_AccountID w \<and> 0 < sint (al_AmountCp w) \<and>
      sint (al_AmountCp w) \<le> sint (bd_AmountCp b)"
    if "ps_SettleAuction AuctionSealed ctx ses bids = Inr r" "w \<in> set (rn_Winners r)" for ctx ses bids r w
    using auction_sealed_bid_law [of ctx ses bids r] that by (auto simp: AuctionSealed_def)
qed

text \<open>C9: When bids of two different accounts stand at the top of a sealed auction, nobody wins, no
  seed is drawn, and the resolution names exactly those accounts, once each and in order, at the
  amount and on the rung they tied at, for a rebid round; otherwise it reports no tie.\<close>

theorem sealed_auction_tie:
  assumes "auction_sealed_SettleAuction ctx ses bids = Inr r" "auction_sealed_config_of ctx = Inr cfg"
  shows "let eligible = eligibleBids bids (sessionMinimum ses (as_MinBidCp cfg)) in
    if contested_top eligible
    then rn_Winners r = [] \<and> rn_RngSeed r = None \<and> rn_WinningTier r = [] \<and>
      (\<exists>t. rn_Tie r = Some t \<and> ti_RebidRequired t \<and> distinct (ti_Accounts t) \<and> sorted (ti_Accounts t) \<and>
        set (ti_Accounts t) = bd_AccountID ` set (top_bids eligible) \<and>
        (\<forall>b \<in> set (top_bids eligible). bd_AmountCp b = ti_AmountCp t \<and> tierOf b = ti_Tier t))
    else rn_Tie r = None"
  unfolding Let_def by (rule sealed_tied [OF assms])

text \<open>C10: A sealed auction with an eligible bid that reports no tie sells to a winning bid, never below the session's
  minimum and never above the winner's own bid; under first price the winner pays that bid, under
  second price the best rival on its rung plus one increment, capped at its own bid (also where the
  sum overflows 64 bits), and the minimum when it has no rival there.\<close>

theorem sealed_auction_price:
  assumes "auction_sealed_SettleAuction ctx ses bids = Inr r" "auction_sealed_config_of ctx = Inr cfg"
    and "eligibleBids bids (sessionMinimum ses (as_MinBidCp cfg)) \<noteq> []" "rn_Tie r = None"
  shows "let minimum = sessionMinimum ses (as_MinBidCp cfg); eligible = eligibleBids bids minimum in
    \<exists>w price. wins w eligible \<and> rn_WinningTier r = tierOf w \<and> rn_RngSeed r = None \<and>
      rn_Winners r = [\<lparr>al_AccountID = bd_AccountID w, al_AmountCp = price\<rparr>] \<and>
      sint minimum \<le> sint price \<and> sint price \<le> sint (bd_AmountCp w) \<and>
      sint price = (if as_PayRule cfg = PayRuleFirstPrice then sint (bd_AmountCp w)
        else if rivals w eligible = {} then sint minimum
        else min (sint (bd_AmountCp w)) (Max (rivals w eligible) + sint (as_IncrementCp cfg)))"
  unfolding Let_def by (rule sealed_sold [OF assms]) blast

section \<open>When bids were placed does not matter\<close>

definition retimed :: "(bid \<Rightarrow> micros) \<Rightarrow> bid \<Rightarrow> bid" where
  "retimed f b = b\<lparr>bd_PlacedAt := f b\<rparr>"

lemma retimed_sel [simp]:
  "bd_AccountID (retimed f b) = bd_AccountID b" "bd_AmountCp (retimed f b) = bd_AmountCp b"
  "bd_Tier (retimed f b) = bd_Tier b" "tierOf (retimed f b) = tierOf b" "rank_of (retimed f b) = rank_of b"
  by (simp_all add: retimed_def tierOf_def rank_of_def)

lemma retimed_eligible: "eligibleBids (map (retimed f) bids) m = map (retimed f) (eligibleBids bids m)"
  by (simp add: eligibleBids_def filter_map o_def)

lemma retimed_rivals: "rivals (retimed f w) (map (retimed f) es) = rivals w es"
  by (simp add: rivals_def filter_map o_def image_image)

lemma retimed_best: "best_rank (map (retimed f) es) = best_rank es"
  by (simp add: best_rank_def image_image)

lemma retimed_top: "top_bids (map (retimed f) es) = map (retimed f) (top_bids es)"
  by (simp add: top_bids_def filter_map o_def retimed_best)

lemma retimed_contested: "contested_top (map (retimed f) es) \<longleftrightarrow> contested_top es"
  by (simp add: contested_top_def retimed_top)

lemma rivals_account: "rank_of a = rank_of b \<Longrightarrow> bd_AccountID a = bd_AccountID b \<Longrightarrow> rivals a es = rivals b es"
  by (simp add: rivals_def)

lemma top_bids_amount:
  assumes "a \<in> set (top_bids es)" "b \<in> set (top_bids es)"
  shows "bd_AmountCp a = bd_AmountCp b \<and> rank_of a = rank_of b"
proof -
  have "sint (bd_AmountCp a) \<le> sint (bd_AmountCp b)" "sint (bd_AmountCp b) \<le> sint (bd_AmountCp a)"
    using assms by (simp_all add: top_bids_def)
  then have "bd_AmountCp a = bd_AmountCp b" by (simp flip: sint_inject64)
  then show ?thesis using assms by (simp add: top_bids_def)
qed

lemma top_bids_uncontested:
  "\<not> contested_top es \<Longrightarrow> a \<in> set (top_bids es) \<Longrightarrow> b \<in> set (top_bids es) \<Longrightarrow>
    bd_AccountID a = bd_AccountID b"
  unfolding contested_top_def by blast

lemma tierOf_rank: "tierRank (bd_Tier a) \<noteq> None \<Longrightarrow> rank_of a = rank_of b \<Longrightarrow>
    tierRank (bd_Tier b) \<noteq> None \<Longrightarrow> tierOf a = tierOf b"
  by (auto simp: rank_of_def tierRank_tierOf intro!: tierRank_inj)

text \<open>Nothing below the amount separates the bidders of a sealed auction: changing when any of
  the bids were placed changes neither who wins, nor at what price, nor whether there is a tie and
  between whom.\<close>

theorem sealed_auction_ignores_time:
  assumes "auction_sealed_SettleAuction ctx ses bids = Inr r"
    and "auction_sealed_SettleAuction ctx ses (map (retimed f) bids) = Inr r'"
  shows "rn_Winners r' = rn_Winners r \<and> rn_Tie r' = rn_Tie r \<and> rn_WinningTier r' = rn_WinningTier r"
proof -
  obtain cfg where cfg: "auction_sealed_config_of ctx = Inr cfg"
    using assms(1) by (auto simp: auction_sealed_SettleAuction_def bindR_eq_Inr)
  define m where "m = sessionMinimum ses (as_MinBidCp cfg)"
  let ?es = "eligibleBids bids m"
  note T = sealed_tied [OF assms(1) cfg, folded m_def]
    and T' = sealed_tied [OF assms(2) cfg, folded m_def, unfolded retimed_eligible retimed_contested retimed_top]
  show ?thesis
  proof (cases "contested_top ?es")
    case True
    then obtain b where b: "b \<in> set (top_bids ?es)" by (auto simp: contested_top_def)
    from True T obtain t where t: "rn_Tie r = Some t" "ti_RebidRequired t" "distinct (ti_Accounts t)"
      "sorted (ti_Accounts t)" "set (ti_Accounts t) = bd_AccountID ` set (top_bids ?es)"
      "\<forall>b \<in> set (top_bids ?es). bd_AmountCp b = ti_AmountCp t \<and> tierOf b = ti_Tier t"
      "rn_Winners r = []" "rn_WinningTier r = []" by auto
    from True T' obtain t' where t': "rn_Tie r' = Some t'" "ti_RebidRequired t'" "distinct (ti_Accounts t')"
      "sorted (ti_Accounts t')" "set (ti_Accounts t') = bd_AccountID ` set (top_bids ?es)"
      "\<forall>b \<in> set (top_bids ?es). bd_AmountCp b = ti_AmountCp t' \<and> tierOf b = ti_Tier t'"
      "rn_Winners r' = []" "rn_WinningTier r' = []" by (auto simp: image_image)
    have "ti_Accounts t' = ti_Accounts t"
      using t(3-5) t'(3-5) by (intro sorted_distinct_set_unique) simp_all
    moreover have "ti_AmountCp t' = ti_AmountCp t" "ti_Tier t' = ti_Tier t"
      using t(6) t'(6) b by auto
    ultimately have "t' = t" using t(2) t'(2) by simp
    then show ?thesis using t t' by simp
  next
    case False
    then have ties: "rn_Tie r = None" "rn_Tie r' = None" using T T' by simp_all
    show ?thesis
    proof (cases "?es = []")
      case True
      then have "r = rotResolution (length bids) m" "r' = rotResolution (length bids) m"
        using assms cfg by (simp_all add: auction_sealed_SettleAuction_def m_def [symmetric] retimed_eligible)
      then show ?thesis by simp
    next
      case ne: False
      obtain w price where w: "rn_WinningTier r = tierOf w" "w \<in> set (top_bids ?es)" "tierRank (bd_Tier w) \<noteq> None"
        "rn_Winners r = [\<lparr>al_AccountID = bd_AccountID w, al_AmountCp = price\<rparr>]"
        "sint price = (if as_PayRule cfg = PayRuleFirstPrice then sint (bd_AmountCp w)
          else if rivals w ?es = {} then sint m
          else min (sint (bd_AmountCp w)) (Max (rivals w ?es) + sint (as_IncrementCp cfg)))"
        by (rule sealed_sold [OF assms(1) cfg, folded m_def, OF ne ties(1)])
      have ne': "eligibleBids (map (retimed f) bids) m \<noteq> []" using ne by (simp add: retimed_eligible)
      obtain w' price' where w': "rn_WinningTier r' = tierOf w'" "w' \<in> set (top_bids (map (retimed f) ?es))"
        "tierRank (bd_Tier w') \<noteq> None"
        "rn_Winners r' = [\<lparr>al_AccountID = bd_AccountID w', al_AmountCp = price'\<rparr>]"
        "sint price' = (if as_PayRule cfg = PayRuleFirstPrice then sint (bd_AmountCp w')
          else if rivals w' (map (retimed f) ?es) = {} then sint m
          else min (sint (bd_AmountCp w')) (Max (rivals w' (map (retimed f) ?es)) + sint (as_IncrementCp cfg)))"
        by (rule sealed_sold [OF assms(2) cfg, folded m_def, OF ne' ties(2), unfolded retimed_eligible])
      from w'(2) obtain v where v: "v \<in> set (top_bids ?es)" "w' = retimed f v" by (auto simp: retimed_top)
      have eq: "bd_AccountID v = bd_AccountID w" "bd_AmountCp v = bd_AmountCp w" "rank_of v = rank_of w"
        using top_bids_uncontested [OF False v(1) w(2)] top_bids_amount [OF v(1) w(2)] by simp_all
      have "rivals w' (map (retimed f) ?es) = rivals w ?es"
        unfolding v(2) retimed_rivals by (rule rivals_account [OF eq(3,1)])
      then have "price' = price" using w(5) w'(5) eq v(2) by (simp flip: sint_inject64)
      moreover have "tierOf v = tierOf w" using tierOf_rank [OF _ eq(3)] w(3) w'(3) v(2) by simp
      ultimately show ?thesis using w w' v eq ties by simp
    qed
  qed
qed

section \<open>Instances\<close>

definition sealed_bids :: "bid list" where
  "sealed_bids = [sample_bid ''a'' 500 3 ''main'', sample_bid ''b'' 300 1 ''main'',
     sample_bid ''c'' 900 1 '''']"

definition tied_bids :: "bid list" where
  "tied_bids = [sample_bid ''a'' 300 3 ''main'', sample_bid ''b'' 300 1 ''main'']"

lemma sample_sealed: "auction_sealed_config_of (sample_ctx ''{}'' 500) = Inr defaultAuctionSealedConfig"
  by code_simp

lemma sample_sealed_settles:
  "\<exists>r. auction_sealed_SettleAuction (sample_ctx ''{}'' 500) sample_session sealed_bids = Inr r \<and>
    rn_Tie r = None"
proof -
  have "(case auction_sealed_SettleAuction (sample_ctx ''{}'' 500) sample_session sealed_bids of
      Inl _ \<Rightarrow> False | Inr r \<Rightarrow> rn_Tie r = None)" by code_simp
  then show ?thesis by (simp split: sum.splits)
qed

lemma sample_sealed_ties:
  "\<exists>r. auction_sealed_SettleAuction (sample_ctx ''{}'' 500) sample_session tied_bids = Inr r"
  by (rule not_isl_Inr, code_simp)

lemma sample_sealed_eligible:
  "eligibleBids sealed_bids (sessionMinimum sample_session (as_MinBidCp defaultAuctionSealedConfig)) = sealed_bids"
  "eligibleBids tied_bids (sessionMinimum sample_session (as_MinBidCp defaultAuctionSealedConfig)) = tied_bids"
  by code_simp+

lemma sample_tied: "contested_top tied_bids" "map bd_AccountID (top_bids tied_bids) = [''a'', ''b'']"
  by (code_simp, code_simp)

theorem sealed_auction_tie_witness:
  "\<exists>r t. auction_sealed_SettleAuction (sample_ctx ''{}'' 500) sample_session tied_bids = Inr r \<and>
    rn_Winners r = [] \<and> rn_Tie r = Some t \<and> set (ti_Accounts t) = {''a'', ''b''}"
proof -
  obtain r where r: "auction_sealed_SettleAuction (sample_ctx ''{}'' 500) sample_session tied_bids = Inr r"
    using sample_sealed_ties by blast
  have "bd_AccountID ` set (top_bids tied_bids) = {''a'', ''b''}"
    using arg_cong [OF sample_tied(2), of set] by simp
  then show ?thesis
    using sealed_auction_tie [OF r sample_sealed] r
    unfolding sample_sealed_eligible Let_def by (auto simp: sample_tied(1))
qed

theorem sealed_auction_price_witness:
  "\<exists>r w price. auction_sealed_SettleAuction (sample_ctx ''{}'' 500) sample_session sealed_bids = Inr r \<and>
    rn_Winners r = [\<lparr>al_AccountID = bd_AccountID w, al_AmountCp = price\<rparr>] \<and>
    wins w sealed_bids \<and> 100 \<le> sint price"
proof -
  obtain r where r: "auction_sealed_SettleAuction (sample_ctx ''{}'' 500) sample_session sealed_bids = Inr r"
    "rn_Tie r = None" using sample_sealed_settles by blast
  have "sealed_bids \<noteq> []" "sint (sessionMinimum sample_session (as_MinBidCp defaultAuctionSealedConfig)) = 100"
    by (simp_all add: sealed_bids_def sample_session_def sessionMinimum_def defaultAuctionSealedConfig_def i64_simps)
  then show ?thesis
    using sealed_auction_price [OF r(1) sample_sealed _ r(2)] r(1)
    unfolding sample_sealed_eligible Let_def by auto
qed

theorem sealed_auction_ignores_time_witness:
  "\<exists>r r'. auction_sealed_SettleAuction (sample_ctx ''{}'' 500) sample_session sealed_bids = Inr r \<and>
    auction_sealed_SettleAuction (sample_ctx ''{}'' 500) sample_session
      (map (retimed (\<lambda>_. 77)) sealed_bids) = Inr r' \<and> rn_Winners r' = rn_Winners r"
proof -
  obtain r where r: "auction_sealed_SettleAuction (sample_ctx ''{}'' 500) sample_session sealed_bids = Inr r"
    using sample_sealed_settles by blast
  have "\<exists>r'. auction_sealed_SettleAuction (sample_ctx ''{}'' 500) sample_session
      (map (retimed (\<lambda>_. 77)) sealed_bids) = Inr r'" by (rule not_isl_Inr, code_simp)
  then show ?thesis using sealed_auction_ignores_time [OF r] r by blast
qed

end
