(* ===== verification/RelativeBid.thy ===== *)
theory RelativeBid
  imports Auction
begin

text \<open>
  \<open>relative_bid\<close> (internal/strategy/relative_bid.go): a bid commits a share of the bidder's own
  balance, frozen at the sequence number at which the session opened. The largest share of the best
  rung wins and pays what it committed; equal shares go to the earlier bid and then to a seeded roll.
\<close>

definition relativeBidID :: string where "relativeBidID = ''relative_bid''"
definition relativeBidVersion :: string where "relativeBidVersion = ''0.1.0''"

record relative_bid_config =
  rl_MinBidBp :: i64
  rl_MaxBidBp :: i64
  rl_Proceeds :: string
  rl_SoloPolicy :: string
  rl_FloorCp :: centipoints

definition relative_bid_knobs :: "relative_bid_config knob list" where
  "relative_bid_knobs = [(''min_bid_bp'', set_int rl_MinBidBp_update),
     (''max_bid_bp'', set_int rl_MaxBidBp_update),
     (''proceeds'', set_string rl_Proceeds_update),
     (''solo_policy'', set_string rl_SoloPolicy_update),
     (''floor_cp'', set_int rl_FloorCp_update)]"

definition defaultRelativeBidConfig :: relative_bid_config where
  "defaultRelativeBidConfig = \<lparr>rl_MinBidBp = 0, rl_MaxBidBp = basisPointsWhole,
     rl_Proceeds = ProceedsGuildBank, rl_SoloPolicy = SoloPolicyGuildBank, rl_FloorCp = 0\<rparr>"

definition relative_bid_terms :: "relative_bid_config \<Rightarrow> spend_terms" where
  "relative_bid_terms cfg = \<lparr>st_Proceeds = rl_Proceeds cfg, st_SoloPolicy = rl_SoloPolicy cfg,
     st_FloorCp = rl_FloorCp cfg\<rparr>"

definition validateRelativeBidConfig :: "relative_bid_config \<Rightarrow> relative_bid_config res" where
  "validateRelativeBidConfig cfg =
    bindR (validateSpendTerms (relative_bid_terms cfg)) (\<lambda>_.
    if rl_MinBidBp cfg <s 0 \<or> basisPointsWhole <s rl_MinBidBp cfg then Inl ErrInvalidConfig
    else if rl_MaxBidBp cfg \<le>s 0 \<or> basisPointsWhole <s rl_MaxBidBp cfg then Inl ErrInvalidConfig
    else if rl_MaxBidBp cfg <s rl_MinBidBp cfg then Inl ErrInvalidConfig
    else Inr cfg)"

definition relative_bid_config_of :: "ctx \<Rightarrow> relative_bid_config res" where
  "relative_bid_config_of ctx =
    bindR (decodeConfig relative_bid_knobs (cx_ConfigJSON ctx) defaultRelativeBidConfig)
      validateRelativeBidConfig"

definition relative_bid_PlanAward :: "ctx \<Rightarrow> award_event \<Rightarrow> batch_proposal res" where
  "relative_bid_PlanAward ctx ev = bindR (relative_bid_config_of ctx) (\<lambda>cfg.
     case aw_PriceCp ev of None \<Rightarrow> Inl ErrInvalidEvent
     | Some price \<Rightarrow>
         spendAward ctx relativeBidID relativeBidVersion (relative_bid_terms cfg) ev price)"

definition relative_bid_PlanAttendance :: "ctx \<Rightarrow> attendance_event \<Rightarrow> batch_proposal res" where
  "relative_bid_PlanAttendance ctx ev = spendPlanAttendance"

definition relative_bid_PlanDecay :: "ctx \<Rightarrow> decay_run \<Rightarrow> batch_proposal res" where
  "relative_bid_PlanDecay ctx run = spendPlanDecay"

definition relative_bid_PlanAdjustment :: "ctx \<Rightarrow> adjustment_event \<Rightarrow> batch_proposal res" where
  "relative_bid_PlanAdjustment ctx ev = bindR (relative_bid_config_of ctx) (\<lambda>cfg.
     adjustmentProposal ctx relativeBidID relativeBidVersion (rl_FloorCp cfg) ev)"

definition relative_bid_PlanReversal :: "ctx \<Rightarrow> ledger_batch \<Rightarrow> batch_proposal res" where
  "relative_bid_PlanReversal ctx b = reversePlan ctx relativeBidID b"

definition relative_bid_Priority :: "ctx \<Rightarrow> account_ref \<Rightarrow> priority res" where
  "relative_bid_Priority ctx acct = Inr \<lparr>pr_Rank = 0, pr_Tiebreak = ar_ID acct,
     pr_Reason = ''every bidder may commit the same share of their own balance; the bid decides''\<rparr>"

definition relative_bid_PriceHint :: "ctx \<Rightarrow> item_ref \<Rightarrow> centipoints option res" where
  "relative_bid_PriceHint ctx item = Inr None"

definition outside_bounds :: "relative_bid_config \<Rightarrow> i64 \<Rightarrow> bool" where
  "outside_bounds cfg sh \<longleftrightarrow> sh <s rl_MinBidBp cfg \<or> rl_MaxBidBp cfg <s sh"

definition relative_bid_ValidateBid :: "ctx \<Rightarrow> account_ref \<Rightarrow> bid \<Rightarrow> unit res" where
  "relative_bid_ValidateBid ctx acct b = bindR (relative_bid_config_of ctx) (\<lambda>cfg.
     bindR (checkBidIdentity acct b) (\<lambda>_.
     if bd_AmountCp b \<le>s 0 then Inl ErrInvalidEvent
     else bindR (spendableBalance ctx acct) (\<lambda>balance.
       if balance \<le>s 0 then Inl ErrInvalidEvent
       else bindR (shareBasisPoints (bd_AmountCp b) balance) (\<lambda>sh.
         case sh of None \<Rightarrow> Inl ErrInvalidEvent
         | Some sh \<Rightarrow> if outside_bounds cfg sh then Inl ErrInvalidEvent else Inr ()))))"

section \<open>Settlement\<close>

fun rank_shares :: "relative_bid_config \<Rightarrow> ctx \<Rightarrow> i64 \<Rightarrow> bid list \<Rightarrow> (ranked_bid list \<times> nat) res" where
  "rank_shares cfg ctx at [] = Inr ([], 0)"
| "rank_shares cfg ctx at (b # bs) =
    bindR (cx_Balance ctx (bd_AccountID b) BalanceKindDKP at) (\<lambda>frozen.
    bindR (shareBasisPoints (bd_AmountCp b) frozen) (\<lambda>sh.
    bindR (rank_shares cfg ctx at bs) (\<lambda>(ranked, ignored).
    Inr (case sh of None \<Rightarrow> (ranked, ignored + 1)
       | Some s \<Rightarrow> if outside_bounds cfg s then (ranked, ignored + 1)
           else (\<lparr>rb_bid = b, rb_rank = s, rb_tier = 0\<rparr> # ranked, ignored)))))"

definition relative_bid_SettleAuction :: "ctx \<Rightarrow> session \<Rightarrow> bid list \<Rightarrow> resolution res" where
  "relative_bid_SettleAuction ctx ses bids = bindR (relative_bid_config_of ctx) (\<lambda>cfg.
     let at = ss_SeqAtOpen ses; lo = rl_MinBidBp cfg; hi = rl_MaxBidBp cfg in
     bindR (rank_shares cfg ctx at (eligibleBids bids (ss_MinAmountCp ses))) (\<lambda>(ranked, ignored).
     if length ranked = 0
     then let nothing = MsgNoShare (length bids) lo hi at in
       Inr (resolution0\<lparr>rn_Reason := nothing,
         rn_Trace := [mk_step ResolutionStepEligibility nothing]\<rparr>)
     else bindR (rankBids ranked) (\<lambda>ordered.
     bindR (settleHighest ctx ordered) (\<lambda>(winner, seed).
     let won = bd_AmountCp (rb_bid winner);
         reason = MsgLargestShare at (rb_rank winner) won;
         reason = (if 0 < ignored then MsgIgnored reason ignored else reason)
     in bindR (tierOutcomeOf ordered ''bid'') (\<lambda>phase.
     let reason = explain phase reason;
         reason = (if seed \<noteq> None then MsgAfterRoll reason else reason);
         trace = [mk_step ResolutionStepEligibility (MsgShares (length ranked) (length bids) lo hi at),
           tier_step phase];
         atShare = tiedOnRank ordered;
         trace = (if atShare = 1
           then trace @ [mk_step ResolutionStepShare (MsgShareAlone (to_tier phase) (rb_rank winner) at)]
           else let trace = trace @ [mk_step ResolutionStepShare
               (MsgShareTied atShare (length ordered) (to_tier phase) (rb_rank winner) at)]
             in if contested ordered then trace @ [sequenceOrRoll ordered seed] else trace)
     in Inr (resolution0\<lparr>
       rn_Winners := [\<lparr>al_AccountID = bd_AccountID (rb_bid winner), al_AmountCp = won\<rparr>],
       rn_Reason := reason, rn_RngSeed := seed, rn_WinningTier := to_tier phase,
       rn_TierCounts := to_counts phase,
       rn_Trace := trace @ [mk_step ResolutionStepPrice (MsgPaysCommitted won)]\<rparr>))))))"

definition RelativeBid :: point_strategy where
  "RelativeBid = \<lparr>ps_ID = relativeBidID, ps_Version = relativeBidVersion, ps_RuleKind = RuleSpend,
     ps_BalanceKinds = [BalanceKindDKP], ps_PlanAttendance = relative_bid_PlanAttendance,
     ps_PlanAward = relative_bid_PlanAward, ps_PlanAdjustment = relative_bid_PlanAdjustment,
     ps_PlanDecay = relative_bid_PlanDecay, ps_PlanReversal = relative_bid_PlanReversal,
     ps_Spendable = spendableBalance, ps_Priority = relative_bid_Priority,
     ps_PriceHint = relative_bid_PriceHint, ps_ValidateBid = relative_bid_ValidateBid,
     ps_SettleAuction = relative_bid_SettleAuction, ps_Invariants = split_invariants\<rparr>"

section \<open>The configuration and the ledger laws\<close>

definition good_relative_bid_config :: "relative_bid_config \<Rightarrow> bool" where
  "good_relative_bid_config cfg \<longleftrightarrow> validateSpendTerms (relative_bid_terms cfg) = Inr () \<and>
     0 \<le> sint (rl_MinBidBp cfg) \<and> sint (rl_MinBidBp cfg) \<le> sint (rl_MaxBidBp cfg) \<and>
     0 < sint (rl_MaxBidBp cfg) \<and> sint (rl_MaxBidBp cfg) \<le> 10000"

lemma relative_bid_config_of_Inr:
  "relative_bid_config_of ctx = Inr cfg \<longleftrightarrow>
    decodeConfig relative_bid_knobs (cx_ConfigJSON ctx) defaultRelativeBidConfig = Inr cfg \<and>
    good_relative_bid_config cfg"
  by (auto simp: relative_bid_config_of_def validateRelativeBidConfig_def good_relative_bid_config_def
    res_simps i64_simps)

lemma relativeBidID_ne [simp]: "relativeBidID \<noteq> []"
  by (simp add: relativeBidID_def)

lemmas relative_bid_plans = relative_bid_PlanAttendance_def relative_bid_PlanAward_def
  relative_bid_PlanAdjustment_def relative_bid_PlanDecay_def relative_bid_PlanReversal_def
  spendPlanAttendance_def spendPlanDecay_def Unsupported_def

interpretation relative_bid: ledger_strategy RelativeBid
  by unfold_locales (auto simp: RelativeBid_def relative_bid_plans bindR_eq_Inr
    split: option.splits dest: batch_laws)

section \<open>Shares of a frozen balance\<close>

text \<open>
  The share of a bid over the integers: its amount in basis points of the balance its bidder held at
  the sequence number, rounded down; and whether that is a share the pool accepts.
\<close>

definition frozen :: "ctx \<Rightarrow> i64 \<Rightarrow> bid \<Rightarrow> int" where
  "frozen ctx at b = (case cx_Balance ctx (bd_AccountID b) BalanceKindDKP at of
     Inr balance \<Rightarrow> sint balance | Inl _ \<Rightarrow> 0)"

definition share_bp :: "ctx \<Rightarrow> i64 \<Rightarrow> bid \<Rightarrow> int" where
  "share_bp ctx at b = sint (bd_AmountCp b) * 10000 div frozen ctx at b"

definition bidable :: "relative_bid_config \<Rightarrow> ctx \<Rightarrow> i64 \<Rightarrow> bid \<Rightarrow> bool" where
  "bidable cfg ctx at b \<longleftrightarrow> 0 < frozen ctx at b \<and> 0 \<le> sint (bd_AmountCp b) \<and>
     sint (bd_AmountCp b) \<le> frozen ctx at b \<and>
     sint (rl_MinBidBp cfg) \<le> share_bp ctx at b \<and> share_bp ctx at b \<le> sint (rl_MaxBidBp cfg)"

definition share_ranked :: "ctx \<Rightarrow> i64 \<Rightarrow> bid \<Rightarrow> ranked_bid" where
  "share_ranked ctx at b = \<lparr>rb_bid = b, rb_rank = word_of_int (share_bp ctx at b), rb_tier = 0\<rparr>"

lemma shareBasisPoints_None:
  "shareBasisPoints amount balance = Inr None \<Longrightarrow>
    \<not> (0 < sint balance \<and> 0 \<le> sint amount \<and> sint amount \<le> sint balance)"
  by (metis shareBasisPoints_exact Inr_inject option.distinct(1))

lemma rank_shares_Inr:
  assumes "rank_shares cfg ctx at bs = Inr (ranked, ignored)"
  shows "ranked = map (share_ranked ctx at) (filter (bidable cfg ctx at) bs)"
    and "ignored = length (filter (\<lambda>b. \<not> bidable cfg ctx at b) bs)"
    and "\<forall>b \<in> set bs. \<exists>v. cx_Balance ctx (bd_AccountID b) BalanceKindDKP at = Inr v"
  using assms
proof (induction bs arbitrary: ranked ignored)
  case (Cons b bs)
  {
    fix ranked ignored
    assume "rank_shares cfg ctx at (b # bs) = Inr (ranked, ignored)"
    then obtain v sh ranked' ignored' where
      v: "cx_Balance ctx (bd_AccountID b) BalanceKindDKP at = Inr v"
      and sh: "shareBasisPoints (bd_AmountCp b) v = Inr sh"
      and rest: "rank_shares cfg ctx at bs = Inr (ranked', ignored')"
      and out: "(case sh of None \<Rightarrow> (ranked', ignored' + 1)
         | Some s \<Rightarrow> if outside_bounds cfg s then (ranked', ignored' + 1)
           else (\<lparr>rb_bid = b, rb_rank = s, rb_tier = 0\<rparr> # ranked', ignored')) = (ranked, ignored)"
      by (auto simp: bindR_eq_Inr)
    have fr: "frozen ctx at b = sint v" by (simp add: frozen_def v)
    have "if bidable cfg ctx at b then ranked = share_ranked ctx at b # ranked' \<and> ignored = ignored'
      else ranked = ranked' \<and> ignored = Suc ignored'"
    proof (cases sh)
      case None
      then show ?thesis using shareBasisPoints_None sh out fr by (auto simp: bidable_def)
    next
      case (Some s)
      note S = shareBasisPoints_Some [OF sh [unfolded Some]]
      have "share_bp ctx at b = sint s" using S(4) fr by (simp add: share_bp_def)
      then show ?thesis
        using S(1-3) out Some fr by (auto simp: bidable_def outside_bounds_def share_ranked_def i64_simps split: if_splits)
    qed
    then have "(if bidable cfg ctx at b then ranked = share_ranked ctx at b # ranked' \<and> ignored = ignored'
      else ranked = ranked' \<and> ignored = Suc ignored') \<and>
      rank_shares cfg ctx at bs = Inr (ranked', ignored') \<and>
      (\<exists>v. cx_Balance ctx (bd_AccountID b) BalanceKindDKP at = Inr v)" using rest v by simp
    then have "\<exists>ranked' ignored'. (if bidable cfg ctx at b
        then ranked = share_ranked ctx at b # ranked' \<and> ignored = ignored'
        else ranked = ranked' \<and> ignored = Suc ignored') \<and>
      rank_shares cfg ctx at bs = Inr (ranked', ignored') \<and>
      (\<exists>v. cx_Balance ctx (bd_AccountID b) BalanceKindDKP at = Inr v)" by blast
  } note step = this
  {
    case 1
    then show ?case using step [OF 1] Cons.IH(1) by (auto split: if_splits)
  next
    case 2
    then show ?case using step [OF 2] Cons.IH(2) by (auto split: if_splits)
  next
    case 3
    then show ?case using step [OF 3] Cons.IH(3) by (auto split: if_splits)
  }
qed auto

lemma sint_share:
  assumes "bidable cfg ctx at b"
  shows "sint (rb_rank (share_ranked ctx at b)) = share_bp ctx at b"
proof -
  have "share_bp ctx at b \<le> 10000"
    using mult_div_le [of 10000 "sint (bd_AmountCp b)" "frozen ctx at b"] assms
    by (simp add: bidable_def share_bp_def mult.commute)
  moreover have "0 \<le> share_bp ctx at b"
    using assms by (simp add: bidable_def share_bp_def pos_imp_zdiv_nonneg_iff)
  ultimately show ?thesis by (simp add: share_ranked_def sint_of_int_eq in64_def)
qed

section \<open>Who wins\<close>

text \<open>The largest share of the best rung wins, the earliest of several.\<close>

definition outshares :: "ctx \<Rightarrow> i64 \<Rightarrow> bid \<Rightarrow> bid \<Rightarrow> bool" where
  "outshares ctx at w b \<longleftrightarrow> rank_of b < rank_of w \<or>
     rank_of b = rank_of w \<and> (share_bp ctx at b < share_bp ctx at w \<or>
       share_bp ctx at b = share_bp ctx at w \<and> sint (bd_PlacedAt w) \<le> sint (bd_PlacedAt b))"

lemma relative_bid_settle_Inr:
  assumes "relative_bid_SettleAuction ctx ses bids = Inr r" "relative_bid_config_of ctx = Inr cfg"
  defines "entered \<equiv> filter (bidable cfg ctx (ss_SeqAtOpen ses)) (eligibleBids bids (ss_MinAmountCp ses))"
  obtains (none) "entered = []" "rn_Winners r = []" "rn_RngSeed r = None" "rn_Tie r = None"
  | (won) head rest winner seed where "entered \<noteq> []"
      "rankBids (map (share_ranked ctx (ss_SeqAtOpen ses)) entered) = Inr (head # rest)"
      "settleHighest ctx (head # rest) = Inr (winner, seed)" "rn_Tie r = None"
      "rn_Winners r = [\<lparr>al_AccountID = rb_account winner, al_AmountCp = bd_AmountCp (rb_bid winner)\<rparr>]"
      "rn_RngSeed r = seed" "rn_WinningTier r = tierOf (rb_bid head)"
proof -
  let ?at = "ss_SeqAtOpen ses"
  obtain ranked ignored where rs: "rank_shares cfg ctx ?at (eligibleBids bids (ss_MinAmountCp ses)) = Inr (ranked, ignored)"
    using assms(1,2) by (auto simp: relative_bid_SettleAuction_def Let_def bindR_eq_Inr)
  have ranked: "ranked = map (share_ranked ctx ?at) entered"
    using rank_shares_Inr(1) [OF rs] by (simp add: entered_def)
  show ?thesis
  proof (cases "entered = []")
    case True
    then show ?thesis
      using assms(1,2) rs ranked none
      by (auto simp: relative_bid_SettleAuction_def Let_def resolution0_def)
  next
    case False
    then obtain ordered where o: "rankBids (map (share_ranked ctx ?at) entered) = Inr ordered"
      using assms(1,2) rs ranked by (auto simp: relative_bid_SettleAuction_def Let_def bindR_eq_Inr)
    then have "length ordered = length entered" by (auto simp: rankBids_Inr)
    then have "ordered \<noteq> []" using False by auto
    then obtain head rest where h: "ordered = head # rest" by (cases ordered) auto
    obtain winner seed where w: "settleHighest ctx (head # rest) = Inr (winner, seed)"
      using assms(1,2) rs ranked False o h
      by (auto simp: relative_bid_SettleAuction_def Let_def bindR_eq_Inr)
    show ?thesis
      by (rule won [OF False o [unfolded h] w])
        (use assms(1,2) rs ranked False o h w in
          \<open>auto simp: relative_bid_SettleAuction_def Let_def tierOutcomeOf_def resolution0_def\<close>)
  qed
qed

lemma relative_bid_law:
  assumes "relative_bid_SettleAuction ctx ses bids = Inr r"
  shows "rn_Winners r = [] \<or> (\<exists>w \<in> set bids. 0 < sint (bd_AmountCp w) \<and> rn_Tie r = None \<and>
    rn_Winners r = [\<lparr>al_AccountID = bd_AccountID w, al_AmountCp = bd_AmountCp w\<rparr>] \<and> rn_WinningTier r = tierOf w)"
proof -
  let ?at = "ss_SeqAtOpen ses"
  obtain cfg where cfg: "relative_bid_config_of ctx = Inr cfg"
    using assms by (auto simp: relative_bid_SettleAuction_def bindR_eq_Inr)
  let ?es = "filter (bidable cfg ctx ?at) (eligibleBids bids (ss_MinAmountCp ses))"
  let ?f = "\<lambda>b. (share_ranked ctx ?at b)\<lparr>rb_tier := rank_of b\<rparr>"
  show ?thesis
    using assms cfg
  proof (cases rule: relative_bid_settle_Inr)
    case (won head rest winner seed)
    have o: "head # rest = sort_key bid_order (map ?f ?es)"
      and known: "\<forall>b \<in> set ?es. tierRank (bd_Tier b) \<noteq> None"
      using won(2) by (auto simp: rankBids_Inr o_def share_ranked_def)
    have sorted: "sorted (map bid_order (head # rest))" and set: "set (head # rest) = ?f ` set ?es"
      unfolding o by simp_all
    note S = settleHighest_Inr [OF won(3) sorted]
    have "winner \<in> ?f ` set ?es" "head \<in> ?f ` set ?es" unfolding set [symmetric] using S(1) by simp_all
    then obtain w h where w: "w \<in> set ?es" "winner = ?f w" and h: "h \<in> set ?es" "head = ?f h"
      by (elim imageE) blast
    have bid: "rb_bid (?f b) = b" "rb_tier (?f b) = rank_of b" for b by (simp_all add: share_ranked_def)
    have "rank_of w = rank_of h" using S(2) unfolding tops_def w(2) h(2) bid by simp
    then have "tierOf w = tierOf h"
      using known w(1) h(1) by (intro tierRank_inj [of w "rank_of w"]) (auto simp: tierRank_tierOf rank_of_def)
    then have "rn_WinningTier r = tierOf w" using won(7) h(2) bid by simp
    moreover have "w \<in> set bids" "0 < sint (bd_AmountCp w)" using w(1) by (auto simp: eligibleBids_set)
    moreover have "rn_Winners r = [\<lparr>al_AccountID = bd_AccountID w, al_AmountCp = bd_AmountCp w\<rparr>]"
      unfolding won(5) w(2) bid ..
    ultimately show ?thesis using won(4) by blast
  qed simp
qed

interpretation relative_bid: bid_auction RelativeBid
proof unfold_locales
  show "settled_for bids r" if "ps_SettleAuction RelativeBid ctx ses bids = Inr r" for ctx ses bids r
    using relative_bid_law [of ctx ses bids r] that
    by (auto simp: RelativeBid_def settled_for_def)
  show "award_entries ev price p" if "ps_PlanAward RelativeBid ctx ev = Inr p" "aw_PriceCp ev = Some price"
    "fair_allocator ctx" for ctx ev p price
    using that by (auto simp: RelativeBid_def relative_bid_PlanAward_def bindR_eq_Inr
      intro: spendAward_entries)
  show "\<exists>b \<in> set bids. bd_AccountID b = al_AccountID w \<and> 0 < sint (al_AmountCp w) \<and>
      sint (al_AmountCp w) \<le> sint (bd_AmountCp b)"
    if "ps_SettleAuction RelativeBid ctx ses bids = Inr r" "w \<in> set (rn_Winners r)" for ctx ses bids r w
    using relative_bid_law [of ctx ses bids r] that by (auto simp: RelativeBid_def)
qed

text \<open>C11: A relative-bid session is won, when any bid reaches the minimum of the session and is a
  bidable share of its bidder's balance as it stood when the session opened, by such a bid on the highest rung holding one, whose share is the
  largest there and the earliest of that share, and the winner pays exactly what it committed, which
  is no more than the frozen balance; otherwise nobody wins.\<close>

theorem relative_bid_winner:
  assumes "relative_bid_SettleAuction ctx ses bids = Inr r" "relative_bid_config_of ctx = Inr cfg"
  shows "let at = ss_SeqAtOpen ses;
      entered = filter (bidable cfg ctx at) (eligibleBids bids (ss_MinAmountCp ses)) in
    if entered = [] then rn_Winners r = []
    else \<exists>w \<in> set entered. rn_Winners r = [\<lparr>al_AccountID = bd_AccountID w, al_AmountCp = bd_AmountCp w\<rparr>] \<and>
      0 < sint (bd_AmountCp w) \<and> sint (bd_AmountCp w) \<le> frozen ctx at w \<and> rn_WinningTier r = tierOf w \<and>
      (\<forall>b \<in> set entered. outshares ctx at w b)"
proof -
  let ?at = "ss_SeqAtOpen ses"
  let ?es = "filter (bidable cfg ctx ?at) (eligibleBids bids (ss_MinAmountCp ses))"
  let ?f = "\<lambda>b. (share_ranked ctx ?at b)\<lparr>rb_tier := rank_of b\<rparr>"
  show ?thesis
    using assms
  proof (cases rule: relative_bid_settle_Inr)
    case none
    then show ?thesis by simp
  next
    case (won head rest winner seed)
    have o: "head # rest = sort_key bid_order (map ?f ?es)"
      and known: "\<forall>b \<in> set ?es. tierRank (bd_Tier b) \<noteq> None"
      using won(2) by (auto simp: rankBids_Inr o_def share_ranked_def)
    have set: "set (head # rest) = ?f ` set ?es" unfolding o by simp
    have sorted: "sorted (map bid_order (head # rest))" unfolding o by simp
    note S = settleHighest_Inr [OF won(3) sorted]
    have "winner \<in> ?f ` set ?es" "head \<in> ?f ` set ?es" unfolding set [symmetric] using S(1) by simp_all
    then obtain w h where w: "w \<in> set ?es" "winner = ?f w" and h: "h \<in> set ?es" "head = ?f h"
      by (elim imageE) blast
    have bid: "rb_bid (?f b) = b" "rb_tier (?f b) = rank_of b" for b by (simp_all add: share_ranked_def)
    have share: "sint (rb_rank (?f b)) = share_bp ctx ?at b" if "b \<in> set ?es" for b
      using sint_share [of cfg] that by simp
    have top: "rank_of w = rank_of h" "share_bp ctx ?at w = share_bp ctx ?at h" "bd_PlacedAt w = bd_PlacedAt h"
      using S(2) share [OF w(1)] share [OF h(1)] unfolding tops_def w(2) h(2) bid by simp_all
    have best: "outshares ctx ?at w b" if b: "b \<in> set ?es" for b
    proof -
      have "?f b \<in> set (head # rest)" using set b by blast
      then have "bid_order (?f h) \<le> bid_order (?f b)" using sorted h(2) by auto
      then have "rank_of b < rank_of h \<or> rank_of b = rank_of h \<and>
        (share_bp ctx ?at b < share_bp ctx ?at h \<or> share_bp ctx ?at b = share_bp ctx ?at h \<and>
          sint (bd_PlacedAt h) \<le> sint (bd_PlacedAt b))"
        unfolding bid_order_le bid share [OF b] share [OF h(1)]
          sint_inject64 [symmetric, of "rb_rank (?f b)"] by auto
      then show ?thesis unfolding outshares_def top by blast
    qed
    have "tierOf w = tierOf h"
      using known w(1) h(1) S(2) unfolding tops_def w(2) h(2) bid
      by (intro tierRank_inj [of w "rank_of w"]) (auto simp: tierRank_tierOf rank_of_def)
    then have tier: "rn_WinningTier r = tierOf w" using won(7) h(2) bid by simp
    have pays: "0 < sint (bd_AmountCp w)" "sint (bd_AmountCp w) \<le> frozen ctx ?at w"
      using w(1) by (simp_all add: eligibleBids_set bidable_def)
    have "rn_Winners r = [\<lparr>al_AccountID = bd_AccountID w, al_AmountCp = bd_AmountCp w\<rparr>]"
      unfolding won(5) w(2) bid ..
    then show ?thesis
      unfolding Let_def if_not_P [OF won(1)] using w(1) pays tier best by blast
  qed
qed

text \<open>A relative bid is settled on balances as they stood when the session opened: a ledger that
  agrees at that sequence number, whatever was committed after it, settles the session identically.\<close>

theorem relative_bid_frozen:
  assumes "\<forall>a. cx_Balance ctx' a BalanceKindDKP (ss_SeqAtOpen ses) = cx_Balance ctx a BalanceKindDKP (ss_SeqAtOpen ses)"
    and "cx_ConfigJSON ctx' = cx_ConfigJSON ctx" "cx_IntN ctx' = cx_IntN ctx" "cx_Seed ctx' = cx_Seed ctx"
  shows "relative_bid_SettleAuction ctx' ses bids = relative_bid_SettleAuction ctx ses bids"
proof -
  have "rank_shares cfg ctx' (ss_SeqAtOpen ses) bs = rank_shares cfg ctx (ss_SeqAtOpen ses) bs" for cfg bs
    using assms(1) by (induction bs) simp_all
  moreover have "settleHighest ctx' = settleHighest ctx"
    by (intro ext) (simp only: settleHighest_def assms(3,4))
  moreover have "relative_bid_config_of ctx' = relative_bid_config_of ctx"
    using assms(2) by (simp add: relative_bid_config_of_def)
  ultimately show ?thesis by (simp only: relative_bid_SettleAuction_def Let_def)
qed

section \<open>Instances\<close>

definition relative_bids :: "bid list" where
  "relative_bids = [sample_bid ''a'' 250 3 ''main'', sample_bid ''b'' 100 1 ''main'',
     sample_bid ''c'' 500 1 '''', sample_bid ''d'' 501 1 ''main'']"

lemma sample_relative: "relative_bid_config_of (sample_ctx ''{}'' 500) = Inr defaultRelativeBidConfig"
  by code_simp

lemma sample_relative_settles:
  "\<exists>r. relative_bid_SettleAuction (sample_ctx ''{}'' 500) sample_session relative_bids = Inr r"
  by (rule not_isl_Inr, code_simp)

lemma sample_relative_entered:
  "filter (bidable defaultRelativeBidConfig (sample_ctx ''{}'' 500) (ss_SeqAtOpen sample_session))
     (eligibleBids relative_bids (ss_MinAmountCp sample_session)) = butlast relative_bids"
  by code_simp

theorem relative_bid_winner_witness:
  "\<exists>r. relative_bid_SettleAuction (sample_ctx ''{}'' 500) sample_session relative_bids = Inr r \<and>
    (\<exists>w \<in> set (butlast relative_bids). rn_Winners r =
      [\<lparr>al_AccountID = bd_AccountID w, al_AmountCp = bd_AmountCp w\<rparr>])"
proof -
  obtain r where r: "relative_bid_SettleAuction (sample_ctx ''{}'' 500) sample_session relative_bids = Inr r"
    using sample_relative_settles by blast
  have "butlast relative_bids \<noteq> []" by (simp add: relative_bids_def)
  then show ?thesis
    using relative_bid_winner [OF r sample_relative] r
    unfolding Let_def sample_relative_entered by auto
qed

theorem relative_bid_frozen_witness:
  "relative_bid_SettleAuction ((sample_ctx ''{}'' 500)\<lparr>cx_Balance :=
      (\<lambda>_ _ at. if at = 5 then Inr 500 else Inr 9000), cx_HeadSeq := 99\<rparr>) sample_session relative_bids =
    relative_bid_SettleAuction (sample_ctx ''{}'' 500) sample_session relative_bids"
  by (rule relative_bid_frozen) (simp_all add: sample_ctx_def sample_session_def)

end
