(* ===== verification/Roll.thy ===== *)
theory Roll
  imports Auction
begin

text \<open>
  \<open>roll\<close> (internal/strategy/roll.go): entrants are sorted by account, each draws one number from the
  seeded source, and the highest roll of the best rung wins at the configured cost. A tie at the top
  awards nobody.
\<close>

definition rollID :: string where "rollID = ''roll''"
definition rollVersion :: string where "rollVersion = ''0.1.0''"
definition maxRollFace :: i64 where "maxRollFace = 1000000"

record roll_config =
  ro_RollMin :: i64
  ro_RollMax :: i64
  ro_WinCostCp :: centipoints
  ro_Proceeds :: string
  ro_SoloPolicy :: string
  ro_FloorCp :: centipoints

definition roll_knobs :: "roll_config knob list" where
  "roll_knobs = [(''roll_min'', set_int ro_RollMin_update),
     (''roll_max'', set_int ro_RollMax_update),
     (''win_cost_cp'', set_int ro_WinCostCp_update),
     (''proceeds'', set_string ro_Proceeds_update),
     (''solo_policy'', set_string ro_SoloPolicy_update),
     (''floor_cp'', set_int ro_FloorCp_update)]"

definition defaultRollConfig :: roll_config where
  "defaultRollConfig = \<lparr>ro_RollMin = 1, ro_RollMax = 100, ro_WinCostCp = 0,
     ro_Proceeds = ProceedsGuildBank, ro_SoloPolicy = SoloPolicyGuildBank, ro_FloorCp = 0\<rparr>"

definition roll_terms :: "roll_config \<Rightarrow> spend_terms" where
  "roll_terms cfg = \<lparr>st_Proceeds = ro_Proceeds cfg, st_SoloPolicy = ro_SoloPolicy cfg,
     st_FloorCp = ro_FloorCp cfg\<rparr>"

text \<open>\<open>faces\<close> is an \<open>int\<close>, 64 bits wide on the targets modelled; a validated configuration has
  between 2 and 1000001 of them.\<close>

definition faces :: "roll_config \<Rightarrow> nat" where
  "faces cfg = nat (sint (ro_RollMax cfg - ro_RollMin cfg + 1))"

definition validateRollConfig :: "roll_config \<Rightarrow> roll_config res" where
  "validateRollConfig cfg =
    bindR (validateSpendTerms (roll_terms cfg)) (\<lambda>_.
    if ro_RollMin cfg <s 0 \<or> maxRollFace <s ro_RollMin cfg then Inl ErrInvalidConfig
    else if maxRollFace <s ro_RollMax cfg then Inl ErrInvalidConfig
    else if ro_RollMax cfg \<le>s ro_RollMin cfg then Inl ErrInvalidConfig
    else if ro_WinCostCp cfg <s 0 then Inl ErrInvalidConfig
    else Inr cfg)"

definition roll_config_of :: "ctx \<Rightarrow> roll_config res" where
  "roll_config_of ctx =
    bindR (decodeConfig roll_knobs (cx_ConfigJSON ctx) defaultRollConfig) validateRollConfig"

definition roll_PlanAward :: "ctx \<Rightarrow> award_event \<Rightarrow> batch_proposal res" where
  "roll_PlanAward ctx ev = bindR (roll_config_of ctx) (\<lambda>cfg.
     let cost = (case aw_PriceCp ev of Some price \<Rightarrow> price | None \<Rightarrow> ro_WinCostCp cfg) in
     if cost = 0 then Inl ErrNothingToPlan
     else bindR (spendAward ctx rollID rollVersion (roll_terms cfg) ev cost) (\<lambda>p.
       Inr (p\<lparr>bp_RngSeed := Some (cx_Seed ctx)\<rparr>)))"

definition roll_PlanAttendance :: "ctx \<Rightarrow> attendance_event \<Rightarrow> batch_proposal res" where
  "roll_PlanAttendance ctx ev = spendPlanAttendance"

definition roll_PlanDecay :: "ctx \<Rightarrow> decay_run \<Rightarrow> batch_proposal res" where
  "roll_PlanDecay ctx run = spendPlanDecay"

definition roll_PlanAdjustment :: "ctx \<Rightarrow> adjustment_event \<Rightarrow> batch_proposal res" where
  "roll_PlanAdjustment ctx ev = bindR (roll_config_of ctx) (\<lambda>cfg.
     adjustmentProposal ctx rollID rollVersion (ro_FloorCp cfg) ev)"

definition roll_PlanReversal :: "ctx \<Rightarrow> ledger_batch \<Rightarrow> batch_proposal res" where
  "roll_PlanReversal ctx b = reversePlan ctx rollID b"

definition roll_Priority :: "ctx \<Rightarrow> account_ref \<Rightarrow> priority res" where
  "roll_Priority ctx acct = Inr \<lparr>pr_Rank = 0, pr_Tiebreak = ar_ID acct,
     pr_Reason = ''every entrant has the same claim; the roll decides''\<rparr>"

definition roll_PriceHint :: "ctx \<Rightarrow> item_ref \<Rightarrow> centipoints option res" where
  "roll_PriceHint ctx item = bindR (roll_config_of ctx) (\<lambda>cfg. Inr (Some (ro_WinCostCp cfg)))"

definition bid0 :: bid where
  "bid0 = \<lparr>bd_AccountID = [], bd_AmountCp = 0, bd_PlacedAt = 0, bd_Sealed = False, bd_Tier = []\<rparr>"

definition roll_ValidateBid :: "ctx \<Rightarrow> account_ref \<Rightarrow> bid \<Rightarrow> unit res" where
  "roll_ValidateBid ctx acct b = bindR (roll_config_of ctx) (\<lambda>cfg.
     bindR (checkBidIdentity acct b) (\<lambda>_.
     if bd_AmountCp b \<noteq> 0 then Inl ErrInvalidEvent
     else if bd_Sealed b then Inl ErrInvalidEvent
     else if ro_WinCostCp cfg = 0 then Inr ()
     else checkBidAffordable ctx acct
       (bid0\<lparr>bd_AccountID := ar_ID acct, bd_AmountCp := ro_WinCostCp cfg\<rparr>)))"

section \<open>Settlement\<close>

fun check_entrants :: "ulid option \<Rightarrow> bid list \<Rightarrow> unit res" where
  "check_entrants prev [] = Inr ()"
| "check_entrants prev (b # bs) =
    (if bd_AccountID b = [] then Inl ErrInvalidEvent
     else if prev = Some (bd_AccountID b) then Inl ErrInvalidEvent
     else bindR (checkTier b) (\<lambda>_. check_entrants (Some (bd_AccountID b)) bs))"

definition sortedEntrants :: "bid list \<Rightarrow> bid list res" where
  "sortedEntrants bids = (let out = sort_key bd_AccountID bids in
     bindR (check_entrants None out) (\<lambda>_. Inr out))"

fun draw_rolls :: "roll_config \<Rightarrow> ctx \<Rightarrow> nat list \<Rightarrow> bid list \<Rightarrow> ranked_bid list" where
  "draw_rolls cfg ctx hist [] = []"
| "draw_rolls cfg ctx hist (b # bs) =
    \<lparr>rb_bid = b, rb_rank = ro_RollMin cfg + word_of_nat (cx_IntN ctx hist (faces cfg)), rb_tier = 0\<rparr>
    # draw_rolls cfg ctx (hist @ [faces cfg]) bs"

definition roll_SettleAuction :: "ctx \<Rightarrow> session \<Rightarrow> bid list \<Rightarrow> resolution res" where
  "roll_SettleAuction ctx ses bids = bindR (roll_config_of ctx) (\<lambda>cfg.
     let lo = ro_RollMin cfg; hi = ro_RollMax cfg; seed = cx_Seed ctx in
     if length bids = 0
     then Inr (resolution0\<lparr>rn_Reason := MsgNobody,
       rn_Trace := [mk_step ResolutionStepEligibility MsgNobody]\<rparr>)
     else bindR (sortedEntrants bids) (\<lambda>entrants.
     bindR (rankBids (draw_rolls cfg ctx [] entrants)) (\<lambda>ordered.
     bindR (tierOutcomeOf ordered ''entrant'') (\<lambda>phase.
     case ordered of [] \<Rightarrow> Inl Panic | first # _ \<Rightarrow>
     let entered = mk_step ResolutionStepEligibility (MsgEntrants (length entrants) lo hi);
         tied = tiedOnRank ordered
     in if 1 < tied
     then Inr (resolution0\<lparr>rn_Reason := MsgRollTie tied (rb_rank first) lo hi,
       rn_RngSeed := Some seed,
       rn_Trace := [entered, tier_step phase, mk_step ResolutionStepSeededRoll
         (MsgRollTieStep tied (to_tier phase) (rb_rank first) seed)]\<rparr>)
     else let reason = MsgHighestRoll (tiedOnTier ordered) lo hi (rb_rank first);
         reason = (if 0 < to_below phase then MsgLowerRungs reason (to_below phase) else reason)
     in Inr (resolution0\<lparr>
       rn_Winners := [\<lparr>al_AccountID = bd_AccountID (rb_bid first), al_AmountCp = ro_WinCostCp cfg\<rparr>],
       rn_Reason := reason, rn_RngSeed := Some seed,
       rn_WinningTier := to_tier phase, rn_TierCounts := to_counts phase,
       rn_Trace := [entered, tier_step phase,
         mk_step ResolutionStepSeededRoll
           (MsgDrawn (tiedOnTier ordered) (to_tier phase) (rb_rank first) seed),
         mk_step ResolutionStepPrice (MsgCost (ro_WinCostCp cfg))]\<rparr>)))))"

definition Roll :: point_strategy where
  "Roll = \<lparr>ps_ID = rollID, ps_Version = rollVersion, ps_RuleKind = RuleSpend,
     ps_BalanceKinds = [BalanceKindDKP], ps_PlanAttendance = roll_PlanAttendance,
     ps_PlanAward = roll_PlanAward, ps_PlanAdjustment = roll_PlanAdjustment,
     ps_PlanDecay = roll_PlanDecay, ps_PlanReversal = roll_PlanReversal,
     ps_Spendable = spendableBalance, ps_Priority = roll_Priority,
     ps_PriceHint = roll_PriceHint, ps_ValidateBid = roll_ValidateBid,
     ps_SettleAuction = roll_SettleAuction, ps_Invariants = split_invariants\<rparr>"

section \<open>The configuration and the ledger laws\<close>

definition good_roll_config :: "roll_config \<Rightarrow> bool" where
  "good_roll_config cfg \<longleftrightarrow> validateSpendTerms (roll_terms cfg) = Inr () \<and>
     0 \<le> sint (ro_RollMin cfg) \<and> sint (ro_RollMin cfg) < sint (ro_RollMax cfg) \<and>
     sint (ro_RollMax cfg) \<le> 1000000 \<and> 0 \<le> sint (ro_WinCostCp cfg)"

lemma sint_maxRollFace [simp]: "sint maxRollFace = 1000000"
  by (simp add: maxRollFace_def)

lemma roll_config_of_Inr:
  "roll_config_of ctx = Inr cfg \<longleftrightarrow>
    decodeConfig roll_knobs (cx_ConfigJSON ctx) defaultRollConfig = Inr cfg \<and> good_roll_config cfg"
  by (auto simp: roll_config_of_def validateRollConfig_def good_roll_config_def res_simps i64_simps)

lemma rollID_ne [simp]: "rollID \<noteq> []"
  by (simp add: rollID_def)

lemma zero_sum_plan_seed:
  "zero_sum_plan sid ver ctx p \<Longrightarrow>
    zero_sum_plan sid ver ctx (p\<lparr>bp_RngSeed := Some (cx_Seed ctx)\<rparr>)"
  by (simp add: zero_sum_plan_def)

lemma roll_award_Inr:
  "roll_PlanAward ctx ev = Inr p \<longleftrightarrow> (\<exists>cfg q. roll_config_of ctx = Inr cfg \<and>
    spendAward ctx rollID rollVersion (roll_terms cfg) ev
      (case aw_PriceCp ev of Some price \<Rightarrow> price | None \<Rightarrow> ro_WinCostCp cfg) = Inr q \<and>
    (case aw_PriceCp ev of Some price \<Rightarrow> price | None \<Rightarrow> ro_WinCostCp cfg) \<noteq> 0 \<and>
    p = q\<lparr>bp_RngSeed := Some (cx_Seed ctx)\<rparr>)"
  by (auto simp: roll_PlanAward_def bindR_eq_Inr Let_def if_Inl_eq_Inr)

lemma roll_award_law:
  "roll_PlanAward ctx ev = Inr p \<Longrightarrow> zero_sum_plan rollID rollVersion ctx p \<and> bp_Kind p = KindAward"
  by (auto simp: roll_award_Inr dest!: spendAward_law intro: zero_sum_plan_seed)

interpretation roll: ledger_strategy Roll
  by unfold_locales (auto simp: Roll_def roll_PlanAttendance_def roll_PlanAdjustment_def
    roll_PlanDecay_def roll_PlanReversal_def spendPlanAttendance_def spendPlanDecay_def
    Unsupported_def bindR_eq_Inr dest: batch_laws roll_award_law)

section \<open>The entrants\<close>

lemma check_entrants_Inr:
  "check_entrants prev bs = Inr u \<longleftrightarrow>
    (\<forall>b \<in> set bs. bd_AccountID b \<noteq> [] \<and> tierRank (bd_Tier b) \<noteq> None) \<and>
    no_adjacent bd_AccountID bs \<and> (bs \<noteq> [] \<longrightarrow> prev \<noteq> Some (bd_AccountID (hd bs)))"
proof (induction bs arbitrary: prev)
  case (Cons b bs)
  have "check_entrants prev (b # bs) = Inr u \<longleftrightarrow> bd_AccountID b \<noteq> [] \<and> prev \<noteq> Some (bd_AccountID b) \<and>
      tierRank (bd_Tier b) \<noteq> None \<and> check_entrants (Some (bd_AccountID b)) bs = Inr u"
    by (auto simp: bindR_eq_Inr checkTier_Inr if_Inl_eq_Inr)
  then show ?case unfolding Cons.IH by (cases bs) auto
qed simp

lemma check_entrants_error: "check_entrants prev bs = Inl e \<Longrightarrow> e = ErrInvalidEvent"
  by (induction bs arbitrary: prev) (auto simp: bindR_eq_Inl checkTier_Inl split: if_splits)

definition good_entrants :: "bid list \<Rightarrow> bool" where
  "good_entrants bids \<longleftrightarrow> distinct (map bd_AccountID bids) \<and>
     (\<forall>b \<in> set bids. bd_AccountID b \<noteq> [] \<and> tierRank (bd_Tier b) \<noteq> None)"

lemma sortedEntrants_eq:
  "sortedEntrants bids =
    (if good_entrants bids then Inr (sort_key bd_AccountID bids) else Inl ErrInvalidEvent)"
proof -
  have adj: "no_adjacent bd_AccountID (sort_key bd_AccountID bids) \<longleftrightarrow> distinct (map bd_AccountID bids)"
    by (subst no_adjacent_sorted) (simp_all add: distinct_map)
  show ?thesis
  proof (cases "check_entrants None (sort_key bd_AccountID bids)")
    case (Inl e)
    then have "\<not> good_entrants bids"
      using check_entrants_Inr [of None "sort_key bd_AccountID bids" "()"] adj
      by (auto simp: good_entrants_def)
    then show ?thesis using Inl check_entrants_error [OF Inl] by (simp add: sortedEntrants_def)
  next
    case (Inr u)
    then have "good_entrants bids"
      using check_entrants_Inr [of None "sort_key bd_AccountID bids" u] adj
      by (auto simp: good_entrants_def)
    then show ?thesis using Inr by (simp add: sortedEntrants_def)
  qed
qed

lemma good_entrants_perm: "mset bids' = mset bids \<Longrightarrow> good_entrants bids' \<longleftrightarrow> good_entrants bids"
  unfolding good_entrants_def
  by (metis mset_eq_imp_distinct_iff mset_map set_mset_mset)

section \<open>The draws\<close>

text \<open>The \<open>i\<close>-th entrant in account order gets the \<open>i\<close>-th draw.\<close>

definition roll_of :: "roll_config \<Rightarrow> ctx \<Rightarrow> nat \<Rightarrow> i64" where
  "roll_of cfg ctx i = ro_RollMin cfg + word_of_nat (cx_IntN ctx (replicate i (faces cfg)) (faces cfg))"

lemma draw_rolls_nth:
  "draw_rolls cfg ctx (replicate k (faces cfg)) es =
    map (\<lambda>i. \<lparr>rb_bid = es ! i, rb_rank = roll_of cfg ctx (k + i), rb_tier = 0\<rparr>) [0..<length es]"
proof (induction es arbitrary: k)
  case (Cons b es)
  have "replicate k (faces cfg) @ [faces cfg] = replicate (Suc k) (faces cfg)"
    by (simp add: replicate_append_same)
  then show ?case
    using Cons.IH [of "Suc k"] by (simp add: roll_of_def map_upt_Suc del: upt_Suc replicate_Suc)
qed simp

lemma roll_of_range:
  assumes "good_roll_config cfg" "rng_in_range ctx"
  shows "sint (ro_RollMin cfg) \<le> sint (roll_of cfg ctx i) \<and> sint (roll_of cfg ctx i) \<le> sint (ro_RollMax cfg)"
proof -
  let ?lo = "sint (ro_RollMin cfg)" and ?hi = "sint (ro_RollMax cfg)"
  let ?n = "cx_IntN ctx (replicate i (faces cfg)) (faces cfg)"
  have g: "0 \<le> ?lo" "?lo < ?hi" "?hi \<le> 1000000" using assms(1) by (simp_all add: good_roll_config_def)
  have "sint (ro_RollMax cfg - ro_RollMin cfg) = ?hi - ?lo"
    using g by (intro sint_sub) (simp add: in64_def)
  then have "sint (ro_RollMax cfg - ro_RollMin cfg + 1) = ?hi - ?lo + 1"
    using g by (subst sint_add) (simp_all add: in64_def)
  then have f: "int (faces cfg) = ?hi - ?lo + 1" using g by (simp add: faces_def)
  then have "0 < faces cfg" using g by linarith
  then have "?n < faces cfg" using assms(2) unfolding rng_in_range_def by blast
  then have n: "int ?n \<le> ?hi - ?lo" using f by linarith
  then have fits: "in64 (int ?n)" "in64 (?lo + int ?n)" using g unfolding in64_def by linarith+
  have w: "sint (word_of_nat ?n :: i64) = int ?n"
    using sint_of_int_eq [OF fits(1)] by simp
  have "sint (roll_of cfg ctx i) = ?lo + int ?n"
    unfolding roll_of_def using sint_add [of "ro_RollMin cfg" "word_of_nat ?n"] fits(2) by (simp add: w)
  then show ?thesis using n by simp
qed

section \<open>Who wins\<close>

text \<open>Entrant \<open>i\<close> in account order stands above entrant \<open>j\<close>: a higher rung, or the same
  one and a higher roll.\<close>

definition outrolls :: "roll_config \<Rightarrow> ctx \<Rightarrow> bid list \<Rightarrow> nat \<Rightarrow> nat \<Rightarrow> bool" where
  "outrolls cfg ctx es i j \<longleftrightarrow> rank_of (es ! j) < rank_of (es ! i) \<or>
     rank_of (es ! j) = rank_of (es ! i) \<and> sint (roll_of cfg ctx j) < sint (roll_of cfg ctx i)"

definition rolled :: "roll_config \<Rightarrow> ctx \<Rightarrow> bid list \<Rightarrow> nat \<Rightarrow> ranked_bid" where
  "rolled cfg ctx es i = \<lparr>rb_bid = es ! i, rb_rank = roll_of cfg ctx i, rb_tier = rank_of (es ! i)\<rparr>"

lemma rolled_sel [simp]:
  "rb_bid (rolled cfg ctx es i) = es ! i" "rb_rank (rolled cfg ctx es i) = roll_of cfg ctx i"
  "rb_tier (rolled cfg ctx es i) = rank_of (es ! i)"
  by (simp_all add: rolled_def)

lemma roll_ranking:
  assumes "\<forall>b \<in> set es. tierRank (bd_Tier b) \<noteq> None"
  shows "rankBids (draw_rolls cfg ctx [] es) = Inr (sort_key bid_order (map (rolled cfg ctx es) [0..<length es]))"
proof -
  have "draw_rolls cfg ctx [] es =
      map (\<lambda>i. \<lparr>rb_bid = es ! i, rb_rank = roll_of cfg ctx i, rb_tier = 0\<rparr>) [0..<length es]"
    using draw_rolls_nth [of cfg ctx 0 es] by simp
  then show ?thesis
    using assms by (auto simp: rankBids_Inr o_def rolled_def intro!: arg_cong [where f = "sort_key bid_order"])
qed

lemma tied_head:
  assumes "sorted (map bid_order (r # rs))"
  shows "1 < tiedOnRank (r # rs) \<longleftrightarrow> (\<exists>s \<in> set rs. rb_tier s = rb_tier r \<and> rb_rank s = rb_rank r)"
proof -
  have "takeWhile (\<lambda>s. rb_tier s = rb_tier r \<and> rb_rank s = rb_rank r) rs =
      filter (\<lambda>s. rb_tier s = rb_tier r \<and> rb_rank s = rb_rank r) rs"
    using tied_prefix(2) [OF assms] by (simp add: tiedOnRank_def take_run)
  then have "tiedOnRank (r # rs) = Suc (length (filter (\<lambda>s. rb_tier s = rb_tier r \<and> rb_rank s = rb_rank r) rs))"
    by (simp add: tiedOnRank_def run_from_takeWhile)
  then show ?thesis by (auto simp: filter_empty_conv)
qed

lemma roll_settle_eq:
  assumes "roll_config_of ctx = Inr cfg" "bids \<noteq> []" "good_entrants bids"
  defines "es \<equiv> sort_key bd_AccountID bids"
  obtains head rest r where
    "sort_key bid_order (map (rolled cfg ctx es) [0..<length es]) = head # rest"
    "roll_SettleAuction ctx ses bids = Inr r" "rn_RngSeed r = Some (cx_Seed ctx)"
    "rn_Winners r = (if 1 < tiedOnRank (head # rest) then []
       else [\<lparr>al_AccountID = rb_account head, al_AmountCp = ro_WinCostCp cfg\<rparr>])"
proof -
  have known: "\<forall>b \<in> set es. tierRank (bd_Tier b) \<noteq> None"
    using assms(3) by (simp add: es_def good_entrants_def)
  have "length (sort_key bid_order (map (rolled cfg ctx es) [0..<length es])) = length bids"
    by (simp add: es_def)
  then obtain head rest where o: "sort_key bid_order (map (rolled cfg ctx es) [0..<length es]) = head # rest"
    using assms(2) by (cases "sort_key bid_order (map (rolled cfg ctx es) [0..<length es])") auto
  have ent: "sortedEntrants bids = Inr es" by (simp add: sortedEntrants_eq assms(3) es_def)
  show ?thesis
  proof (cases "1 < tiedOnRank (head # rest)")
    case True
    show ?thesis
      using that [OF o] True assms(1,2) ent roll_ranking [OF known, of cfg ctx] o
      by (simp add: roll_SettleAuction_def Let_def tierOutcomeOf_def resolution0_def)
  next
    case False
    show ?thesis
      using that [OF o] False assms(1,2) ent roll_ranking [OF known, of cfg ctx] o
      by (simp add: roll_SettleAuction_def Let_def tierOutcomeOf_def resolution0_def)
  qed
qed

lemma roll_law:
  assumes "roll_SettleAuction ctx ses bids = Inr r"
  shows "rn_Tie r = None \<and> (rn_Winners r = [] \<or> (\<exists>w \<in> set bids. \<exists>cost. 0 \<le> sint cost \<and>
    rn_Winners r = [\<lparr>al_AccountID = bd_AccountID w, al_AmountCp = cost\<rparr>] \<and> rn_WinningTier r = tierOf w))"
proof -
  obtain cfg where cfg: "roll_config_of ctx = Inr cfg"
    using assms by (auto simp: roll_SettleAuction_def bindR_eq_Inr)
  show ?thesis
  proof (cases "bids = []")
    case True
    then show ?thesis using assms cfg by (auto simp: roll_SettleAuction_def Let_def resolution0_def)
  next
    case False
    then have good: "good_entrants bids"
      using assms cfg by (auto simp: roll_SettleAuction_def Let_def sortedEntrants_eq split: if_splits)
    let ?es = "sort_key bd_AccountID bids"
    have known: "\<forall>b \<in> set ?es. tierRank (bd_Tier b) \<noteq> None" using good by (simp add: good_entrants_def)
    obtain head rest where o: "sort_key bid_order (map (rolled cfg ctx ?es) [0..<length ?es]) = head # rest"
      using roll_settle_eq [OF cfg False good, of ses] by blast
    have rank: "rankBids (draw_rolls cfg ctx [] ?es) = Inr (head # rest)"
      unfolding roll_ranking [OF known] o ..
    have "head \<in> set (sort_key bid_order (map (rolled cfg ctx ?es) [0..<length ?es]))" unfolding o by simp
    then obtain i where "i < length ?es" "head = rolled cfg ctx ?es i" by auto
    then have "rb_bid head \<in> set ?es" by (simp only: rolled_sel nth_mem)
    then have b: "rb_bid head \<in> set bids" by simp
    have cost: "0 \<le> sint (ro_WinCostCp cfg)"
      using cfg by (simp add: roll_config_of_Inr good_roll_config_def)
    have ent: "sortedEntrants bids = Inr ?es" by (simp add: sortedEntrants_eq good)
    show ?thesis
    proof (cases "1 < tiedOnRank (head # rest)")
      case True
      then show ?thesis
        using assms cfg False ent rank
        by (auto simp: roll_SettleAuction_def Let_def tierOutcomeOf_def resolution0_def)
    next
      case False
      then have "rn_Tie r = None" "rn_WinningTier r = tierOf (rb_bid head)"
        "rn_Winners r = [\<lparr>al_AccountID = rb_account head, al_AmountCp = ro_WinCostCp cfg\<rparr>]"
        using assms cfg \<open>bids \<noteq> []\<close> ent rank
        by (auto simp: roll_SettleAuction_def Let_def tierOutcomeOf_def resolution0_def)
      then show ?thesis using b cost by blast
    qed
  qed
qed

interpretation roll: auction_rule Roll
proof unfold_locales
  show "settled_for bids r" if "ps_SettleAuction Roll ctx ses bids = Inr r" for ctx ses bids r
    using roll_law [of ctx ses bids r] that by (auto simp: Roll_def settled_for_def)
  show "award_entries ev price p" if a: "ps_PlanAward Roll ctx ev = Inr p" "aw_PriceCp ev = Some price"
    "fair_allocator ctx" for ctx ev p price
  proof -
    obtain cfg q where "spendAward ctx rollID rollVersion (roll_terms cfg) ev price = Inr q"
      "p = q\<lparr>bp_RngSeed := Some (cx_Seed ctx)\<rparr>"
      using a(1,2) by (auto simp: Roll_def roll_award_Inr)
    then show ?thesis using spendAward_entries [OF _ a(3)] by (auto simp: award_entries_def)
  qed
qed

text \<open>C12: In a roll whose entrants are different accounts on rungs of the ladder, every entrant draws
  one number between the configured faces, the \<open>i\<close>-th in account order the \<open>i\<close>-th draw; the
  one who stands above all the others wins at the configured cost, and nobody wins exactly when two
  share the top; the seed is recorded either way, and any other list of entrants is refused.\<close>

theorem roll_winner:
  assumes "roll_config_of ctx = Inr cfg" "rng_in_range ctx" "bids \<noteq> []"
  shows "let es = sort_key bd_AccountID bids; n = length es in
    (\<forall>i. sint (ro_RollMin cfg) \<le> sint (roll_of cfg ctx i) \<and> sint (roll_of cfg ctx i) \<le> sint (ro_RollMax cfg)) \<and>
    (if \<not> good_entrants bids then roll_SettleAuction ctx ses bids = Inl ErrInvalidEvent
     else \<exists>r. roll_SettleAuction ctx ses bids = Inr r \<and> rn_RngSeed r = Some (cx_Seed ctx) \<and>
       (if \<exists>i < n. \<forall>j < n. j \<noteq> i \<longrightarrow> outrolls cfg ctx es i j
        then \<exists>i < n. (\<forall>j < n. j \<noteq> i \<longrightarrow> outrolls cfg ctx es i j) \<and>
          rn_Winners r = [\<lparr>al_AccountID = bd_AccountID (es ! i), al_AmountCp = ro_WinCostCp cfg\<rparr>]
        else rn_Winners r = []))"
proof (cases "good_entrants bids")
  case False
  then show ?thesis
    using assms roll_of_range [OF _ assms(2), of cfg] roll_config_of_Inr [of ctx cfg]
    by (simp add: roll_SettleAuction_def Let_def sortedEntrants_eq)
next
  case True
  let ?es = "sort_key bd_AccountID bids"
  let ?n = "length ?es"
  let ?roll = "rolled cfg ctx ?es"
  have range: "\<forall>i. sint (ro_RollMin cfg) \<le> sint (roll_of cfg ctx i) \<and>
      sint (roll_of cfg ctx i) \<le> sint (ro_RollMax cfg)"
    using roll_of_range [OF _ assms(2), of cfg] assms(1) by (simp add: roll_config_of_Inr)
  obtain head rest r where o: "sort_key bid_order (map ?roll [0..<?n]) = head # rest"
    and r: "roll_SettleAuction ctx ses bids = Inr r" "rn_RngSeed r = Some (cx_Seed ctx)"
    "rn_Winners r = (if 1 < tiedOnRank (head # rest) then []
       else [\<lparr>al_AccountID = rb_account head, al_AmountCp = ro_WinCostCp cfg\<rparr>])"
    by (rule roll_settle_eq [OF assms(1,3) True])
  have sorted: "sorted (map bid_order (head # rest))" unfolding o [symmetric] by simp
  have set: "set (head # rest) = ?roll ` {0..<?n}" unfolding o [symmetric] by simp
  have "head \<in> ?roll ` {0..<?n}" unfolding set [symmetric] by simp
  then obtain h where h: "h < ?n" "head = ?roll h" by auto
  have "distinct ?es"
    using True by (metis good_entrants_def distinct_map distinct_sort)
  then have inj: "inj_on ?roll {0..<?n}"
    by (intro inj_onI) (metis atLeastLessThan_iff nth_eq_iff_index_eq rolled_sel(1))
  then have "distinct (head # rest)"
    unfolding o [symmetric] by (simp add: distinct_map)
  then have rest: "set rest = ?roll ` ({0..<?n} - {h})"
    using set inj_on_image_set_diff [OF inj, of "{0..<?n}" "{h}"] h by auto
  have above: "rank_of (?es ! j) < rank_of (?es ! h) \<or> rank_of (?es ! j) = rank_of (?es ! h) \<and>
      sint (roll_of cfg ctx j) \<le> sint (roll_of cfg ctx h)" if j: "j < ?n" for j
  proof -
    have "?roll j \<in> set (head # rest)" unfolding set using j by simp
    then have "bid_order (?roll h) \<le> bid_order (?roll j)" using sorted h(2) by auto
    then show ?thesis unfolding bid_order_le rolled_sel by auto
  qed
  have tie: "1 < tiedOnRank (head # rest) \<longleftrightarrow>
      (\<exists>j < ?n. j \<noteq> h \<and> rank_of (?es ! j) = rank_of (?es ! h) \<and> roll_of cfg ctx j = roll_of cfg ctx h)"
    unfolding tied_head [OF sorted] rest by (auto simp: h(2))
  have best: "outrolls cfg ctx ?es h j"
    if "\<not> 1 < tiedOnRank (head # rest)" "j < ?n" "j \<noteq> h" for j
    using above [OF that(2)] that tie by (auto simp: outrolls_def sint_inject64 order.order_iff_strict)
  have none: "\<exists>j < ?n. j \<noteq> i \<and> \<not> outrolls cfg ctx ?es i j" if "1 < tiedOnRank (head # rest)" "i < ?n" for i
  proof (cases "i = h")
    case True
    then show ?thesis using that(1) tie by (auto simp: outrolls_def)
  next
    case False
    then show ?thesis using above [OF that(2)] h(1) by (auto simp: outrolls_def intro!: exI [where x = h])
  qed
  show ?thesis
  proof (cases "1 < tiedOnRank (head # rest)")
    case True
    then show ?thesis using range r none \<open>good_entrants bids\<close> unfolding Let_def by auto
  next
    case False
    have "\<forall>j < ?n. j \<noteq> h \<longrightarrow> outrolls cfg ctx ?es h j" using best [OF False] by blast
    moreover have "rn_Winners r = [\<lparr>al_AccountID = bd_AccountID (?es ! h), al_AmountCp = ro_WinCostCp cfg\<rparr>]"
      using r(3) False h(2) by simp
    ultimately show ?thesis using range r(1,2) h(1) \<open>good_entrants bids\<close> unfolding Let_def by metis
  qed
qed

text \<open>A roll does not depend on the order in which the entrants were listed: the whole
  resolution is the same for every permutation of them, errors included.\<close>

theorem roll_order_independent:
  assumes "mset bids' = mset bids"
  shows "roll_SettleAuction ctx ses bids' = roll_SettleAuction ctx ses bids"
proof -
  have "sort_key bd_AccountID bids' = sort_key bd_AccountID bids" if "good_entrants bids"
    using that by (intro sort_key_perm_eq [OF assms]) (use mset_eq_setD [OF assms] in \<open>auto simp: good_entrants_def distinct_map\<close>)
  then have "sortedEntrants bids' = sortedEntrants bids"
    by (simp add: sortedEntrants_eq good_entrants_perm [OF assms])
  then show ?thesis
    using mset_eq_length [OF assms] by (simp only: roll_SettleAuction_def)
qed

section \<open>Instances\<close>

definition roll_bids :: "bid list" where
  "roll_bids = [sample_bid ''c'' 0 1 ''main'', sample_bid ''a'' 0 1 '''', sample_bid ''b'' 0 1 ''alt'']"

lemma sample_roll: "roll_config_of (sample_ctx ''{}'' 500) = Inr defaultRollConfig"
  by code_simp

lemma sample_roll_good: "good_entrants roll_bids"
  by code_simp

theorem roll_winner_witness:
  "\<exists>r. roll_SettleAuction (sample_ctx ''{}'' 500) sample_session roll_bids = Inr r \<and>
    rn_RngSeed r = Some 42"
proof -
  have "roll_bids \<noteq> []" by (simp add: roll_bids_def)
  then show ?thesis
    using roll_winner [OF sample_roll, of roll_bids sample_session]
    unfolding Let_def by (auto simp: sample_roll_good) (auto simp: sample_ctx_def)
qed

theorem roll_order_independent_witness:
  "roll_SettleAuction (sample_ctx ''{}'' 500) sample_session (rev roll_bids) =
    roll_SettleAuction (sample_ctx ''{}'' 500) sample_session roll_bids"
  by (rule roll_order_independent) simp

end
