(* ===== verification/LootCouncil.thy ===== *)
theory LootCouncil
  imports Strategy
begin

text \<open>
  \<open>loot_council\<close> (internal/strategy/loot_council.go): officers decide, the planner only records the
  charge. An award with no recorded reason is refused where the pool requires one; an award at no
  charge moves nothing.
\<close>

definition lootCouncilID :: string where "lootCouncilID = ''loot_council''"
definition lootCouncilVersion :: string where "lootCouncilVersion = ''0.1.0''"

record loot_council_config =
  lc_ChargeCp :: centipoints
  lc_RequireReason :: bool
  lc_FloorCp :: centipoints

definition loot_council_knobs :: "loot_council_config knob list" where
  "loot_council_knobs = [(''charge_cp'', set_int lc_ChargeCp_update),
     (''require_reason'', set_bool lc_RequireReason_update),
     (''floor_cp'', set_int lc_FloorCp_update)]"

definition defaultLootCouncilConfig :: loot_council_config where
  "defaultLootCouncilConfig = \<lparr>lc_ChargeCp = 0, lc_RequireReason = True, lc_FloorCp = 0\<rparr>"

definition validateLootCouncilConfig :: "loot_council_config \<Rightarrow> loot_council_config res" where
  "validateLootCouncilConfig cfg = (if lc_ChargeCp cfg <s 0 then Inl ErrInvalidConfig else Inr cfg)"

definition loot_council_config_of :: "ctx \<Rightarrow> loot_council_config res" where
  "loot_council_config_of ctx =
    bindR (decodeConfig loot_council_knobs (cx_ConfigJSON ctx) defaultLootCouncilConfig)
      validateLootCouncilConfig"

definition resolveCouncilCharge :: "loot_council_config \<Rightarrow> award_event \<Rightarrow> centipoints res" where
  "resolveCouncilCharge cfg ev =
    (let charge = (case aw_PriceCp ev of Some price \<Rightarrow> price | None \<Rightarrow> lc_ChargeCp cfg) in
     if charge <s 0 then Inl ErrInvalidEvent
     else if charge = 0 then Inl ErrNothingToPlan
     else Inr charge)"

definition loot_council_PlanAward :: "ctx \<Rightarrow> award_event \<Rightarrow> batch_proposal res" where
  "loot_council_PlanAward ctx ev = bindR (loot_council_config_of ctx) (\<lambda>cfg.
     if ar_ID (aw_Buyer ev) = [] then Inl ErrInvalidEvent
     else if IsSystem (aw_Buyer ev) then Inl ErrInvalidEvent
     else if lc_RequireReason cfg \<and> TrimSpace (aw_Reason ev) = [] then Inl ErrInvalidEvent
     else bindR (resolveCouncilCharge cfg ev) (\<lambda>charge.
       bindR (cx_SystemAccount ctx SystemKeyGuildBank) (\<lambda>bank.
       let itemID = optionalULID (it_ID (aw_Item ev));
           entries = [
             entry0\<lparr>ep_AccountID := ar_ID (aw_Buyer ev), ep_CharacterID := aw_CharacterID ev,
               ep_BalanceKind := BalanceKindDKP, ep_AmountCp := - charge, ep_ItemID := itemID,
               ep_ItemAwardID := aw_ItemAwardID ev, ep_RaidID := aw_RaidID ev\<rparr>,
             entry0\<lparr>ep_AccountID := bank, ep_BalanceKind := BalanceKindDKP, ep_AmountCp := charge,
               ep_ItemID := itemID, ep_ItemAwardID := aw_ItemAwardID ev, ep_RaidID := aw_RaidID ev\<rparr>]
       in proposeZeroSum ctx lootCouncilID lootCouncilVersion KindAward (aw_EffectiveAt ev)
         (aw_Reason ev) entries
         [dkp_invariant InvariantSumZero None,
          dkp_invariant InvariantNonNegative (Some (lc_FloorCp cfg))])))"

definition loot_council_PlanAdjustment :: "ctx \<Rightarrow> adjustment_event \<Rightarrow> batch_proposal res" where
  "loot_council_PlanAdjustment ctx ev = bindR (loot_council_config_of ctx) (\<lambda>cfg.
     adjustmentProposal ctx lootCouncilID lootCouncilVersion (lc_FloorCp cfg) ev)"

definition loot_council_PlanReversal :: "ctx \<Rightarrow> ledger_batch \<Rightarrow> batch_proposal res" where
  "loot_council_PlanReversal ctx b = reversePlan ctx lootCouncilID b"

definition unsupported_priority :: "ctx \<Rightarrow> account_ref \<Rightarrow> priority res" where
  "unsupported_priority ctx acct = Unsupported"

definition LootCouncil :: point_strategy where
  "LootCouncil = \<lparr>ps_ID = lootCouncilID, ps_Version = lootCouncilVersion, ps_RuleKind = RuleSpend,
     ps_BalanceKinds = [BalanceKindDKP], ps_PlanAttendance = unsupported_attendance,
     ps_PlanAward = loot_council_PlanAward, ps_PlanAdjustment = loot_council_PlanAdjustment,
     ps_PlanDecay = unsupported_decay, ps_PlanReversal = loot_council_PlanReversal,
     ps_Spendable = spendableBalance, ps_Priority = unsupported_priority,
     ps_PriceHint = unsupported_hint, ps_ValidateBid = unsupported_bid,
     ps_SettleAuction = unsupported_auction, ps_Invariants = balance_invariants\<rparr>"

section \<open>The ledger laws\<close>

lemma loot_council_config_of_Inr:
  "loot_council_config_of ctx = Inr cfg \<longleftrightarrow>
    decodeConfig loot_council_knobs (cx_ConfigJSON ctx) defaultLootCouncilConfig = Inr cfg \<and>
    0 \<le> sint (lc_ChargeCp cfg)"
  by (auto simp: loot_council_config_of_def validateLootCouncilConfig_def res_simps i64_simps)

lemma lootCouncilID_ne [simp]: "lootCouncilID \<noteq> []"
  by (simp add: lootCouncilID_def)

lemma loot_council_award_law:
  "loot_council_PlanAward ctx ev = Inr p \<Longrightarrow>
    zero_sum_plan lootCouncilID lootCouncilVersion ctx p \<and> bp_Kind p = KindAward"
  by (auto simp: loot_council_PlanAward_def bindR_eq_Inr if_Inl_eq_Inr Let_def
    dest: proposeZeroSum_zero_sum proposeZeroSum_fields)

interpretation loot_council: ledger_strategy LootCouncil
  by unfold_locales (auto simp: LootCouncil_def loot_council_PlanAdjustment_def
    loot_council_PlanReversal_def unsupported_defs bindR_eq_Inr dest: batch_laws loot_council_award_law)

end
