(* ===== verification/ZeroSum.thy ===== *)
theory ZeroSum
  imports Strategy
begin

text \<open>
  \<open>zero_sum\<close> (internal/strategy/zero_sum.go): the price of an item is split among the night's
  raiders, the winner among them or not; a solo kill falls back to a system account or costs nothing.
\<close>

definition zeroSumID :: string where "zeroSumID = ''zero_sum''"
definition zeroSumVersion :: string where "zeroSumVersion = ''0.1.0''"
definition WinnerShareExcluded :: string where "WinnerShareExcluded = ''excluded''"
definition WinnerShareIncluded :: string where "WinnerShareIncluded = ''included''"
definition SoloPolicyFree :: string where "SoloPolicyFree = ''free''"

record zero_sum_config =
  zs_DefaultPriceCp :: centipoints
  zs_WinnerShare :: string
  zs_SoloPolicy :: string
  zs_FloorCp :: centipoints

definition zero_sum_knobs :: "zero_sum_config knob list" where
  "zero_sum_knobs = [(''default_price_cp'', set_int zs_DefaultPriceCp_update),
     (''winner_share'', set_string zs_WinnerShare_update),
     (''solo_policy'', set_string zs_SoloPolicy_update),
     (''floor_cp'', set_int zs_FloorCp_update)]"

definition defaultZeroSumConfig :: zero_sum_config where
  "defaultZeroSumConfig = \<lparr>zs_DefaultPriceCp = 0, zs_WinnerShare = WinnerShareExcluded,
     zs_SoloPolicy = SoloPolicyGuildBank, zs_FloorCp = 0\<rparr>"

definition validateZeroSumConfig :: "zero_sum_config \<Rightarrow> zero_sum_config res" where
  "validateZeroSumConfig cfg =
    (if zs_WinnerShare cfg \<noteq> WinnerShareExcluded \<and> zs_WinnerShare cfg \<noteq> WinnerShareIncluded
     then Inl ErrInvalidConfig
     else if zs_SoloPolicy cfg \<noteq> SoloPolicyGuildBank \<and> zs_SoloPolicy cfg \<noteq> SoloPolicyWriteOff \<and>
       zs_SoloPolicy cfg \<noteq> SoloPolicyFree
     then Inl ErrInvalidConfig
     else if zs_DefaultPriceCp cfg <s 0 then Inl ErrInvalidConfig
     else Inr cfg)"

definition zero_sum_config_of :: "ctx \<Rightarrow> zero_sum_config res" where
  "zero_sum_config_of ctx =
    bindR (decodeConfig zero_sum_knobs (cx_ConfigJSON ctx) defaultZeroSumConfig) validateZeroSumConfig"

definition beneficiaries :: "zero_sum_config \<Rightarrow> award_event \<Rightarrow> share list res" where
  "beneficiaries cfg ev =
    (let shares = sortedShares (aw_Beneficiaries ev) in
     bindR (checkDistinctShares shares) (\<lambda>_.
     bindR (all_ok checkShare shares) (\<lambda>_.
     if zs_WinnerShare cfg = WinnerShareIncluded then Inr shares
     else Inr (filter (\<lambda>b. sh_AccountID b \<noteq> ar_ID (aw_Buyer ev)) shares))))"

definition zero_sum_PlanAward :: "ctx \<Rightarrow> award_event \<Rightarrow> batch_proposal res" where
  "zero_sum_PlanAward ctx ev = bindR (zero_sum_config_of ctx) (\<lambda>cfg.
     bindR (checkBuyer (aw_Buyer ev)) (\<lambda>_.
     bindR (resolvePrice (zs_DefaultPriceCp cfg) ev) (\<lambda>price.
     bindR (beneficiaries cfg ev) (\<lambda>bens.
     if length bens = 0 \<and> zs_SoloPolicy cfg = SoloPolicyFree then Inl ErrNothingToPlan
     else let soloKey = (if zs_SoloPolicy cfg = SoloPolicyFree then SoloPolicyGuildBank
                         else zs_SoloPolicy cfg) in
       spendAward ctx zeroSumID zeroSumVersion
         \<lparr>st_Proceeds = ProceedsAttendees, st_SoloPolicy = soloKey, st_FloorCp = zs_FloorCp cfg\<rparr>
         (ev\<lparr>aw_Beneficiaries := bens\<rparr>) price))))"

definition zero_sum_PlanAdjustment :: "ctx \<Rightarrow> adjustment_event \<Rightarrow> batch_proposal res" where
  "zero_sum_PlanAdjustment ctx ev = bindR (zero_sum_config_of ctx) (\<lambda>cfg.
     adjustmentProposal ctx zeroSumID zeroSumVersion (zs_FloorCp cfg) ev)"

definition zero_sum_PlanReversal :: "ctx \<Rightarrow> ledger_batch \<Rightarrow> batch_proposal res" where
  "zero_sum_PlanReversal ctx b = reversePlan ctx zeroSumID b"

definition ZeroSum :: point_strategy where
  "ZeroSum = \<lparr>ps_ID = zeroSumID, ps_Version = zeroSumVersion, ps_RuleKind = RuleSpend,
     ps_BalanceKinds = [BalanceKindDKP], ps_PlanAttendance = unsupported_attendance,
     ps_PlanAward = zero_sum_PlanAward, ps_PlanAdjustment = zero_sum_PlanAdjustment,
     ps_PlanDecay = unsupported_decay, ps_PlanReversal = zero_sum_PlanReversal,
     ps_Spendable = spendableBalance, ps_Priority = priorityBySpendable,
     ps_PriceHint = unsupported_hint, ps_ValidateBid = unsupported_bid,
     ps_SettleAuction = unsupported_auction, ps_Invariants = split_invariants\<rparr>"

lemma zeroSumID_ne [simp]: "zeroSumID \<noteq> []"
  by (simp add: zeroSumID_def)

interpretation zero_sum: ledger_strategy ZeroSum
  by unfold_locales (auto simp: ZeroSum_def zero_sum_PlanAward_def zero_sum_PlanAdjustment_def
    zero_sum_PlanReversal_def unsupported_defs bindR_eq_Inr if_Inl_eq_Inr Let_def dest: batch_laws)

section \<open>The split\<close>

lemma beneficiaries_Inr:
  assumes "beneficiaries cfg ev = Inr bens"
  shows "distinct (map sh_AccountID (aw_Beneficiaries ev))"
    and "bens = filter (\<lambda>b. zs_WinnerShare cfg = WinnerShareIncluded \<or>
      sh_AccountID b \<noteq> ar_ID (aw_Buyer ev)) (sortedShares (aw_Beneficiaries ev))"
    and "\<forall>b \<in> set bens. sh_AccountID b \<noteq> [] \<and> 0 \<le> sint (sh_Weight b)"
  using assms
  by (auto simp: beneficiaries_def Let_def res_simps split: if_splits)

lemma zero_sum_award_Inr:
  assumes "zero_sum_PlanAward ctx ev = Inr p" and ctx: "fair_allocator ctx"
  obtains cfg price bens solo credits where "zero_sum_config_of ctx = Inr cfg"
    "resolvePrice (zs_DefaultPriceCp cfg) ev = Inr price" "0 < sint price"
    "beneficiaries cfg ev = Inr bens" "Allocate price (sortedShares bens) solo = Inr credits"
    "bens = [] \<longrightarrow> zs_SoloPolicy cfg \<noteq> SoloPolicyFree"
    "bp_Entries p = spend_debit (ev\<lparr>aw_Beneficiaries := bens\<rparr>) price #
       map (spend_credit (ev\<lparr>aw_Beneficiaries := bens\<rparr>)) credits"
proof -
  have "ProceedsAttendees \<noteq> ProceedsGuildBank"
    by (simp add: ProceedsAttendees_def ProceedsGuildBank_def)
  with assms show thesis
    by (auto simp: zero_sum_PlanAward_def spendAward_def routeProceeds_def fair_allocator_def Let_def
      bindR_eq_Inr if_Inl_eq_Inr i64_simps resolvePrice_Inr dest!: proposeZeroSum_fields(1)
      intro!: that)
qed

end
