(* ===== verification/DecayPercent.thy ===== *)
theory DecayPercent
  imports Strategy
begin

text \<open>
  \<open>decay_percent\<close> (internal/strategy/decay_percent.go): every period takes a share of every balance,
  never past the floor; a debt is skipped, shrunk, or grown, as the pool is configured.
\<close>

definition decayPercentID :: string where "decayPercentID = ''decay_percent''"
definition decayPercentVersion :: string where "decayPercentVersion = ''0.1.0''"
definition NegativeBalancesSkip :: string where "NegativeBalancesSkip = ''skip''"
definition NegativeBalancesTowardZero :: string where "NegativeBalancesTowardZero = ''toward_zero''"
definition NegativeBalancesPreserveSign :: string where
  "NegativeBalancesPreserveSign = ''preserve_sign''"

record decay_percent_config =
  dc_DecayBp :: i64
  dc_FloorCp :: centipoints
  dc_NegativeBalances :: string

definition decay_percent_knobs :: "decay_percent_config knob list" where
  "decay_percent_knobs = [(''decay_bp'', set_int dc_DecayBp_update),
     (''floor_cp'', set_int dc_FloorCp_update),
     (''negative_balances'', set_string dc_NegativeBalances_update)]"

definition defaultDecayPercentConfig :: decay_percent_config where
  "defaultDecayPercentConfig = \<lparr>dc_DecayBp = 0, dc_FloorCp = 0,
     dc_NegativeBalances = NegativeBalancesSkip\<rparr>"

definition validateDecayPercentConfig :: "decay_percent_config \<Rightarrow> decay_percent_config res" where
  "validateDecayPercentConfig cfg =
    (if dc_DecayBp cfg <s 0 \<or> basisPointsWhole <s dc_DecayBp cfg then Inl ErrInvalidConfig
     else if dc_DecayBp cfg = 0 then Inl ErrInvalidConfig
     else if dc_NegativeBalances cfg \<noteq> NegativeBalancesSkip \<and>
       dc_NegativeBalances cfg \<noteq> NegativeBalancesTowardZero \<and>
       dc_NegativeBalances cfg \<noteq> NegativeBalancesPreserveSign
     then Inl ErrInvalidConfig
     else if dc_NegativeBalances cfg = NegativeBalancesPreserveSign \<and> 0 \<le>s dc_FloorCp cfg
     then Inl ErrInvalidConfig
     else Inr cfg)"

definition decay_percent_config_of :: "ctx \<Rightarrow> decay_percent_config res" where
  "decay_percent_config_of ctx =
    bindR (decodeConfig decay_percent_knobs (cx_ConfigJSON ctx) defaultDecayPercentConfig)
      validateDecayPercentConfig"

definition decayable :: "decay_percent_config \<Rightarrow> centipoints \<Rightarrow> centipoints res" where
  "decayable cfg balance =
    (if 0 <s balance \<and> dc_FloorCp cfg <s balance then
       bindR (ok_or ErrInvalidEvent (subCentipoints balance (dc_FloorCp cfg))) (\<lambda>room.
       bindR (decayAmount balance (dc_DecayBp cfg)) (\<lambda>d. Inr (- go_min d room)))
     else if 0 \<le>s balance then Inr 0
     else if dc_NegativeBalances cfg = NegativeBalancesSkip then Inr 0
     else bindR (ok_or ErrInvalidEvent (subCentipoints 0 balance)) (\<lambda>magnitude.
       if dc_NegativeBalances cfg = NegativeBalancesTowardZero
       then decayAmount magnitude (dc_DecayBp cfg)
       else let room = balance - dc_FloorCp cfg in
         if room \<le>s 0 then Inr 0
         else bindR (decayAmount magnitude (dc_DecayBp cfg)) (\<lambda>d. Inr (- go_min d room))))"

definition decay_percent_price :: "decay_percent_config \<Rightarrow> ctx \<Rightarrow> decay_run \<Rightarrow> account_ref \<Rightarrow>
    centipoints res" where
  "decay_percent_price cfg ctx run a =
    bindR (cx_Balance ctx (ar_ID a) BalanceKindDKP (dr_AsOfSeq run)) (decayable cfg)"

definition decay_percent_PlanDecay :: "ctx \<Rightarrow> decay_run \<Rightarrow> batch_proposal res" where
  "decay_percent_PlanDecay ctx run = bindR (decay_percent_config_of ctx) (\<lambda>cfg.
     if dr_PeriodKey run = [] then Inl ErrInvalidEvent
     else bindR (cadenceTargets ctx run) (\<lambda>(targets, bank).
       bindR (accrue (skip_system (decay_percent_price cfg ctx run))
                (\<lambda>a amount. dkp_entry (ar_ID a) amount) 0 targets) (\<lambda>(entries, tot).
       if length entries = 0 then Inl ErrNothingToPlan
       else proposeZeroSum ctx decayPercentID decayPercentVersion KindDecay (dr_EffectiveAt run)
         (''decay '' @ dr_PeriodKey run)
         (if tot \<noteq> 0 then entries @ [dkp_entry bank (- tot)] else entries)
         [dkp_invariant InvariantSumZero None,
          dkp_invariant InvariantNonNegative (Some (dc_FloorCp cfg))])))"

definition decay_percent_PlanAdjustment :: "ctx \<Rightarrow> adjustment_event \<Rightarrow> batch_proposal res" where
  "decay_percent_PlanAdjustment ctx ev = bindR (decay_percent_config_of ctx) (\<lambda>cfg.
     adjustmentProposal ctx decayPercentID decayPercentVersion (dc_FloorCp cfg) ev)"

definition decay_percent_PlanReversal :: "ctx \<Rightarrow> ledger_batch \<Rightarrow> batch_proposal res" where
  "decay_percent_PlanReversal ctx b = reversePlan ctx decayPercentID b"

definition DecayPercent :: point_strategy where
  "DecayPercent = \<lparr>ps_ID = decayPercentID, ps_Version = decayPercentVersion,
     ps_RuleKind = RuleOverTime, ps_BalanceKinds = [BalanceKindDKP],
     ps_PlanAttendance = unsupported_attendance, ps_PlanAward = unsupported_award,
     ps_PlanAdjustment = decay_percent_PlanAdjustment, ps_PlanDecay = decay_percent_PlanDecay,
     ps_PlanReversal = decay_percent_PlanReversal, ps_Spendable = spendableBalance,
     ps_Priority = priorityBySpendable, ps_PriceHint = unsupported_hint,
     ps_ValidateBid = unsupported_bid, ps_SettleAuction = unsupported_auction,
     ps_Invariants = balance_invariants\<rparr>"

lemma decayPercentID_ne [simp]: "decayPercentID \<noteq> []"
  by (simp add: decayPercentID_def)

lemma decay_percent_Inr:
  assumes "decay_percent_PlanDecay ctx run = Inr p"
  obtains cfg accounts bank entries tot where "decay_percent_config_of ctx = Inr cfg"
    "run_accounts ctx run = Inr accounts" "distinct (map ar_ID accounts)"
    "cx_SystemAccount ctx SystemKeyGuildBank = Inr bank"
    "accrue (skip_system (decay_percent_price cfg ctx run))
       (\<lambda>a amount. dkp_entry (ar_ID a) amount) 0 (sortedAccounts accounts) = Inr (entries, tot)"
    "entries \<noteq> []"
    "bp_Entries p = (if tot \<noteq> 0 then entries @ [dkp_entry bank (- tot)] else entries)"
    "bp_Kind p = KindDecay" "zero_sum_plan decayPercentID decayPercentVersion ctx p"
proof -
  from assms obtain cfg targets bank entries tot where c: "decay_percent_config_of ctx = Inr cfg"
    "cadenceTargets ctx run = Inr (targets, bank)"
    "accrue (skip_system (decay_percent_price cfg ctx run))
       (\<lambda>a amount. dkp_entry (ar_ID a) amount) 0 targets = Inr (entries, tot)" "entries \<noteq> []"
    "proposeZeroSum ctx decayPercentID decayPercentVersion KindDecay (dr_EffectiveAt run)
       (''decay '' @ dr_PeriodKey run)
       (if tot \<noteq> 0 then entries @ [dkp_entry bank (- tot)] else entries)
       [dkp_invariant InvariantSumZero None,
        dkp_invariant InvariantNonNegative (Some (dc_FloorCp cfg))] = Inr p"
    unfolding decay_percent_PlanDecay_def bindR_eq_Inr if_Inl_eq_Inr split_paired_Ex prod.case
    by (auto simp: if_Inl_eq_Inr bindR_eq_Inr)
  then show thesis
    using proposeZeroSum_fields [OF c(5)] proposeZeroSum_zero_sum [OF c(5)]
    by (auto simp: cadenceTargets_run intro!: that simp del: bp_Entries_def)
qed

interpretation decay_percent: ledger_strategy DecayPercent
  by unfold_locales (auto simp: DecayPercent_def decay_percent_PlanAdjustment_def
    decay_percent_PlanReversal_def unsupported_defs bindR_eq_Inr dest: batch_laws
    elim: decay_percent_Inr)

section \<open>What decays\<close>

definition good_decay_config :: "decay_percent_config \<Rightarrow> bool" where
  "good_decay_config cfg \<longleftrightarrow> 0 < sint (dc_DecayBp cfg) \<and> sint (dc_DecayBp cfg) \<le> 10000 \<and>
     dc_NegativeBalances cfg \<in>
       {NegativeBalancesSkip, NegativeBalancesTowardZero, NegativeBalancesPreserveSign} \<and>
     (dc_NegativeBalances cfg = NegativeBalancesPreserveSign \<longrightarrow> sint (dc_FloorCp cfg) < 0)"

lemma decay_percent_config_good: "decay_percent_config_of ctx = Inr cfg \<Longrightarrow> good_decay_config cfg"
  using sint_eq_0 [of "dc_DecayBp cfg"]
  by (auto simp: decay_percent_config_of_def validateDecayPercentConfig_def good_decay_config_def
    bindR_eq_Inr if_Inl_eq_Inr i64_simps less_le)

text \<open>The change of a balance over the integers.\<close>

definition decayed :: "decay_percent_config \<Rightarrow> int \<Rightarrow> int" where
  "decayed cfg balance =
    (let bp = sint (dc_DecayBp cfg); fl = sint (dc_FloorCp cfg) in
     if 0 < balance then (if fl < balance then - min (balance * bp div 10000) (balance - fl) else 0)
     else if balance = 0 \<or> dc_NegativeBalances cfg = NegativeBalancesSkip then 0
     else if dc_NegativeBalances cfg = NegativeBalancesTowardZero then - balance * bp div 10000
     else if balance \<le> fl then 0 else - min (- balance * bp div 10000) (balance - fl))"

lemma sint_go_min_uminus: "0 \<le> sint d \<Longrightarrow> 0 \<le> sint r \<Longrightarrow> sint (- go_min d r) = - min (sint d) (sint r)"
  by (subst sint_uminus_pos) (simp_all add: sint_go_min)

lemma decayable_Inr:
  assumes "decayable cfg balance = Inr a" and good: "good_decay_config cfg"
  shows "sint a = decayed cfg (sint balance)"
proof -
  have bp: "0 \<le> sint (dc_DecayBp cfg)" "sint (dc_DecayBp cfg) \<le> 10000"
    using good by (auto simp: good_decay_config_def)
  consider (pos) "0 < sint balance" "sint (dc_FloorCp cfg) < sint balance"
    | (keep) "0 \<le> sint balance" "\<not> (0 < sint balance \<and> sint (dc_FloorCp cfg) < sint balance)"
    | (neg) "sint balance < 0" by linarith
  then show ?thesis
  proof cases
    case pos
    then obtain room d where r: "subCentipoints balance (dc_FloorCp cfg) = Some room"
      "decayAmount balance (dc_DecayBp cfg) = Inr d" "a = - go_min d room"
      using assms(1) by (auto simp: decayable_def i64_simps bindR_eq_Inr ok_or_eq_Inr)
    then show ?thesis
      using pos bp subCentipoints_sint [OF r(1)] decayAmount_sint [OF r(2)] decayAmount_range [OF r(2)]
      by (simp add: decayed_def Let_def sint_go_min_uminus)
  next
    case keep
    then have "a = 0" using assms(1) by (auto simp: decayable_def i64_simps split: if_splits)
    then show ?thesis using keep by (auto simp: decayed_def Let_def)
  next
    case neg
    show ?thesis
    proof (cases "dc_NegativeBalances cfg = NegativeBalancesSkip")
      case True
      then show ?thesis using neg assms(1) by (auto simp: decayable_def decayed_def i64_simps)
    next
      case ns: False
      then obtain m where m: "subCentipoints 0 balance = Some m"
        using assms(1) neg by (auto simp: decayable_def i64_simps bindR_eq_Inr ok_or_eq_Inr)
      then have sm: "sint m = - sint balance" using subCentipoints_sint by fastforce
      show ?thesis
      proof (cases "dc_NegativeBalances cfg = NegativeBalancesTowardZero")
        case True
        then have "decayAmount m (dc_DecayBp cfg) = Inr a"
          using assms(1) neg ns m by (auto simp: decayable_def i64_simps)
        then show ?thesis using decayAmount_sint bp sm neg ns True by (simp add: decayed_def Let_def)
      next
        case False
        then have fl: "sint (dc_FloorCp cfg) < 0"
          using good ns by (auto simp: good_decay_config_def)
        have room: "sint (balance - dc_FloorCp cfg) = sint balance - sint (dc_FloorCp cfg)"
          using neg fl sint_bounds [of balance] sint_bounds [of "dc_FloorCp cfg"]
          by (intro sint_sub) (simp add: in64_def)
        show ?thesis
        proof (cases "sint balance \<le> sint (dc_FloorCp cfg)")
          case True
          then show ?thesis
            using assms(1) neg ns m False room by (auto simp: decayable_def decayed_def i64_simps Let_def)
        next
          case gt: False
          then obtain d where d: "decayAmount m (dc_DecayBp cfg) = Inr d"
            "a = - go_min d (balance - dc_FloorCp cfg)"
            using assms(1) neg ns m False room
            by (auto simp: decayable_def i64_simps Let_def bindR_eq_Inr)
          then show ?thesis
            using decayAmount_sint [OF d(1)] decayAmount_range [OF d(1)] bp sm neg ns False gt room
            by (simp add: decayed_def Let_def sint_go_min_uminus)
        qed
      qed
    qed
  qed
qed

text \<open>A decay never crosses the floor or zero, and never moves a balance that is below the floor
  further down.\<close>

lemma decayed_bounds:
  assumes good: "good_decay_config cfg"
  shows "0 < b \<Longrightarrow> decayed cfg b \<le> 0 \<and> 0 \<le> b + decayed cfg b"
    and "sint (dc_FloorCp cfg) \<le> b \<Longrightarrow> sint (dc_FloorCp cfg) \<le> b + decayed cfg b"
    and "b < sint (dc_FloorCp cfg) \<Longrightarrow> 0 \<le> decayed cfg b"
    and "b < 0 \<Longrightarrow> b + decayed cfg b \<le> 0"
proof -
  let ?bp = "sint (dc_DecayBp cfg)" and ?fl = "sint (dc_FloorCp cfg)"
  have bp: "0 \<le> ?bp" "?bp \<le> 10000" using good by (auto simp: good_decay_config_def)
  have frac: "0 \<le> x * ?bp div 10000 \<and> x * ?bp div 10000 \<le> x" if "0 \<le> x" for x
    using that bp mult_div_le [of x ?bp 10000] by (simp add: pos_imp_zdiv_nonneg_iff)
  show "0 < b \<Longrightarrow> decayed cfg b \<le> 0 \<and> 0 \<le> b + decayed cfg b"
    using frac [of b] by (auto simp: decayed_def Let_def)
  show "?fl \<le> b \<Longrightarrow> ?fl \<le> b + decayed cfg b"
    using frac [of b] frac [of "- b"] by (auto simp: decayed_def Let_def)
  show "b < ?fl \<Longrightarrow> 0 \<le> decayed cfg b"
    using frac [of b] frac [of "- b"] by (auto simp: decayed_def Let_def)
  show "b < 0 \<Longrightarrow> b + decayed cfg b \<le> 0"
    using frac [of "- b"] by (auto simp: decayed_def Let_def)
qed

end
