(* ===== verification/DecayWindow.thy ===== *)
theory DecayWindow
  imports Strategy
begin

text \<open>
  \<open>decay_window\<close> (internal/strategy/decay_window.go): what an account earned in the slice of the log
  that has aged out of the window expires, as far as it is still on the books above the floor.
\<close>

definition decayWindowID :: string where "decayWindowID = ''decay_window''"
definition decayWindowVersion :: string where "decayWindowVersion = ''0.1.0''"
definition maxWindowDays :: i64 where "maxWindowDays = 3650"

record decay_window_config =
  dw_WindowDays :: i64
  dw_FloorCp :: centipoints

definition decay_window_knobs :: "decay_window_config knob list" where
  "decay_window_knobs = [(''window_days'', set_int dw_WindowDays_update),
     (''floor_cp'', set_int dw_FloorCp_update)]"

definition defaultDecayWindowConfig :: decay_window_config where
  "defaultDecayWindowConfig = \<lparr>dw_WindowDays = 0, dw_FloorCp = 0\<rparr>"

definition validateDecayWindowConfig :: "decay_window_config \<Rightarrow> decay_window_config res" where
  "validateDecayWindowConfig cfg =
    (if dw_WindowDays cfg \<le>s 0 then Inl ErrInvalidConfig
     else if maxWindowDays <s dw_WindowDays cfg then Inl ErrInvalidConfig
     else Inr cfg)"

definition decay_window_config_of :: "ctx \<Rightarrow> decay_window_config res" where
  "decay_window_config_of ctx =
    bindR (decodeConfig decay_window_knobs (cx_ConfigJSON ctx) defaultDecayWindowConfig)
      validateDecayWindowConfig"

text \<open>\<open>checkWindow\<close>; the window it leaves is not nil, so it is handed on.\<close>

definition checkWindow :: "decay_window_config \<Rightarrow> decay_run \<Rightarrow> expiry_window res" where
  "checkWindow cfg run = (case dr_Window run of None \<Rightarrow> Inl ErrInvalidEvent | Some w \<Rightarrow>
     if ew_Days w \<noteq> dw_WindowDays cfg then Inl ErrInvalidEvent
     else if ew_FromSeq w <s 0 \<or> ew_ToSeq w <s 0 then Inl ErrInvalidEvent
     else if ew_ToSeq w <s ew_FromSeq w then Inl ErrInvalidEvent
     else if dr_AsOfSeq run <s ew_ToSeq w then Inl ErrInvalidEvent
     else Inr w)"

definition expired :: "decay_window_config \<Rightarrow> expiry_window \<Rightarrow> ctx \<Rightarrow> decay_run \<Rightarrow> account_ref \<Rightarrow>
    centipoints res" where
  "expired cfg w ctx run a =
    bindR (cx_EarnedBetween ctx (ar_ID a) BalanceKindDKP (ew_FromSeq w) (ew_ToSeq w)) (\<lambda>earned.
    if earned \<le>s 0 then Inr 0
    else bindR (cx_Balance ctx (ar_ID a) BalanceKindDKP (dr_AsOfSeq run)) (\<lambda>balance.
    bindR (ok_or ErrInvalidEvent (subCentipoints balance (dw_FloorCp cfg))) (\<lambda>available.
    if available \<le>s 0 then Inr 0 else Inr (go_min earned available))))"

definition decay_window_PlanDecay :: "ctx \<Rightarrow> decay_run \<Rightarrow> batch_proposal res" where
  "decay_window_PlanDecay ctx run = bindR (decay_window_config_of ctx) (\<lambda>cfg.
     if dr_PeriodKey run = [] then Inl ErrInvalidEvent
     else bindR (checkWindow cfg run) (\<lambda>w.
       cadence_debits decayWindowID decayWindowVersion KindDecay (''decay '' @ dr_PeriodKey run)
         (dw_FloorCp cfg) (expired cfg w ctx run) ctx run))"

definition decay_window_PlanAdjustment :: "ctx \<Rightarrow> adjustment_event \<Rightarrow> batch_proposal res" where
  "decay_window_PlanAdjustment ctx ev = bindR (decay_window_config_of ctx) (\<lambda>cfg.
     adjustmentProposal ctx decayWindowID decayWindowVersion (dw_FloorCp cfg) ev)"

definition decay_window_PlanReversal :: "ctx \<Rightarrow> ledger_batch \<Rightarrow> batch_proposal res" where
  "decay_window_PlanReversal ctx b = reversePlan ctx decayWindowID b"

definition DecayWindow :: point_strategy where
  "DecayWindow = \<lparr>ps_ID = decayWindowID, ps_Version = decayWindowVersion,
     ps_RuleKind = RuleOverTime, ps_BalanceKinds = [BalanceKindDKP],
     ps_PlanAttendance = unsupported_attendance, ps_PlanAward = unsupported_award,
     ps_PlanAdjustment = decay_window_PlanAdjustment, ps_PlanDecay = decay_window_PlanDecay,
     ps_PlanReversal = decay_window_PlanReversal, ps_Spendable = spendableBalance,
     ps_Priority = priorityBySpendable, ps_PriceHint = unsupported_hint,
     ps_ValidateBid = unsupported_bid, ps_SettleAuction = unsupported_auction,
     ps_Invariants = balance_invariants\<rparr>"

lemma decayWindowID_ne [simp]: "decayWindowID \<noteq> []"
  by (simp add: decayWindowID_def)

interpretation decay_window: ledger_strategy DecayWindow
  by unfold_locales (auto simp: DecayWindow_def decay_window_PlanAdjustment_def
    decay_window_PlanDecay_def decay_window_PlanReversal_def unsupported_defs bindR_eq_Inr
    if_Inl_eq_Inr dest: batch_laws)

section \<open>What expires\<close>

lemma checkWindow_Inr:
  "checkWindow cfg run = Inr w \<longleftrightarrow> dr_Window run = Some w \<and> ew_Days w = dw_WindowDays cfg \<and>
    0 \<le> sint (ew_FromSeq w) \<and> sint (ew_FromSeq w) \<le> sint (ew_ToSeq w) \<and>
    sint (ew_ToSeq w) \<le> sint (dr_AsOfSeq run)"
  by (auto simp: checkWindow_def i64_simps split: option.splits)

text \<open>The lesser of what was earned and what is left above the floor, and nothing below zero.\<close>

lemma expired_Inr:
  assumes "expired cfg w ctx run a = Inr d"
  obtains (none) earned where
      "cx_EarnedBetween ctx (ar_ID a) BalanceKindDKP (ew_FromSeq w) (ew_ToSeq w) = Inr earned"
      "sint earned \<le> 0" "d = 0"
  | (some) earned bal where
      "cx_EarnedBetween ctx (ar_ID a) BalanceKindDKP (ew_FromSeq w) (ew_ToSeq w) = Inr earned"
      "0 < sint earned" "cx_Balance ctx (ar_ID a) BalanceKindDKP (dr_AsOfSeq run) = Inr bal"
      "sint d = max 0 (min (sint earned) (sint bal - sint (dw_FloorCp cfg)))"
proof -
  from assms obtain earned where e:
    "cx_EarnedBetween ctx (ar_ID a) BalanceKindDKP (ew_FromSeq w) (ew_ToSeq w) = Inr earned"
    by (auto simp: expired_def bindR_eq_Inr)
  show thesis
  proof (cases "sint earned \<le> 0")
    case True
    then show thesis using none [OF e] assms e by (simp add: expired_def i64_simps)
  next
    case False
    obtain bal where b: "cx_Balance ctx (ar_ID a) BalanceKindDKP (dr_AsOfSeq run) = Inr bal"
      using assms e False by (auto simp: expired_def bindR_eq_Inr sle_sint)
    obtain av where av: "subCentipoints bal (dw_FloorCp cfg) = Some av"
      using assms e b False by (auto simp: expired_def bindR_eq_Inr ok_or_eq_Inr sle_sint)
    have d: "(if sint av \<le> 0 then Inr 0 else Inr (go_min earned av)) = (Inr d :: error + i64)"
      using assms e b av False by (simp add: expired_def ok_or_def sle_sint)
    have "sint d = max 0 (min (sint earned) (sint bal - sint (dw_FloorCp cfg)))"
      using d False subCentipoints_sint [OF av] by (auto simp: sint_go_min split: if_splits)
    then show thesis using some [OF e _ b] False by simp
  qed
qed

end
