(* ===== verification/Cap.thy ===== *)
theory Cap
  imports Strategy
begin

text \<open>
  \<open>cap\<close> (internal/strategy/cap.go): a ceiling on balances. A tick credits nothing that would lift a
  balance above the hard cap and a reduced share of what lies above the soft cap; a cadence run
  trims every balance above the hard cap down to it.
\<close>

definition capID :: string where "capID = ''cap''"
definition capVersion :: string where "capVersion = ''0.1.0''"

record cap_config =
  ca_HardCapCp :: centipoints
  ca_SoftCapCp :: centipoints
  ca_OverCapEarnBp :: i64
  ca_TickAwardCp :: centipoints
  ca_FloorCp :: centipoints

definition cap_knobs :: "cap_config knob list" where
  "cap_knobs = [(''hard_cap_cp'', set_int ca_HardCapCp_update),
     (''soft_cap_cp'', set_int ca_SoftCapCp_update),
     (''over_cap_earn_bp'', set_int ca_OverCapEarnBp_update),
     (''tick_award_cp'', set_int ca_TickAwardCp_update),
     (''floor_cp'', set_int ca_FloorCp_update)]"

definition defaultCapConfig :: cap_config where
  "defaultCapConfig = \<lparr>ca_HardCapCp = 0, ca_SoftCapCp = 0, ca_OverCapEarnBp = 0,
     ca_TickAwardCp = 100, ca_FloorCp = 0\<rparr>"

definition validateCapConfig :: "cap_config \<Rightarrow> cap_config res" where
  "validateCapConfig cfg =
    (if ca_TickAwardCp cfg \<le>s 0 then Inl ErrInvalidConfig
     else if ca_HardCapCp cfg <s 0 then Inl ErrInvalidConfig
     else if ca_SoftCapCp cfg <s 0 then Inl ErrInvalidConfig
     else if ca_OverCapEarnBp cfg <s 0 \<or> basisPointsWhole <s ca_OverCapEarnBp cfg
     then Inl ErrInvalidConfig
     else if ca_HardCapCp cfg = 0 \<and> ca_SoftCapCp cfg = 0 then Inl ErrInvalidConfig
     else if 0 <s ca_HardCapCp cfg \<and> ca_HardCapCp cfg <s ca_SoftCapCp cfg then Inl ErrInvalidConfig
     else if 0 <s ca_OverCapEarnBp cfg \<and> ca_SoftCapCp cfg = 0 then Inl ErrInvalidConfig
     else if 0 <s ca_HardCapCp cfg \<and> ca_HardCapCp cfg <s ca_FloorCp cfg then Inl ErrInvalidConfig
     else Inr cfg)"

definition cap_config_of :: "ctx \<Rightarrow> cap_config res" where
  "cap_config_of ctx =
    bindR (decodeConfig cap_knobs (cx_ConfigJSON ctx) defaultCapConfig) validateCapConfig"

definition soft_net :: "cap_config \<Rightarrow> centipoints \<Rightarrow> centipoints \<Rightarrow> centipoints res" where
  "soft_net cfg balance gross =
    (if 0 <s ca_SoftCapCp cfg then
       bindR (ok_or ErrInvalidEvent (subCentipoints (ca_SoftCapCp cfg) balance)) (\<lambda>room0.
       let room = (if room0 <s 0 then 0 else room0) in
       if room <s gross then
         bindR (ok_or ErrInvalidEvent (scaleByBasisPoints (gross - room) (ca_OverCapEarnBp cfg)))
           (\<lambda>reduced. ok_or ErrInvalidEvent (addCentipoints room reduced))
       else Inr gross)
     else Inr gross)"

definition hard_net :: "cap_config \<Rightarrow> centipoints \<Rightarrow> centipoints \<Rightarrow> centipoints res" where
  "hard_net cfg balance net =
    (if 0 <s ca_HardCapCp cfg then
       bindR (ok_or ErrInvalidEvent (subCentipoints (ca_HardCapCp cfg) balance)) (\<lambda>headroom0.
       let headroom = (if headroom0 <s 0 then 0 else headroom0) in
       Inr (if headroom <s net then headroom else net))
     else Inr net)"

definition earnable :: "cap_config \<Rightarrow> centipoints \<Rightarrow> centipoints \<Rightarrow> centipoints res" where
  "earnable cfg balance gross = bindR (soft_net cfg balance gross) (hard_net cfg balance)"

definition cap_price :: "cap_config \<Rightarrow> ctx \<Rightarrow> centipoints \<Rightarrow> share \<Rightarrow> centipoints res" where
  "cap_price cfg ctx amount a =
    bindR (checkShare a) (\<lambda>_.
    bindR (ok_or ErrInvalidEvent (mulCentipoints amount (sh_Weight a))) (\<lambda>gross.
    bindR (cx_Balance ctx (sh_AccountID a) BalanceKindDKP (cx_HeadSeq ctx)) (\<lambda>balance.
    earnable cfg balance gross)))"

definition cap_PlanAttendance :: "ctx \<Rightarrow> attendance_event \<Rightarrow> batch_proposal res" where
  "cap_PlanAttendance ctx ev = bindR (cap_config_of ctx) (\<lambda>cfg.
     attendance_tick capID capVersion (ca_TickAwardCp cfg) (cap_price cfg ctx) ctx ev)"

definition cap_excess :: "centipoints \<Rightarrow> ctx \<Rightarrow> decay_run \<Rightarrow> account_ref \<Rightarrow> centipoints res" where
  "cap_excess hard ctx run a =
    bindR (cx_Balance ctx (ar_ID a) BalanceKindDKP (dr_AsOfSeq run)) (\<lambda>balance.
      if balance \<le>s hard then Inr 0 else Inr (balance - hard))"

definition cap_PlanDecay :: "ctx \<Rightarrow> decay_run \<Rightarrow> batch_proposal res" where
  "cap_PlanDecay ctx run = bindR (cap_config_of ctx) (\<lambda>cfg.
     if ca_HardCapCp cfg = 0 then Inl ErrInvalidConfig
     else if dr_PeriodKey run = [] then Inl ErrInvalidEvent
     else cadence_debits capID capVersion KindCap (''cap '' @ dr_PeriodKey run) (ca_FloorCp cfg)
       (cap_excess (ca_HardCapCp cfg) ctx run) ctx run)"

definition cap_PlanAdjustment :: "ctx \<Rightarrow> adjustment_event \<Rightarrow> batch_proposal res" where
  "cap_PlanAdjustment ctx ev = bindR (cap_config_of ctx) (\<lambda>cfg.
     adjustmentProposal ctx capID capVersion (ca_FloorCp cfg) ev)"

definition cap_PlanReversal :: "ctx \<Rightarrow> ledger_batch \<Rightarrow> batch_proposal res" where
  "cap_PlanReversal ctx b = reversePlan ctx capID b"

definition Cap :: point_strategy where
  "Cap = \<lparr>ps_ID = capID, ps_Version = capVersion, ps_RuleKind = RuleOverTime,
     ps_BalanceKinds = [BalanceKindDKP], ps_PlanAttendance = cap_PlanAttendance,
     ps_PlanAward = unsupported_award, ps_PlanAdjustment = cap_PlanAdjustment,
     ps_PlanDecay = cap_PlanDecay, ps_PlanReversal = cap_PlanReversal,
     ps_Spendable = spendableBalance, ps_Priority = priorityBySpendable,
     ps_PriceHint = unsupported_hint, ps_ValidateBid = unsupported_bid,
     ps_SettleAuction = unsupported_auction, ps_Invariants = balance_invariants\<rparr>"

lemma capID_ne [simp]: "capID \<noteq> []"
  by (simp add: capID_def)

interpretation cap: ledger_strategy Cap
  by unfold_locales (auto simp: Cap_def cap_PlanAttendance_def cap_PlanAdjustment_def
    cap_PlanDecay_def cap_PlanReversal_def unsupported_defs bindR_eq_Inr if_Inl_eq_Inr
    dest: batch_laws)

section \<open>The ceiling\<close>

definition good_cap_config :: "cap_config \<Rightarrow> bool" where
  "good_cap_config cfg \<longleftrightarrow> 0 < sint (ca_TickAwardCp cfg) \<and> 0 \<le> sint (ca_HardCapCp cfg) \<and>
     0 \<le> sint (ca_SoftCapCp cfg) \<and> 0 \<le> sint (ca_OverCapEarnBp cfg) \<and>
     sint (ca_OverCapEarnBp cfg) \<le> 10000 \<and>
     (0 < sint (ca_HardCapCp cfg) \<longrightarrow> sint (ca_SoftCapCp cfg) \<le> sint (ca_HardCapCp cfg) \<and>
       sint (ca_FloorCp cfg) \<le> sint (ca_HardCapCp cfg))"

lemma validateCapConfig_good: "validateCapConfig cfg = Inr c \<Longrightarrow> c = cfg \<and> good_cap_config cfg"
  by (auto simp: validateCapConfig_def good_cap_config_def if_Inl_eq_Inr i64_simps)

lemma cap_config_of_good: "cap_config_of ctx = Inr cfg \<Longrightarrow> good_cap_config cfg"
  by (auto simp: cap_config_of_def bindR_eq_Inr dest: validateCapConfig_good)

text \<open>The cap over the integers: what a balance may still gain, and what it gains of a gross amount.\<close>

definition soft_earned :: "cap_config \<Rightarrow> int \<Rightarrow> int \<Rightarrow> int" where
  "soft_earned cfg balance gross =
    (let room = max 0 (sint (ca_SoftCapCp cfg) - balance) in
     if sint (ca_SoftCapCp cfg) = 0 \<or> gross \<le> room then gross
     else room + (gross - room) * sint (ca_OverCapEarnBp cfg) div 10000)"

definition cap_earned :: "cap_config \<Rightarrow> int \<Rightarrow> int \<Rightarrow> int" where
  "cap_earned cfg balance gross =
    (if sint (ca_HardCapCp cfg) = 0 then soft_earned cfg balance gross
     else min (soft_earned cfg balance gross) (max 0 (sint (ca_HardCapCp cfg) - balance)))"

lemma clamped_room: "sint (if r <s 0 then 0 else r :: i64) = max 0 (sint r)"
  by (auto simp: i64_simps max_def)

lemma soft_net_Inr:
  assumes "soft_net cfg balance gross = Inr n" "good_cap_config cfg" "0 \<le> sint gross"
  shows "sint n = soft_earned cfg (sint balance) (sint gross)"
proof (cases "0 < sint (ca_SoftCapCp cfg)")
  case False
  then have "sint (ca_SoftCapCp cfg) = 0" using assms(2) by (simp add: good_cap_config_def)
  then show ?thesis using assms(1) False by (simp add: soft_net_def soft_earned_def i64_simps)
next
  case True
  then obtain room0 where r0: "subCentipoints (ca_SoftCapCp cfg) balance = Some room0"
    using assms(1) by (auto simp: soft_net_def bindR_eq_Inr ok_or_eq_Inr i64_simps)
  define room where "room = (if room0 <s 0 then 0 else room0)"
  have room: "sint room = max 0 (sint (ca_SoftCapCp cfg) - sint balance)"
    unfolding room_def clamped_room subCentipoints_sint [OF r0] ..
  show ?thesis
  proof (cases "sint gross \<le> sint room")
    case le: True
    then have "n = gross"
      using assms(1) True r0 room_def by (simp add: soft_net_def i64_simps Let_def)
    then show ?thesis using le by (simp add: soft_earned_def Let_def room)
  next
    case gt: False
    then obtain red where red: "scaleByBasisPoints (gross - room) (ca_OverCapEarnBp cfg) = Some red"
      "addCentipoints room red = Some n"
      using assms(1) True r0 room_def
      by (auto simp: soft_net_def i64_simps Let_def bindR_eq_Inr ok_or_eq_Inr simp del: addCentipoints_eq_Some)
    have "sint (gross - room) = sint gross - sint room"
      using gt assms(3) room sint_bounds [of gross] by (intro sint_sub) (auto simp: in64_def)
    then show ?thesis
      using scaleByBasisPoints_sint [OF red(1)] addCentipoints_sint [OF red(2)] gt True
      by (auto simp: soft_earned_def Let_def room)
  qed
qed

lemma hard_net_Inr:
  assumes "hard_net cfg balance net = Inr e" "good_cap_config cfg"
  shows "sint e = (if sint (ca_HardCapCp cfg) = 0 then sint net
    else min (sint net) (max 0 (sint (ca_HardCapCp cfg) - sint balance)))"
proof (cases "0 < sint (ca_HardCapCp cfg)")
  case False
  then have "sint (ca_HardCapCp cfg) = 0" using assms(2) by (simp add: good_cap_config_def)
  then show ?thesis using assms(1) False by (simp add: hard_net_def i64_simps)
next
  case True
  then obtain h0 where h0: "subCentipoints (ca_HardCapCp cfg) balance = Some h0"
    using assms(1) by (auto simp: hard_net_def bindR_eq_Inr ok_or_eq_Inr i64_simps)
  define h where "h = (if h0 <s 0 then 0 else h0)"
  have h: "sint h = max 0 (sint (ca_HardCapCp cfg) - sint balance)"
    unfolding h_def clamped_room subCentipoints_sint [OF h0] ..
  have "e = (if h <s net then h else net)"
    using assms(1) True h0 unfolding h_def hard_net_def by (auto simp: i64_simps Let_def)
  then show ?thesis using h True by (auto simp: i64_simps min_def)
qed

lemma earnable_Inr:
  assumes "earnable cfg balance gross = Inr e" "good_cap_config cfg" "0 \<le> sint gross"
  shows "sint e = cap_earned cfg (sint balance) (sint gross)"
proof -
  from assms(1) obtain n where n: "soft_net cfg balance gross = Inr n" "hard_net cfg balance n = Inr e"
    by (auto simp: earnable_def bindR_eq_Inr)
  from hard_net_Inr [OF n(2) assms(2)] soft_net_Inr [OF n(1) assms(2,3)]
  show ?thesis by (simp add: cap_earned_def)
qed

lemma soft_earned_range:
  assumes "good_cap_config cfg" "0 \<le> gross"
  shows "0 \<le> soft_earned cfg balance gross" "soft_earned cfg balance gross \<le> gross"
proof -
  let ?room = "max 0 (sint (ca_SoftCapCp cfg) - balance)" and ?bp = "sint (ca_OverCapEarnBp cfg)"
  have bp: "0 \<le> ?bp" "?bp \<le> 10000" using assms(1) by (auto simp: good_cap_config_def)
  have "0 \<le> (gross - ?room) * ?bp div 10000 \<and> (gross - ?room) * ?bp div 10000 \<le> gross - ?room"
    if "?room < gross"
    using that bp mult_div_le [of "gross - ?room" ?bp 10000]
    by (simp add: pos_imp_zdiv_nonneg_iff)
  then show "0 \<le> soft_earned cfg balance gross" "soft_earned cfg balance gross \<le> gross"
    using assms(2) by (auto simp: soft_earned_def Let_def not_le)
qed

lemma cap_earned_range:
  assumes "good_cap_config cfg" "0 \<le> gross"
  shows "0 \<le> cap_earned cfg balance gross" "cap_earned cfg balance gross \<le> gross"
    and "0 < sint (ca_HardCapCp cfg) \<Longrightarrow>
      balance + cap_earned cfg balance gross \<le> max balance (sint (ca_HardCapCp cfg))"
  using soft_earned_range [OF assms, of balance] by (auto simp: cap_earned_def)

lemma cap_price_Inr:
  assumes "cap_price cfg ctx amount a = Inr e" "good_cap_config cfg" "0 < sint amount"
  obtains bal where "cx_Balance ctx (sh_AccountID a) BalanceKindDKP (cx_HeadSeq ctx) = Inr bal"
    "sint e = cap_earned cfg (sint bal) (sint amount * sint (sh_Weight a))"
    "0 \<le> sint amount * sint (sh_Weight a)"
proof -
  from assms(1) obtain gross bal where g: "0 \<le> sint (sh_Weight a)"
    "mulCentipoints amount (sh_Weight a) = Some gross"
    "cx_Balance ctx (sh_AccountID a) BalanceKindDKP (cx_HeadSeq ctx) = Inr bal"
    "earnable cfg bal gross = Inr e"
    by (auto simp: cap_price_def bindR_eq_Inr checkShare_Inr ok_or_eq_Inr)
  have gross: "sint gross = sint amount * sint (sh_Weight a)"
    by (rule mulCentipoints_sint [OF g(1,2)])
  moreover have "0 \<le> sint amount * sint (sh_Weight a)" using g(1) assms(3) by simp
  ultimately show thesis
    using that [OF g(3)] earnable_Inr [OF g(4) assms(2)] by simp
qed

lemma cap_excess_Inr:
  assumes "cap_excess hard ctx run a = Inr d" "0 \<le> sint hard"
  obtains bal where "cx_Balance ctx (ar_ID a) BalanceKindDKP (dr_AsOfSeq run) = Inr bal"
    "sint d = max 0 (sint bal - sint hard)"
proof -
  from assms(1) obtain bal where bal: "cx_Balance ctx (ar_ID a) BalanceKindDKP (dr_AsOfSeq run) = Inr bal"
    "d = (if sint bal \<le> sint hard then 0 else bal - hard)"
    by (auto simp: cap_excess_def bindR_eq_Inr i64_simps split: if_splits)
  have "sint (bal - hard) = sint bal - sint hard" if "\<not> sint bal \<le> sint hard"
    using that assms(2) sint_bounds [of bal] by (intro sint_sub) (auto simp: in64_def)
  then show thesis using that bal by auto
qed

end
