(* ===== verification/AttendanceWeighted.thy ===== *)
theory AttendanceWeighted
  imports Strategy
begin

text \<open>
  \<open>attendance_weighted\<close> (internal/strategy/attendance_weighted.go): a raid has one pot, split
  across its attendees by attendance weight with the largest-remainder allocator.
\<close>

definition attendanceWeightedID :: string where "attendanceWeightedID = ''attendance_weighted''"
definition attendanceWeightedVersion :: string where "attendanceWeightedVersion = ''0.1.0''"

record attendance_weighted_config =
  aq_RaidPotCp :: centipoints
  aq_FloorCp :: centipoints

definition attendance_weighted_knobs :: "attendance_weighted_config knob list" where
  "attendance_weighted_knobs = [(''raid_pot_cp'', set_int aq_RaidPotCp_update),
     (''floor_cp'', set_int aq_FloorCp_update)]"

definition defaultAttendanceWeightedConfig :: attendance_weighted_config where
  "defaultAttendanceWeightedConfig = \<lparr>aq_RaidPotCp = 10000, aq_FloorCp = 0\<rparr>"

definition validateAttendanceWeightedConfig ::
    "attendance_weighted_config \<Rightarrow> attendance_weighted_config res" where
  "validateAttendanceWeightedConfig cfg =
    (if aq_RaidPotCp cfg \<le>s 0 then Inl ErrInvalidConfig else Inr cfg)"

definition attendance_weighted_config_of :: "ctx \<Rightarrow> attendance_weighted_config res" where
  "attendance_weighted_config_of ctx =
    bindR (decodeConfig attendance_weighted_knobs (cx_ConfigJSON ctx) defaultAttendanceWeightedConfig)
      validateAttendanceWeightedConfig"

fun attendance_weights_loop :: "i64 \<Rightarrow> share list \<Rightarrow> i64 res" where
  "attendance_weights_loop tot [] = Inr tot"
| "attendance_weights_loop tot (a # as) =
    bindR (checkShare a) (\<lambda>_. let sum = tot + sh_Weight a in
      if sum <s tot then Inl ErrInvalidEvent else attendance_weights_loop sum as)"

definition checkAttendanceWeights :: "share list \<Rightarrow> unit res" where
  "checkAttendanceWeights xs = bindR (attendance_weights_loop 0 xs) (\<lambda>tot.
     if tot = 0 then Inl ErrNothingToPlan else Inr ())"

definition attendance_weighted_PlanAttendance :: "ctx \<Rightarrow> attendance_event \<Rightarrow> batch_proposal res" where
  "attendance_weighted_PlanAttendance ctx ev = bindR (attendance_weighted_config_of ctx) (\<lambda>cfg.
     if length (at_Attendees ev) = 0 then Inl ErrInvalidEvent
     else let pot = (case at_AmountCp ev of Some a \<Rightarrow> a | None \<Rightarrow> aq_RaidPotCp cfg) in
       if pot \<le>s 0 then Inl ErrInvalidEvent
       else let attendees = sortedShares (at_Attendees ev) in
         bindR (checkDistinctShares attendees) (\<lambda>_.
         bindR (checkNoSystemAccounts ctx attendees) (\<lambda>_.
         bindR (checkAttendanceWeights attendees) (\<lambda>_.
         bindR (cx_SystemAccount ctx SystemKeyGuildBank) (\<lambda>bank.
         bindR (cx_Allocate ctx pot attendees bank) (\<lambda>credits.
         proposeZeroSum ctx attendanceWeightedID attendanceWeightedVersion KindAttendance
           (at_EffectiveAt ev) (at_Reason ev)
           (attendance_entry ev bank (- pot) #
            map (\<lambda>c. attendance_entry ev (al_AccountID c) (al_AmountCp c)) credits)
           [dkp_invariant InvariantSumZero None,
            dkp_invariant InvariantLargestRemainderSumsToDebit None]))))))"

definition attendance_weighted_PlanAdjustment :: "ctx \<Rightarrow> adjustment_event \<Rightarrow> batch_proposal res" where
  "attendance_weighted_PlanAdjustment ctx ev = bindR (attendance_weighted_config_of ctx) (\<lambda>cfg.
     adjustmentProposal ctx attendanceWeightedID attendanceWeightedVersion (aq_FloorCp cfg) ev)"

definition attendance_weighted_PlanReversal :: "ctx \<Rightarrow> ledger_batch \<Rightarrow> batch_proposal res" where
  "attendance_weighted_PlanReversal ctx b = reversePlan ctx attendanceWeightedID b"

definition AttendanceWeighted :: point_strategy where
  "AttendanceWeighted = \<lparr>ps_ID = attendanceWeightedID, ps_Version = attendanceWeightedVersion,
     ps_RuleKind = RuleEarn, ps_BalanceKinds = [BalanceKindDKP],
     ps_PlanAttendance = attendance_weighted_PlanAttendance, ps_PlanAward = unsupported_award,
     ps_PlanAdjustment = attendance_weighted_PlanAdjustment, ps_PlanDecay = unsupported_decay,
     ps_PlanReversal = attendance_weighted_PlanReversal, ps_Spendable = spendableBalance,
     ps_Priority = priorityBySpendable, ps_PriceHint = unsupported_hint,
     ps_ValidateBid = unsupported_bid, ps_SettleAuction = unsupported_auction,
     ps_Invariants = split_invariants\<rparr>"

lemma attendanceWeightedID_ne [simp]: "attendanceWeightedID \<noteq> []"
  by (simp add: attendanceWeightedID_def)

lemma attendance_weighted_law:
  "attendance_weighted_PlanAttendance ctx ev = Inr p \<Longrightarrow>
    zero_sum_plan attendanceWeightedID attendanceWeightedVersion ctx p \<and> bp_Kind p = KindAttendance"
  by (auto simp: attendance_weighted_PlanAttendance_def Let_def bindR_eq_Inr if_Inl_eq_Inr
    dest: proposeZeroSum_zero_sum proposeZeroSum_fields)

interpretation attendance_weighted: ledger_strategy AttendanceWeighted
  by unfold_locales (auto simp: AttendanceWeighted_def attendance_weighted_PlanAdjustment_def
    attendance_weighted_PlanReversal_def unsupported_defs bindR_eq_Inr
    dest: batch_laws attendance_weighted_law)

section \<open>The split of the pot\<close>

lemma attendance_weights_loop_Inr:
  "0 \<le> sint tot \<Longrightarrow> attendance_weights_loop tot xs = Inr w \<longleftrightarrow>
    (\<forall>a \<in> set xs. sh_AccountID a \<noteq> []) \<and> sumWeights_loop tot xs = Inr w"
proof (induction xs arbitrary: tot)
  case (Cons a xs)
  show ?case
  proof (cases "0 \<le> sint (sh_Weight a) \<and> \<not> tot + sh_Weight a <s tot")
    case True
    then have "0 \<le> sint (tot + sh_Weight a)" using Cons.prems by (auto simp: i64_simps)
    then show ?thesis
      using True Cons.IH by (auto simp: checkShare_def i64_simps Let_def)
  next
    case False
    then show ?thesis by (auto simp: checkShare_def i64_simps Let_def)
  qed
qed auto

text \<open>
  The weights that pass the planner's check are the weights the allocator accepts, with a positive
  sum: the split never falls back to the residue account.
\<close>

lemma checkAttendanceWeights_Inr:
  "checkAttendanceWeights xs = Inr u \<longleftrightarrow> (\<forall>a \<in> set xs. sh_AccountID a \<noteq> []) \<and>
    (\<forall>a \<in> set xs. 0 \<le> sint (sh_Weight a)) \<and> sum_list (weights xs) < 9223372036854775808 \<and>
    0 < sum_list (weights xs)"
proof -
  have "attendance_weights_loop 0 xs = Inr w \<longleftrightarrow>
      (\<forall>a \<in> set xs. sh_AccountID a \<noteq> []) \<and> sumWeights xs = Inr w" for w
    by (simp add: attendance_weights_loop_Inr sumWeights_def)
  moreover have "(\<forall>a \<in> set xs. 0 \<le> sint (sh_Weight a)) \<Longrightarrow> 0 \<le> sum_list (weights xs)"
    by (intro sum_list_nonneg') (auto simp: weights_def)
  moreover have "\<exists>w :: i64. sint w = sum_list (weights xs)"
    if "0 \<le> sum_list (weights xs)" "sum_list (weights xs) < 9223372036854775808"
    by (rule exI [of _ "word_of_int (sum_list (weights xs))"], rule sint_of_int_eq)
      (use that in \<open>simp add: in64_def\<close>)
  ultimately show ?thesis
    by (auto simp: checkAttendanceWeights_def bindR_eq_Inr if_Inl_eq_Inr sumWeights_exact less_le)
       (metis sint_eq_0)+
qed

definition pot_of :: "attendance_weighted_config \<Rightarrow> attendance_event \<Rightarrow> centipoints" where
  "pot_of cfg ev = (case at_AmountCp ev of Some a \<Rightarrow> a | None \<Rightarrow> aq_RaidPotCp cfg)"

lemma attendance_weighted_Inr:
  assumes "attendance_weighted_PlanAttendance ctx ev = Inr p"
  obtains cfg bank credits where "attendance_weighted_config_of ctx = Inr cfg"
    "0 < sint (pot_of cfg ev)" "distinct (map sh_AccountID (at_Attendees ev))"
    "checkNoSystemAccounts ctx (sortedShares (at_Attendees ev)) = Inr ()"
    "checkAttendanceWeights (sortedShares (at_Attendees ev)) = Inr ()"
    "cx_SystemAccount ctx SystemKeyGuildBank = Inr bank"
    "cx_Allocate ctx (pot_of cfg ev) (sortedShares (at_Attendees ev)) bank = Inr credits"
    "bp_Entries p = attendance_entry ev bank (- pot_of cfg ev) #
       map (\<lambda>c. attendance_entry ev (al_AccountID c) (al_AmountCp c)) credits"
  using assms
  by (auto simp: attendance_weighted_PlanAttendance_def pot_of_def [symmetric] Let_def bindR_eq_Inr
    if_Inl_eq_Inr checkDistinctShares_Inr i64_simps dest: proposeZeroSum_fields(1))

lemma posted_allocations:
  "posted (map (\<lambda>c. attendance_entry ev (al_AccountID c) (al_AmountCp c)) credits) a = credited credits a"
  by (induction credits) (simp_all add: credited_def)

lemma weights_sortedShares: "sum_list (weights (sortedShares xs)) = sum_list (weights xs)"
  unfolding weights_def by (rule sum_list_perm) simp

end
