(* ===== verification/Catalogue.thy ===== *)
theory Catalogue
  imports Tick StartPoints FixedPrice AuctionOpen AuctionSealed RelativeBid Roll LootCouncil
    ZeroSum DecayPercent DecayWindow Cap AttendanceWeighted
begin

text \<open>
  The shipped strategies (internal/strategy/catalogue.go), and what holds of every one of them: each
  is a lawful ledger strategy, and four of them settle sessions lawfully.
\<close>

definition Catalogue :: "point_strategy list" where
  "Catalogue = [Tick, StartPoints, FixedPrice, AuctionOpen, AuctionSealed, RelativeBid, Roll,
     LootCouncil, ZeroSum, DecayPercent, DecayWindow, Cap, AttendanceWeighted]"

fun find_strategy :: "string \<Rightarrow> point_strategy list \<Rightarrow> point_strategy res" where
  "find_strategy i [] = Inl ErrUnknownStrategy"
| "find_strategy i (s # ss) = (if ps_ID s = i then Inr s else find_strategy i ss)"

definition ByID :: "string \<Rightarrow> point_strategy res" where
  "ByID i = find_strategy i Catalogue"

definition IDs :: "string list" where
  "IDs = sort (map ps_ID Catalogue)"

section \<open>The identities\<close>

lemmas strategy_id_defs = tickID_def startPointsID_def fixedPriceID_def auctionOpenID_def
  auctionSealedID_def relativeBidID_def rollID_def lootCouncilID_def zeroSumID_def decayPercentID_def
  decayWindowID_def capID_def attendanceWeightedID_def

lemmas strategy_defs = Tick_def StartPoints_def FixedPrice_def AuctionOpen_def AuctionSealed_def
  RelativeBid_def Roll_def LootCouncil_def ZeroSum_def DecayPercent_def DecayWindow_def Cap_def
  AttendanceWeighted_def

lemma catalogue_ids: "map ps_ID Catalogue = [''tick'', ''start_points'', ''fixed_price'',
    ''auction_open'', ''auction_sealed'', ''relative_bid'', ''roll'', ''loot_council'', ''zero_sum'',
    ''decay_percent'', ''decay_window'', ''cap'', ''attendance_weighted'']"
  by (simp add: Catalogue_def strategy_defs strategy_id_defs)

lemma catalogue_distinct: "distinct (map ps_ID Catalogue)"
  unfolding catalogue_ids by simp

lemma find_strategy_Inr:
  "distinct (map ps_ID ss) \<Longrightarrow> find_strategy i ss = Inr s \<longleftrightarrow> s \<in> set ss \<and> ps_ID s = i"
  by (induction ss) auto

lemma find_strategy_Inl:
  "find_strategy i ss = Inl e \<longleftrightarrow> e = ErrUnknownStrategy \<and> i \<notin> ps_ID ` set ss"
  by (induction ss) auto

lemma ByID_Inr: "ByID i = Inr s \<longleftrightarrow> s \<in> set Catalogue \<and> ps_ID s = i"
  unfolding ByID_def by (rule find_strategy_Inr [OF catalogue_distinct])

lemma ByID_Inl: "ByID i = Inl e \<longleftrightarrow> e = ErrUnknownStrategy \<and> i \<notin> ps_ID ` set Catalogue"
  unfolding ByID_def by (rule find_strategy_Inl)

section \<open>The laws, for every shipped strategy\<close>

lemma catalogue_lawful: "s \<in> set Catalogue \<Longrightarrow> ledger_strategy s"
  unfolding Catalogue_def
  using tick.ledger_strategy_axioms start_points.ledger_strategy_axioms
    fixed_price.ledger_strategy_axioms auction_open.ledger_strategy_axioms
    auction_sealed.ledger_strategy_axioms relative_bid.ledger_strategy_axioms
    roll.ledger_strategy_axioms loot_council.ledger_strategy_axioms zero_sum.ledger_strategy_axioms
    decay_percent.ledger_strategy_axioms decay_window.ledger_strategy_axioms
    cap.ledger_strategy_axioms attendance_weighted.ledger_strategy_axioms
  by (simp only: list.set insert_iff empty_iff) blast

definition bid_rules :: "point_strategy list" where
  "bid_rules = [AuctionOpen, AuctionSealed, RelativeBid]"

lemma bid_rules_lawful: "s \<in> set bid_rules \<Longrightarrow> bid_auction s"
  unfolding bid_rules_def
  using auction_open.bid_auction_axioms auction_sealed.bid_auction_axioms
    relative_bid.bid_auction_axioms by auto

text \<open>C5: Whatever a shipped strategy plans, for any event, on any facade, is a batch that sums to
  exactly zero, carries the strategy's own id and version and the pool's config as it was read, has a
  legal batch kind, reverses nothing, and records no seed but the facade's.\<close>

theorem planned_batches_are_zero_sum:
  assumes "s \<in> set Catalogue" "plans s ctx p"
  shows "sum_list (amounts (bp_Entries p)) = 0 \<and> bp_StrategyID p = ps_ID s \<and>
    bp_StrategyVersion p = ps_Version s \<and> bp_ConfigSnapshotJSON p = cx_ConfigJSON ctx \<and>
    IsBatchKind (bp_Kind p) \<and> bp_ReversesBatchID p = None \<and>
    bp_RngSeed p \<in> {None, Some (cx_Seed ctx)}"
  using ledger_strategy.plans_zero_sum [OF catalogue_lawful [OF assms(1)] assms(2)]
    ledger_strategy.plans_kind [OF catalogue_lawful [OF assms(1)] assms(2)]
  by (simp add: zero_sum_plan_def)

text \<open>C6: When an award carries out the resolution of an open, sealed or relative-bid session, its
  first entry takes no more from the winner than a bid the winner placed, every other entry credits a
  positive amount, and the batch sums to zero.\<close>

theorem winner_never_pays_more_than_bid:
  assumes "s \<in> set bid_rules" "ps_SettleAuction s ctx ses bids = Inr r" "awards r ev"
    and "ps_PlanAward s ctx' ev = Inr p" "fair_allocator ctx'"
  shows "\<exists>b \<in> set bids. bd_AccountID b = ar_ID (aw_Buyer ev) \<and>
    - sint (bd_AmountCp b) \<le> sint (ep_AmountCp (hd (bp_Entries p))) \<and>
    ep_AccountID (hd (bp_Entries p)) = ar_ID (aw_Buyer ev) \<and>
    (\<forall>e \<in> set (tl (bp_Entries p)). 0 < sint (ep_AmountCp e)) \<and> sum_list (amounts (bp_Entries p)) = 0"
  by (rule bid_auction.never_overcharged [OF bid_rules_lawful [OF assms(1)] assms(2-5)])

section \<open>Instances\<close>

lemma sample_open_award:
  "\<exists>p. ps_PlanAward AuctionOpen (sample_ctx ''{}'' 500) (sample_award ''a'' 300) = Inr p"
  by (rule not_isl_Inr, code_simp)

lemma in_catalogue: "AuctionOpen \<in> set Catalogue" "AuctionOpen \<in> set bid_rules"
  by (simp_all add: Catalogue_def bid_rules_def)

theorem planned_batches_are_zero_sum_witness:
  "\<exists>p. ps_PlanAward AuctionOpen (sample_ctx ''{}'' 500) (sample_award ''a'' 300) = Inr p \<and>
    sum_list (amounts (bp_Entries p)) = 0"
proof -
  obtain p where p: "ps_PlanAward AuctionOpen (sample_ctx ''{}'' 500) (sample_award ''a'' 300) = Inr p"
    using sample_open_award by blast
  then have "plans AuctionOpen (sample_ctx ''{}'' 500) p" by (auto simp: plans_def)
  from planned_batches_are_zero_sum [OF in_catalogue(1) this] p show ?thesis by blast
qed

lemma sample_open_resolution:
  "\<exists>r. ps_SettleAuction AuctionOpen (sample_ctx ''{}'' 500) sample_session sample_bids = Inr r \<and>
    rn_Winners r = [\<lparr>al_AccountID = ''a'', al_AmountCp = 300\<rparr>]"
proof -
  have "(case ps_SettleAuction AuctionOpen (sample_ctx ''{}'' 500) sample_session sample_bids of
      Inl _ \<Rightarrow> False | Inr r \<Rightarrow> rn_Winners r = [\<lparr>al_AccountID = ''a'', al_AmountCp = 300\<rparr>])"
    by code_simp
  then show ?thesis by (simp split: sum.splits)
qed

theorem winner_never_pays_more_than_bid_witness:
  "\<exists>p. ps_PlanAward AuctionOpen (sample_ctx ''{}'' 500) (sample_award ''a'' 300) = Inr p \<and>
    (\<exists>b \<in> set sample_bids. bd_AccountID b = ''a'' \<and>
      - sint (bd_AmountCp b) \<le> sint (ep_AmountCp (hd (bp_Entries p))))"
proof -
  obtain r where r: "ps_SettleAuction AuctionOpen (sample_ctx ''{}'' 500) sample_session sample_bids = Inr r"
    "rn_Winners r = [\<lparr>al_AccountID = ''a'', al_AmountCp = 300\<rparr>]" using sample_open_resolution by blast
  obtain p where p: "ps_PlanAward AuctionOpen (sample_ctx ''{}'' 500) (sample_award ''a'' 300) = Inr p"
    using sample_open_award by blast
  have "awards r (sample_award ''a'' 300)"
    by (simp add: awards_def r(2) sample_award_def sample_account_def)
  from winner_never_pays_more_than_bid [OF in_catalogue(2) r(1) this p sample_ctx_fair(2)] p
  show ?thesis by (auto simp: sample_award_def sample_account_def)
qed

end
