(* ===== verification/Pool.thy ===== *)
theory Pool
  imports Catalogue
begin

text \<open>
  A pool and its three rules (internal/strategy/pool.go): every planner is routed to the one rule
  that owns its question, under that rule's own config; a slot that is empty refuses rather than
  borrowing another rule's answer; and a reversal goes back to the strategy that planned the batch,
  under the config it was planned with.
\<close>

record pool_config =
  pc_EarnStrategyID :: string
  pc_EarnConfigJSON :: string
  pc_SpendStrategyID :: string
  pc_SpendConfigJSON :: string
  pc_OverTimeStrategyID :: string
  pc_OverTimeConfigJSON :: string

record rule =
  ru_Strategy :: "point_strategy option"
  ru_ConfigJSON :: string

record rules =
  rr_Earn :: rule
  rr_Spend :: rule
  rr_OverTime :: rule

definition IsSet :: "rule \<Rightarrow> bool" where "IsSet r \<longleftrightarrow> ru_Strategy r \<noteq> None"

definition rule0 :: rule where "rule0 = \<lparr>ru_Strategy = None, ru_ConfigJSON = []\<rparr>"

definition resolveRule :: "rule_kind \<Rightarrow> string \<Rightarrow> string \<Rightarrow> rule res" where
  "resolveRule kind strategyID configJSON =
    (if strategyID = [] then Inr rule0
     else bindR (ByID strategyID) (\<lambda>s.
       if ps_RuleKind s \<noteq> kind then Inl ErrWrongRuleKind
       else Inr \<lparr>ru_Strategy = Some s, ru_ConfigJSON = configJSON\<rparr>))"

definition Resolve :: "pool_config \<Rightarrow> rules res" where
  "Resolve c =
    bindR (resolveRule RuleEarn (pc_EarnStrategyID c) (pc_EarnConfigJSON c)) (\<lambda>earn.
    bindR (resolveRule RuleSpend (pc_SpendStrategyID c) (pc_SpendConfigJSON c)) (\<lambda>spend.
    bindR (resolveRule RuleOverTime (pc_OverTimeStrategyID c) (pc_OverTimeConfigJSON c)) (\<lambda>overTime.
    Inr \<lparr>rr_Earn = earn, rr_Spend = spend, rr_OverTime = overTime\<rparr>)))"

definition rules_BalanceKinds :: "rules \<Rightarrow> string list" where
  "rules_BalanceKinds r = sort (remdups (concat (map
     (\<lambda>ru. case ru_Strategy ru of None \<Rightarrow> [] | Some s \<Rightarrow> ps_BalanceKinds s)
     [rr_Earn r, rr_Spend r, rr_OverTime r])))"

definition bind :: "rule \<Rightarrow> ctx \<Rightarrow> ctx" where
  "bind r ctx = ctx\<lparr>cx_ConfigJSON := ru_ConfigJSON r\<rparr>"

fun slot :: "rules \<Rightarrow> rule_kind \<Rightarrow> rule" where
  "slot r RuleEarn = rr_Earn r"
| "slot r RuleSpend = rr_Spend r"
| "slot r RuleOverTime = rr_OverTime r"

text \<open>\<open>require\<close> followed by the delegation under \<open>bind\<close>, which every routed operation does.\<close>

definition require :: "rules \<Rightarrow> rule_kind \<Rightarrow> (point_strategy \<times> rule) res" where
  "require r kind = (case ru_Strategy (slot r kind) of None \<Rightarrow> Inl ErrNoRule
     | Some s \<Rightarrow> Inr (s, slot r kind))"

definition rules_PlanAttendance :: "rules \<Rightarrow> ctx \<Rightarrow> attendance_event \<Rightarrow> batch_proposal res" where
  "rules_PlanAttendance r ctx ev = bindR (require r RuleEarn) (\<lambda>(s, ru). ps_PlanAttendance s (bind ru ctx) ev)"

definition rules_PlanAdjustment :: "rules \<Rightarrow> ctx \<Rightarrow> adjustment_event \<Rightarrow> batch_proposal res" where
  "rules_PlanAdjustment r ctx ev = bindR (require r RuleEarn) (\<lambda>(s, ru). ps_PlanAdjustment s (bind ru ctx) ev)"

definition rules_PlanAward :: "rules \<Rightarrow> ctx \<Rightarrow> award_event \<Rightarrow> batch_proposal res" where
  "rules_PlanAward r ctx ev = bindR (require r RuleSpend) (\<lambda>(s, ru). ps_PlanAward s (bind ru ctx) ev)"

definition rules_PlanDecay :: "rules \<Rightarrow> ctx \<Rightarrow> decay_run \<Rightarrow> batch_proposal res" where
  "rules_PlanDecay r ctx run = bindR (require r RuleOverTime) (\<lambda>(s, ru). ps_PlanDecay s (bind ru ctx) run)"

definition rules_PlanReversal :: "rules \<Rightarrow> ctx \<Rightarrow> ledger_batch \<Rightarrow> batch_proposal res" where
  "rules_PlanReversal r ctx b = bindR (ByID (lb_StrategyID b)) (\<lambda>s.
     let original = \<lparr>ru_Strategy = Some s, ru_ConfigJSON = lb_ConfigSnapshotJSON b\<rparr>
     in ps_PlanReversal s (bind original ctx) b)"

definition rules_Spendable :: "rules \<Rightarrow> ctx \<Rightarrow> account_ref \<Rightarrow> centipoints res" where
  "rules_Spendable r ctx acct = bindR (require r RuleSpend) (\<lambda>(s, ru). ps_Spendable s (bind ru ctx) acct)"

definition rules_Priority :: "rules \<Rightarrow> ctx \<Rightarrow> account_ref \<Rightarrow> priority res" where
  "rules_Priority r ctx acct = bindR (require r RuleSpend) (\<lambda>(s, ru). ps_Priority s (bind ru ctx) acct)"

definition rules_PriceHint :: "rules \<Rightarrow> ctx \<Rightarrow> item_ref \<Rightarrow> centipoints option res" where
  "rules_PriceHint r ctx item = bindR (require r RuleSpend) (\<lambda>(s, ru). ps_PriceHint s (bind ru ctx) item)"

definition rules_ValidateBid :: "rules \<Rightarrow> ctx \<Rightarrow> account_ref \<Rightarrow> bid \<Rightarrow> unit res" where
  "rules_ValidateBid r ctx acct b = bindR (require r RuleSpend) (\<lambda>(s, ru). ps_ValidateBid s (bind ru ctx) acct b)"

definition rules_SettleAuction :: "rules \<Rightarrow> ctx \<Rightarrow> session \<Rightarrow> bid list \<Rightarrow> resolution res" where
  "rules_SettleAuction r ctx ses bids = bindR (require r RuleSpend) (\<lambda>(s, ru). ps_SettleAuction s (bind ru ctx) ses bids)"

definition describe :: "rules \<Rightarrow> string" where
  "describe r = foldl (\<lambda>out kind.
     let i = (case ru_Strategy (slot r kind) of None \<Rightarrow> ''none'' | Some s \<Rightarrow> ps_ID s) in
     (if out \<noteq> [] then out @ '', '' else out) @ rule_kind_string kind @ ''='' @ i)
     [] [RuleEarn, RuleSpend, RuleOverTime]"

section \<open>Resolution and routing\<close>

definition slot_id :: "pool_config \<Rightarrow> rule_kind \<Rightarrow> string" where
  "slot_id c kind = (case kind of RuleEarn \<Rightarrow> pc_EarnStrategyID c | RuleSpend \<Rightarrow> pc_SpendStrategyID c
     | RuleOverTime \<Rightarrow> pc_OverTimeStrategyID c)"

definition slot_config :: "pool_config \<Rightarrow> rule_kind \<Rightarrow> string" where
  "slot_config c kind = (case kind of RuleEarn \<Rightarrow> pc_EarnConfigJSON c | RuleSpend \<Rightarrow> pc_SpendConfigJSON c
     | RuleOverTime \<Rightarrow> pc_OverTimeConfigJSON c)"

text \<open>A slot holds what the pool configured: nothing, or the shipped strategy of that id, which
  must answer the slot's question.\<close>

definition slot_filled :: "pool_config \<Rightarrow> rule_kind \<Rightarrow> rule \<Rightarrow> bool" where
  "slot_filled c kind ru \<longleftrightarrow> (if slot_id c kind = [] then ru = rule0
     else \<exists>s \<in> set Catalogue. ps_ID s = slot_id c kind \<and> ps_RuleKind s = kind \<and>
       ru = \<lparr>ru_Strategy = Some s, ru_ConfigJSON = slot_config c kind\<rparr>)"

lemma resolveRule_Inr:
  "resolveRule kind (slot_id c kind) (slot_config c kind) = Inr ru \<longleftrightarrow> slot_filled c kind ru"
  by (auto simp: resolveRule_def slot_filled_def bindR_eq_Inr if_Inl_eq_Inr ByID_Inr)

lemma Resolve_Inr: "Resolve c = Inr r \<longleftrightarrow> (\<forall>kind. slot_filled c kind (slot r kind))"
proof -
  have "(\<forall>kind. slot_filled c kind (slot r kind)) \<longleftrightarrow> slot_filled c RuleEarn (rr_Earn r) \<and>
      slot_filled c RuleSpend (rr_Spend r) \<and> slot_filled c RuleOverTime (rr_OverTime r)"
    by (metis rule_kind.exhaust slot.simps)
  then show ?thesis
    unfolding resolveRule_Inr [symmetric]
    by (cases r) (auto simp: Resolve_def bindR_eq_Inr slot_id_def slot_config_def)
qed

lemma Resolve_Inl: "Resolve c = Inl e \<Longrightarrow> e \<in> {ErrUnknownStrategy, ErrWrongRuleKind}"
  by (auto simp: Resolve_def resolveRule_def bindR_eq_Inl ByID_Inl split: if_splits)

lemma require_resolved:
  assumes "Resolve c = Inr r" "require r kind = Inr (s, ru)"
  shows "s \<in> set Catalogue" "ps_ID s = slot_id c kind" "ps_RuleKind s = kind"
    "ru_ConfigJSON ru = slot_config c kind" "slot_id c kind \<noteq> []"
proof -
  have "slot_filled c kind (slot r kind)" using assms(1) by (simp add: Resolve_Inr)
  moreover have "ru_Strategy (slot r kind) = Some s" "ru = slot r kind"
    using assms(2) by (auto simp: require_def split: option.splits)
  ultimately show "s \<in> set Catalogue" "ps_ID s = slot_id c kind" "ps_RuleKind s = kind"
      "ru_ConfigJSON ru = slot_config c kind" "slot_id c kind \<noteq> []"
    by (auto simp: slot_filled_def rule0_def split: if_splits)
qed

lemma require_error:
  assumes "Resolve c = Inr r"
  shows "require r kind = Inl e \<longleftrightarrow> e = ErrNoRule \<and> slot_id c kind = []"
proof -
  have "slot_filled c kind (slot r kind)" using assms by (simp add: Resolve_Inr)
  then show ?thesis by (auto simp: require_def slot_filled_def rule0_def split: if_splits)
qed

text \<open>What a pool plans for the question a slot owns.\<close>

fun pool_plans :: "rules \<Rightarrow> ctx \<Rightarrow> rule_kind \<Rightarrow> batch_proposal \<Rightarrow> bool" where
  "pool_plans r ctx RuleEarn p = ((\<exists>ev. rules_PlanAttendance r ctx ev = Inr p) \<or>
     (\<exists>ev. rules_PlanAdjustment r ctx ev = Inr p))"
| "pool_plans r ctx RuleSpend p = (\<exists>ev. rules_PlanAward r ctx ev = Inr p)"
| "pool_plans r ctx RuleOverTime p = (\<exists>run. rules_PlanDecay r ctx run = Inr p)"

lemma pool_plans_strategy:
  assumes "pool_plans r ctx kind p"
  obtains s ru where "require r kind = Inr (s, ru)" "plans s (bind ru ctx) p"
proof -
  have "\<exists>s ru. require r kind = Inr (s, ru) \<and> plans s (bind ru ctx) p"
    using assms
    by (cases kind) (auto simp: rules_PlanAttendance_def rules_PlanAdjustment_def rules_PlanAward_def
      rules_PlanDecay_def bindR_eq_Inr plans_def)
  then show thesis using that by blast
qed

text \<open>A pool resolves exactly when each of its slots is empty or names a shipped strategy that
  answers the slot's question, and then each slot holds that strategy under the slot's own config;
  otherwise the refusal names an unknown strategy or the wrong kind of rule.\<close>

theorem pool_resolves:
  "(case Resolve c of Inr r \<Rightarrow> \<forall>kind. slot_filled c kind (slot r kind)
    | Inl e \<Rightarrow> e \<in> {ErrUnknownStrategy, ErrWrongRuleKind} \<and>
        (\<exists>kind. slot_id c kind \<noteq> [] \<and> \<not> (\<exists>s \<in> set Catalogue. ps_ID s = slot_id c kind \<and> ps_RuleKind s = kind)))"
proof (cases "Resolve c")
  case (Inl e)
  have "\<exists>kind. slot_id c kind \<noteq> [] \<and> \<not> (\<exists>s \<in> set Catalogue. ps_ID s = slot_id c kind \<and> ps_RuleKind s = kind)"
  proof (rule ccontr)
    assume "\<not> ?thesis"
    then have "slot_id c kind = [] \<or> (\<exists>s \<in> set Catalogue. ps_ID s = slot_id c kind \<and> ps_RuleKind s = kind)"
      for kind by blast
    then have "\<exists>ru. slot_filled c kind ru" for kind unfolding slot_filled_def by metis
    then obtain f where f: "\<And>kind. slot_filled c kind (f kind)" by metis
    have "slot_filled c kind (slot \<lparr>rr_Earn = f RuleEarn, rr_Spend = f RuleSpend,
        rr_OverTime = f RuleOverTime\<rparr> kind)" for kind
      using f by (cases kind) simp_all
    then have "Resolve c = Inr \<lparr>rr_Earn = f RuleEarn, rr_Spend = f RuleSpend, rr_OverTime = f RuleOverTime\<rparr>"
      unfolding Resolve_Inr by blast
    then show False using Inl by simp
  qed
  then show ?thesis using Inl Resolve_Inl [OF Inl] by simp
qed (simp add: Resolve_Inr [symmetric])

text \<open>Every batch a resolved pool plans sums to zero and is signed by the strategy the pool put
  in the slot that owns the question, under that slot's config and no other; an empty slot refuses
  every question of its own and never borrows another slot's rule.\<close>

theorem pool_routes_to_its_slot:
  assumes "Resolve c = Inr r"
  shows "(pool_plans r ctx kind p \<longrightarrow> sum_list (amounts (bp_Entries p)) = 0 \<and>
      bp_StrategyID p = slot_id c kind \<and> bp_StrategyID p \<noteq> [] \<and>
      bp_ConfigSnapshotJSON p = slot_config c kind) \<and>
    (slot_id c RuleSpend = [] \<longrightarrow> rules_PlanAward r ctx aw = Inl ErrNoRule \<and>
      rules_SettleAuction r ctx ses bids = Inl ErrNoRule \<and> rules_ValidateBid r ctx acct b = Inl ErrNoRule) \<and>
    (slot_id c RuleEarn = [] \<longrightarrow> rules_PlanAttendance r ctx ev = Inl ErrNoRule \<and>
      rules_PlanAdjustment r ctx ad = Inl ErrNoRule) \<and>
    (slot_id c RuleOverTime = [] \<longrightarrow> rules_PlanDecay r ctx run = Inl ErrNoRule)"
proof -
  have "sum_list (amounts (bp_Entries p)) = 0 \<and> bp_StrategyID p = slot_id c kind \<and>
      bp_StrategyID p \<noteq> [] \<and> bp_ConfigSnapshotJSON p = slot_config c kind"
    if planned: "pool_plans r ctx kind p"
  proof -
    obtain s ru where s: "require r kind = Inr (s, ru)" "plans s (bind ru ctx) p"
      by (rule pool_plans_strategy [OF planned])
    note S = require_resolved [OF assms s(1)]
    have "zero_sum_plan (ps_ID s) (ps_Version s) (bind ru ctx) p"
      by (rule ledger_strategy.plans_zero_sum [OF catalogue_lawful [OF S(1)] s(2)])
    then show ?thesis using S by (simp add: zero_sum_plan_def bind_def)
  qed
  then show ?thesis
    by (auto simp: rules_PlanAward_def rules_SettleAuction_def
      rules_ValidateBid_def rules_PlanAttendance_def rules_PlanAdjustment_def rules_PlanDecay_def
      bindR_eq_Inl require_error [OF assms])
qed

text \<open>C7: A batch that a shipped strategy planned and the ledger committed can be reversed whatever
  rules the pool runs by then: the reversal undoes the batch on every account, sums to zero, points at
  the batch, carries the batch's own config snapshot, and is refused only for a batch with no entries
  or with an entry of the one amount that has no negation.\<close>

theorem reversal_survives_reconfiguration:
  assumes "s \<in> set Catalogue" "plans s ctx p" "committed_as p b"
  shows "case rules_PlanReversal rules ctx' b of
      Inr undo \<Rightarrow> (\<forall>a. posted (bp_Entries undo) a = - posted (bp_Entries p) a) \<and>
        sum_list (amounts (bp_Entries undo)) = 0 \<and> bp_ReversesBatchID undo = Some (lb_ID b) \<and>
        bp_Kind undo = KindReversal \<and> bp_ConfigSnapshotJSON undo = cx_ConfigJSON ctx
    | Inl e \<Rightarrow> e \<in> {ErrEmptyProposal, ErrNotNegatable} \<and>
        (bp_Entries p = [] \<or> (\<exists>x \<in> set (bp_Entries p). ep_AmountCp x = min_int64))"
proof -
  have lawful: "ledger_strategy s" by (rule catalogue_lawful [OF assms(1)])
  have id: "lb_StrategyID b = ps_ID s"
    using ledger_strategy.plans_zero_sum [OF lawful assms(2)] assms(3)
    by (simp add: zero_sum_plan_def committed_as_def)
  let ?ctx = "bind \<lparr>ru_Strategy = Some s, ru_ConfigJSON = lb_ConfigSnapshotJSON b\<rparr> ctx'"
  have eq: "rules_PlanReversal rules ctx' b = ps_PlanReversal s ?ctx b"
    using assms(1) id by (simp add: rules_PlanReversal_def ByID_Inr [THEN iffD2] Let_def)
  show ?thesis
  proof (cases "ps_PlanReversal s ?ctx b")
    case (Inl e)
    then have "reversePlan ?ctx (ps_ID s) b = Inl e"
      by (simp add: ledger_strategy.reversal_law [OF lawful])
    then have "(lb_Entries b = [] \<and> e = ErrEmptyProposal) \<or>
        (e = ErrNotNegatable \<and> (\<exists>x \<in> set (lb_Entries b). ep_AmountCp x = min_int64))"
      using id by (auto simp: reversePlan_def Reversal_def bindR_eq_Inl Negated_error)
    then show ?thesis using Inl eq assms(3) by (auto simp: committed_as_def)
  next
    case (Inr undo)
    note R = ledger_strategy.planned_reversal [OF lawful assms(2,3) Inr]
    have "bp_ReversesBatchID undo = Some (lb_ID b)" "bp_Kind undo = KindReversal"
      using Inr by (auto simp: ledger_strategy.reversal_law [OF lawful] reversePlan_Inr)
    then show ?thesis using R Inr eq by simp
  qed
qed

section \<open>Instances\<close>

definition sample_pool :: pool_config where
  "sample_pool = \<lparr>pc_EarnStrategyID = [], pc_EarnConfigJSON = [],
     pc_SpendStrategyID = ''auction_open'', pc_SpendConfigJSON = ''{}'',
     pc_OverTimeStrategyID = [], pc_OverTimeConfigJSON = []\<rparr>"

lemma sample_pool_award:
  "\<exists>r p. Resolve sample_pool = Inr r \<and>
    rules_PlanAward r (sample_ctx [] 500) (sample_award ''a'' 300) = Inr p"
proof -
  have "(case Resolve sample_pool of Inl _ \<Rightarrow> False | Inr r \<Rightarrow>
      \<not> isl (rules_PlanAward r (sample_ctx [] 500) (sample_award ''a'' 300)))" by code_simp
  then show ?thesis by (auto split: sum.splits dest: not_isl_Inr)
qed

theorem pool_routes_to_its_slot_witness:
  "\<exists>r p. Resolve sample_pool = Inr r \<and>
    rules_PlanAward r (sample_ctx [] 500) (sample_award ''a'' 300) = Inr p \<and>
    bp_StrategyID p = ''auction_open'' \<and> bp_ConfigSnapshotJSON p = ''{}''"
proof -
  obtain r p where r: "Resolve sample_pool = Inr r"
    "rules_PlanAward r (sample_ctx [] 500) (sample_award ''a'' 300) = Inr p"
    using sample_pool_award by blast
  then have "pool_plans r (sample_ctx [] 500) RuleSpend p" by auto
  with pool_routes_to_its_slot [OF r(1)]
  have "bp_StrategyID p = slot_id sample_pool RuleSpend \<and>
      bp_ConfigSnapshotJSON p = slot_config sample_pool RuleSpend" by blast
  then show ?thesis using r by (simp add: slot_id_def slot_config_def sample_pool_def)
qed

theorem reversal_survives_reconfiguration_witness:
  "\<exists>p undo. ps_PlanAward AuctionOpen (sample_ctx ''{}'' 500) (sample_award ''a'' 300) = Inr p \<and>
    rules_PlanReversal \<lparr>rr_Earn = rule0, rr_Spend = rule0, rr_OverTime = rule0\<rparr> (sample_ctx [] 1)
      (sample_batch p) = Inr undo \<and>
    posted (bp_Entries undo) ''a'' = - posted (bp_Entries p) ''a''"
proof -
  have "(case ps_PlanAward AuctionOpen (sample_ctx ''{}'' 500) (sample_award ''a'' 300) of
      Inl _ \<Rightarrow> False | Inr p \<Rightarrow> \<not> isl (rules_PlanReversal
        \<lparr>rr_Earn = rule0, rr_Spend = rule0, rr_OverTime = rule0\<rparr> (sample_ctx [] 1) (sample_batch p)))"
    by code_simp
  then obtain p undo where p: "ps_PlanAward AuctionOpen (sample_ctx ''{}'' 500) (sample_award ''a'' 300) = Inr p"
    and undo: "rules_PlanReversal \<lparr>rr_Earn = rule0, rr_Spend = rule0, rr_OverTime = rule0\<rparr>
      (sample_ctx [] 1) (sample_batch p) = Inr undo"
    by (auto split: sum.splits dest: not_isl_Inr)
  then have "plans AuctionOpen (sample_ctx ''{}'' 500) p" by (auto simp: plans_def)
  from reversal_survives_reconfiguration [OF in_catalogue(1) this sample_batch_committed,
      of "\<lparr>rr_Earn = rule0, rr_Spend = rule0, rr_OverTime = rule0\<rparr>" "sample_ctx [] 1"]
  show ?thesis using p undo by auto
qed

end
