(* ===== verification/IdentityRows.thy ===== *)
theory IdentityRows
  imports Model
begin

text \<open>
  The rows of the guild table and of the identity tables (internal/store/sqlitegen/models.go,
  000002_guild.sql, 000009_auth_identity_and_credentials.sql). A blob is its list of bytes.
\<close>

record guild_row =
  gd_ID :: i64
  gd_Name :: string
  gd_Tag :: string
  gd_Timezone :: string
  gd_WeekStart :: i64
  gd_PointsLabel :: string
  gd_PointsPrecision :: i64
  gd_InactiveAfterDays :: "i64 option"
  gd_AutoSetInactive :: i64
  gd_HideInactive :: i64
  gd_CreatedAt :: micros
  gd_UpdatedAt :: micros

record app_user_row =
  us_ID :: ulid
  us_Username :: string
  us_UsernameNorm :: string
  us_Email :: "string option"
  us_EmailNorm :: "string option"
  us_EmailVerifiedAt :: "micros option"
  us_DisplayName :: string
  us_Timezone :: "string option"
  us_Locale :: "string option"
  us_State :: string
  us_SessionEpoch :: i64
  us_LastLoginAt :: "micros option"
  us_FailedLogins :: i64
  us_LockedUntilAt :: "micros option"
  us_MfaTotpSecretEnc :: "string option"
  us_MfaEnrolledAt :: "micros option"
  us_MfaRequired :: i64
  us_DeletedAt :: "micros option"
  us_CreatedAt :: micros
  us_UpdatedAt :: micros

record user_identity_row =
  ud_ID :: ulid
  ud_UserID :: ulid
  ud_Provider :: string
  ud_ProviderKey :: string
  ud_Subject :: string
  ud_PasswordHash :: "string option"
  ud_PasswordAlgo :: "string option"
  ud_PasswordSetAt :: "micros option"
  ud_MustReset :: i64
  ud_AccessTokenEnc :: "string option"
  ud_RefreshTokenEnc :: "string option"
  ud_TokenExpiresAt :: "micros option"
  ud_Scopes :: string
  ud_ProfileJSON :: string
  ud_LastUsedAt :: "micros option"
  ud_CreatedAt :: micros
  ud_UpdatedAt :: micros

record session_row =
  se_ID :: ulid
  se_UserID :: ulid
  se_TokenHash :: string
  se_IdentityID :: "ulid option"
  se_SessionEpoch :: i64
  se_CreatedAt :: micros
  se_LastSeenAt :: micros
  se_ExpiresAt :: micros
  se_AbsoluteExpiresAt :: micros
  se_RevokedAt :: "micros option"
  se_Ip :: string
  se_UserAgent :: string
  se_MfaSatisfiedAt :: "micros option"

record service_account_row =
  sv_ID :: ulid
  sv_Name :: string
  sv_NameNorm :: string
  sv_Description :: string
  sv_OwnerUserID :: ulid
  sv_State :: string
  sv_CreatedBy :: ulid
  sv_CreatedAt :: micros
  sv_UpdatedAt :: micros

record api_token_row =
  ak_ID :: ulid
  ak_Prefix :: string
  ak_TokenHash :: string
  ak_ServiceAccountID :: ulid
  ak_Name :: string
  ak_Scopes :: string
  ak_PepperKid :: string
  ak_ExpiresAt :: "micros option"
  ak_LastUsedAt :: "micros option"
  ak_LastUsedIp :: string
  ak_RateLimitRpm :: i64
  ak_CreatedBy :: ulid
  ak_RevokedAt :: "micros option"
  ak_RevokedBy :: "ulid option"
  ak_RevokeReason :: string
  ak_CreatedAt :: micros

end
