(* ===== verification/Store.thy ===== *)
theory Store
  imports Proposal IdentityRows
begin

text \<open>
  The tables of the ledger and the generated statements over them: internal/store/sqlitegen
  (ledger.sql.go, audit.sql.go, meta.sql.go, outbox.sql.go, models.go), with the constraints of
  db/migrations-sqlite/000001_init.sql, 000003_ledger.sql and 000004_audit_and_outbox.sql.

  A table is the list of its rows in the order they were inserted; a row type is shared by the
  generated struct, its insert parameters and the struct of internal/ledger, which have the same
  fields (\<open>core.ULID\<close> is a string type, \<open>core.Micros\<close> an int64, so \<open>batchParams\<close>,
  \<open>batchFromRow\<close> and their like are the identity here). A nullable column is an option, a blob a
  list of bytes. The triggers of the migrations refuse every update and delete of the two ledger
  tables, so there is no operation for one.

  A statement that returns one row gives None where Go sees \<open>sql.ErrNoRows\<close>. A statement that
  a constraint refuses is an error and leaves the database alone.
\<close>

section \<open>Rows\<close>

record account_row =
  ac_ID :: ulid
  ac_Kind :: string
  ac_PersonID :: "string option"
  ac_SystemKey :: "string option"
  ac_Label :: string
  ac_CreatedAt :: micros
  ac_UpdatedAt :: micros

record batch_row =
  br_ID :: ulid
  br_PoolID :: ulid
  br_Seq :: i64
  br_Kind :: string
  br_StrategyID :: string
  br_StrategyVersion :: string
  br_ConfigSnapshotJSON :: string
  br_RngSeed :: "i64 option"
  br_Source :: string
  br_SourceRef :: "string option"
  br_ActorUserID :: "ulid option"
  br_ActorTokenID :: "ulid option"
  br_ActorIsBeneficiary :: i64
  br_Reason :: string
  br_ReversesBatchID :: "ulid option"
  br_EffectiveAt :: micros
  br_RecordedAt :: micros
  br_EffectiveDay :: string
  br_IdempotencyKey :: "string option"
  br_EntryCount :: i64
  br_NetAmountCp :: centipoints
  br_PrevHash :: "string option"
  br_Hash :: string

record entry_row =
  er_ID :: ulid
  er_BatchID :: ulid
  er_PoolID :: ulid
  er_Seq :: i64
  er_AccountID :: ulid
  er_CharacterID :: "ulid option"
  er_BalanceKind :: string
  er_AmountCp :: centipoints
  er_ItemID :: "ulid option"
  er_ItemAwardID :: "ulid option"
  er_RaidID :: "ulid option"
  er_TickID :: "ulid option"
  er_MetadataJSON :: string

record snapshot_row =
  sn_PoolID :: ulid
  sn_AccountID :: ulid
  sn_BalanceKind :: string
  sn_AmountCp :: i64
  sn_AsOfSeq :: i64
  sn_EntryCount :: i64
  sn_UpdatedAt :: micros

record audit_row =
  au_ID :: ulid
  au_Seq :: i64
  au_At :: micros
  au_ActorKind :: string
  au_ActorLabel :: string
  au_Action :: string
  au_ResourceKind :: string
  au_ResourceID :: "string option"
  au_Outcome :: string
  au_LedgerBatchID :: "ulid option"
  au_PrevHash :: "string option"
  au_Hash :: string

record outbox_row =
  ox_EventSeq :: i64
  ox_ID :: ulid
  ox_Topic :: string
  ox_EventType :: string
  ox_ResourceRef :: string
  ox_CreatedAt :: micros

record meta_row =
  mt_Key :: string
  mt_Value :: string
  mt_UpdatedAt :: micros

text \<open>The rows of the authorization tables (000007_authz_catalogue_and_roles.sql); \<open>rp\<close> rows are grants.\<close>

record permission_row =
  pe_Key :: string
  pe_Category :: string
  pe_Label :: string
  pe_Description :: string
  pe_IsDangerous :: i64
  pe_RequiresStepUp :: i64
  pe_OrphanedAt :: "micros option"
  pe_SortOrder :: i64

record role_row =
  ro_ID :: ulid
  ro_Key :: "string option"
  ro_Name :: string
  ro_NameNorm :: string
  ro_Description :: string
  ro_IsBuiltin :: i64
  ro_AppliesTo :: string
  ro_SortOrder :: i64
  ro_DeletedAt :: "micros option"
  ro_CreatedAt :: micros
  ro_UpdatedAt :: micros

record role_permission_row =
  rp_RoleID :: ulid
  rp_PermissionKey :: string

record role_assignment_row =
  ra_ID :: ulid
  ra_SubjectKind :: string
  ra_SubjectID :: ulid
  ra_RoleID :: ulid
  ra_ScopeType :: string
  ra_ScopeID :: "string option"
  ra_SuspendedUntilAt :: "micros option"
  ra_GrantedBy :: "string option"
  ra_GrantedVia :: string
  ra_ExpiresAt :: "micros option"
  ra_CreatedAt :: micros
  ra_UpdatedAt :: micros

text \<open>
  \<open>db_event_seq\<close> is the counter SQLite keeps for the AUTOINCREMENT key of the outbox. Of a pool
  the modelled code only uses the id. The tables from \<open>db_guild\<close> on are none of the ledger's: it
  reads the time zone of the guild and writes none of them.
\<close>

record database =
  db_pools :: "ulid list"
  db_accounts :: "account_row list"
  db_batches :: "batch_row list"
  db_entries :: "entry_row list"
  db_snapshots :: "snapshot_row list"
  db_audit :: "audit_row list"
  db_outbox :: "outbox_row list"
  db_event_seq :: i64
  db_meta :: "meta_row list"
  db_guild :: "guild_row list"
  db_permissions :: "permission_row list"
  db_roles :: "role_row list"
  db_role_permissions :: "role_permission_row list"
  db_role_assignments :: "role_assignment_row list"
  db_users :: "app_user_row list"
  db_identities :: "user_identity_row list"
  db_sessions :: "session_row list"
  db_service_accounts :: "service_account_row list"
  db_tokens :: "api_token_row list"

definition other_tables where
  "other_tables db = (db_guild db, db_permissions db, db_roles db, db_role_permissions db, db_role_assignments db,
     db_users db, db_identities db, db_sessions db, db_service_accounts db, db_tokens db)"

lemma other_tables_update [simp]:
  "other_tables (db\<lparr>db_pools := x0\<rparr>) = other_tables db"
  "other_tables (db\<lparr>db_accounts := x1\<rparr>) = other_tables db"
  "other_tables (db\<lparr>db_batches := x2\<rparr>) = other_tables db"
  "other_tables (db\<lparr>db_entries := x3\<rparr>) = other_tables db"
  "other_tables (db\<lparr>db_snapshots := x4\<rparr>) = other_tables db"
  "other_tables (db\<lparr>db_audit := x5\<rparr>) = other_tables db"
  "other_tables (db\<lparr>db_outbox := x6\<rparr>) = other_tables db"
  "other_tables (db\<lparr>db_event_seq := x7\<rparr>) = other_tables db"
  "other_tables (db\<lparr>db_meta := x8\<rparr>) = other_tables db"
  by (simp_all add: other_tables_def)

section \<open>What the statements use of SQL\<close>

definition constraint_failed :: error where "constraint_failed = ErrExternal ''constraint failed''"

definition find_row :: "('a \<Rightarrow> bool) \<Rightarrow> 'a list \<Rightarrow> 'a option" where
  "find_row p rows = (case filter p rows of [] \<Rightarrow> None | r # _ \<Rightarrow> Some r)"

lemma find_row_Some: "find_row p rows = Some r \<Longrightarrow> r \<in> set rows \<and> p r"
  by (auto simp: find_row_def split: list.splits dest: filter_eq_ConsD)

text \<open>A UNIQUE index with \<open>WHERE column IS NOT NULL\<close>.\<close>

definition unique_when :: "('a \<Rightarrow> 'b option) \<Rightarrow> ('a \<Rightarrow> bool) \<Rightarrow> 'a list \<Rightarrow> 'a \<Rightarrow> bool" where
  "unique_when col same rows r \<longleftrightarrow>
     col r = None \<or> (\<forall>q \<in> set rows. same q \<longrightarrow> col q \<noteq> col r)"

text \<open>
  \<open>COALESCE(max(seq), 0)\<close>, and its successor: the addition leaves the integers when the maximum
  is the largest one, and the cast saturates.
\<close>

definition sql_max :: "i64 list \<Rightarrow> i64" where
  "sql_max xs = (if xs = [] then 0 else word_of_int (Max (set (map sint xs))))"

definition sql_next :: "i64 list \<Rightarrow> i64" where
  "sql_next xs = (if sql_max xs = max_int64 then max_int64 else sql_max xs + 1)"

text \<open>\<open>sum(amount_cp)\<close>: SQLite raises an error as soon as the running sum overflows.\<close>

fun sum_cp :: "centipoints \<Rightarrow> centipoints list \<Rightarrow> centipoints option" where
  "sum_cp n [] = Some n"
| "sum_cp n (x # xs) = (case addCentipoints n x of None \<Rightarrow> None | Some m \<Rightarrow> sum_cp m xs)"

lemma sum_cp_exact: "sum_cp n xs = Some r \<Longrightarrow> sint r = sint n + sum_list (map sint xs)"
  by (induction xs arbitrary: n) (auto split: option.splits dest: addCentipoints_sint)

text \<open>The rows come in the order of the covering index \<open>ix_entry_balance\<close>.\<close>

definition index_order :: "entry_row list \<Rightarrow> entry_row list" where
  "index_order = sort_key (\<lambda>e. (sint (er_Seq e), sint (er_AmountCp e)))"

definition sql_sum :: "entry_row list \<Rightarrow> i64 res" where
  "sql_sum rows = ok_or (ErrExternal ''integer overflow'') (sum_cp 0 (map er_AmountCp (index_order rows)))"

text \<open>A negative LIMIT is none.\<close>

definition sql_limit :: "i64 \<Rightarrow> 'a list \<Rightarrow> 'a list" where
  "sql_limit n rows = (if n <s 0 then rows else take (nat (sint n)) rows)"

section \<open>The ledger tables\<close>

definition q_BalanceAsOfSeq :: "ulid \<Rightarrow> ulid \<Rightarrow> string \<Rightarrow> i64 \<Rightarrow> database \<Rightarrow> i64 res" where
  "q_BalanceAsOfSeq pool account kind seq db =
     sql_sum (filter (\<lambda>e. er_PoolID e = pool \<and> er_AccountID e = account \<and> er_BalanceKind e = kind \<and>
       er_Seq e \<le>s seq) (db_entries db))"

definition q_GetAccount :: "ulid \<Rightarrow> database \<Rightarrow> account_row option" where
  "q_GetAccount k db = find_row (\<lambda>a. ac_ID a = k) (db_accounts db)"

definition q_GetBatchByIdempotencyKey :: "ulid \<Rightarrow> string \<Rightarrow> database \<Rightarrow> batch_row option" where
  "q_GetBatchByIdempotencyKey pool key db =
     find_row (\<lambda>b. br_PoolID b = pool \<and> br_IdempotencyKey b = Some key) (db_batches db)"

definition q_GetLedgerBatch :: "ulid \<Rightarrow> database \<Rightarrow> batch_row option" where
  "q_GetLedgerBatch k db = find_row (\<lambda>b. br_ID b = k) (db_batches db)"

definition q_GetSystemAccount :: "string \<Rightarrow> database \<Rightarrow> account_row option" where
  "q_GetSystemAccount key db = find_row (\<lambda>a. ac_SystemKey a = Some key) (db_accounts db)"

definition account_legal :: "account_row \<Rightarrow> database \<Rightarrow> bool" where
  "account_legal a db \<longleftrightarrow> ac_ID a \<notin> ac_ID ` set (db_accounts db) \<and> IsKind (ac_Kind a) \<and>
     (case ac_SystemKey a of None \<Rightarrow> True | Some k \<Rightarrow> IsSystemKey k) \<and>
     (ac_Kind a = KindPerson) = (ac_PersonID a \<noteq> None) \<and>
     (ac_Kind a = KindSystem) = (ac_SystemKey a \<noteq> None) \<and>
     unique_when ac_PersonID (\<lambda>_. True) (db_accounts db) a \<and>
     unique_when ac_SystemKey (\<lambda>_. True) (db_accounts db) a"

definition InsertAccount :: "account_row \<Rightarrow> database \<Rightarrow> database res" where
  "InsertAccount a db = (if account_legal a db
     then Inr (db\<lparr>db_accounts := db_accounts db @ [a]\<rparr>) else Inl constraint_failed)"

definition batch_legal :: "batch_row \<Rightarrow> database \<Rightarrow> bool" where
  "batch_legal b db \<longleftrightarrow> br_ID b \<notin> br_ID ` set (db_batches db) \<and>
     br_PoolID b \<in> set (db_pools db) \<and>
     (case br_ReversesBatchID b of None \<Rightarrow> True
      | Some r \<Rightarrow> r = br_ID b \<or> r \<in> br_ID ` set (db_batches db)) \<and>
     IsBatchKind (br_Kind b) \<and> IsBatchSource (br_Source b) \<and>
     (br_ActorIsBeneficiary b = 0 \<or> br_ActorIsBeneficiary b = 1) \<and> 0 <s br_EntryCount b \<and>
     0 \<le>s br_RecordedAt b \<and> 0 \<le>s br_EffectiveAt b \<and>
     (br_PoolID b, br_Seq b) \<notin> (\<lambda>q. (br_PoolID q, br_Seq q)) ` set (db_batches db) \<and>
     unique_when br_SourceRef (\<lambda>q. br_PoolID q = br_PoolID b) (db_batches db) b \<and>
     unique_when br_IdempotencyKey (\<lambda>q. br_PoolID q = br_PoolID b) (db_batches db) b \<and>
     unique_when br_ReversesBatchID (\<lambda>_. True) (db_batches db) b"

definition InsertLedgerBatch :: "batch_row \<Rightarrow> database \<Rightarrow> database res" where
  "InsertLedgerBatch b db = (if batch_legal b db
     then Inr (db\<lparr>db_batches := db_batches db @ [b]\<rparr>) else Inl constraint_failed)"

definition entry_legal :: "entry_row \<Rightarrow> database \<Rightarrow> bool" where
  "entry_legal e db \<longleftrightarrow> er_ID e \<notin> er_ID ` set (db_entries db) \<and>
     er_BatchID e \<in> br_ID ` set (db_batches db) \<and> er_PoolID e \<in> set (db_pools db) \<and>
     er_AccountID e \<in> ac_ID ` set (db_accounts db) \<and> er_AmountCp e \<noteq> 0"

definition InsertLedgerEntry :: "entry_row \<Rightarrow> database \<Rightarrow> database res" where
  "InsertLedgerEntry e db = (if entry_legal e db
     then Inr (db\<lparr>db_entries := db_entries db @ [e]\<rparr>) else Inl constraint_failed)"

definition ListBatchesAfterSeq :: "ulid \<Rightarrow> i64 \<Rightarrow> i64 \<Rightarrow> database \<Rightarrow> batch_row list" where
  "ListBatchesAfterSeq pool seq n db = sql_limit n (sort_key (\<lambda>b. sint (br_Seq b))
     (filter (\<lambda>b. br_PoolID b = pool \<and> seq <s br_Seq b) (db_batches db)))"

definition ListEntriesByBatch :: "ulid \<Rightarrow> database \<Rightarrow> entry_row list" where
  "ListEntriesByBatch batch db =
     sort_key er_ID (filter (\<lambda>e. er_BatchID e = batch) (db_entries db))"

definition ListPoolIDs :: "database \<Rightarrow> ulid list" where
  "ListPoolIDs db = sort (db_pools db)"

definition ListSnapshotsAfter ::
    "ulid \<Rightarrow> ulid \<times> string \<Rightarrow> i64 \<Rightarrow> database \<Rightarrow> snapshot_row list" where
  "ListSnapshotsAfter pool cursor n db =
     sql_limit n (sort_key (\<lambda>s. (sn_AccountID s, sn_BalanceKind s))
       (filter (\<lambda>s. sn_PoolID s = pool \<and> cursor < (sn_AccountID s, sn_BalanceKind s))
         (db_snapshots db)))"

definition q_MaxPoolSeq :: "ulid \<Rightarrow> database \<Rightarrow> i64" where
  "q_MaxPoolSeq pool db = sql_max (map br_Seq (filter (\<lambda>b. br_PoolID b = pool) (db_batches db)))"

definition q_NextPoolSeq :: "ulid \<Rightarrow> database \<Rightarrow> i64" where
  "q_NextPoolSeq pool db = sql_next (map br_Seq (filter (\<lambda>b. br_PoolID b = pool) (db_batches db)))"

definition snapshot_key :: "snapshot_row \<Rightarrow> ulid \<times> ulid \<times> string" where
  "snapshot_key s = (sn_PoolID s, sn_AccountID s, sn_BalanceKind s)"

text \<open>
  The additive upsert. The counters of a STRICT table cannot hold a sum that leaves the integers,
  so such an update is refused.
\<close>

definition add_snapshot :: "snapshot_row \<Rightarrow> snapshot_row \<Rightarrow> snapshot_row option" where
  "add_snapshot d s = (case (addCentipoints (sn_AmountCp s) (sn_AmountCp d),
       addCentipoints (sn_EntryCount s) (sn_EntryCount d)) of
     (Some a, Some n) \<Rightarrow> Some (s\<lparr>sn_AmountCp := a, sn_EntryCount := n,
       sn_AsOfSeq := sn_AsOfSeq d, sn_UpdatedAt := sn_UpdatedAt d\<rparr>)
   | _ \<Rightarrow> None)"

fun upsert_rows :: "snapshot_row \<Rightarrow> snapshot_row list \<Rightarrow> snapshot_row list option" where
  "upsert_rows d [] = Some [d]"
| "upsert_rows d (s # ss) =
    (if snapshot_key s = snapshot_key d
     then (case add_snapshot d s of None \<Rightarrow> None | Some s' \<Rightarrow> Some (s' # ss))
     else (case upsert_rows d ss of None \<Rightarrow> None | Some ss' \<Rightarrow> Some (s # ss')))"

definition q_UpsertBalanceSnapshot :: "snapshot_row \<Rightarrow> database \<Rightarrow> database res" where
  "q_UpsertBalanceSnapshot d db =
     (if sn_PoolID d \<in> set (db_pools db) \<and> sn_AccountID d \<in> ac_ID ` set (db_accounts db)
      then (case upsert_rows d (db_snapshots db) of None \<Rightarrow> Inl constraint_failed
         | Some ss \<Rightarrow> Inr (db\<lparr>db_snapshots := ss\<rparr>))
      else Inl constraint_failed)"

section \<open>Standings\<close>

record standing =
  st_AccountID :: ulid
  st_AmountCp :: centipoints
  st_AsOfSeq :: i64
  st_EntryCount :: i64

definition q_StandingsFromSnapshot :: "ulid \<Rightarrow> string \<Rightarrow> i64 \<Rightarrow> database \<Rightarrow> snapshot_row list" where
  "q_StandingsFromSnapshot pool kind n db =
     sql_limit n (sort_key (\<lambda>s. (- sint (sn_AmountCp s), sn_AccountID s))
       (filter (\<lambda>s. sn_PoolID s = pool \<and> sn_BalanceKind s = kind) (db_snapshots db)))"

fun group_sums :: "entry_row list \<Rightarrow> ulid list \<Rightarrow> (ulid \<times> i64 \<times> i64) list res" where
  "group_sums rows [] = Inr []"
| "group_sums rows (a # as) =
    (let mine = filter (\<lambda>e. er_AccountID e = a) rows in
     bindR (sql_sum mine) (\<lambda>amount.
     bindR (group_sums rows as) (\<lambda>gs. Inr ((a, amount, word_of_nat (length mine)) # gs))))"

definition q_StandingsFromLedger ::
    "ulid \<Rightarrow> string \<Rightarrow> i64 \<Rightarrow> i64 \<Rightarrow> database \<Rightarrow> (ulid \<times> i64 \<times> i64) list res" where
  "q_StandingsFromLedger pool kind seq n db =
     (let rows = filter (\<lambda>e. er_PoolID e = pool \<and> er_BalanceKind e = kind \<and> er_Seq e \<le>s seq)
        (db_entries db) in
      bindR (group_sums rows (remdups (map er_AccountID rows))) (\<lambda>gs.
        Inr (sql_limit n (sort_key (\<lambda>(a, amount, _). (- sint amount, a)) gs))))"

section \<open>The audit log, the outbox and the meta table\<close>

definition ActorKinds :: "string list" where
  "ActorKinds = [''user'', ''service_account'', ''system'', ''boot'', ''import'', ''anonymous'']"

definition Outcomes :: "string list" where "Outcomes = [''success'', ''denied'', ''error'']"

definition IsActorKind :: "string \<Rightarrow> bool" where "IsActorKind v = contains ActorKinds v"
definition IsOutcome :: "string \<Rightarrow> bool" where "IsOutcome v = contains Outcomes v"

definition audit_legal :: "audit_row \<Rightarrow> database \<Rightarrow> bool" where
  "audit_legal a db \<longleftrightarrow> au_ID a \<notin> au_ID ` set (db_audit db) \<and>
     au_Seq a \<notin> au_Seq ` set (db_audit db) \<and>
     (case au_LedgerBatchID a of None \<Rightarrow> True | Some b \<Rightarrow> b \<in> br_ID ` set (db_batches db)) \<and>
     IsActorKind (au_ActorKind a) \<and> IsOutcome (au_Outcome a)"

definition InsertAuditLog :: "audit_row \<Rightarrow> database \<Rightarrow> database res" where
  "InsertAuditLog a db = (if audit_legal a db
     then Inr (db\<lparr>db_audit := db_audit db @ [a]\<rparr>) else Inl constraint_failed)"

definition ListAuditRowsAfterSeq :: "i64 \<Rightarrow> i64 \<Rightarrow> database \<Rightarrow> audit_row list" where
  "ListAuditRowsAfterSeq seq n db = sql_limit n (sort_key (\<lambda>a. sint (au_Seq a))
     (filter (\<lambda>a. seq <s au_Seq a) (db_audit db)))"

definition NextAuditSeq :: "database \<Rightarrow> i64" where
  "NextAuditSeq db = sql_next (map au_Seq (db_audit db))"

text \<open>\<open>RETURNING event_seq\<close>: AUTOINCREMENT never reuses a key, and is full at the largest one.\<close>

definition InsertOutboxEvent ::
    "ulid \<Rightarrow> string \<Rightarrow> string \<Rightarrow> string \<Rightarrow> micros \<Rightarrow> database \<Rightarrow> (i64 \<times> database) res" where
  "InsertOutboxEvent k topic event_type ref created db =
     (if db_event_seq db = max_int64 then Inl (ErrExternal ''database is full'')
      else let n = db_event_seq db + 1 in
        Inr (n, db\<lparr>db_event_seq := n, db_outbox := db_outbox db @
          [\<lparr>ox_EventSeq = n, ox_ID = k, ox_Topic = topic, ox_EventType = event_type,
            ox_ResourceRef = ref, ox_CreatedAt = created\<rparr>]\<rparr>))"

definition GetMetaValue :: "string \<Rightarrow> database \<Rightarrow> string option" where
  "GetMetaValue key db = map_option mt_Value (find_row (\<lambda>m. mt_Key m = key) (db_meta db))"

fun upsert_meta :: "meta_row \<Rightarrow> meta_row list \<Rightarrow> meta_row list" where
  "upsert_meta m [] = [m]"
| "upsert_meta m (r # rs) = (if mt_Key r = mt_Key m then m # rs else r # upsert_meta m rs)"

definition UpsertMetaValue :: "string \<Rightarrow> string \<Rightarrow> micros \<Rightarrow> database \<Rightarrow> database" where
  "UpsertMetaValue key v at db =
     db\<lparr>db_meta := upsert_meta \<lparr>mt_Key = key, mt_Value = v, mt_UpdatedAt = at\<rparr> (db_meta db)\<rparr>"

text \<open>\<open>GetGuild\<close>, and its time zone column. The table has at most one row, the one with id 1.\<close>

definition q_GetGuild :: "database \<Rightarrow> guild_row option" where
  "q_GetGuild db = find_row (\<lambda>_. True) (db_guild db)"

definition GetGuild_timezone :: "database \<Rightarrow> string option" where
  "GetGuild_timezone db = map_option gd_Timezone (q_GetGuild db)"

end
