(* ===== verification/Tx.thy ===== *)
theory Tx
  imports Store
begin

text \<open>
  Computations against the database: the transaction of internal/store/tx.go, the statements run
  inside it, and what else of the world a commit consults.

  An action takes a \<open>world\<close> to a result and the world after it. The world is the database and
  three counters: statements run, identifiers minted, clock readings. What the world answers is the
  \<open>env\<close>, a parameter: \<open>ev_Fault n\<close> says whether the \<open>n\<close>-th statement fails for a reason the code
  does not control (a cancelled context, a full disk), \<open>ev_NewID\<close> is the ULID generator of a
  third-party package, \<open>ev_Now\<close> the clock in microseconds, \<open>ev_SHA256\<close> the hash,
  \<open>ev_LoadLocation\<close> and \<open>ev_DateOnly\<close> the time zone data. Since every statement may fail, what
  is proved of a commit holds under any pattern of failures.
\<close>

record env =
  ev_Fault :: "nat \<Rightarrow> string option"
  ev_NewID :: "nat \<Rightarrow> ulid res"
  ev_Now :: "nat \<Rightarrow> micros"
  ev_SHA256 :: "string \<Rightarrow> string"
  ev_LoadLocation :: "string \<Rightarrow> bool"
  ev_DateOnly :: "string \<Rightarrow> micros \<Rightarrow> string"

record world =
  wd_db :: database
  wd_stmts :: nat
  wd_ids :: nat
  wd_reads :: nat

type_synonym 'a act = "world \<Rightarrow> 'a res \<times> world"

section \<open>Sequencing\<close>

definition retA :: "'a \<Rightarrow> 'a act" where "retA x w = (Inr x, w)"

definition liftA :: "'a res \<Rightarrow> 'a act" where "liftA r w = (r, w)"

definition bindA :: "'a act \<Rightarrow> ('a \<Rightarrow> 'b act) \<Rightarrow> 'b act" where
  "bindA m k w = (case m w of (Inl e, w') \<Rightarrow> (Inl e, w') | (Inr x, w') \<Rightarrow> k x w')"

text \<open>A loop whose body can fail, for its effect.\<close>

fun forA :: "('a \<Rightarrow> unit act) \<Rightarrow> 'a list \<Rightarrow> unit act" where
  "forA f [] = retA ()"
| "forA f (x # xs) = bindA (f x) (\<lambda>_. forA f xs)"

text \<open>A loop that collects the results of its body.\<close>

fun mapA :: "('a \<Rightarrow> 'b act) \<Rightarrow> 'a list \<Rightarrow> 'b list act" where
  "mapA f [] = retA []"
| "mapA f (x # xs) = bindA (f x) (\<lambda>y. bindA (mapA f xs) (\<lambda>ys. retA (y # ys)))"

section \<open>Statements, identifiers and time\<close>

text \<open>A statement that reads, one that writes, and one that writes and returns a value.\<close>

definition exec_returning :: "env \<Rightarrow> (database \<Rightarrow> ('a \<times> database) res) \<Rightarrow> 'a act" where
  "exec_returning env f w =
     (let w' = w\<lparr>wd_stmts := Suc (wd_stmts w)\<rparr> in
      case ev_Fault env (wd_stmts w) of Some e \<Rightarrow> (Inl (ErrExternal e), w')
      | None \<Rightarrow> (case f (wd_db w) of Inl e \<Rightarrow> (Inl e, w')
         | Inr (x, db) \<Rightarrow> (Inr x, w'\<lparr>wd_db := db\<rparr>)))"

definition query :: "env \<Rightarrow> (database \<Rightarrow> 'a res) \<Rightarrow> 'a act" where
  "query env f = exec_returning env (\<lambda>db. bindR (f db) (\<lambda>x. Inr (x, db)))"

definition exec :: "env \<Rightarrow> (database \<Rightarrow> database res) \<Rightarrow> unit act" where
  "exec env f = exec_returning env (\<lambda>db. bindR (f db) (\<lambda>db'. Inr ((), db')))"

text \<open>\<open>Generator.New\<close> of internal/core/ulid.go, and \<open>core.FromTime(clock.Now())\<close>.\<close>

definition newID :: "env \<Rightarrow> ulid act" where
  "newID env w = (ev_NewID env (wd_ids w), w\<lparr>wd_ids := Suc (wd_ids w)\<rparr>)"

definition now :: "env \<Rightarrow> micros act" where
  "now env w = (Inr (ev_Now env (wd_reads w)), w\<lparr>wd_reads := Suc (wd_reads w)\<rparr>)"

text \<open>
  \<open>Store.Tx\<close>: begin, run, commit; a failure anywhere rolls the database back to where it was. The
  identifiers and clock readings that were taken stay taken. The code runs one write transaction at
  a time, so a transaction sees no other one's writes.
\<close>

definition Tx :: "env \<Rightarrow> 'a act \<Rightarrow> 'a act" where
  "Tx env f w =
     (case query env (\<lambda>_. Inr ()) w of (Inl e, w1) \<Rightarrow> (Inl e, w1)
      | (Inr _, w1) \<Rightarrow>
        (case f w1 of (Inl e, w2) \<Rightarrow> (Inl e, w2\<lparr>wd_db := wd_db w\<rparr>)
         | (Inr x, w2) \<Rightarrow>
           (case query env (\<lambda>_. Inr ()) w2 of (Inl e, w3) \<Rightarrow> (Inl e, w3\<lparr>wd_db := wd_db w\<rparr>)
            | (Inr _, w3) \<Rightarrow> (Inr x, w3))))"

section \<open>Reasoning about actions\<close>

named_theorems act_simps \<open>rules that take a successful action apart\<close>

lemma retA_eq [act_simps]: "retA x w = (Inr y, w') \<longleftrightarrow> x = y \<and> w = w'"
  by (auto simp: retA_def)

lemma liftA_eq [act_simps]: "liftA r w = (Inr y, w') \<longleftrightarrow> r = Inr y \<and> w = w'"
  by (auto simp: liftA_def)

lemma bindA_eq [act_simps]:
  "bindA m k w = (Inr y, w') \<longleftrightarrow> (\<exists>x w1. m w = (Inr x, w1) \<and> k x w1 = (Inr y, w'))"
  by (auto simp: bindA_def split: prod.splits sum.splits)

lemma bindA_E:
  assumes "bindA m k w = (Inr y, w')"
  obtains x w1 where "m w = (Inr x, w1)" "k x w1 = (Inr y, w')"
  using assms by (auto simp: bindA_eq)

lemma bindA_pair_E:
  assumes "bindA m (\<lambda>(a, b). k a b) w = (Inr y, w')"
  obtains a b w1 where "m w = (Inr (a, b), w1)" "k a b w1 = (Inr y, w')"
  using assms by (auto simp: bindA_eq)

lemma exec_returning_eq [act_simps]:
  "exec_returning env f w = (Inr x, w') \<longleftrightarrow> ev_Fault env (wd_stmts w) = None \<and>
     (\<exists>db. f (wd_db w) = Inr (x, db) \<and> w' = w\<lparr>wd_stmts := Suc (wd_stmts w), wd_db := db\<rparr>)"
  by (auto simp: exec_returning_def Let_def split: option.splits sum.splits)

lemma query_eq [act_simps]:
  "query env f w = (Inr x, w') \<longleftrightarrow> ev_Fault env (wd_stmts w) = None \<and>
     f (wd_db w) = Inr x \<and> w' = w\<lparr>wd_stmts := Suc (wd_stmts w)\<rparr>"
  by (auto simp: query_def act_simps res_simps)

lemma exec_eq [act_simps]:
  "exec env f w = (Inr x, w') \<longleftrightarrow> ev_Fault env (wd_stmts w) = None \<and>
     (\<exists>db. f (wd_db w) = Inr db \<and> w' = w\<lparr>wd_stmts := Suc (wd_stmts w), wd_db := db\<rparr>)"
  by (auto simp: exec_def act_simps res_simps)

lemma newID_eq [act_simps]:
  "newID env w = (Inr x, w') \<longleftrightarrow> ev_NewID env (wd_ids w) = Inr x \<and> w' = w\<lparr>wd_ids := Suc (wd_ids w)\<rparr>"
  by (auto simp: newID_def)

lemma now_eq [act_simps]:
  "now env w = (Inr x, w') \<longleftrightarrow> x = ev_Now env (wd_reads w) \<and> w' = w\<lparr>wd_reads := Suc (wd_reads w)\<rparr>"
  by (auto simp: now_def)

text \<open>An action that never changes the database, whatever its result.\<close>

definition read_only :: "'a act \<Rightarrow> bool" where
  "read_only m \<longleftrightarrow> (\<forall>w. wd_db (snd (m w)) = wd_db w \<and> wd_ids w \<le> wd_ids (snd (m w)))"

named_theorems read_onlys \<open>actions that only read\<close>

lemma read_onlyD: "read_only m \<Longrightarrow> m w = (r, w') \<Longrightarrow> wd_db w' = wd_db w"
  and read_only_ids: "read_only m \<Longrightarrow> m w = (r, w') \<Longrightarrow> wd_ids w \<le> wd_ids w'"
  by (metis read_only_def snd_conv)+

lemma read_only_retA [read_onlys]: "read_only (retA x)"
  by (simp add: read_only_def retA_def)

lemma read_only_liftA [read_onlys]: "read_only (liftA x)"
  by (simp add: read_only_def liftA_def)

lemma read_only_bindA [read_onlys]: "read_only m \<Longrightarrow> (\<And>x. read_only (k x)) \<Longrightarrow> read_only (bindA m k)"
  by (auto simp: read_only_def bindA_def split: prod.splits sum.splits) (metis snd_conv order_trans)+

lemma read_only_forA [read_onlys]: "(\<And>x. read_only (f x)) \<Longrightarrow> read_only (forA f xs)"
  by (induction xs) (auto intro!: read_onlys)

lemma read_only_mapA [read_onlys]: "(\<And>x. read_only (f x)) \<Longrightarrow> read_only (mapA f xs)"
  by (induction xs) (auto intro!: read_onlys)

lemma read_only_query [read_onlys]: "read_only (query env f)"
  by (auto simp: read_only_def query_def exec_returning_def Let_def bindR_def split: option.splits sum.splits)

lemma read_only_newID [read_onlys]: "read_only (newID env)"
  by (simp add: read_only_def newID_def)

lemma read_only_now [read_onlys]: "read_only (now env)"
  by (simp add: read_only_def now_def)

lemma read_only_if [read_onlys]: "read_only m \<Longrightarrow> read_only n \<Longrightarrow> read_only (if b then m else n)"
  by simp

lemma read_only_option [read_onlys]:
  "read_only m \<Longrightarrow> (\<And>x. read_only (k x)) \<Longrightarrow> read_only (case v of None \<Rightarrow> m | Some x \<Rightarrow> k x)"
  by (cases v) auto

text \<open>A loop for effect succeeds when each of its steps does, from the world the last one left.\<close>

lemma forA_invariant:
  assumes "forA f xs w = (Inr (), w')" "P w"
    and "\<And>x w w'. x \<in> set xs \<Longrightarrow> P w \<Longrightarrow> f x w = (Inr (), w') \<Longrightarrow> P w'"
  shows "P w'"
  using assms
proof (induction xs arbitrary: w)
  case (Cons x xs)
  then obtain w1 where "f x w = (Inr (), w1)" "forA f xs w1 = (Inr (), w')"
    by (auto simp: act_simps)
  with Cons show ?case by auto
qed (simp add: act_simps)

text \<open>All of a transaction or nothing of it.\<close>

lemma Tx_Inl: "Tx env f w = (Inl e, w') \<Longrightarrow> wd_db w' = wd_db w"
  using read_onlyD [OF read_only_query [of env "\<lambda>_. Inr ()"]]
  by (auto simp: Tx_def split: prod.splits sum.splits)

lemma Tx_Inr:
  assumes "Tx env f w = (Inr x, w')"
  obtains w1 w2 where "wd_db w1 = wd_db w" "f w1 = (Inr x, w2)" "wd_db w' = wd_db w2"
    "wd_stmts w1 = Suc (wd_stmts w)" "wd_ids w1 = wd_ids w" "wd_reads w1 = wd_reads w"
proof -
  obtain u w1 v w2 where "query env (\<lambda>_. Inr ()) w = (Inr u, w1)" "f w1 = (Inr x, w2)"
    "query env (\<lambda>_. Inr ()) w2 = (Inr v, w')"
    using assms by (auto simp: Tx_def split: prod.splits sum.splits)
  then show ?thesis
    by (intro that [of w1 w2]) (auto simp: act_simps)
qed

end
