(* ===== verification/Invariants.thy ===== *)
theory Invariants
  imports Tx
begin

text \<open>
  The invariant engine (internal/ledger/invariant.go): what a commit checks of a proposal before it
  writes anything. A violation is \<open>ErrInvariantViolated\<close> with the name of the invariant; the detail
  text is not modelled. A Go map that is summed into and then read in sorted key order is an
  association list.
\<close>

section \<open>Sums\<close>

text \<open>\<open>sums[k]\<close> of an absent key reads 0.\<close>

fun add_to :: "'k \<Rightarrow> centipoints \<Rightarrow> ('k \<times> centipoints) list \<Rightarrow> ('k \<times> centipoints) list option" where
  "add_to k x [] = (case addCentipoints 0 x of None \<Rightarrow> None | Some s \<Rightarrow> Some [(k, s)])"
| "add_to k x ((j, s) # m) =
    (if j = k then (case addCentipoints s x of None \<Rightarrow> None | Some t \<Rightarrow> Some ((j, t) # m))
     else (case add_to k x m of None \<Rightarrow> None | Some m' \<Rightarrow> Some ((j, s) # m')))"

fun sum_by :: "(entry_proposal \<Rightarrow> 'k) \<Rightarrow> string \<Rightarrow> ('k \<times> centipoints) list \<Rightarrow> entry_proposal list \<Rightarrow>
    ('k \<times> centipoints) list option" where
  "sum_by key only m [] = Some m"
| "sum_by key only m (e # es) =
    (if only \<noteq> [] \<and> ep_BalanceKind e \<noteq> only then sum_by key only m es
     else (case add_to (key e) (ep_AmountCp e) m of None \<Rightarrow> None
        | Some m' \<Rightarrow> sum_by key only m' es))"

definition sumByKind :: "batch_proposal \<Rightarrow> string \<Rightarrow> (string \<times> centipoints) list option" where
  "sumByKind p only = sum_by ep_BalanceKind only [] (bp_Entries p)"

definition account_kind :: "entry_proposal \<Rightarrow> ulid \<times> string" where
  "account_kind e = (ep_AccountID e, ep_BalanceKind e)"

definition sumByAccountAndKind ::
    "batch_proposal \<Rightarrow> string \<Rightarrow> ((ulid \<times> string) \<times> centipoints) list option" where
  "sumByAccountAndKind p only = sum_by account_kind only [] (bp_Entries p)"

definition sortedKeys :: "(('k :: linorder) \<times> centipoints) list \<Rightarrow> ('k \<times> centipoints) list" where
  "sortedKeys m = sort_key fst m"

definition distinctAccounts :: "entry_proposal list \<Rightarrow> ulid list" where
  "distinctAccounts es = sort (remdups (map ep_AccountID es))"

section \<open>The checks\<close>

definition violation :: "string \<Rightarrow> 'a act" where
  "violation name = liftA (Inl (ErrInvariantViolated name))"

text \<open>
  \<open>invariantCtx\<close>: the pool, the seq the batch was given and the head it must follow; the
  statements run on the transaction of the action.
\<close>

record invariant_ctx =
  ic_PoolID :: ulid
  ic_Seq :: i64
  ic_HeadSeq :: i64

fun invariant_kind_string :: "invariant_kind \<Rightarrow> string" where
  "invariant_kind_string InvariantSumZero = ''sum_zero''"
| "invariant_kind_string InvariantNonNegative = ''non_negative''"
| "invariant_kind_string InvariantLargestRemainderSumsToDebit = ''largest_remainder_sums_to_debit''"
| "invariant_kind_string InvariantConserved = ''conserved''"
| "invariant_kind_string InvariantMonotoneNonDecreasing = ''monotone_non_decreasing''"
| "invariant_kind_string InvariantPermutation = ''permutation''"
| "invariant_kind_string InvariantRatioPreserved = ''ratio_preserved''"
| "invariant_kind_string (InvariantOther s) = s"

definition checkReversalLinkage :: "env \<Rightarrow> invariant_ctx \<Rightarrow> batch_proposal \<Rightarrow> unit act" where
  "checkReversalLinkage env ic p =
     (case bp_ReversesBatchID p of
        None \<Rightarrow> if bp_Kind p = KindReversal then violation ''ReversalLinkage'' else retA ()
      | Some target \<Rightarrow>
        if bp_Kind p \<noteq> KindReversal then violation ''ReversalLinkage''
        else bindA (query env (\<lambda>db. Inr (q_GetLedgerBatch target db))) (\<lambda>row.
          case row of None \<Rightarrow> violation ''ReversalLinkage''
          | Some b \<Rightarrow> if br_PoolID b \<noteq> ic_PoolID ic then violation ''ReversalLinkage'' else retA ()))"

text \<open>The kinds of the accounts, by id; an id the batch does not touch reads the empty string.\<close>

fun liveAccounts :: "env \<Rightarrow> ulid list \<Rightarrow> (ulid \<Rightarrow> string) \<Rightarrow> (ulid \<Rightarrow> string) act" where
  "liveAccounts env [] kinds = retA kinds"
| "liveAccounts env (a # as) kinds =
    bindA (query env (\<lambda>db. Inr (q_GetAccount a db))) (\<lambda>row.
      case row of None \<Rightarrow> violation ''EntriesReferenceLiveAccounts''
      | Some r \<Rightarrow> liveAccounts env as (kinds(a := ac_Kind r)))"

definition checkUniversal :: "env \<Rightarrow> invariant_ctx \<Rightarrow> batch_proposal \<Rightarrow> (ulid \<Rightarrow> string) act" where
  "checkUniversal env ic p =
     (if length (bp_Entries p) = 0 then violation ''BatchNonEmpty''
      else if \<exists>e \<in> set (bp_Entries p). ep_AmountCp e = 0 then violation ''AmountsNonZero''
      else if NetAmountCp p = None then violation ''NoAmountOverflow''
      else if ic_Seq ic \<noteq> ic_HeadSeq ic + 1 then violation ''SeqMonotonic''
      else bindA (checkReversalLinkage env ic p) (\<lambda>_.
        liveAccounts env (distinctAccounts (bp_Entries p)) (\<lambda>_. [])))"

definition touchesBalanceKind :: "batch_proposal \<Rightarrow> string \<Rightarrow> bool" where
  "touchesBalanceKind p kind \<longleftrightarrow> (\<exists>e \<in> set (bp_Entries p). ep_BalanceKind e = kind)"

definition checkSumsToZero :: "batch_proposal \<Rightarrow> invariant \<Rightarrow> string \<Rightarrow> unit act" where
  "checkSumsToZero p iv name =
     (case sumByKind p (iv_BalanceKind iv) of None \<Rightarrow> violation name
      | Some sums \<Rightarrow>
        if \<forall>(k, s) \<in> set (sortedKeys sums). s = 0 then retA () else violation name)"

definition checkFloor :: "env \<Rightarrow> invariant_ctx \<Rightarrow> (ulid \<Rightarrow> string) \<Rightarrow> centipoints \<Rightarrow>
    (ulid \<times> string) \<times> centipoints \<Rightarrow> unit act" where
  "checkFloor env ic kinds floor = (\<lambda>((account, kind), delta).
     if kinds account = KindSystem then retA ()
     else bindA (query env (q_BalanceAsOfSeq (ic_PoolID ic) account kind (ic_HeadSeq ic))) (\<lambda>current.
       case addCentipoints current delta of None \<Rightarrow> violation ''NonNegative''
       | Some after \<Rightarrow> if delta <s 0 \<and> after <s floor then violation ''NonNegative'' else retA ()))"

definition checkNonNegative :: "env \<Rightarrow> invariant_ctx \<Rightarrow> batch_proposal \<Rightarrow> invariant \<Rightarrow>
    (ulid \<Rightarrow> string) \<Rightarrow> unit act" where
  "checkNonNegative env ic p iv kinds =
     (case iv_FloorCp iv of None \<Rightarrow> violation ''NonNegative''
      | Some floor \<Rightarrow>
        (case sumByAccountAndKind p (iv_BalanceKind iv) of None \<Rightarrow> violation ''NonNegative''
         | Some deltas \<Rightarrow> forA (checkFloor env ic kinds floor) (sortedKeys deltas)))"

definition checkDeclared :: "env \<Rightarrow> invariant_ctx \<Rightarrow> batch_proposal \<Rightarrow> (ulid \<Rightarrow> string) \<Rightarrow>
    invariant \<Rightarrow> unit act" where
  "checkDeclared env ic p kinds iv =
     (if iv_BalanceKind iv \<noteq> [] \<and> \<not> touchesBalanceKind p (iv_BalanceKind iv)
      then violation (invariant_kind_string (iv_Kind iv))
      else (case iv_Kind iv of
          InvariantSumZero \<Rightarrow> checkSumsToZero p iv ''SumZero''
        | InvariantLargestRemainderSumsToDebit \<Rightarrow>
            checkSumsToZero p iv ''LargestRemainderSumsToDebit''
        | InvariantNonNegative \<Rightarrow> checkNonNegative env ic p iv kinds
        | k \<Rightarrow> violation (invariant_kind_string k)))"

definition checkInvariants :: "env \<Rightarrow> invariant_ctx \<Rightarrow> batch_proposal \<Rightarrow> unit act" where
  "checkInvariants env ic p = bindA (checkUniversal env ic p) (\<lambda>kinds.
     forA (checkDeclared env ic p kinds) (bp_Invariants p))"

section \<open>What a passed check means\<close>

lemma violation_neq_Inr [act_simps]: "violation name w = (Inr x, w') \<longleftrightarrow> False"
  by (simp add: violation_def liftA_def)

lemma read_only_violation [read_onlys]: "read_only (violation name)"
  by (simp add: violation_def read_onlys)

lemma read_only_checkUniversal [read_onlys]: "read_only (checkUniversal env ic p)"
proof -
  have "read_only (liveAccounts env as kinds)" for as kinds
  proof (induction as arbitrary: kinds)
    case (Cons a as)
    show ?case
      unfolding liveAccounts.simps by (intro read_onlys Cons.IH)
  qed (simp add: read_onlys)
  then show ?thesis
    unfolding checkUniversal_def checkReversalLinkage_def by (intro read_onlys)
qed

lemma read_only_checkFloor [read_onlys]: "read_only (checkFloor env ic kinds floor x)"
proof (cases x)
  case (Pair k delta)
  then show ?thesis
    by (cases k) (simp only: checkFloor_def prod.case, intro read_onlys)
qed

lemma read_only_checkDeclared [read_onlys]: "read_only (checkDeclared env ic p kinds iv)"
  unfolding checkDeclared_def checkSumsToZero_def checkNonNegative_def
  by (cases "iv_Kind iv"; simp only: invariant_kind.case; intro read_onlys)

lemma read_only_checkInvariants [read_onlys]: "read_only (checkInvariants env ic p)"
  unfolding checkInvariants_def by (intro read_onlys)

text \<open>The value a map of sums holds at a key.\<close>

definition value_at :: "('k \<times> centipoints) list \<Rightarrow> 'k \<Rightarrow> int" where
  "value_at m k = (case map_of m k of None \<Rightarrow> 0 | Some s \<Rightarrow> sint s)"

definition in_scope :: "string \<Rightarrow> entry_proposal \<Rightarrow> bool" where
  "in_scope only e \<longleftrightarrow> only = [] \<or> ep_BalanceKind e = only"

definition total_of :: "(entry_proposal \<Rightarrow> 'k) \<Rightarrow> string \<Rightarrow> 'k \<Rightarrow> entry_proposal list \<Rightarrow> int" where
  "total_of key only k es = sum_list (map (\<lambda>e. sint (ep_AmountCp e))
     (filter (\<lambda>e. in_scope only e \<and> key e = k) es))"

lemma total_of_simps [simp]:
  "total_of key only k [] = 0"
  "total_of key only k (e # es) =
    (if in_scope only e \<and> key e = k then sint (ep_AmountCp e) else 0) + total_of key only k es"
  by (simp_all add: total_of_def)

lemma add_to_value:
  "add_to k x m = Some m' \<Longrightarrow>
    value_at m' j = value_at m j + (if j = k then sint x else 0) \<and>
    fst ` set m' = insert k (fst ` set m) \<and> (distinct (map fst m) \<longrightarrow> distinct (map fst m'))"
proof (induction k x m arbitrary: m' rule: add_to.induct)
  case (1 k x)
  then show ?case
    by (auto simp: value_at_def split: option.splits dest: addCentipoints_sint)
next
  case (2 k x i s m)
  show ?case
  proof (cases "i = k")
    case True
    then show ?thesis
      using "2.prems" by (auto simp: value_at_def split: option.splits dest: addCentipoints_sint)
  next
    case False
    then obtain m1 where m1: "add_to k x m = Some m1" "m' = (i, s) # m1"
      using "2.prems" by (auto split: option.splits)
    have keys: "set (map fst m1) = insert k (set (map fst m))"
      using "2.IH" [OF False m1(1)] by simp
    show ?thesis
      using "2.IH" [OF False m1(1)] False keys by (auto simp: m1(2) value_at_def)
  qed
qed

lemma sum_by_value:
  "sum_by key only m es = Some m' \<Longrightarrow>
    value_at m' k = value_at m k + total_of key only k es \<and>
    fst ` set m' = fst ` set m \<union> key ` {e \<in> set es. in_scope only e} \<and>
    (distinct (map fst m) \<longrightarrow> distinct (map fst m'))"
proof (induction es arbitrary: m)
  case (Cons e es)
  show ?case
  proof (cases "in_scope only e")
    case False
    then show ?thesis
      using Cons.IH [of m] Cons.prems by (auto simp: in_scope_def)
  next
    case True
    then obtain m1 where m1: "add_to (key e) (ep_AmountCp e) m = Some m1"
      "sum_by key only m1 es = Some m'"
      using Cons.prems by (auto simp: in_scope_def split: if_splits option.splits)
    have set: "key ` {x \<in> set (e # es). in_scope only x} =
        insert (key e) (key ` {x \<in> set es. in_scope only x})"
      using True by auto
    show ?thesis
      using Cons.IH [OF m1(2)] add_to_value [OF m1(1), of k] True by (auto simp: set)
  qed
qed simp

lemma value_at_mem: "distinct (map fst m) \<Longrightarrow> (k, s) \<in> set m \<Longrightarrow> value_at m k = sint s"
  by (simp add: value_at_def)

text \<open>A map of sums, read in sorted order: each key that occurs, with the exact total under it.\<close>

lemma sum_by_totals:
  assumes "sum_by key only [] es = Some m"
  shows "distinct (map fst m)"
    and "(k, s) \<in> set m \<Longrightarrow> sint s = total_of key only k es"
    and "e \<in> set es \<Longrightarrow> in_scope only e \<Longrightarrow> \<exists>s. (key e, s) \<in> set m"
proof -
  show d: "distinct (map fst m)"
    using sum_by_value [OF assms, of undefined] by simp
  show "(k, s) \<in> set m \<Longrightarrow> sint s = total_of key only k es"
  proof -
    assume ks: "(k, s) \<in> set m"
    have "value_at m k = total_of key only k es"
      using sum_by_value [OF assms, of k] by (simp add: value_at_def)
    then show "sint s = total_of key only k es" using value_at_mem [OF d ks] by simp
  qed
  show "e \<in> set es \<Longrightarrow> in_scope only e \<Longrightarrow> \<exists>s. (key e, s) \<in> set m"
  proof -
    assume e: "e \<in> set es" "in_scope only e"
    have "fst ` set m = key ` {e \<in> set es. in_scope only e}"
      using sum_by_value [OF assms, of undefined] by simp
    then have "key e \<in> fst ` set m" using e by blast
    then show ?thesis by force
  qed
qed

lemma set_sortedKeys [simp]: "set (sortedKeys m) = set m"
  by (simp add: sortedKeys_def)

lemma checkSumsToZero_Inr:
  assumes "checkSumsToZero p iv name w = (Inr u, w')" "e \<in> set (bp_Entries p)"
    "in_scope (iv_BalanceKind iv) e"
  shows "total_of ep_BalanceKind (iv_BalanceKind iv) (ep_BalanceKind e) (bp_Entries p) = 0"
proof -
  obtain m where m: "sumByKind p (iv_BalanceKind iv) = Some m" "\<forall>(k, s) \<in> set m. s = 0"
    using assms(1) by (auto simp: checkSumsToZero_def act_simps split: option.splits if_splits)
  then obtain s where s: "(ep_BalanceKind e, s) \<in> set m"
    using sum_by_totals(3) [OF _ assms(2,3)] by (fastforce simp: sumByKind_def)
  then have "s = 0" using m(2) by blast
  with sum_by_totals(2) [OF m(1) [unfolded sumByKind_def] s] show ?thesis by simp
qed

text \<open>The accounts exist, and \<open>kinds\<close> is their kinds.\<close>

definition kind_of :: "database \<Rightarrow> ulid \<Rightarrow> string" where
  "kind_of db a = (case q_GetAccount a db of None \<Rightarrow> [] | Some r \<Rightarrow> ac_Kind r)"

lemma liveAccounts_Inr:
  "liveAccounts env as kinds w = (Inr ks, w') \<Longrightarrow>
    (\<forall>a \<in> set as. q_GetAccount a (wd_db w) \<noteq> None) \<and>
    (\<forall>a. ks a = (if a \<in> set as then kind_of (wd_db w) a else kinds a)) \<and> wd_db w' = wd_db w"
proof (induction as arbitrary: kinds w)
  case (Cons a as)
  then obtain r where r: "q_GetAccount a (wd_db w) = Some r"
    and step: "liveAccounts env as (kinds(a := ac_Kind r)) (w\<lparr>wd_stmts := Suc (wd_stmts w)\<rparr>) = (Inr ks, w')"
    by (auto simp: act_simps split: option.splits)
  show ?case
    using Cons.IH [OF step] r by (auto simp: kind_of_def)
qed (simp add: act_simps)

lemma checkUniversal_Inr:
  assumes "checkUniversal env ic p w = (Inr kinds, w')"
  shows "bp_Entries p \<noteq> []" and "e \<in> set (bp_Entries p) \<Longrightarrow> ep_AmountCp e \<noteq> 0"
    and "NetAmountCp p \<noteq> None" and "ic_Seq ic = ic_HeadSeq ic + 1"
    and "bp_Kind p = KindReversal \<longleftrightarrow> bp_ReversesBatchID p \<noteq> None"
    and "bp_ReversesBatchID p = Some t \<Longrightarrow>
      \<exists>b. q_GetLedgerBatch t (wd_db w) = Some b \<and> br_PoolID b = ic_PoolID ic"
    and "e \<in> set (bp_Entries p) \<Longrightarrow> q_GetAccount (ep_AccountID e) (wd_db w) \<noteq> None"
    and "e \<in> set (bp_Entries p) \<Longrightarrow> kinds (ep_AccountID e) = kind_of (wd_db w) (ep_AccountID e)"
    and "wd_db w' = wd_db w"
proof -
  have guards: "bp_Entries p \<noteq> [] \<and> (\<forall>e \<in> set (bp_Entries p). ep_AmountCp e \<noteq> 0) \<and>
      NetAmountCp p \<noteq> None \<and> ic_Seq ic = ic_HeadSeq ic + 1"
    using assms by (auto simp: checkUniversal_def act_simps split: if_splits)
  then obtain w1 where link: "checkReversalLinkage env ic p w = (Inr (), w1)"
    and live: "liveAccounts env (distinctAccounts (bp_Entries p)) (\<lambda>_. []) w1 = (Inr kinds, w')"
    using assms by (auto simp: checkUniversal_def act_simps split: if_splits)
  have db: "wd_db w1 = wd_db w"
    and rev: "(bp_Kind p = KindReversal \<longleftrightarrow> bp_ReversesBatchID p \<noteq> None) \<and>
      (\<forall>t. bp_ReversesBatchID p = Some t \<longrightarrow>
        (\<exists>b. q_GetLedgerBatch t (wd_db w) = Some b \<and> br_PoolID b = ic_PoolID ic))"
    using link by (auto simp: checkReversalLinkage_def act_simps split: option.splits if_splits)
  show "bp_Entries p \<noteq> []" "e \<in> set (bp_Entries p) \<Longrightarrow> ep_AmountCp e \<noteq> 0"
    "NetAmountCp p \<noteq> None" "ic_Seq ic = ic_HeadSeq ic + 1"
    using guards by blast+
  show "bp_Kind p = KindReversal \<longleftrightarrow> bp_ReversesBatchID p \<noteq> None"
    "bp_ReversesBatchID p = Some t \<Longrightarrow>
      \<exists>b. q_GetLedgerBatch t (wd_db w) = Some b \<and> br_PoolID b = ic_PoolID ic"
    using rev by blast+
  show "e \<in> set (bp_Entries p) \<Longrightarrow> q_GetAccount (ep_AccountID e) (wd_db w) \<noteq> None"
    "e \<in> set (bp_Entries p) \<Longrightarrow> kinds (ep_AccountID e) = kind_of (wd_db w) (ep_AccountID e)"
    "wd_db w' = wd_db w"
    using liveAccounts_Inr [OF live] db by (auto simp: distinctAccounts_def)
qed

text \<open>A floor that was passed: no account of a person is debited below it.\<close>

lemma checkFloor_Inr:
  assumes "checkFloor env ic kinds floor ((a, k), d) w = (Inr u, w')"
  shows "wd_db w' = wd_db w"
    and "kinds a \<noteq> KindSystem \<Longrightarrow> \<exists>current.
      q_BalanceAsOfSeq (ic_PoolID ic) a k (ic_HeadSeq ic) (wd_db w) = Inr current \<and>
      in64 (sint current + sint d) \<and> (sint d < 0 \<longrightarrow> sint floor \<le> sint current + sint d)"
proof -
  show "wd_db w' = wd_db w"
    using read_onlyD [OF read_only_checkFloor assms] .
  assume sys: "kinds a \<noteq> KindSystem"
  from assms obtain current after where c:
      "q_BalanceAsOfSeq (ic_PoolID ic) a k (ic_HeadSeq ic) (wd_db w) = Inr current"
      "addCentipoints current d = Some after" "\<not> (d <s 0 \<and> after <s floor)"
    using sys by (auto simp: checkFloor_def act_simps split: option.splits if_splits)
  have "sint after = sint current + sint d" by (rule addCentipoints_sint [OF c(2)])
  moreover have "in64 (sint after)" by simp
  ultimately show "\<exists>current. q_BalanceAsOfSeq (ic_PoolID ic) a k (ic_HeadSeq ic) (wd_db w) = Inr current \<and>
      in64 (sint current + sint d) \<and> (sint d < 0 \<longrightarrow> sint floor \<le> sint current + sint d)"
    using c(1,3) by (auto simp: i64_simps)
qed

lemma forA_Inr_each:
  assumes "forA f xs w = (Inr (), w')" "x \<in> set xs" "\<And>x. read_only (f x)"
  shows "\<exists>w1 w2. wd_db w1 = wd_db w \<and> f x w1 = (Inr (), w2)"
  using assms(1,2)
proof (induction xs arbitrary: w)
  case (Cons y xs)
  then obtain w1 where w1: "f y w = (Inr (), w1)" "forA f xs w1 = (Inr (), w')"
    by (auto simp: act_simps)
  show ?case
  proof (cases "x = y")
    case True
    with w1 show ?thesis by blast
  next
    case False
    with Cons.prems have "x \<in> set xs" by simp
    from Cons.IH [OF w1(2) this] show ?thesis
      using read_onlyD [OF assms(3) w1(1)] by simp
  qed
qed simp

lemma checkInvariants_Inr:
  assumes "checkInvariants env ic p w = (Inr u, w')"
  obtains kinds w1 where "checkUniversal env ic p w = (Inr kinds, w1)"
    "\<And>iv. iv \<in> set (bp_Invariants p) \<Longrightarrow>
      \<exists>w2 w3. wd_db w2 = wd_db w \<and> checkDeclared env ic p kinds iv w2 = (Inr (), w3)"
    "wd_db w' = wd_db w"
proof -
  obtain kinds w1 where u: "checkUniversal env ic p w = (Inr kinds, w1)"
    and each: "forA (checkDeclared env ic p kinds) (bp_Invariants p) w1 = (Inr (), w')"
    using assms by (auto simp: checkInvariants_def act_simps)
  show ?thesis
  proof (rule that [OF u])
    show "\<exists>w2 w3. wd_db w2 = wd_db w \<and> checkDeclared env ic p kinds iv w2 = (Inr (), w3)"
      if "iv \<in> set (bp_Invariants p)" for iv
      using forA_Inr_each [OF each that read_only_checkDeclared] checkUniversal_Inr(9) [OF u] by simp
    show "wd_db w' = wd_db w"
      by (rule read_onlyD [OF read_only_checkInvariants assms])
  qed
qed

text \<open>A declared floor holds for every debited account of a person.\<close>

lemma checkDeclared_floor:
  assumes "checkDeclared env ic p kinds iv w = (Inr u, w')" "iv_Kind iv = InvariantNonNegative"
    "e \<in> set (bp_Entries p)" "in_scope (iv_BalanceKind iv) e" "kinds (ep_AccountID e) \<noteq> KindSystem"
  obtains floor current where "iv_FloorCp iv = Some floor"
    "q_BalanceAsOfSeq (ic_PoolID ic) (ep_AccountID e) (ep_BalanceKind e) (ic_HeadSeq ic) (wd_db w) = Inr current"
    "total_of account_kind (iv_BalanceKind iv) (account_kind e) (bp_Entries p) < 0 \<Longrightarrow>
      sint floor \<le> sint current + total_of account_kind (iv_BalanceKind iv) (account_kind e) (bp_Entries p)"
proof -
  obtain floor deltas where f: "iv_FloorCp iv = Some floor"
      "sumByAccountAndKind p (iv_BalanceKind iv) = Some deltas"
      "forA (checkFloor env ic kinds floor) (sortedKeys deltas) w = (Inr (), w')"
    using assms(1,2) by (auto simp: checkDeclared_def checkNonNegative_def act_simps
        split: if_splits option.splits)
  obtain d where d: "(account_kind e, d) \<in> set deltas"
    using sum_by_totals(3) [OF f(2) [unfolded sumByAccountAndKind_def] assms(3,4)] by blast
  have tot: "sint d = total_of account_kind (iv_BalanceKind iv) (account_kind e) (bp_Entries p)"
    using sum_by_totals(2) [OF f(2) [unfolded sumByAccountAndKind_def] d] .
  obtain w1 w2 where w1: "wd_db w1 = wd_db w" "checkFloor env ic kinds floor (account_kind e, d) w1 = (Inr (), w2)"
    using forA_Inr_each [OF f(3) _ read_only_checkFloor, of "(account_kind e, d)"] d by auto
  from checkFloor_Inr(2) [OF w1(2) [unfolded account_kind_def] assms(5)]
  show ?thesis
    using that f(1) tot w1(1) by (auto simp: account_kind_def)
qed

end
