(* ===== verification/HashChain.thy ===== *)
theory HashChain
  imports Json Tx
begin

text \<open>
  The tamper-evidence chain (internal/ledger/hashchain.go): the canonical JSON of a batch, of its
  entries and of an audit row, the hash over the previous hash and that JSON, and the hex form of a
  chain head. \<open>encoding/json\<close> with \<open>SetEscapeHTML(false)\<close> is modelled as a renderer of the JSON
  trees of theory Json; encoding a struct of strings and integers cannot fail, so the error
  branches after it are not there. SHA-256 is a parameter of the hashing functions.
\<close>

section \<open>encoding/json: rendering\<close>

definition hex_digit :: "int \<Rightarrow> char" where
  "hex_digit n = (if n < 10 then chr (48 + n) else chr (87 + n))"

fun nat_digits :: "nat \<Rightarrow> string" where
  "nat_digits n = (if n < 10 then [chr (48 + int n)]
     else nat_digits (n div 10) @ [chr (48 + int (n mod 10))])"

declare nat_digits.simps [simp del]

definition format_int :: "int \<Rightarrow> string" where
  "format_int n = (if n < 0 then CHR ''-'' # nat_digits (nat (- n)) else nat_digits (nat n))"

definition escape_ascii :: "char \<Rightarrow> string" where
  "escape_ascii c =
    (if byte c = 34 \<or> byte c = 92 then [CHR 0x5C, c]
     else if byte c = 8 then [CHR 0x5C, CHR ''b'']
     else if byte c = 12 then [CHR 0x5C, CHR ''f'']
     else if byte c = 10 then [CHR 0x5C, CHR ''n'']
     else if byte c = 13 then [CHR 0x5C, CHR ''r'']
     else if byte c = 9 then [CHR 0x5C, CHR ''t'']
     else if byte c < 32 then
       [CHR 0x5C, CHR ''u'', CHR ''0'', CHR ''0'', hex_digit (byte c div 16), hex_digit (byte c mod 16)]
     else [c])"

text \<open>Bytes that are not UTF-8 become \<open>\ufffd\<close>, the two line separators their escapes.\<close>

definition escape_rune :: "string \<Rightarrow> string" where
  "escape_rune r =
    (if r = encode_rune 8232 then CHR 0x5C # ''u2028''
     else if r = encode_rune 8233 then CHR 0x5C # ''u2029'' else r)"

fun escape_string :: "string \<Rightarrow> string" where
  "escape_string [] = []"
| "escape_string (c # s) =
    (if byte c < 128 then escape_ascii c @ escape_string s
     else if rune_len (c # s) = 0 then (CHR 0x5C # ''ufffd'') @ escape_string s
     else escape_rune (take (rune_len (c # s)) (c # s)) @
       escape_string (drop (rune_len (c # s) - 1) s))"

fun json_encode :: "json \<Rightarrow> string"
  and encode_elems :: "json list \<Rightarrow> string"
  and encode_members :: "(string \<times> json) list \<Rightarrow> string" where
  "json_encode JNull = ''null''"
| "json_encode (JBool b) = (if b then ''true'' else ''false'')"
| "json_encode (JNum l) = l"
| "json_encode (JStr s) = CHR 0x22 # escape_string s @ [CHR 0x22]"
| "json_encode (JArr vs) = CHR ''['' # encode_elems vs @ '']''"
| "json_encode (JObj ms) = CHR ''{'' # encode_members ms @ ''}''"
| "encode_elems [] = []"
| "encode_elems (v # vs) = json_encode v @ (if vs = [] then [] else CHR '','' # encode_elems vs)"
| "encode_members [] = []"
| "encode_members ((k, v) # ms) = CHR 0x22 # escape_string k @ CHR 0x22 # CHR '':'' # json_encode v @
    (if ms = [] then [] else CHR '','' # encode_members ms)"

definition json_int :: "i64 \<Rightarrow> json" where "json_int n = JNum (format_int (sint n))"

definition json_opt :: "('a \<Rightarrow> json) \<Rightarrow> 'a option \<Rightarrow> json" where
  "json_opt f v = (case v of None \<Rightarrow> JNull | Some x \<Rightarrow> f x)"

section \<open>The hash inputs\<close>

definition batchHashInput :: "batch_row \<Rightarrow> json" where
  "batchHashInput b = JObj
    [(''id'', JStr (br_ID b)),
     (''pool_id'', JStr (br_PoolID b)),
     (''seq'', json_int (br_Seq b)),
     (''kind'', JStr (br_Kind b)),
     (''strategy_id'', JStr (br_StrategyID b)),
     (''strategy_version'', JStr (br_StrategyVersion b)),
     (''config_snapshot_json'', JStr (br_ConfigSnapshotJSON b)),
     (''rng_seed'', json_opt json_int (br_RngSeed b)),
     (''source'', JStr (br_Source b)),
     (''source_ref'', json_opt JStr (br_SourceRef b)),
     (''actor_user_id'', json_opt JStr (br_ActorUserID b)),
     (''actor_token_id'', json_opt JStr (br_ActorTokenID b)),
     (''actor_is_beneficiary'', json_int (br_ActorIsBeneficiary b)),
     (''reason'', JStr (br_Reason b)),
     (''reverses_batch_id'', json_opt JStr (br_ReversesBatchID b)),
     (''effective_at'', json_int (br_EffectiveAt b)),
     (''recorded_at'', json_int (br_RecordedAt b)),
     (''effective_day'', JStr (br_EffectiveDay b)),
     (''idempotency_key'', json_opt JStr (br_IdempotencyKey b)),
     (''entry_count'', json_int (br_EntryCount b)),
     (''net_amount_cp'', json_int (br_NetAmountCp b))]"

definition entryHashInput :: "entry_row \<Rightarrow> json" where
  "entryHashInput e = JObj
    [(''id'', JStr (er_ID e)),
     (''batch_id'', JStr (er_BatchID e)),
     (''pool_id'', JStr (er_PoolID e)),
     (''seq'', json_int (er_Seq e)),
     (''account_id'', JStr (er_AccountID e)),
     (''character_id'', json_opt JStr (er_CharacterID e)),
     (''balance_kind'', JStr (er_BalanceKind e)),
     (''amount_cp'', json_int (er_AmountCp e)),
     (''item_id'', json_opt JStr (er_ItemID e)),
     (''item_award_id'', json_opt JStr (er_ItemAwardID e)),
     (''raid_id'', json_opt JStr (er_RaidID e)),
     (''tick_id'', json_opt JStr (er_TickID e)),
     (''metadata_json'', JStr (er_MetadataJSON e))]"

definition auditHashInput :: "audit_row \<Rightarrow> json" where
  "auditHashInput a = JObj
    [(''id'', JStr (au_ID a)),
     (''seq'', json_int (au_Seq a)),
     (''at'', json_int (au_At a)),
     (''actor_kind'', JStr (au_ActorKind a)),
     (''actor_label'', JStr (au_ActorLabel a)),
     (''action'', JStr (au_Action a)),
     (''resource_kind'', JStr (au_ResourceKind a)),
     (''resource_id'', json_opt JStr (au_ResourceID a)),
     (''outcome'', JStr (au_Outcome a)),
     (''ledger_batch_id'', json_opt JStr (au_LedgerBatchID a))]"

text \<open>The bytes a nil slice writes: none.\<close>

definition bytes_of :: "string option \<Rightarrow> string" where
  "bytes_of v = (case v of None \<Rightarrow> [] | Some s \<Rightarrow> s)"

definition entriesJSON :: "entry_row list \<Rightarrow> string" where
  "entriesJSON es = json_encode (JArr (map entryHashInput (sort_key er_ID es)))"

definition BatchHash :: "(string \<Rightarrow> string) \<Rightarrow> string option \<Rightarrow> batch_row \<Rightarrow> entry_row list \<Rightarrow> string" where
  "BatchHash H prev b es = H (bytes_of prev @ json_encode (batchHashInput b) @ entriesJSON es)"

definition AuditHash :: "(string \<Rightarrow> string) \<Rightarrow> string option \<Rightarrow> audit_row \<Rightarrow> string" where
  "AuditHash H prev a = H (bytes_of prev @ json_encode (auditHashInput a))"

section \<open>Chain heads\<close>

definition hashLength :: nat where "hashLength = 32"

fun encodeHead :: "string \<Rightarrow> string" where
  "encodeHead [] = []"
| "encodeHead (c # s) = hex_digit (byte c div 16) # hex_digit (byte c mod 16) # encodeHead s"

text \<open>\<open>hex.DecodeString\<close> takes both cases and refuses an odd length.\<close>

fun hex_decode :: "string \<Rightarrow> string option" where
  "hex_decode [] = Some []"
| "hex_decode [c] = None"
| "hex_decode (a # b # s) = (case (hex_val a, hex_val b, hex_decode s) of
     (Some x, Some y, Some r) \<Rightarrow> Some (chr (16 * x + y) # r) | _ \<Rightarrow> None)"

definition decodeHead :: "string \<Rightarrow> string res" where
  "decodeHead v = (case hex_decode v of None \<Rightarrow> Inl (ErrExternal ''decode chain head'')
     | Some raw \<Rightarrow> if length raw \<noteq> hashLength then Inl (ErrExternal ''chain head length'') else Inr raw)"

section \<open>Heads round trip\<close>

lemma byte_range: "0 \<le> byte c" "byte c < 256"
proof -
  have "byte c = byte c mod 256" unfolding byte_def by (rule of_char_mod_256 [symmetric])
  then show "0 \<le> byte c" "byte c < 256" using pos_mod_bound [of 256 "byte c"] pos_mod_sign [of 256 "byte c"] by simp_all
qed

lemma chr_byte [simp]: "chr (byte c) = c"
  by (simp add: chr_def byte_def)

lemma byte_chr: "0 \<le> n \<Longrightarrow> n < 256 \<Longrightarrow> byte (chr n) = n"
  by (simp add: chr_def byte_def)

lemma hex_val_digit: "0 \<le> n \<Longrightarrow> n < 16 \<Longrightarrow> hex_val (hex_digit n) = Some n"
  by (auto simp: hex_digit_def hex_val_def is_digit_def in_range_def byte_chr)

lemma hex_decode_encode [simp]: "hex_decode (encodeHead h) = Some h"
proof (induction h)
  case (Cons c h)
  have "0 \<le> byte c div 16" "byte c div 16 < 16" "0 \<le> byte c mod 16" "byte c mod 16 < 16"
    using byte_range [of c] by auto
  then show ?case using Cons.IH by (simp add: hex_val_digit)
qed simp

lemma decodeHead_encodeHead: "length h = hashLength \<Longrightarrow> decodeHead (encodeHead h) = Inr h"
  by (simp add: decodeHead_def)

lemma length_encodeHead: "length (encodeHead h) = 2 * length h"
  by (induction h) auto

end
