(* ===== verification/Commit.thy ===== *)
theory Commit
  imports Invariants HashChain
begin

text \<open>
  The commit (internal/ledger/commit.go): a proposal becomes a batch, its entries, the cached
  balances, an audit row, an outbox event and two chain heads, in one transaction. The first
  section is the code, the second takes a successful commit apart into what it added to the
  database. The logging of the code is not modelled.
\<close>

section \<open>Requests and receipts\<close>

record actor =
  act_Kind :: string
  act_Label :: string
  act_UserID :: "ulid option"
  act_TokenID :: "ulid option"

record commit_request =
  cr_PoolID :: ulid
  cr_Proposal :: batch_proposal
  cr_Source :: string
  cr_SourceRef :: "string option"
  cr_IdempotencyKey :: "string option"
  cr_Actor :: actor
  cr_Action :: string
  cr_EventType :: string
  cr_Topic :: string

record receipt =
  rc_BatchID :: ulid
  rc_Seq :: i64
  rc_PrevHash :: "string option"
  rc_Hash :: string
  rc_EntryCount :: i64
  rc_NetAmountCp :: centipoints
  rc_AuditSeq :: i64
  rc_EventSeq :: i64
  rc_Replayed :: bool

definition DefaultAuditAction :: string where "DefaultAuditAction = ''ledger.batch.commit''"
definition DefaultEventType :: string where "DefaultEventType = ''ledger.batch.committed''"
definition auditResourceKind :: string where "auditResourceKind = ''ledger_batch''"
definition eventResourceRefPrefix :: string where
  "eventResourceRefPrefix = ''/api/v1/ledger/batches/''"
definition eventTopicPrefix :: string where "eventTopicPrefix = ''pool:''"
definition metaLedgerHeadPrefix :: string where "metaLedgerHeadPrefix = ''ledger_head:''"
definition metaAuditHead :: string where "metaAuditHead = ''audit_head''"

definition MetaLedgerHeadKey :: "ulid \<Rightarrow> string" where
  "MetaLedgerHeadKey pool = metaLedgerHeadPrefix @ pool"

definition MetaAuditHeadKey :: string where "MetaAuditHeadKey = metaAuditHead"

definition orEmptyJSON :: "string \<Rightarrow> string" where
  "orEmptyJSON s = (if s = [] then ''{}'' else s)"

definition orDefault :: "string \<Rightarrow> string \<Rightarrow> string" where
  "orDefault v fallback = (if v = [] then fallback else v)"

section \<open>The commit\<close>

definition validate :: "commit_request \<Rightarrow> unit res" where
  "validate req =
     (if cr_PoolID req = [] then Inl ErrInvalidRequest
      else if \<not> IsBatchSource (cr_Source req) then Inl ErrInvalidRequest
      else if \<not> IsActorKind (act_Kind (cr_Actor req)) then Inl ErrInvalidRequest
      else if bp_Kind (cr_Proposal req) = [] then Inl ErrInvalidRequest
      else if \<not> IsBatchKind (bp_Kind (cr_Proposal req)) then Inl ErrInvalidRequest
      else if bp_StrategyID (cr_Proposal req) = [] \<or> bp_StrategyVersion (cr_Proposal req) = []
        then Inl ErrInvalidRequest
      else if cr_IdempotencyKey req = Some [] then Inl ErrInvalidRequest
      else Inr ())"

definition findReplay :: "env \<Rightarrow> commit_request \<Rightarrow> string \<Rightarrow> receipt option act" where
  "findReplay env req key =
     bindA (query env (\<lambda>db. Inr (q_GetBatchByIdempotencyKey (cr_PoolID req) key db))) (\<lambda>row.
       retA (case row of None \<Rightarrow> None
         | Some b \<Rightarrow> Some \<lparr>rc_BatchID = br_ID b, rc_Seq = br_Seq b, rc_PrevHash = br_PrevHash b,
             rc_Hash = br_Hash b, rc_EntryCount = br_EntryCount b,
             rc_NetAmountCp = br_NetAmountCp b, rc_AuditSeq = 0, rc_EventSeq = 0,
             rc_Replayed = True\<rparr>))"

text \<open>A zone that cannot be read or loaded is UTC, and the failure is swallowed.\<close>

definition UTC :: string where "UTC = ''UTC''"

definition guildZone :: "env \<Rightarrow> string act" where
  "guildZone env w = (case query env (\<lambda>db. Inr (GetGuild_timezone db)) w of
     (Inl _, w') \<Rightarrow> (Inr UTC, w')
   | (Inr None, w') \<Rightarrow> (Inr UTC, w')
   | (Inr (Some tz), w') \<Rightarrow> (Inr (if ev_LoadLocation env tz then tz else UTC), w'))"

definition entry_of :: "ulid \<Rightarrow> ulid \<Rightarrow> i64 \<Rightarrow> entry_proposal \<Rightarrow> ulid \<Rightarrow> entry_row" where
  "entry_of batch pool seq e k =
     \<lparr>er_ID = k, er_BatchID = batch, er_PoolID = pool, er_Seq = seq,
      er_AccountID = ep_AccountID e, er_CharacterID = ep_CharacterID e,
      er_BalanceKind = ep_BalanceKind e, er_AmountCp = ep_AmountCp e, er_ItemID = ep_ItemID e,
      er_ItemAwardID = ep_ItemAwardID e, er_RaidID = ep_RaidID e, er_TickID = ep_TickID e,
      er_MetadataJSON = orEmptyJSON (ep_MetadataJSON e)\<rparr>"

definition materialise ::
    "env \<Rightarrow> commit_request \<Rightarrow> i64 \<Rightarrow> string \<Rightarrow> (batch_row \<times> entry_row list) act" where
  "materialise env req seq zone =
     (let p = cr_Proposal req in
      bindA (newID env) (\<lambda>batchID.
      bindA (liftA (ok_or (ErrExternal ''net amount overflows int64'') (NetAmountCp p))) (\<lambda>net.
      bindA (now env) (\<lambda>at.
      bindA (mapA (\<lambda>e. bindA (newID env) (\<lambda>k. retA (entry_of batchID (cr_PoolID req) seq e k)))
               (bp_Entries p)) (\<lambda>entries.
      retA (\<lparr>br_ID = batchID, br_PoolID = cr_PoolID req, br_Seq = seq, br_Kind = bp_Kind p,
        br_StrategyID = bp_StrategyID p, br_StrategyVersion = bp_StrategyVersion p,
        br_ConfigSnapshotJSON = orEmptyJSON (bp_ConfigSnapshotJSON p),
        br_RngSeed = bp_RngSeed p, br_Source = cr_Source req, br_SourceRef = cr_SourceRef req,
        br_ActorUserID = act_UserID (cr_Actor req), br_ActorTokenID = act_TokenID (cr_Actor req),
        br_ActorIsBeneficiary = 0, br_Reason = bp_Reason p,
        br_ReversesBatchID = bp_ReversesBatchID p, br_EffectiveAt = bp_EffectiveAt p,
        br_RecordedAt = at, br_EffectiveDay = ev_DateOnly env zone (bp_EffectiveAt p),
        br_IdempotencyKey = cr_IdempotencyKey req,
        br_EntryCount = word_of_nat (length (bp_Entries p)), br_NetAmountCp = net,
        br_PrevHash = None, br_Hash = []\<rparr>, entries))))))"

definition readHead :: "env \<Rightarrow> string \<Rightarrow> string option act" where
  "readHead env key = bindA (query env (\<lambda>db. Inr (GetMetaValue key db))) (\<lambda>v.
     case v of None \<Rightarrow> retA None | Some s \<Rightarrow> bindA (liftA (decodeHead s)) (\<lambda>h. retA (Some h)))"

definition writeHead :: "env \<Rightarrow> string \<Rightarrow> string \<Rightarrow> micros \<Rightarrow> unit act" where
  "writeHead env key hash at = exec env (\<lambda>db. Inr (UpsertMetaValue key (encodeHead hash) at db))"

text \<open>
  \<open>upsertSnapshots\<close>: one delta per account and balance kind, in the order they first appear, then
  one additive upsert for each.
\<close>

fun add_delta :: "batch_row \<Rightarrow> entry_row \<Rightarrow> snapshot_row list \<Rightarrow> snapshot_row list option" where
  "add_delta b e [] =
    (case addCentipoints 0 (er_AmountCp e) of None \<Rightarrow> None | Some s \<Rightarrow> Some
       [\<lparr>sn_PoolID = br_PoolID b, sn_AccountID = er_AccountID e, sn_BalanceKind = er_BalanceKind e,
         sn_AmountCp = s, sn_AsOfSeq = br_Seq b, sn_EntryCount = 1, sn_UpdatedAt = br_RecordedAt b\<rparr>])"
| "add_delta b e (d # ds) =
    (if sn_AccountID d = er_AccountID e \<and> sn_BalanceKind d = er_BalanceKind e
     then (case addCentipoints (sn_AmountCp d) (er_AmountCp e) of None \<Rightarrow> None
       | Some s \<Rightarrow> Some (d\<lparr>sn_AmountCp := s, sn_EntryCount := sn_EntryCount d + 1\<rparr> # ds))
     else (case add_delta b e ds of None \<Rightarrow> None | Some ds' \<Rightarrow> Some (d # ds')))"

fun snapshot_deltas :: "batch_row \<Rightarrow> snapshot_row list \<Rightarrow> entry_row list \<Rightarrow> snapshot_row list option" where
  "snapshot_deltas b ds [] = Some ds"
| "snapshot_deltas b ds (e # es) =
    (case add_delta b e ds of None \<Rightarrow> None | Some ds' \<Rightarrow> snapshot_deltas b ds' es)"

definition upsertSnapshots :: "env \<Rightarrow> batch_row \<Rightarrow> entry_row list \<Rightarrow> unit act" where
  "upsertSnapshots env b es =
     bindA (liftA (ok_or (ErrExternal ''snapshot delta overflows int64'') (snapshot_deltas b [] es))) (\<lambda>ds.
       forA (\<lambda>d. exec env (q_UpsertBalanceSnapshot d)) ds)"

definition audit_row_of ::
    "commit_request \<Rightarrow> batch_row \<Rightarrow> i64 \<Rightarrow> ulid \<Rightarrow> string option \<Rightarrow> micros \<Rightarrow> audit_row" where
  "audit_row_of req b seq k prev at =
     \<lparr>au_ID = k, au_Seq = seq, au_At = at, au_ActorKind = act_Kind (cr_Actor req),
      au_ActorLabel = act_Label (cr_Actor req),
      au_Action = orDefault (cr_Action req) DefaultAuditAction,
      au_ResourceKind = auditResourceKind, au_ResourceID = Some (br_ID b),
      au_Outcome = ''success'', au_LedgerBatchID = Some (br_ID b), au_PrevHash = prev,
      au_Hash = []\<rparr>"

definition writeAudit :: "env \<Rightarrow> commit_request \<Rightarrow> batch_row \<Rightarrow> audit_row act" where
  "writeAudit env req b =
     bindA (query env (\<lambda>db. Inr (NextAuditSeq db))) (\<lambda>seq.
     bindA (newID env) (\<lambda>k.
     bindA (readHead env metaAuditHead) (\<lambda>prev.
     bindA (now env) (\<lambda>at.
       let row0 = audit_row_of req b seq k prev at;
         row = row0\<lparr>au_Hash := AuditHash (ev_SHA256 env) prev row0\<rparr>
       in bindA (exec env (InsertAuditLog row)) (\<lambda>_. retA row)))))"

definition writeOutboxEvent :: "env \<Rightarrow> commit_request \<Rightarrow> batch_row \<Rightarrow> i64 act" where
  "writeOutboxEvent env req b =
     bindA (newID env) (\<lambda>k.
     bindA (now env) (\<lambda>at.
       exec_returning env (InsertOutboxEvent k
         (orDefault (cr_Topic req) (eventTopicPrefix @ cr_PoolID req))
         (orDefault (cr_EventType req) DefaultEventType)
         (eventResourceRefPrefix @ br_ID b) at)))"

text \<open>
  \<open>Service.write\<close>, in the order the code runs: \<open>write_rows\<close> is its second half, the writes of
  a batch that is checked, numbered and hashed.
\<close>

definition write_rows :: "env \<Rightarrow> commit_request \<Rightarrow> batch_row \<Rightarrow> entry_row list \<Rightarrow> receipt act" where
  "write_rows env req batch entries =
     bindA (exec env (InsertLedgerBatch batch)) (\<lambda>_.
     bindA (forA (\<lambda>e. exec env (InsertLedgerEntry e)) entries) (\<lambda>_.
     bindA (upsertSnapshots env batch entries) (\<lambda>_.
     bindA (writeAudit env req batch) (\<lambda>auditRow.
     bindA (writeOutboxEvent env req batch) (\<lambda>eventSeq.
     bindA (now env) (\<lambda>at.
     bindA (writeHead env (metaLedgerHeadPrefix @ cr_PoolID req) (br_Hash batch) at) (\<lambda>_.
     bindA (writeHead env metaAuditHead (au_Hash auditRow) at) (\<lambda>_.
       retA \<lparr>rc_BatchID = br_ID batch, rc_Seq = br_Seq batch, rc_PrevHash = br_PrevHash batch,
         rc_Hash = br_Hash batch, rc_EntryCount = br_EntryCount batch,
         rc_NetAmountCp = br_NetAmountCp batch, rc_AuditSeq = au_Seq auditRow,
         rc_EventSeq = eventSeq, rc_Replayed = False\<rparr>))))))))"

definition service_write :: "env \<Rightarrow> commit_request \<Rightarrow> receipt act" where
  "service_write env req =
     bindA (query env (\<lambda>db. Inr (q_NextPoolSeq (cr_PoolID req) db))) (\<lambda>seq.
     bindA (checkInvariants env \<lparr>ic_PoolID = cr_PoolID req, ic_Seq = seq, ic_HeadSeq = seq - 1\<rparr>
              (cr_Proposal req)) (\<lambda>_.
     bindA (guildZone env) (\<lambda>zone.
     bindA (materialise env req seq zone) (\<lambda>(batch, entries).
     bindA (readHead env (metaLedgerHeadPrefix @ cr_PoolID req)) (\<lambda>prev.
       write_rows env req (batch\<lparr>br_PrevHash := prev,
         br_Hash := BatchHash (ev_SHA256 env) prev (batch\<lparr>br_PrevHash := prev\<rparr>) entries\<rparr>) entries)))))"

definition commit_tx :: "env \<Rightarrow> commit_request \<Rightarrow> receipt act" where
  "commit_tx env req =
     bindA (case cr_IdempotencyKey req of None \<Rightarrow> retA None | Some key \<Rightarrow> findReplay env req key)
       (\<lambda>replay. case replay of Some r \<Rightarrow> retA r | None \<Rightarrow> service_write env req)"

definition Commit :: "env \<Rightarrow> commit_request \<Rightarrow> receipt act" where
  "Commit env req = bindA (liftA (validate req)) (\<lambda>_. Tx env (commit_tx env req))"

section \<open>What a successful commit did\<close>

fun upserts :: "snapshot_row list \<Rightarrow> snapshot_row list \<Rightarrow> snapshot_row list option" where
  "upserts [] ss = Some ss"
| "upserts (d # ds) ss = (case upsert_rows d ss of None \<Rightarrow> None | Some ss' \<Rightarrow> upserts ds ss')"

lemma forA_InsertLedgerEntry:
  "forA (\<lambda>e. exec env (InsertLedgerEntry e)) es w = (Inr (), w') \<Longrightarrow>
    wd_db w' = (wd_db w)\<lparr>db_entries := db_entries (wd_db w) @ es\<rparr> \<and>
    (\<forall>e \<in> set es. er_BatchID e \<in> br_ID ` set (db_batches (wd_db w)) \<and>
       er_PoolID e \<in> set (db_pools (wd_db w)) \<and>
       er_AccountID e \<in> ac_ID ` set (db_accounts (wd_db w)) \<and> er_AmountCp e \<noteq> 0) \<and>
    distinct (map er_ID es) \<and> er_ID ` set es \<inter> er_ID ` set (db_entries (wd_db w)) = {}"
proof (induction es arbitrary: w)
  case (Cons e es)
  obtain w1 where w1: "exec env (InsertLedgerEntry e) w = (Inr (), w1)"
    "forA (\<lambda>e. exec env (InsertLedgerEntry e)) es w1 = (Inr (), w')"
    using Cons.prems by (auto simp: act_simps)
  then have legal: "entry_legal e (wd_db w)"
    and db: "wd_db w1 = (wd_db w)\<lparr>db_entries := db_entries (wd_db w) @ [e]\<rparr>"
    by (auto simp: act_simps InsertLedgerEntry_def res_simps split: if_splits)
  show ?case
    using Cons.IH [OF w1(2)] legal by (simp add: db entry_legal_def)
qed (simp add: act_simps)

lemma forA_UpsertBalanceSnapshot:
  "forA (\<lambda>d. exec env (q_UpsertBalanceSnapshot d)) ds w = (Inr (), w') \<Longrightarrow>
    \<exists>ss. upserts ds (db_snapshots (wd_db w)) = Some ss \<and> wd_db w' = (wd_db w)\<lparr>db_snapshots := ss\<rparr>"
proof (induction ds arbitrary: w)
  case (Cons d ds)
  obtain w1 where w1: "exec env (q_UpsertBalanceSnapshot d) w = (Inr (), w1)"
    "forA (\<lambda>d. exec env (q_UpsertBalanceSnapshot d)) ds w1 = (Inr (), w')"
    using Cons.prems by (auto simp: act_simps)
  then obtain ss where ss: "upsert_rows d (db_snapshots (wd_db w)) = Some ss"
    "wd_db w1 = (wd_db w)\<lparr>db_snapshots := ss\<rparr>"
    by (auto simp: act_simps q_UpsertBalanceSnapshot_def res_simps split: if_splits option.splits)
  then show ?case
    using Cons.IH [OF w1(2)] by auto
qed (simp add: act_simps)

text \<open>The head of a chain as \<open>readHead\<close> sees it.\<close>

definition head_in :: "database \<Rightarrow> string \<Rightarrow> string option \<Rightarrow> bool" where
  "head_in db key h \<longleftrightarrow> (case GetMetaValue key db of None \<Rightarrow> h = None
     | Some v \<Rightarrow> (\<exists>r. decodeHead v = Inr r \<and> h = Some r))"

lemma readHead_Inr:
  "readHead env key w = (Inr h, w') \<Longrightarrow> head_in (wd_db w) key h \<and> wd_db w' = wd_db w"
  by (auto simp: readHead_def head_in_def act_simps split: option.splits)

lemma read_only_readHead [read_onlys]: "read_only (readHead env key)"
  unfolding readHead_def by (intro read_onlys)

lemma guildZone_Inr: "guildZone env w = (Inr z, w') \<Longrightarrow> wd_db w' = wd_db w"
  unfolding guildZone_def
  by (auto split: prod.splits sum.splits option.splits
      dest!: read_onlyD [OF read_only_query, rotated])

lemma mapA_newID:
  assumes "mapA (\<lambda>e. bindA (newID env) (\<lambda>k. retA (f e k))) xs w = (Inr ys, w')"
  obtains ks where "length ks = length xs" "ys = map2 f xs ks" "wd_db w' = wd_db w"
proof -
  have "\<exists>ks. length ks = length xs \<and> ys = map2 f xs ks \<and> wd_db w' = wd_db w"
    using assms
  proof (induction xs arbitrary: w ys)
    case (Cons x xs)
    then obtain k ys' where k: "ys = f x k # ys'"
      "mapA (\<lambda>e. bindA (newID env) (\<lambda>k. retA (f e k))) xs (w\<lparr>wd_ids := Suc (wd_ids w)\<rparr>) = (Inr ys', w')"
      by (auto simp: act_simps)
    from Cons.IH [OF k(2)] obtain ks where "length ks = length xs" "ys' = map2 f xs ks"
      "wd_db w' = wd_db w" by auto
    with k(1) show ?case by (intro exI [of _ "k # ks"]) simp
  qed (auto simp: act_simps)
  with that show ?thesis by blast
qed

text \<open>
  The content of a batch: what it takes from the request and from the transaction, apart from its
  link in the chain.
\<close>

definition batch_of :: "commit_request \<Rightarrow> batch_row \<Rightarrow> entry_row list \<Rightarrow> bool" where
  "batch_of req b es \<longleftrightarrow> (let p = cr_Proposal req in
     br_PoolID b = cr_PoolID req \<and> br_Kind b = bp_Kind p \<and> br_StrategyID b = bp_StrategyID p \<and>
     br_StrategyVersion b = bp_StrategyVersion p \<and> br_Source b = cr_Source req \<and>
     br_ConfigSnapshotJSON b = orEmptyJSON (bp_ConfigSnapshotJSON p) \<and>
     br_RngSeed b = bp_RngSeed p \<and> br_Reason b = bp_Reason p \<and>
     br_ReversesBatchID b = bp_ReversesBatchID p \<and> br_IdempotencyKey b = cr_IdempotencyKey req \<and>
     NetAmountCp p = Some (br_NetAmountCp b) \<and>
     br_EntryCount b = word_of_nat (length (bp_Entries p)) \<and>
     (\<exists>ks. length ks = length (bp_Entries p) \<and>
        es = map2 (entry_of (br_ID b) (br_PoolID b) (br_Seq b)) (bp_Entries p) ks))"

lemma materialise_Inr:
  assumes "materialise env req seq zone w = (Inr (b, es), w')"
  shows "batch_of req b es" and "br_Seq b = seq" and "wd_db w' = wd_db w"
proof -
  let ?p = "cr_Proposal req"
  obtain k net at where steps: "NetAmountCp ?p = Some net"
    "mapA (\<lambda>e. bindA (newID env) (\<lambda>x. retA (entry_of k (cr_PoolID req) seq e x))) (bp_Entries ?p)
      (w\<lparr>wd_ids := Suc (wd_ids w), wd_reads := Suc (wd_reads w)\<rparr>) = (Inr es, w')"
    "b = \<lparr>br_ID = k, br_PoolID = cr_PoolID req, br_Seq = seq, br_Kind = bp_Kind ?p,
        br_StrategyID = bp_StrategyID ?p, br_StrategyVersion = bp_StrategyVersion ?p,
        br_ConfigSnapshotJSON = orEmptyJSON (bp_ConfigSnapshotJSON ?p),
        br_RngSeed = bp_RngSeed ?p, br_Source = cr_Source req, br_SourceRef = cr_SourceRef req,
        br_ActorUserID = act_UserID (cr_Actor req), br_ActorTokenID = act_TokenID (cr_Actor req),
        br_ActorIsBeneficiary = 0, br_Reason = bp_Reason ?p,
        br_ReversesBatchID = bp_ReversesBatchID ?p, br_EffectiveAt = bp_EffectiveAt ?p,
        br_RecordedAt = at, br_EffectiveDay = ev_DateOnly env zone (bp_EffectiveAt ?p),
        br_IdempotencyKey = cr_IdempotencyKey req,
        br_EntryCount = word_of_nat (length (bp_Entries ?p)), br_NetAmountCp = net,
        br_PrevHash = None, br_Hash = []\<rparr>"
    using assms by (auto simp: materialise_def Let_def act_simps res_simps)
  obtain ks where "length ks = length (bp_Entries ?p)"
    "es = map2 (entry_of k (cr_PoolID req) seq) (bp_Entries ?p) ks" "wd_db w' = wd_db w"
    by (rule mapA_newID [OF steps(2)]) simp
  with steps show "batch_of req b es" "br_Seq b = seq" "wd_db w' = wd_db w"
    unfolding batch_of_def Let_def by (auto simp del: map2_map_map)
qed

lemma BatchHash_ignores [simp]:
  "BatchHash H prev (b\<lparr>br_PrevHash := x\<rparr>) es = BatchHash H prev b es"
  "BatchHash H prev (b\<lparr>br_Hash := y\<rparr>) es = BatchHash H prev b es"
  by (simp_all add: BatchHash_def batchHashInput_def)

lemma AuditHash_ignores [simp]: "AuditHash H prev (a\<lparr>au_Hash := y\<rparr>) = AuditHash H prev a"
  by (simp add: AuditHash_def auditHashInput_def)

lemma batch_of_chain [simp]:
  "batch_of req (b\<lparr>br_PrevHash := x\<rparr>) es = batch_of req b es"
  "batch_of req (b\<lparr>br_Hash := y\<rparr>) es = batch_of req b es"
  by (simp_all add: batch_of_def)

text \<open>
  \<open>posts H req db b es a db'\<close>: the database \<open>db'\<close> is \<open>db\<close> with the batch \<open>b\<close>, its entries
  \<open>es\<close> and the audit row \<open>a\<close> appended, both chains and the cached balances advanced, and nothing
  else changed but the outbox.
\<close>

definition audit_of :: "(string \<Rightarrow> string) \<Rightarrow> database \<Rightarrow> batch_row \<Rightarrow> audit_row \<Rightarrow> bool" where
  "audit_of H db b a \<longleftrightarrow> au_Seq a = NextAuditSeq db \<and> head_in db metaAuditHead (au_PrevHash a) \<and>
     au_Hash a = AuditHash H (au_PrevHash a) a \<and> au_LedgerBatchID a = Some (br_ID b) \<and>
     au_ID a \<notin> au_ID ` set (db_audit db) \<and> au_Seq a \<notin> au_Seq ` set (db_audit db)"

definition posts :: "(string \<Rightarrow> string) \<Rightarrow> commit_request \<Rightarrow> database \<Rightarrow> batch_row \<Rightarrow> entry_row list \<Rightarrow>
    audit_row \<Rightarrow> database \<Rightarrow> bool" where
  "posts H req db b es a db' \<longleftrightarrow>
     batch_of req b es \<and> br_Seq b = q_NextPoolSeq (br_PoolID b) db \<and> batch_legal b db \<and>
     head_in db (MetaLedgerHeadKey (br_PoolID b)) (br_PrevHash b) \<and>
     br_Hash b = BatchHash H (br_PrevHash b) b es \<and>
     distinct (map er_ID es) \<and> er_ID ` set es \<inter> er_ID ` set (db_entries db) = {} \<and>
     er_AccountID ` set es \<subseteq> ac_ID ` set (db_accounts db) \<and> audit_of H db b a \<and>
     db_pools db' = db_pools db \<and> db_accounts db' = db_accounts db \<and>
     db_batches db' = db_batches db @ [b] \<and> db_entries db' = db_entries db @ es \<and>
     (\<exists>ds. snapshot_deltas b [] es = Some ds \<and> upserts ds (db_snapshots db) = Some (db_snapshots db')) \<and>
     db_audit db' = db_audit db @ [a] \<and>
     (\<exists>at. db_meta db' = upsert_meta \<lparr>mt_Key = metaAuditHead, mt_Value = encodeHead (au_Hash a), mt_UpdatedAt = at\<rparr>
       (upsert_meta \<lparr>mt_Key = MetaLedgerHeadKey (br_PoolID b), mt_Value = encodeHead (br_Hash b), mt_UpdatedAt = at\<rparr>
         (db_meta db))) \<and>
     (\<exists>ev. db_outbox db' = db_outbox db @ [ev] \<and> ox_EventSeq ev = db_event_seq db + 1 \<and>
        db_event_seq db' = db_event_seq db + 1) \<and>
     other_tables db' = other_tables db"

lemma writeHead_Inr:
  "writeHead env key h at w = (Inr u, w') \<Longrightarrow> wd_db w' = UpsertMetaValue key (encodeHead h) at (wd_db w)"
  by (auto simp: writeHead_def act_simps)

lemma writeAudit_Inr:
  assumes "writeAudit env req b w = (Inr a, w')"
  shows "audit_of (ev_SHA256 env) (wd_db w) b a"
    and "wd_db w' = (wd_db w)\<lparr>db_audit := db_audit (wd_db w) @ [a]\<rparr>"
proof -
  obtain s w1 k w2 prev w3 at w4 u where q: "query env (\<lambda>db. Inr (NextAuditSeq db)) w = (Inr s, w1)"
      "newID env w1 = (Inr k, w2)" "readHead env metaAuditHead w2 = (Inr prev, w3)"
      "now env w3 = (Inr at, w4)" "exec env (InsertAuditLog a) w4 = (Inr u, w')"
    and a: "a = audit_row_of req b s k prev at\<lparr>au_Hash := AuditHash (ev_SHA256 env) prev (audit_row_of req b s k prev at)\<rparr>"
    using assms unfolding writeAudit_def Let_def by (elim bindA_E) (simp add: retA_eq)
  have s: "head_in (wd_db w) metaAuditHead prev" "wd_db w4 = wd_db w" "s = NextAuditSeq (wd_db w)"
    "exec env (InsertAuditLog a) w4 = (Inr (), w')"
    using q readHead_Inr [OF q(3)] by (auto simp: query_eq newID_eq now_eq)
  have fields: "au_Seq a = NextAuditSeq (wd_db w) \<and> au_PrevHash a = prev \<and>
     au_Hash a = AuditHash (ev_SHA256 env) prev a \<and> au_LedgerBatchID a = Some (br_ID b)"
    by (simp add: a s(3)) (simp add: audit_row_of_def)
  have "audit_legal a (wd_db w)"
    and db: "wd_db w' = (wd_db w)\<lparr>db_audit := db_audit (wd_db w) @ [a]\<rparr>"
    using s(2,4) by (auto simp: act_simps InsertAuditLog_def res_simps split: if_splits)
  then show "audit_of (ev_SHA256 env) (wd_db w) b a"
    using s fields by (simp add: audit_of_def audit_legal_def)
  show "wd_db w' = (wd_db w)\<lparr>db_audit := db_audit (wd_db w) @ [a]\<rparr>" by (rule db)
qed

lemma writeOutboxEvent_Inr:
  "writeOutboxEvent env req b w = (Inr n, w') \<Longrightarrow>
    \<exists>ev. ox_EventSeq ev = db_event_seq (wd_db w) + 1 \<and> n = db_event_seq (wd_db w) + 1 \<and>
      wd_db w' = (wd_db w)\<lparr>db_event_seq := n, db_outbox := db_outbox (wd_db w) @ [ev]\<rparr>"
  by (simp add: writeOutboxEvent_def act_simps InsertOutboxEvent_def Let_def res_simps)
    (elim exE conjE, intro exI conjI, simp_all)

lemma upsertSnapshots_Inr:
  "upsertSnapshots env b es w = (Inr u, w') \<Longrightarrow>
    \<exists>ds ss. snapshot_deltas b [] es = Some ds \<and> upserts ds (db_snapshots (wd_db w)) = Some ss \<and>
      wd_db w' = (wd_db w)\<lparr>db_snapshots := ss\<rparr>"
  by (auto simp: upsertSnapshots_def act_simps res_simps dest!: forA_UpsertBalanceSnapshot)

lemma head_in_cong: "db_meta db' = db_meta db \<Longrightarrow> head_in db' key h = head_in db key h"
  by (simp add: head_in_def GetMetaValue_def)

lemma write_rows_Inr:
  assumes "write_rows env req b es w = (Inr rc, w')" "br_PoolID b = cr_PoolID req"
    "batch_of req b es" "br_Seq b = q_NextPoolSeq (br_PoolID b) (wd_db w)"
    "head_in (wd_db w) (MetaLedgerHeadKey (br_PoolID b)) (br_PrevHash b)"
    "br_Hash b = BatchHash (ev_SHA256 env) (br_PrevHash b) b es"
  shows "\<exists>a. posts (ev_SHA256 env) req (wd_db w) b es a (wd_db w')"
    and "rc_BatchID rc = br_ID b \<and> rc_Seq rc = br_Seq b \<and> rc_Hash rc = br_Hash b \<and> \<not> rc_Replayed rc"
proof -
  obtain w6 w7 w8 a w9 n w10 at w11 w12 where
    ib: "exec env (InsertLedgerBatch b) w = (Inr (), w6)" and
    ie: "forA (\<lambda>e. exec env (InsertLedgerEntry e)) es w6 = (Inr (), w7)" and
    us: "upsertSnapshots env b es w7 = (Inr (), w8)" and
    wa: "writeAudit env req b w8 = (Inr a, w9)" and
    wo: "writeOutboxEvent env req b w9 = (Inr n, w10)" and
    nw: "now env w10 = (Inr at, w11)" and
    h1: "writeHead env (metaLedgerHeadPrefix @ cr_PoolID req) (br_Hash b) at w11 = (Inr (), w12)" and
    h2: "writeHead env metaAuditHead (au_Hash a) at w12 = (Inr (), w')" and
    rc: "rc_BatchID rc = br_ID b \<and> rc_Seq rc = br_Seq b \<and> rc_Hash rc = br_Hash b \<and> \<not> rc_Replayed rc"
    using assms(1) unfolding write_rows_def bindA_eq retA_eq by (elim exE conjE) auto
  show "rc_BatchID rc = br_ID b \<and> rc_Seq rc = br_Seq b \<and> rc_Hash rc = br_Hash b \<and> \<not> rc_Replayed rc"
    by (rule rc)
  have legal: "batch_legal b (wd_db w)"
    and d6: "wd_db w6 = (wd_db w)\<lparr>db_batches := db_batches (wd_db w) @ [b]\<rparr>"
    using ib by (auto simp: exec_eq InsertLedgerBatch_def res_simps split: if_splits)
  note d7 = forA_InsertLedgerEntry [OF ie]
  obtain ds ss where d8: "snapshot_deltas b [] es = Some ds"
    "upserts ds (db_snapshots (wd_db w7)) = Some ss" "wd_db w8 = (wd_db w7)\<lparr>db_snapshots := ss\<rparr>"
    using upsertSnapshots_Inr [OF us] by blast
  note d9 = writeAudit_Inr [OF wa]
  obtain ev where d10: "ox_EventSeq ev = db_event_seq (wd_db w9) + 1"
    "wd_db w10 = (wd_db w9)\<lparr>db_event_seq := db_event_seq (wd_db w9) + 1, db_outbox := db_outbox (wd_db w9) @ [ev]\<rparr>"
    using writeOutboxEvent_Inr [OF wo] by auto
  have aud: "audit_of (ev_SHA256 env) (wd_db w) b a"
    using d9(1) by (auto simp: audit_of_def d8(3) d7 d6 NextAuditSeq_def head_in_def GetMetaValue_def)
  have d11: "wd_db w11 = wd_db w10" by (rule read_onlyD [OF read_only_now nw])
  have "posts (ev_SHA256 env) req (wd_db w) b es a (wd_db w')"
    unfolding posts_def
    using assms(2-6) legal aud d7 d8(1,2) d10(1)
    by (simp add: image_subset_iff writeHead_Inr [OF h2] writeHead_Inr [OF h1] d11 d10(2) d9(2) d8(3) d6
        UpsertMetaValue_def MetaLedgerHeadKey_def) blast
  then show "\<exists>a. posts (ev_SHA256 env) req (wd_db w) b es a (wd_db w')" by blast
qed

lemma service_write_Inr:
  assumes "service_write env req w = (Inr rc, w')"
  obtains b es a w1 w2 where "posts (ev_SHA256 env) req (wd_db w) b es a (wd_db w')"
    "rc_BatchID rc = br_ID b" "rc_Seq rc = br_Seq b" "rc_Hash rc = br_Hash b" "\<not> rc_Replayed rc"
    "br_PoolID b = cr_PoolID req" "wd_db w1 = wd_db w"
    "checkInvariants env \<lparr>ic_PoolID = cr_PoolID req, ic_Seq = br_Seq b, ic_HeadSeq = br_Seq b - 1\<rparr>
       (cr_Proposal req) w1 = (Inr (), w2)"
proof -
  let ?pool = "cr_PoolID req"
  let ?seq = "q_NextPoolSeq ?pool (wd_db w)"
  obtain w1 w2 zone w3 b0 es w4 prev w5 where
    w1: "w1 = w\<lparr>wd_stmts := Suc (wd_stmts w)\<rparr>" and
    ck: "checkInvariants env \<lparr>ic_PoolID = ?pool, ic_Seq = ?seq, ic_HeadSeq = ?seq - 1\<rparr> (cr_Proposal req) w1 = (Inr (), w2)" and
    gz: "guildZone env w2 = (Inr zone, w3)" and
    mt: "materialise env req ?seq zone w3 = (Inr (b0, es), w4)" and
    rh: "readHead env (metaLedgerHeadPrefix @ ?pool) w4 = (Inr prev, w5)" and
    wr: "write_rows env req (b0\<lparr>br_PrevHash := prev,
         br_Hash := BatchHash (ev_SHA256 env) prev (b0\<lparr>br_PrevHash := prev\<rparr>) es\<rparr>) es w5 = (Inr rc, w')"
    using assms unfolding service_write_def
    by (elim bindA_pair_E bindA_E) (simp add: query_eq)
  let ?b = "b0\<lparr>br_PrevHash := prev, br_Hash := BatchHash (ev_SHA256 env) prev (b0\<lparr>br_PrevHash := prev\<rparr>) es\<rparr>"
  have db5: "wd_db w5 = wd_db w"
    using w1 read_onlyD [OF read_only_checkInvariants ck] guildZone_Inr [OF gz]
      materialise_Inr(3) [OF mt] readHead_Inr [OF rh] by simp
  have h: "head_in (wd_db w) (MetaLedgerHeadKey ?pool) prev"
    using readHead_Inr [OF rh] db5 by (simp add: MetaLedgerHeadKey_def)
  have b: "batch_of req ?b es" "br_Seq ?b = ?seq" "br_PoolID ?b = ?pool"
    using materialise_Inr(1,2) [OF mt] by (simp_all add: batch_of_def Let_def) auto
  have p: "\<exists>a. posts (ev_SHA256 env) req (wd_db w) ?b es a (wd_db w')"
    and rc: "rc_BatchID rc = br_ID ?b \<and> rc_Seq rc = br_Seq ?b \<and> rc_Hash rc = br_Hash ?b \<and> \<not> rc_Replayed rc"
    using write_rows_Inr [OF wr b(3) b(1)] b h by (simp_all add: db5)
  from p obtain a where a: "posts (ev_SHA256 env) req (wd_db w) ?b es a (wd_db w')" by blast
  show ?thesis
    by (rule that [OF a, of w1 w2]) (use rc ck w1 b in simp_all)
qed

end
