(* ===== verification/LedgerState.thy ===== *)
theory LedgerState
  imports Commit
begin

text \<open>
  What is true of every ledger database: its invariant, and that a commit keeps it. The batches of
  a pool are numbered 1, 2, 3 without a gap and linked by their hashes, the head in the meta table
  is the last hash, a batch states the count and the net of its entries, and the cached balances
  are exactly the fold of the log. The audit log is a second chain of the same shape, so the chain
  is one definition with two uses.
\<close>

section \<open>Chains\<close>

fun linked :: "('r \<Rightarrow> string option) \<Rightarrow> ('r \<Rightarrow> string) \<Rightarrow> ('r \<Rightarrow> i64) \<Rightarrow> ('r \<Rightarrow> string) \<Rightarrow>
    string option \<Rightarrow> int \<Rightarrow> 'r list \<Rightarrow> bool" where
  "linked prev hash seq digest p n [] = True"
| "linked prev hash seq digest p n (r # rs) = (prev r = p \<and> sint (seq r) = n \<and> hash r = digest r \<and>
     linked prev hash seq digest (Some (hash r)) (n + 1) rs)"

definition chain_head :: "('r \<Rightarrow> string) \<Rightarrow> string option \<Rightarrow> 'r list \<Rightarrow> string option" where
  "chain_head hash p rows = (if rows = [] then p else Some (hash (last rows)))"

lemma linked_snoc:
  "linked prev hash seq digest p n (rs @ [r]) \<longleftrightarrow> linked prev hash seq digest p n rs \<and>
     prev r = chain_head hash p rs \<and> sint (seq r) = n + int (length rs) \<and> hash r = digest r"
  by (induction rs arbitrary: p n) (auto simp: chain_head_def)

lemma linked_cong:
  "(\<And>r. r \<in> set rs \<Longrightarrow> digest r = digest' r) \<Longrightarrow>
    linked prev hash seq digest p n rs = linked prev hash seq digest' p n rs"
  by (induction rs arbitrary: p n) auto

lemma linked_seqs:
  "linked prev hash seq digest p n rs \<Longrightarrow>
    (\<lambda>r. sint (seq r)) ` set rs = {n ..< n + int (length rs)}"
proof (induction rs arbitrary: p n)
  case (Cons r rs)
  then have "(\<lambda>r. sint (seq r)) ` set rs = {n + 1 ..< n + 1 + int (length rs)}" "sint (seq r) = n"
    by auto
  then show ?case by auto
qed simp

lemma linked_sorted:
  "linked prev hash seq digest p n rs \<Longrightarrow> sorted (map (\<lambda>r. sint (seq r)) rs) \<and>
     distinct (map (\<lambda>r. sint (seq r)) rs)"
proof (induction rs arbitrary: p n)
  case (Cons r rs)
  then have "linked prev hash seq digest (Some (hash r)) (n + 1) rs" "sint (seq r) = n" by auto
  with linked_seqs [OF this(1)] Cons.IH [OF this(1)] show ?case
    by (auto simp: image_iff)
qed simp

lemma linked_max:
  assumes "linked prev hash seq digest p 1 rs"
  shows "sint (sql_max (map seq rs)) = int (length rs)"
proof (cases "rs = []")
  case True
  then show ?thesis by (simp add: sql_max_def)
next
  case False
  have seqs: "sint ` seq ` set rs = {1 ..< 1 + int (length rs)}"
    using linked_seqs [OF assms] by (simp add: image_image)
  have "Max {1 ..< 1 + int (length rs)} = int (length rs)"
    using False by (intro Max_eqI) (auto simp: Suc_le_eq)
  then have m: "sql_max (map seq rs) = word_of_int (int (length rs))"
    using False by (simp add: sql_max_def seqs image_image [symmetric])
  have "int (length rs) \<in> {1 ..< 1 + int (length rs)}"
    using False by (simp add: Suc_le_eq)
  then obtain q where q: "q \<in> set rs" "sint (seq q) = int (length rs)"
    unfolding seqs [symmetric] by auto
  show ?thesis
    unfolding m q(2) [symmetric] by simp
qed

text \<open>The next number of a chain, when it is not one the chain has.\<close>

lemma linked_next:
  assumes l: "linked prev hash seq digest p 1 rs" and s: "seq r = sql_next (map seq rs)"
    and fresh: "seq r \<notin> seq ` set rs"
  shows "sint (seq r) = 1 + int (length rs)"
proof -
  let ?m = "sql_max (map seq rs)"
  have m: "sint ?m = int (length rs)" by (rule linked_max [OF l])
  have ne: "?m \<noteq> max_int64"
  proof
    assume top: "?m = max_int64"
    then have "rs \<noteq> []" using m by (auto simp: sint_max_int64)
    then have "int (length rs) \<in> {1 ..< 1 + int (length rs)}" by (simp add: Suc_le_eq)
    then obtain q where q: "q \<in> set rs" "sint (seq q) = int (length rs)"
      using linked_seqs [OF l] by (metis (no_types, lifting) imageE)
    then have "seq q = max_int64" using m top by (metis sint_inject64)
    then show False using s fresh imageI [OF q(1), of seq] top by (auto simp: sql_next_def)
  qed
  then have "sint ?m < 9223372036854775807"
    using sint_bounds [of ?m] sint_max_int64 sint_inject64 [of ?m max_int64] by linarith
  then have "sint (?m + 1) = sint ?m + 1"
    using m by (subst sint_add) (simp_all add: in64_def)
  then show ?thesis
    using s ne m by (simp add: sql_next_def)
qed

section \<open>Balances\<close>

text \<open>
  \<open>folded\<close> is the balance of a key as the log has it, \<open>cached\<close> as the cache has it: the amount,
  the number of entries and the last seq.
\<close>

type_synonym balance = "int \<times> i64 \<times> int"

definition entry_key :: "entry_row \<Rightarrow> ulid \<times> ulid \<times> string" where
  "entry_key e = (er_PoolID e, er_AccountID e, er_BalanceKind e)"

definition of_key :: "ulid \<times> ulid \<times> string \<Rightarrow> entry_row list \<Rightarrow> entry_row list" where
  "of_key k es = filter (\<lambda>e. entry_key e = k) es"

definition amount_sum :: "entry_row list \<Rightarrow> int" where
  "amount_sum es = sum_list (map (\<lambda>e. sint (er_AmountCp e)) es)"

definition last_seq :: "entry_row list \<Rightarrow> int" where
  "last_seq es = Max ((\<lambda>e. sint (er_Seq e)) ` set es)"

definition folded :: "entry_row list \<Rightarrow> ulid \<times> ulid \<times> string \<Rightarrow> balance option" where
  "folded es k = (if of_key k es = [] then None
     else Some (amount_sum (of_key k es), word_of_nat (length (of_key k es)), last_seq (of_key k es)))"

definition snapshot_at :: "snapshot_row list \<Rightarrow> ulid \<times> ulid \<times> string \<Rightarrow> snapshot_row option" where
  "snapshot_at ss k = map_of (map (\<lambda>s. (snapshot_key s, s)) ss) k"

definition balance_of_row :: "snapshot_row \<Rightarrow> balance" where
  "balance_of_row s = (sint (sn_AmountCp s), sn_EntryCount s, sint (sn_AsOfSeq s))"

definition cached :: "snapshot_row list \<Rightarrow> ulid \<times> ulid \<times> string \<Rightarrow> balance option" where
  "cached ss k = map_option balance_of_row (snapshot_at ss k)"

fun later :: "balance option \<Rightarrow> balance option \<Rightarrow> balance option" where
  "later None y = y"
| "later x None = x"
| "later (Some (a, n, s)) (Some (a', n', s')) = Some (a + a', n + n', s')"

lemma later_None [simp]: "later x None = x"
  by (cases x) auto

lemma of_key_append [simp]: "of_key k (xs @ ys) = of_key k xs @ of_key k ys"
  by (simp add: of_key_def)

lemma amount_sum_append [simp]: "amount_sum (xs @ ys) = amount_sum xs + amount_sum ys"
  by (simp add: amount_sum_def)

definition abs_sum :: "entry_row list \<Rightarrow> int" where
  "abs_sum es = sum_list (map (\<lambda>e. \<bar>sint (er_AmountCp e)\<bar>) es)"

lemma abs_sum_Cons [simp]: "abs_sum (e # es) = \<bar>sint (er_AmountCp e)\<bar> + abs_sum es"
  by (simp add: abs_sum_def)

lemma abs_sum_nonneg [simp]: "0 \<le> abs_sum es"
  unfolding abs_sum_def by (rule sum_list_nonneg) auto

lemma abs_sum_filter: "abs_sum (filter P es) \<le> abs_sum es"
  by (induction es) (auto simp: abs_sum_def)

lemma amount_sum_abs: "\<bar>amount_sum (filter P es)\<bar> \<le> abs_sum es"
  by (induction es) (auto simp: amount_sum_def abs_sum_def)

lemma set_of_key: "set (of_key k es) \<subseteq> set es"
  by (auto simp: of_key_def)

lemma last_seq_const:
  "es \<noteq> [] \<Longrightarrow> (\<And>e. e \<in> set es \<Longrightarrow> sint (er_Seq e) = n) \<Longrightarrow> last_seq es = n"
  unfolding last_seq_def by (intro Max_eqI) (auto simp: image_iff intro: list.set_sel(1))

lemma last_seq_later:
  assumes "ys \<noteq> []" "\<And>x. x \<in> set xs \<Longrightarrow> sint (er_Seq x) < n" "\<And>y. y \<in> set ys \<Longrightarrow> sint (er_Seq y) = n"
  shows "last_seq (xs @ ys) = n"
  unfolding last_seq_def
proof (intro Max_eqI)
  fix m assume "m \<in> (\<lambda>e. sint (er_Seq e)) ` set (xs @ ys)"
  then show "m \<le> n" using assms(2,3) by fastforce
next
  have "hd ys \<in> set ys" using assms(1) by simp
  then show "n \<in> (\<lambda>e. sint (er_Seq e)) ` set (xs @ ys)"
    using assms(3) [of "hd ys"] by (force simp: image_iff)
qed simp

text \<open>Appending a batch whose seq is above every one before.\<close>

lemma folded_append:
  assumes "\<And>x. x \<in> set xs \<Longrightarrow> fst (entry_key x) = fst k \<Longrightarrow> sint (er_Seq x) < n"
    and "\<And>y. y \<in> set ys \<Longrightarrow> sint (er_Seq y) = n"
  shows "folded (xs @ ys) k = later (folded xs k) (folded ys k)"
proof (cases "of_key k ys = []")
  case False
  have lt: "x \<in> set (of_key k xs) \<Longrightarrow> sint (er_Seq x) < n" for x
    using assms(1) [of x] by (auto simp: of_key_def)
  have eq: "y \<in> set (of_key k ys) \<Longrightarrow> sint (er_Seq y) = n" for y
    using assms(2) [of y] by (auto simp: of_key_def)
  have l: "last_seq (of_key k ys) = n" "last_seq (of_key k xs @ of_key k ys) = n"
    using last_seq_const [OF False eq] last_seq_later [OF False lt eq] by auto
  show ?thesis
    using False by (auto simp: folded_def l amount_sum_def)
qed (simp add: folded_def)

section \<open>The cache after a batch\<close>

lemma snapshot_at_simps [simp]:
  "snapshot_at [] k = None"
  "snapshot_at (s # ss) k = (if snapshot_key s = k then Some s else snapshot_at ss k)"
  by (simp_all add: snapshot_at_def)

lemma snapshot_at_None: "snapshot_at ss k = None \<longleftrightarrow> k \<notin> snapshot_key ` set ss"
  by (induction ss) auto

lemma snapshot_at_mem: "distinct (map snapshot_key ss) \<Longrightarrow> s \<in> set ss \<Longrightarrow> snapshot_at ss (snapshot_key s) = Some s"
  by (induction ss) auto

lemma snapshot_at_Some: "snapshot_at ss k = Some s \<Longrightarrow> s \<in> set ss \<and> snapshot_key s = k"
  by (induction ss) (auto split: if_splits)

lemma cached_simps [simp]:
  "cached [] k = None"
  "cached (s # ss) k = (if snapshot_key s = k then Some (balance_of_row s) else cached ss k)"
  by (simp_all add: cached_def)

lemma cached_None: "cached ss k = None \<longleftrightarrow> k \<notin> snapshot_key ` set ss"
  by (simp add: cached_def snapshot_at_None)

text \<open>One delta of a batch takes one more entry.\<close>

definition entry_balance :: "batch_row \<Rightarrow> entry_row \<Rightarrow> balance" where
  "entry_balance b e = (sint (er_AmountCp e), 1, sint (br_Seq b))"

definition delta_rows :: "batch_row \<Rightarrow> snapshot_row list \<Rightarrow> bool" where
  "delta_rows b ds \<longleftrightarrow> distinct (map snapshot_key ds) \<and>
     (\<forall>d \<in> set ds. sn_PoolID d = br_PoolID b \<and> sn_AsOfSeq d = br_Seq b)"

lemma add_delta_step:
  "add_delta b e ds = Some ds' \<Longrightarrow> delta_rows b ds \<Longrightarrow> er_PoolID e = br_PoolID b \<Longrightarrow>
    delta_rows b ds' \<and> snapshot_key ` set ds' = insert (entry_key e) (snapshot_key ` set ds) \<and>
    cached ds' k = (if k = entry_key e then later (cached ds k) (Some (entry_balance b e)) else cached ds k)"
proof (induction b e ds arbitrary: ds' rule: add_delta.induct)
  case (1 b e)
  then show ?case
    by (auto simp: delta_rows_def snapshot_key_def entry_key_def balance_of_row_def entry_balance_def
        split: option.splits dest: addCentipoints_sint)
next
  case (2 b e d ds)
  have key: "snapshot_key d = entry_key e \<longleftrightarrow>
      sn_AccountID d = er_AccountID e \<and> sn_BalanceKind d = er_BalanceKind e"
    using 2(3,4) by (auto simp: delta_rows_def snapshot_key_def entry_key_def)
  show ?case
  proof (cases "snapshot_key d = entry_key e")
    case True
    then obtain s where "addCentipoints (sn_AmountCp d) (er_AmountCp e) = Some s"
      and ds': "ds' = d\<lparr>sn_AmountCp := s, sn_EntryCount := sn_EntryCount d + 1\<rparr> # ds"
      using 2(2) key by (auto split: option.splits)
    then have s: "sint s = sint (sn_AmountCp d) + sint (er_AmountCp e)"
      by (blast dest: addCentipoints_sint)
    have "snapshot_key (d\<lparr>sn_AmountCp := s, sn_EntryCount := sn_EntryCount d + 1\<rparr>) = snapshot_key d"
      by (simp add: snapshot_key_def)
    then show ?thesis
      using 2(3) True by (auto simp: ds' delta_rows_def balance_of_row_def entry_balance_def s)
  next
    case False
    then obtain ds1 where ds1: "add_delta b e ds = Some ds1" "ds' = d # ds1"
      using 2(2) key by (auto split: option.splits)
    have nk: "\<not> (sn_AccountID d = er_AccountID e \<and> sn_BalanceKind d = er_BalanceKind e)"
      using False key by simp
    have "delta_rows b ds" using 2(3) by (simp add: delta_rows_def)
    from "2.IH" [OF nk ds1(1) this 2(4)] show ?thesis
      using 2(3) False by (auto simp: ds1(2) delta_rows_def)
  qed
qed

lemma folded_Cons:
  assumes "sint (er_Seq e) = n" "\<And>x. x \<in> set es \<Longrightarrow> sint (er_Seq x) = n"
  shows "folded (e # es) k =
    (if k = entry_key e then later (Some (sint (er_AmountCp e), 1, n)) (folded es k) else folded es k)"
proof (cases "of_key k es = []")
  case True
  have "of_key k (e # es) = (if k = entry_key e then [e] else [])"
    using True by (auto simp: of_key_def)
  then show ?thesis
    using assms(1) True by (cases "k = entry_key e") (simp_all add: folded_def amount_sum_def last_seq_def)
next
  case False
  have "last_seq (of_key k es) = n" "last_seq (e # of_key k es) = n"
    using False assms set_of_key [of k es] by (auto intro!: last_seq_const)
  then show ?thesis
    using False by (auto simp: folded_def amount_sum_def of_key_def)
qed

lemma later_assoc: "later (later x y) z = later x (later y z)"
  by (cases x; cases y; cases z) auto

lemma snapshot_deltas_step:
  "snapshot_deltas b ds es = Some ds' \<Longrightarrow> delta_rows b ds \<Longrightarrow>
    (\<And>e. e \<in> set es \<Longrightarrow> er_PoolID e = br_PoolID b \<and> er_Seq e = br_Seq b) \<Longrightarrow>
    delta_rows b ds' \<and> cached ds' k = later (cached ds k) (folded es k)"
proof (induction es arbitrary: ds)
  case Nil
  then show ?case by (simp add: folded_def of_key_def)
next
  case (Cons e es)
  then obtain ds1 where ds1: "add_delta b e ds = Some ds1" "snapshot_deltas b ds1 es = Some ds'"
    by (auto split: option.splits)
  have e: "er_PoolID e = br_PoolID b" "er_Seq e = br_Seq b"
    "\<And>x. x \<in> set es \<Longrightarrow> er_PoolID x = br_PoolID b \<and> er_Seq x = br_Seq b"
    using Cons.prems(3) by auto
  note step = add_delta_step [OF ds1(1) Cons.prems(2) e(1), of k]
  have "delta_rows b ds' \<and> cached ds' k = later (cached ds1 k) (folded es k)"
    using Cons.IH [OF ds1(2)] step e(3) by blast
  moreover have "folded (e # es) k =
      (if k = entry_key e then later (Some (entry_balance b e)) (folded es k) else folded es k)"
    using folded_Cons [of e "sint (br_Seq b)" es k] e by (simp add: entry_balance_def)
  ultimately show ?case
    using step by (simp add: later_assoc)
qed

lemma snapshot_deltas_folded:
  assumes "snapshot_deltas b [] es = Some ds"
    and "\<And>e. e \<in> set es \<Longrightarrow> er_PoolID e = br_PoolID b \<and> er_Seq e = br_Seq b"
  shows "distinct (map snapshot_key ds)" and "cached ds k = folded es k"
  using snapshot_deltas_step [OF assms(1) _ assms(2)] by (auto simp: delta_rows_def)

text \<open>An upsert adds its delta to the row of its key and leaves the others.\<close>

lemma add_snapshot_Some:
  "add_snapshot d s = Some s' \<Longrightarrow> snapshot_key s' = snapshot_key s \<and>
    Some (balance_of_row s') = later (Some (balance_of_row s)) (Some (balance_of_row d))"
  by (auto simp: add_snapshot_def snapshot_key_def balance_of_row_def addCentipoints_eq_Some
      sint_add split: option.splits)

lemma upsert_rows_step:
  "upsert_rows d ss = Some ss' \<Longrightarrow>
    snapshot_key ` set ss' = insert (snapshot_key d) (snapshot_key ` set ss) \<and>
    (distinct (map snapshot_key ss) \<longrightarrow> distinct (map snapshot_key ss')) \<and>
    cached ss' k = (if k = snapshot_key d then later (cached ss k) (Some (balance_of_row d)) else cached ss k)"
proof (induction d ss arbitrary: ss' rule: upsert_rows.induct)
  case (1 d)
  then show ?case by auto
next
  case (2 d s ss)
  show ?case
  proof (cases "snapshot_key s = snapshot_key d")
    case True
    then obtain s' where s': "add_snapshot d s = Some s'" "ss' = s' # ss"
      using "2.prems" by (auto split: option.splits)
    note row = add_snapshot_Some [OF s'(1)]
    show ?thesis
      using True row by (simp add: s'(2))
  next
    case False
    then obtain ss1 where "upsert_rows d ss = Some ss1" "ss' = s # ss1"
      using "2.prems" by (auto split: option.splits)
    with "2.IH" [OF False] False show ?thesis by auto
  qed
qed

lemma upserts_cached:
  "upserts ds ss = Some ss' \<Longrightarrow> distinct (map snapshot_key ds) \<Longrightarrow> distinct (map snapshot_key ss) \<Longrightarrow>
    distinct (map snapshot_key ss') \<and> cached ss' k = later (cached ss k) (cached ds k)"
proof (induction ds arbitrary: ss)
  case (Cons d ds)
  then obtain ss1 where ss1: "upsert_rows d ss = Some ss1" "upserts ds ss1 = Some ss'"
    by (auto split: option.splits)
  note step = upsert_rows_step [OF ss1(1), of k]
  have "distinct (map snapshot_key ss') \<and> cached ss' k = later (cached ss1 k) (cached ds k)"
    using Cons.IH [OF ss1(2)] Cons.prems step by simp
  moreover have "k = snapshot_key d \<Longrightarrow> cached ds k = None"
    using Cons.prems(2) by (auto simp: cached_None)
  ultimately show ?case using step by auto
qed simp

section \<open>The invariant\<close>

definition pool_batches :: "ulid \<Rightarrow> database \<Rightarrow> batch_row list" where
  "pool_batches pool db = filter (\<lambda>b. br_PoolID b = pool) (db_batches db)"

definition batch_entries :: "database \<Rightarrow> batch_row \<Rightarrow> entry_row list" where
  "batch_entries db b = filter (\<lambda>e. er_BatchID e = br_ID b) (db_entries db)"

definition batch_digest :: "(string \<Rightarrow> string) \<Rightarrow> database \<Rightarrow> batch_row \<Rightarrow> string" where
  "batch_digest H db b = BatchHash H (br_PrevHash b) b (batch_entries db b)"

definition chain_ok :: "(string \<Rightarrow> string) \<Rightarrow> database \<Rightarrow> ulid \<Rightarrow> bool" where
  "chain_ok H db pool \<longleftrightarrow>
     linked br_PrevHash br_Hash br_Seq (batch_digest H db) None 1 (pool_batches pool db) \<and>
     GetMetaValue (MetaLedgerHeadKey pool) db =
       map_option encodeHead (chain_head br_Hash None (pool_batches pool db))"

definition batch_ok :: "database \<Rightarrow> batch_row \<Rightarrow> bool" where
  "batch_ok db b \<longleftrightarrow> br_EntryCount b = word_of_nat (length (batch_entries db b)) \<and>
     sint (br_NetAmountCp b) = amount_sum (batch_entries db b)"

definition entry_ok :: "database \<Rightarrow> entry_row \<Rightarrow> bool" where
  "entry_ok db e \<longleftrightarrow> er_AccountID e \<in> ac_ID ` set (db_accounts db) \<and>
     (\<exists>b \<in> set (db_batches db). er_BatchID e = br_ID b \<and> er_PoolID e = br_PoolID b \<and> er_Seq e = br_Seq b)"

definition cache_ok :: "database \<Rightarrow> bool" where
  "cache_ok db \<longleftrightarrow> distinct (map snapshot_key (db_snapshots db)) \<and>
     (\<forall>k. cached (db_snapshots db) k = folded (db_entries db) k)"

definition audit_ok :: "(string \<Rightarrow> string) \<Rightarrow> database \<Rightarrow> bool" where
  "audit_ok H db \<longleftrightarrow>
     linked au_PrevHash au_Hash au_Seq (\<lambda>a. AuditHash H (au_PrevHash a) a) None 1 (db_audit db) \<and>
     GetMetaValue MetaAuditHeadKey db = map_option encodeHead (chain_head au_Hash None (db_audit db))"

definition ledger_ok :: "(string \<Rightarrow> string) \<Rightarrow> database \<Rightarrow> bool" where
  "ledger_ok H db \<longleftrightarrow> distinct (map br_ID (db_batches db)) \<and> distinct (map er_ID (db_entries db)) \<and>
     (\<forall>b \<in> set (db_batches db). br_PoolID b \<in> set (db_pools db) \<and> batch_ok db b) \<and>
     (\<forall>e \<in> set (db_entries db). entry_ok db e) \<and>
     (\<forall>pool. chain_ok H db pool) \<and> cache_ok db \<and> audit_ok H db"

subsection \<open>The meta table\<close>

lemma find_row_upsert_meta:
  "find_row (\<lambda>r. mt_Key r = k) (upsert_meta m ms) =
    (if k = mt_Key m then Some m else find_row (\<lambda>r. mt_Key r = k) ms)"
  by (induction ms) (auto simp: find_row_def)

lemma GetMetaValue_upsert:
  "db_meta db' = upsert_meta m (db_meta db) \<Longrightarrow>
    GetMetaValue k db' = (if k = mt_Key m then Some (mt_Value m) else GetMetaValue k db)"
  by (simp add: GetMetaValue_def find_row_upsert_meta)

lemma head_keys [simp]:
  "MetaLedgerHeadKey p = MetaLedgerHeadKey q \<longleftrightarrow> p = q"
  "MetaLedgerHeadKey p \<noteq> metaAuditHead" "metaAuditHead \<noteq> MetaLedgerHeadKey p"
  by (simp_all add: MetaLedgerHeadKey_def metaLedgerHeadPrefix_def metaAuditHead_def)

subsection \<open>What a commit adds\<close>

lemma batch_of_entries:
  assumes "batch_of req b es"
  shows "length es = length (bp_Entries (cr_Proposal req))"
    and "map er_AmountCp es = map ep_AmountCp (bp_Entries (cr_Proposal req))"
    and "map (\<lambda>e. (er_AccountID e, er_BalanceKind e)) es = map account_kind (bp_Entries (cr_Proposal req))"
    and "e \<in> set es \<Longrightarrow> er_BatchID e = br_ID b \<and> er_PoolID e = br_PoolID b \<and> er_Seq e = br_Seq b"
proof -
  obtain ks where ks: "length ks = length (bp_Entries (cr_Proposal req))"
    "es = map2 (entry_of (br_ID b) (br_PoolID b) (br_Seq b)) (bp_Entries (cr_Proposal req)) ks"
    using assms by (auto simp: batch_of_def Let_def)
  show "map er_AmountCp es = map ep_AmountCp (bp_Entries (cr_Proposal req))"
    "map (\<lambda>e. (er_AccountID e, er_BalanceKind e)) es = map account_kind (bp_Entries (cr_Proposal req))"
    by (rule nth_equalityI; simp add: ks entry_of_def account_kind_def)+
  show "length es = length (bp_Entries (cr_Proposal req))" using ks by simp
  show "e \<in> set es \<Longrightarrow> er_BatchID e = br_ID b \<and> er_PoolID e = br_PoolID b \<and> er_Seq e = br_Seq b"
    by (auto simp: ks(2) set_zip entry_of_def)
qed

lemma batch_of_net:
  assumes "batch_of req b es"
  shows "sint (br_NetAmountCp b) = amount_sum es"
proof -
  let ?p = "cr_Proposal req"
  have "net_loop 0 (bp_Entries ?p) = Some (br_NetAmountCp b)"
    using assms by (simp add: batch_of_def Let_def NetAmountCp_def)
  then have "sint (br_NetAmountCp b) = sum_list (map sint (map ep_AmountCp (bp_Entries ?p)))"
    by (auto dest!: net_loop_sint simp: amounts_def o_def)
  also have "\<dots> = amount_sum es"
    by (simp add: amount_sum_def o_def batch_of_entries(2) [OF assms, symmetric])
  finally show ?thesis .
qed

text \<open>A commit's database, with the facts of \<open>posts\<close> and of the invariant at hand.\<close>

definition posting :: "(string \<Rightarrow> string) \<Rightarrow> commit_request \<Rightarrow> database \<Rightarrow> batch_row \<Rightarrow> entry_row list \<Rightarrow>
    audit_row \<Rightarrow> database \<Rightarrow> bool" where
  "posting H req db b es a db' \<longleftrightarrow> ledger_ok H db \<and> posts H req db b es a db' \<and>
     (\<forall>m. length (H m) = hashLength)"

lemma posting_facts:
  assumes "posting H req db b es a db'"
  shows "ledger_ok H db" "posts H req db b es a db'" "length (H m) = hashLength"
  using assms by (simp_all add: posting_def)

lemma posting_batch_facts:
  assumes P: "posting H req db b es a db'"
  shows "db_batches db' = db_batches db @ [b]" "db_entries db' = db_entries db @ es"
  "db_audit db' = db_audit db @ [a]" "br_ID b \<notin> br_ID ` set (db_batches db)"
  "br_Seq b = q_NextPoolSeq (br_PoolID b) db" "batch_legal b db" "batch_of req b es"
  "br_Hash b = BatchHash H (br_PrevHash b) b es"
  using posting_facts(2) [OF P] by (auto simp: posts_def batch_legal_def)

lemmas posting_entry_facts = batch_of_entries [OF posting_batch_facts(7)]

lemma posting_fresh:
  assumes P: "posting H req db b es a db'"
  shows "c \<in> set (db_batches db) \<Longrightarrow> br_ID c \<noteq> br_ID b"
  using posting_batch_facts(4) [OF P] by (metis imageI)

lemma posting_old_entry:
  assumes P: "posting H req db b es a db'"
  shows "e \<in> set (db_entries db) \<Longrightarrow> er_BatchID e \<noteq> br_ID b"
  using posting_facts(1) [OF P] posting_fresh [OF P] by (fastforce simp: ledger_ok_def entry_ok_def)

lemma posting_entries_new:
  assumes P: "posting H req db b es a db'"
  shows "batch_entries db' b = es"
proof -
  have "filter (\<lambda>e. er_BatchID e = br_ID b) (db_entries db) = []"
    using posting_old_entry [OF P] by (auto simp: filter_empty_conv)
  moreover have "filter (\<lambda>e. er_BatchID e = br_ID b) es = es"
    using posting_entry_facts(4) [OF P] by (simp add: filter_id_conv)
  ultimately show ?thesis by (simp add: batch_entries_def posting_batch_facts [OF P])
qed

lemma posting_entries_old:
  assumes P: "posting H req db b es a db'"
  shows "c \<in> set (db_batches db) \<Longrightarrow> batch_entries db' c = batch_entries db c"
proof -
  assume "c \<in> set (db_batches db)"
  then have "br_ID c \<noteq> br_ID b" by (rule posting_fresh [OF P])
  then have "filter (\<lambda>e. er_BatchID e = br_ID c) es = []"
    using posting_entry_facts(4) [OF P] by (auto simp: filter_empty_conv)
  then show ?thesis by (simp add: batch_entries_def posting_batch_facts [OF P])
qed

lemma posting_pool_batches_new:
  assumes P: "posting H req db b es a db'"
  shows "pool_batches pool db' = pool_batches pool db @ (if br_PoolID b = pool then [b] else [])"
  by (simp add: pool_batches_def posting_batch_facts [OF P])

lemma posting_chain_old:
  assumes P: "posting H req db b es a db'"
  shows "linked br_PrevHash br_Hash br_Seq (batch_digest H db) None 1 (pool_batches pool db)"
  using posting_facts(1) [OF P] by (simp add: ledger_ok_def chain_ok_def)

lemma posting_head_old:
  assumes P: "posting H req db b es a db'"
  shows "GetMetaValue (MetaLedgerHeadKey pool) db =
    map_option encodeHead (chain_head br_Hash None (pool_batches pool db))"
  using posting_facts(1) [OF P] by (simp add: ledger_ok_def chain_ok_def)

lemma posting_seq_new:
  assumes P: "posting H req db b es a db'"
  shows "sint (br_Seq b) = 1 + int (length (pool_batches (br_PoolID b) db))"
proof (rule linked_next [OF posting_chain_old [OF P, of "br_PoolID b"]])
  show "br_Seq b = sql_next (map br_Seq (pool_batches (br_PoolID b) db))"
    by (simp add: posting_batch_facts(5) [OF P] q_NextPoolSeq_def pool_batches_def)
  have "(br_PoolID b, br_Seq b) \<notin> (\<lambda>q. (br_PoolID q, br_Seq q)) ` set (db_batches db)"
    using posting_batch_facts(6) [OF P] by (simp add: batch_legal_def)
  then show "br_Seq b \<notin> br_Seq ` set (pool_batches (br_PoolID b) db)"
    unfolding pool_batches_def by (auto simp: image_iff)
qed

text \<open>A head in the meta table is the hash it was written for.\<close>

lemma head_read:
  assumes "GetMetaValue k db = map_option encodeHead (chain_head hash None rows)" "head_in db k h"
    and "\<And>r. r \<in> set rows \<Longrightarrow> length (hash r) = hashLength"
  shows "h = chain_head hash None rows"
  using assms by (cases "rows = []") (auto simp: head_in_def chain_head_def decodeHead_encodeHead)

lemma linked_lengths:
  assumes "linked prev hash seq digest p n rs" "\<And>r. length (digest r) = hashLength" "r \<in> set rs"
  shows "length (hash r) = hashLength"
  using assms by (induction rs arbitrary: p n) auto

lemma posting_prev_new:
  assumes P: "posting H req db b es a db'"
  shows "br_PrevHash b = chain_head br_Hash None (pool_batches (br_PoolID b) db)"
proof (rule head_read [OF posting_head_old [OF P]])
  show "head_in db (MetaLedgerHeadKey (br_PoolID b)) (br_PrevHash b)" using posting_facts(2) [OF P] by (simp add: posts_def)
  show "length (br_Hash r) = hashLength" if "r \<in> set (pool_batches (br_PoolID b) db)" for r
    by (rule linked_lengths [OF posting_chain_old [OF P] _ that]) (simp add: batch_digest_def BatchHash_def posting_facts(3) [OF P])
qed

lemma posting_meta_new:
  assumes P: "posting H req db b es a db'"
  shows "GetMetaValue k db' = (if k = metaAuditHead then Some (encodeHead (au_Hash a))
    else if k = MetaLedgerHeadKey (br_PoolID b) then Some (encodeHead (br_Hash b)) else GetMetaValue k db)"
  using posting_facts(2) [OF P] by (auto simp: posts_def GetMetaValue_def find_row_upsert_meta)

lemma posting_chain_kept:
  assumes P: "posting H req db b es a db'"
  shows "chain_ok H db' pool"
proof -
  have "linked br_PrevHash br_Hash br_Seq (batch_digest H db') None 1 (pool_batches pool db)"
    using posting_chain_old [OF P, of pool]
    by (subst linked_cong [of _ _ "batch_digest H db"]) (auto simp: batch_digest_def pool_batches_def posting_entries_old [OF P])
  then show ?thesis
    using posting_prev_new [OF P] posting_seq_new [OF P] posting_head_old [OF P, of pool]
    by (auto simp: chain_ok_def posting_pool_batches_new [OF P] linked_snoc posting_meta_new [OF P] chain_head_def batch_digest_def
        posting_entries_new [OF P] posting_batch_facts(8) [OF P] split: if_splits)
qed

lemma posting_audit_kept:
  assumes P: "posting H req db b es a db'"
  shows "audit_ok H db'"
proof -
  have ao: "audit_ok H db" and aa: "audit_of H db b a" using posting_facts(1) [OF P] posting_facts(2) [OF P] by (simp_all add: ledger_ok_def posts_def)
  then have l: "linked au_PrevHash au_Hash au_Seq (\<lambda>a. AuditHash H (au_PrevHash a) a) None 1 (db_audit db)"
    by (simp add: audit_ok_def)
  have "sint (au_Seq a) = 1 + int (length (db_audit db))"
    using aa by (intro linked_next [OF l]) (auto simp: audit_of_def NextAuditSeq_def)
  moreover have "au_PrevHash a = chain_head au_Hash None (db_audit db)"
  proof (rule head_read)
    show "GetMetaValue metaAuditHead db = map_option encodeHead (chain_head au_Hash None (db_audit db))"
      using ao by (simp add: audit_ok_def MetaAuditHeadKey_def)
    show "head_in db metaAuditHead (au_PrevHash a)" using aa by (simp add: audit_of_def)
    show "length (au_Hash r) = hashLength" if "r \<in> set (db_audit db)" for r
      by (rule linked_lengths [OF l _ that]) (simp add: AuditHash_def posting_facts(3) [OF P])
  qed
  ultimately show ?thesis
    using l aa by (simp add: audit_ok_def posting_batch_facts [OF P] linked_snoc posting_meta_new [OF P] MetaAuditHeadKey_def
        chain_head_def audit_of_def)
qed

lemma posting_batches_kept:
  assumes P: "posting H req db b es a db'"
  shows "c \<in> set (db_batches db') \<Longrightarrow> br_PoolID c \<in> set (db_pools db') \<and> batch_ok db' c"
proof -
  assume "c \<in> set (db_batches db')"
  then consider "c = b" | "c \<in> set (db_batches db)" by (auto simp: posting_batch_facts [OF P])
  then show ?thesis
  proof cases
    case 1
    then show ?thesis
      using posting_batch_facts(6) [OF P] posting_facts(2) [OF P] batch_of_net [OF posting_batch_facts(7) [OF P]] posting_entry_facts(1) [OF P]
      by (simp add: batch_ok_def posting_entries_new [OF P] batch_legal_def posts_def batch_of_def Let_def)
  next
    case 2
    then show ?thesis
      using posting_facts(1) [OF P] posting_facts(2) [OF P] by (simp add: ledger_ok_def batch_ok_def posting_entries_old [OF P] posts_def)
  qed
qed

lemma posting_entries_kept:
  assumes P: "posting H req db b es a db'"
  shows "e \<in> set (db_entries db') \<Longrightarrow> entry_ok db' e"
proof -
  assume e: "e \<in> set (db_entries db')"
  have acc: "db_accounts db' = db_accounts db" "er_AccountID ` set es \<subseteq> ac_ID ` set (db_accounts db)"
    using posting_facts(2) [OF P] by (simp_all add: posts_def)
  from e consider "e \<in> set es" | "e \<in> set (db_entries db)" by (auto simp: posting_batch_facts [OF P])
  then show ?thesis
  proof cases
    case 1
    then show ?thesis using posting_entry_facts(4) [OF P] acc by (auto simp: entry_ok_def posting_batch_facts [OF P])
  next
    case 2
    then have "entry_ok db e" using posting_facts(1) [OF P] by (simp add: ledger_ok_def)
    then show ?thesis using acc(1) by (auto simp: entry_ok_def posting_batch_facts [OF P])
  qed
qed

lemma posting_old_seq:
  assumes P: "posting H req db b es a db'" and "e \<in> set (db_entries db)" "er_PoolID e = br_PoolID b"
  shows "sint (er_Seq e) < sint (br_Seq b)"
proof -
  obtain c where "c \<in> set (pool_batches (br_PoolID b) db)" "er_Seq e = br_Seq c"
    using posting_facts(1) [OF P] assms by (auto simp: ledger_ok_def entry_ok_def pool_batches_def)
  then have "sint (er_Seq e) \<in> (\<lambda>c. sint (br_Seq c)) ` set (pool_batches (br_PoolID b) db)" by auto
  then show ?thesis unfolding linked_seqs [OF posting_chain_old [OF P]] posting_seq_new [OF P] by simp
qed

lemma posting_cache_kept:
  assumes P: "posting H req db b es a db'"
  shows "cache_ok db'"
proof -
  obtain ds where ds: "snapshot_deltas b [] es = Some ds" "upserts ds (db_snapshots db) = Some (db_snapshots db')"
    using posting_facts(2) [OF P] by (auto simp: posts_def)
  have old: "distinct (map snapshot_key (db_snapshots db))"
    "cached (db_snapshots db) k = folded (db_entries db) k" for k
    using posting_facts(1) [OF P] unfolding ledger_ok_def cache_ok_def by blast+
  note delta = snapshot_deltas_folded [OF ds(1)]
  have d: "distinct (map snapshot_key ds)" "cached ds k = folded es k" for k
    using delta posting_entry_facts(4) [OF P] by auto
  note up = upserts_cached [OF ds(2) d(1) old(1)]
  have "folded (db_entries db @ es) k = later (folded (db_entries db) k) (folded es k)" for k
  proof (cases "fst k = br_PoolID b")
    case True
    then show ?thesis
      using posting_old_seq [OF P] posting_entry_facts(4) [OF P] by (intro folded_append [where n = "sint (br_Seq b)"]) (auto simp: entry_key_def)
  next
    case False
    then have "of_key k es = []"
      using posting_entry_facts(4) [OF P] by (auto simp: of_key_def filter_empty_conv entry_key_def)
    then show ?thesis by (simp add: folded_def)
  qed
  then show ?thesis
    using up by (simp add: cache_ok_def posting_batch_facts(2) [OF P] old(2) d(2))
qed

lemma posting_ledger_kept:
  assumes P: "posting H req db b es a db'"
  shows "ledger_ok H db'"
  unfolding ledger_ok_def
proof (intro conjI ballI allI)
  show "distinct (map br_ID (db_batches db'))"
    using posting_facts(1) [OF P] posting_batch_facts(4) [OF P] by (simp add: posting_batch_facts [OF P] ledger_ok_def)
  show "distinct (map er_ID (db_entries db'))"
    using posting_facts(1) [OF P] posting_facts(2) [OF P] by (auto simp: posting_batch_facts [OF P] ledger_ok_def posts_def)
qed (use posting_batches_kept [OF P] posting_entries_kept [OF P] posting_chain_kept [OF P] posting_cache_kept [OF P] posting_audit_kept [OF P] in auto)

end
