(* ===== verification/Ledger.thy ===== *)
theory Ledger
  imports LedgerState Catalogue
begin

text \<open>
  The ledger as a state machine: the database the migrations leave, the steps that change it, the
  databases that can be reached, and what holds in all of them. A step is a commit of any request
  with any outcome, or one of the writes the ledger package does not make itself: a new account, a
  new pool, rows of other tables, identifiers and statements used elsewhere. The relation is over a
  predicate on the requests, so that a property can be stated for a ledger that only commits what
  the strategies plan.
\<close>

section \<open>The database of the migrations\<close>

definition DefaultPoolID :: ulid where "DefaultPoolID = ''00000000000000000000DKPP00''"
definition AccountIDResidue :: ulid where "AccountIDResidue = ''0000000000000000DKPACCTRES''"
definition AccountIDGuildBank :: ulid where "AccountIDGuildBank = ''0000000000000000DKPACCTBNK''"
definition AccountIDWriteOff :: ulid where "AccountIDWriteOff = ''0000000000000000DKPACCTWRF''"
definition AccountIDImportOpening :: ulid where "AccountIDImportOpening = ''0000000000000000DKPACCTMPN''"

definition SystemAccountIDs :: "(string \<times> ulid) list" where
  "SystemAccountIDs = [(SystemKeyResidue, AccountIDResidue), (SystemKeyGuildBank, AccountIDGuildBank),
     (SystemKeyWriteOff, AccountIDWriteOff), (SystemKeyImportOpening, AccountIDImportOpening)]"

definition system_account :: "string \<times> ulid \<Rightarrow> account_row" where
  "system_account = (\<lambda>(key, k). \<lparr>ac_ID = k, ac_Kind = KindSystem, ac_PersonID = None,
     ac_SystemKey = Some key, ac_Label = key, ac_CreatedAt = 1704067200000000,
     ac_UpdatedAt = 1704067200000000\<rparr>)"

definition genesis :: database where
  "genesis = \<lparr>db_pools = [DefaultPoolID], db_accounts = map system_account SystemAccountIDs,
     db_batches = [], db_entries = [], db_snapshots = [], db_audit = [], db_outbox = [],
     db_event_seq = 0, db_meta = [], db_guild = [],
     db_permissions = [], db_roles = [], db_role_permissions = [], db_role_assignments = [], db_users = [],
     db_identities = [], db_sessions = [], db_service_accounts = [], db_tokens = []\<rparr>"

section \<open>Steps\<close>

inductive ledger_step :: "env \<Rightarrow> (database \<Rightarrow> commit_request \<Rightarrow> bool) \<Rightarrow> world \<Rightarrow> world \<Rightarrow> bool"
  for env P where
  commit: "P (wd_db w) req \<Longrightarrow> Commit env req w = (r, w') \<Longrightarrow> ledger_step env P w w'"
| account: "InsertAccount a (wd_db w) = Inr db \<Longrightarrow> ledger_step env P w (w\<lparr>wd_db := db\<rparr>)"
| pool: "ledger_step env P w (w\<lparr>wd_db := (wd_db w)\<lparr>db_pools := db_pools (wd_db w) @ [p]\<rparr>\<rparr>)"
| others: "ledger_step env P w (w\<lparr>wd_db := (wd_db w)\<lparr>db_guild := g, db_permissions := ps, db_roles := rs,
    db_role_permissions := gs, db_role_assignments := ras, db_users := us, db_identities := ids, db_sessions := ss,
    db_service_accounts := sas, db_tokens := ts\<rparr>\<rparr>)"
| elsewhere: "ledger_step env P w (w\<lparr>wd_stmts := i, wd_ids := j, wd_reads := k\<rparr>)"

inductive reachable :: "env \<Rightarrow> (database \<Rightarrow> commit_request \<Rightarrow> bool) \<Rightarrow> world \<Rightarrow> bool" for env P where
  start: "wd_db w = genesis \<Longrightarrow> reachable env P w"
| step: "reachable env P w \<Longrightarrow> ledger_step env P w w' \<Longrightarrow> reachable env P w'"

abbreviation any_request :: "database \<Rightarrow> commit_request \<Rightarrow> bool" where
  "any_request \<equiv> \<lambda>_ _. True"

section \<open>The outcomes of a commit\<close>

lemma Commit_Inl: "Commit env req w = (Inl e, w') \<Longrightarrow> wd_db w' = wd_db w"
  by (auto simp: Commit_def bindA_def liftA_def split: sum.splits dest: Tx_Inl)

definition replay_receipt :: "batch_row \<Rightarrow> receipt" where
  "replay_receipt b = \<lparr>rc_BatchID = br_ID b, rc_Seq = br_Seq b, rc_PrevHash = br_PrevHash b,
     rc_Hash = br_Hash b, rc_EntryCount = br_EntryCount b, rc_NetAmountCp = br_NetAmountCp b,
     rc_AuditSeq = 0, rc_EventSeq = 0, rc_Replayed = True\<rparr>"

definition replays :: "commit_request \<Rightarrow> database \<Rightarrow> batch_row \<Rightarrow> bool" where
  "replays req db b \<longleftrightarrow> (\<exists>key. cr_IdempotencyKey req = Some key \<and>
     q_GetBatchByIdempotencyKey (cr_PoolID req) key db = Some b)"

definition checked :: "env \<Rightarrow> commit_request \<Rightarrow> database \<Rightarrow> batch_row \<Rightarrow> bool" where
  "checked env req db b \<longleftrightarrow> (\<exists>w1 w2. wd_db w1 = db \<and> checkInvariants env
     \<lparr>ic_PoolID = cr_PoolID req, ic_Seq = br_Seq b, ic_HeadSeq = br_Seq b - 1\<rparr> (cr_Proposal req) w1 = (Inr (), w2))"

lemma Commit_Inr:
  assumes "Commit env req w = (Inr rc, w')"
  obtains (replayed) b where "replays req (wd_db w) b" "rc = replay_receipt b" "wd_db w' = wd_db w"
  | (posted) b es a where "posts (ev_SHA256 env) req (wd_db w) b es a (wd_db w')"
      "checked env req (wd_db w) b" "br_PoolID b = cr_PoolID req" "\<not> rc_Replayed rc"
      "rc_BatchID rc = br_ID b" "rc_Seq rc = br_Seq b" "rc_Hash rc = br_Hash b"
proof -
  have "Tx env (commit_tx env req) w = (Inr rc, w')"
    using assms by (auto simp: Commit_def act_simps)
  then obtain w1 w2 where w: "wd_db w1 = wd_db w" "commit_tx env req w1 = (Inr rc, w2)" "wd_db w' = wd_db w2"
    by (rule Tx_Inr)
  from w(2) obtain replay w3 where r: "(case cr_IdempotencyKey req of None \<Rightarrow> retA None
      | Some key \<Rightarrow> findReplay env req key) w1 = (Inr replay, w3)"
    and k: "(case replay of Some r \<Rightarrow> retA r | None \<Rightarrow> service_write env req) w3 = (Inr rc, w2)"
    unfolding commit_tx_def by (rule bindA_E)
  have db3: "wd_db w3 = wd_db w1"
    and rep: "replay = Some r \<Longrightarrow> \<exists>b. replays req (wd_db w1) b \<and> r = replay_receipt b" for r
    using r by (auto simp: findReplay_def act_simps replays_def replay_receipt_def split: option.splits)
  show ?thesis
  proof (cases replay)
    case (Some r)
    then show ?thesis using k rep [OF Some] db3 w replayed by (auto simp: act_simps)
  next
    case None
    then have "service_write env req w3 = (Inr rc, w2)" using k by simp
    then obtain b es a w4 w5 where "posts (ev_SHA256 env) req (wd_db w3) b es a (wd_db w2)"
      "rc_BatchID rc = br_ID b" "rc_Seq rc = br_Seq b" "rc_Hash rc = br_Hash b" "\<not> rc_Replayed rc"
      "br_PoolID b = cr_PoolID req" "wd_db w4 = wd_db w3"
      "checkInvariants env \<lparr>ic_PoolID = cr_PoolID req, ic_Seq = br_Seq b, ic_HeadSeq = br_Seq b - 1\<rparr>
       (cr_Proposal req) w4 = (Inr (), w5)"
      by (rule service_write_Inr)
    then show ?thesis
      using db3 w by (intro posted [of b es a]) (auto simp: checked_def)
  qed
qed

section \<open>The invariant holds in every reachable database\<close>

lemma genesis_ok: "ledger_ok H genesis"
  by (simp add: ledger_ok_def genesis_def chain_ok_def pool_batches_def GetMetaValue_def find_row_def
      chain_head_def cache_ok_def folded_def of_key_def audit_ok_def)

lemma InsertAccount_Inr:
  "InsertAccount a db = Inr db' \<Longrightarrow> db' = db\<lparr>db_accounts := db_accounts db @ [a]\<rparr>"
  by (auto simp: InsertAccount_def split: if_splits)

lemma ledger_ok_frame:
  "ledger_ok H db \<Longrightarrow> ledger_ok H (db\<lparr>db_accounts := db_accounts db @ as\<rparr>)"
  "ledger_ok H db \<Longrightarrow> ledger_ok H (db\<lparr>db_guild := g, db_permissions := pms, db_roles := rs,
    db_role_permissions := gs, db_role_assignments := ras, db_users := us, db_identities := ids, db_sessions := ss,
    db_service_accounts := sas, db_tokens := ts\<rparr>)"
  "ledger_ok H db \<Longrightarrow> ledger_ok H (db\<lparr>db_pools := db_pools db @ ps\<rparr>)"
  by (simp_all add: ledger_ok_def batch_ok_def batch_entries_def entry_ok_def chain_ok_def
      pool_batches_def GetMetaValue_def cache_ok_def audit_ok_def batch_digest_def [abs_def] image_Un)

lemma ledger_step_ok:
  assumes "ledger_step env P w w'" "ledger_ok (ev_SHA256 env) (wd_db w)"
    "\<And>m. length (ev_SHA256 env m) = hashLength"
  shows "ledger_ok (ev_SHA256 env) (wd_db w')"
  using assms(1)
proof cases
  case (commit req r)
  show ?thesis
  proof (cases r)
    case (Inl e)
    then show ?thesis using Commit_Inl commit assms(2) by metis
  next
    case (Inr rc)
    with commit have "Commit env req w = (Inr rc, w')" by simp
    then show ?thesis
    proof (cases rule: Commit_Inr)
      case (posted b es a)
      then show ?thesis
        using assms(2,3) by (intro posting_ledger_kept [of _ req "wd_db w" b es a]) (simp add: posting_def)
    qed (use assms(2) in simp)
  qed
qed (use assms(2) ledger_ok_frame in \<open>auto dest!: InsertAccount_Inr\<close>)

lemma reachable_ok:
  assumes "reachable env P w" "\<And>m. length (ev_SHA256 env m) = hashLength"
  shows "ledger_ok (ev_SHA256 env) (wd_db w)"
  using assms(1)
proof induction
  case (start w)
  then show ?case by (simp add: genesis_ok)
next
  case (step w w')
  then show ?case using ledger_step_ok assms(2) by blast
qed

text \<open>C13: Every database the ledger can reach from the migrated one, by commits of any requests
  with any outcome and under any pattern of failing statements, is sound: the batches of each pool
  are numbered 1, 2, 3 and linked by their hashes, the stored heads are the last hashes, the counts
  and nets of the batches are those of their entries, and the cached balances are the fold of the
  entries.\<close>

theorem reachable_ledger_ok:
  assumes "reachable env any_request w" "\<And>m. length (ev_SHA256 env m) = hashLength"
  shows "ledger_ok (ev_SHA256 env) (wd_db w)"
  using assms by (rule reachable_ok)

section \<open>All or nothing\<close>

text \<open>C15: A commit is atomic. A commit that fails, at whatever statement, leaves the database as it
  was, and so does one that only replays an idempotency key; any other one appends exactly one batch
  with the entries of the proposal, one audit row and one event, and changes no earlier row.\<close>

theorem commit_atomic:
  assumes "Commit env req w = (r, w')"
  shows "case r of
      Inl e \<Rightarrow> wd_db w' = wd_db w
    | Inr rc \<Rightarrow> if rc_Replayed rc then wd_db w' = wd_db w
        else (\<exists>b es a ev. db_batches (wd_db w') = db_batches (wd_db w) @ [b] \<and>
          db_entries (wd_db w') = db_entries (wd_db w) @ es \<and>
          db_audit (wd_db w') = db_audit (wd_db w) @ [a] \<and>
          db_outbox (wd_db w') = db_outbox (wd_db w) @ [ev] \<and>
          db_accounts (wd_db w') = db_accounts (wd_db w) \<and> db_pools (wd_db w') = db_pools (wd_db w) \<and>
          br_ID b = rc_BatchID rc \<and> br_PoolID b = cr_PoolID req \<and> au_LedgerBatchID a = Some (br_ID b) \<and>
          map er_AmountCp es = map ep_AmountCp (bp_Entries (cr_Proposal req)) \<and>
          map (\<lambda>e. (er_AccountID e, er_BalanceKind e)) es = map account_kind (bp_Entries (cr_Proposal req)) \<and>
          (\<forall>e \<in> set es. er_BatchID e = br_ID b))"
proof (cases r)
  case (Inl e)
  then show ?thesis using Commit_Inl assms by simp
next
  case (Inr rc)
  with assms have "Commit env req w = (Inr rc, w')" by simp
  then show ?thesis
  proof (cases rule: Commit_Inr)
    case (replayed b)
    then show ?thesis by (simp add: Inr replay_receipt_def)
  next
    case (posted b es a)
    then have "batch_of req b es" by (simp add: posts_def)
    from batch_of_entries [OF this] posted show ?thesis
      by (auto simp: Inr posts_def audit_of_def)
  qed
qed

section \<open>Balances\<close>

definition ledger_balance :: "database \<Rightarrow> ulid \<times> ulid \<times> string \<Rightarrow> int" where
  "ledger_balance db k = amount_sum (of_key k (db_entries db))"

lemma sql_sum_exact: "sql_sum rows = Inr r \<Longrightarrow> sint r = amount_sum rows"
proof -
  assume "sql_sum rows = Inr r"
  then have "sint r = sum_list (map sint (map er_AmountCp (index_order rows)))"
    by (auto simp: sql_sum_def res_simps dest: sum_cp_exact)
  also have "\<dots> = sum_mset (image_mset (\<lambda>e. sint (er_AmountCp e)) (mset (index_order rows)))"
    by (simp add: o_def sum_mset_sum_list [symmetric])
  also have "\<dots> = amount_sum rows"
    by (simp add: index_order_def amount_sum_def sum_mset_sum_list [symmetric])
  finally show ?thesis .
qed

text \<open>The balance at the head of the pool is the balance of the whole log.\<close>

lemma entry_seq_bound:
  assumes "ledger_ok H db" "e \<in> set (db_entries db)"
  shows "1 \<le> sint (er_Seq e)" "sint (er_Seq e) \<le> int (length (pool_batches (er_PoolID e) db))"
proof -
  obtain c where c: "c \<in> set (pool_batches (er_PoolID e) db)" "er_Seq e = br_Seq c"
    using assms by (auto simp: ledger_ok_def entry_ok_def pool_batches_def)
  have "linked br_PrevHash br_Hash br_Seq (batch_digest H db) None 1 (pool_batches (er_PoolID e) db)"
    using assms(1) by (simp add: ledger_ok_def chain_ok_def)
  from linked_seqs [OF this] c have "sint (er_Seq e) \<in> {1 ..< 1 + int (length (pool_batches (er_PoolID e) db))}"
    by (metis (mono_tags, lifting) image_eqI)
  then show "1 \<le> sint (er_Seq e)" "sint (er_Seq e) \<le> int (length (pool_batches (er_PoolID e) db))" by auto
qed

lemma head_balance:
  assumes "ledger_ok H db" "q_BalanceAsOfSeq p a k head db = Inr current"
    "int (length (pool_batches p db)) \<le> sint head"
  shows "sint current = ledger_balance db (p, a, k)"
proof -
  have "filter (\<lambda>e. er_PoolID e = p \<and> er_AccountID e = a \<and> er_BalanceKind e = k \<and> er_Seq e \<le>s head)
      (db_entries db) = of_key (p, a, k) (db_entries db)"
    unfolding of_key_def using entry_seq_bound(2) [OF assms(1)] assms(3)
    by (intro filter_cong) (auto simp: entry_key_def sle_sint dest: order_trans)
  then show ?thesis
    using sql_sum_exact assms(2) by (simp add: q_BalanceAsOfSeq_def ledger_balance_def)
qed

lemma posting_seq_head:
  assumes P: "posting H req db b es a db'"
  shows "sint (br_Seq b - 1) = int (length (pool_batches (br_PoolID b) db))"
  using posting_seq_new [OF P] sint_bounds [of "br_Seq b"] by (subst sint_sub) (simp_all add: in64_def)

lemma posting_balance_new:
  assumes P: "posting H req db b es a db'"
  shows "ledger_balance db' k = ledger_balance db k + amount_sum (of_key k es)"
  by (simp add: ledger_balance_def posting_batch_facts [OF P])

text \<open>What the batch moves under a key is the total the engine compared with the floor.\<close>

lemma posting_moved:
  assumes P: "posting H req db b es a db'" and "in_scope only x" "x \<in> set (bp_Entries (cr_Proposal req))"
  shows "amount_sum (of_key (br_PoolID b, account_kind x) es) =
    total_of account_kind only (account_kind x) (bp_Entries (cr_Proposal req))"
proof -
  let ?ps = "bp_Entries (cr_Proposal req)"
  have pool: "of_key (br_PoolID b, account_kind x) es =
      filter (\<lambda>e. (er_AccountID e, er_BalanceKind e) = account_kind x) es"
    unfolding of_key_def using posting_entry_facts(4) [OF P] by (intro filter_cong) (auto simp: entry_key_def)
  have "total_of account_kind only (account_kind x) ?ps =
      sum_list (map (\<lambda>e. sint (ep_AmountCp e)) (filter (\<lambda>e. account_kind e = account_kind x) ?ps))"
    unfolding total_of_def using assms(2)
    by (intro arg_cong [where f = sum_list] arg_cong [where f = "map _"] filter_cong)
      (auto simp: account_kind_def in_scope_def)
  also have "\<dots> = sum_list (map2 (\<lambda>k n. if k = account_kind x then sint n else 0)
      (map account_kind ?ps) (map ep_AmountCp ?ps))"
    by (simp add: sum_list_map_filter' zip_map_map zip_same_conv_map o_def)
  also have "\<dots> = sum_list (map2 (\<lambda>k n. if k = account_kind x then sint n else 0)
      (map (\<lambda>e. (er_AccountID e, er_BalanceKind e)) es) (map er_AmountCp es))"
    by (simp only: posting_entry_facts(2,3) [OF P])
  also have "\<dots> = amount_sum (of_key (br_PoolID b, account_kind x) es)"
    unfolding pool amount_sum_def by (simp add: sum_list_map_filter' zip_map_map zip_same_conv_map o_def)
  finally show ?thesis by simp
qed

lemma checked_declared:
  assumes "checked env req db b" "iv \<in> set (bp_Invariants (cr_Proposal req))"
  obtains kinds w w' where "wd_db w = db" "checkDeclared env \<lparr>ic_PoolID = cr_PoolID req,
      ic_Seq = br_Seq b, ic_HeadSeq = br_Seq b - 1\<rparr> (cr_Proposal req) kinds iv w = (Inr (), w')"
    "\<And>e. e \<in> set (bp_Entries (cr_Proposal req)) \<Longrightarrow> kinds (ep_AccountID e) = kind_of db (ep_AccountID e)"
proof -
  obtain w1 w2 where w1: "wd_db w1 = db" and ck: "checkInvariants env \<lparr>ic_PoolID = cr_PoolID req,
      ic_Seq = br_Seq b, ic_HeadSeq = br_Seq b - 1\<rparr> (cr_Proposal req) w1 = (Inr (), w2)"
    using assms(1) by (auto simp: checked_def)
  from ck show ?thesis
  proof (rule checkInvariants_Inr)
    fix kinds w3
    assume u: "checkUniversal env \<lparr>ic_PoolID = cr_PoolID req, ic_Seq = br_Seq b, ic_HeadSeq = br_Seq b - 1\<rparr>
        (cr_Proposal req) w1 = (Inr kinds, w3)"
      and d: "\<And>iv. iv \<in> set (bp_Invariants (cr_Proposal req)) \<Longrightarrow> \<exists>w2 w3. wd_db w2 = wd_db w1 \<and>
        checkDeclared env \<lparr>ic_PoolID = cr_PoolID req, ic_Seq = br_Seq b, ic_HeadSeq = br_Seq b - 1\<rparr>
          (cr_Proposal req) kinds iv w2 = (Inr (), w3)"
    from d [OF assms(2)] checkUniversal_Inr(8) [OF u] w1 show ?thesis by (auto intro: that)
  qed
qed

section \<open>Nobody is overdrawn\<close>

text \<open>C14: A commit whose proposal declares a floor never takes a member below it. After the commit,
  every account of a person that the batch touches within the scope of the declaration holds at least
  the floor, unless the batch is no net debit of it; the guild's own system accounts are exempt.\<close>

theorem no_overdraft:
  assumes "reachable env any_request w" "\<And>m. length (ev_SHA256 env m) = hashLength"
    and "Commit env req w = (Inr rc, w')" "\<not> rc_Replayed rc"
    and "iv \<in> set (bp_Invariants (cr_Proposal req))" "iv_Kind iv = InvariantNonNegative"
    and "e \<in> set (bp_Entries (cr_Proposal req))" "in_scope (iv_BalanceKind iv) e"
    and "kind_of (wd_db w) (ep_AccountID e) \<noteq> KindSystem"
  shows "\<exists>floor. iv_FloorCp iv = Some floor \<and>
    (let k = (cr_PoolID req, ep_AccountID e, ep_BalanceKind e) in
      sint floor \<le> ledger_balance (wd_db w') k \<or> ledger_balance (wd_db w) k \<le> ledger_balance (wd_db w') k)"
  using assms(3)
proof (cases rule: Commit_Inr)
  case (replayed b)
  then show ?thesis using assms(4) by (simp add: replay_receipt_def)
next
  case (posted b es a)
  have P: "posting (ev_SHA256 env) req (wd_db w) b es a (wd_db w')"
    using reachable_ok [OF assms(1,2)] posted(1) assms(2) by (simp add: posting_def)
  let ?k = "(cr_PoolID req, ep_AccountID e, ep_BalanceKind e)"
  let ?moved = "total_of account_kind (iv_BalanceKind iv) (account_kind e) (bp_Entries (cr_Proposal req))"
  have new: "ledger_balance (wd_db w') ?k = ledger_balance (wd_db w) ?k + ?moved"
    using posting_balance_new [OF P, of ?k] posting_moved [OF P assms(8,7)] posted(3)
    by (simp add: account_kind_def)
  obtain kinds w1 w2 where c: "wd_db w1 = wd_db w"
    "checkDeclared env \<lparr>ic_PoolID = cr_PoolID req, ic_Seq = br_Seq b, ic_HeadSeq = br_Seq b - 1\<rparr>
      (cr_Proposal req) kinds iv w1 = (Inr (), w2)" "kinds (ep_AccountID e) = kind_of (wd_db w) (ep_AccountID e)"
    by (rule checked_declared [OF posted(2) assms(5)]) (use assms(7) in auto)
  from c(2) assms(6-8) show ?thesis
  proof (rule checkDeclared_floor)
    show "kinds (ep_AccountID e) \<noteq> KindSystem" using c(3) assms(9) by simp
  next
    fix floor current
    assume f: "iv_FloorCp iv = Some floor"
      "q_BalanceAsOfSeq (ic_PoolID \<lparr>ic_PoolID = cr_PoolID req, ic_Seq = br_Seq b, ic_HeadSeq = br_Seq b - 1\<rparr>)
        (ep_AccountID e) (ep_BalanceKind e)
        (ic_HeadSeq \<lparr>ic_PoolID = cr_PoolID req, ic_Seq = br_Seq b, ic_HeadSeq = br_Seq b - 1\<rparr>) (wd_db w1) = Inr current"
      "?moved < 0 \<Longrightarrow> sint floor \<le> sint current + ?moved"
    have "sint current = ledger_balance (wd_db w) ?k"
    proof (rule head_balance [OF reachable_ok [OF assms(1,2)]])
      show "int (length (pool_batches (cr_PoolID req) (wd_db w))) \<le> sint (br_Seq b - 1)"
        using posting_seq_head [OF P] posted(3) by (metis order_refl)
    qed (use f(2) c(1) in simp)
    then show ?thesis
      using f(1,3) new by (cases "?moved < 0") (auto simp: Let_def)
  qed
qed

section \<open>The economy is closed\<close>

definition pool_total :: "database \<Rightarrow> ulid \<Rightarrow> int" where
  "pool_total db p = amount_sum (filter (\<lambda>e. er_PoolID e = p) (db_entries db))"

text \<open>
  A request that commits what a shipped strategy plans, or the reversal it plans of a batch that is
  in the ledger.
\<close>

definition planned_request :: "database \<Rightarrow> commit_request \<Rightarrow> bool" where
  "planned_request db req \<longleftrightarrow> (\<exists>s \<in> set Catalogue. \<exists>ctx. plans s ctx (cr_Proposal req) \<or>
     (\<exists>b. ps_PlanReversal s ctx b = Inr (cr_Proposal req) \<and>
       (\<exists>c \<in> set (db_batches db). lb_ID b = br_ID c \<and>
         amounts (lb_Entries b) = map (\<lambda>e. sint (er_AmountCp e)) (batch_entries db c))))"

definition zero_sum_db :: "database \<Rightarrow> bool" where
  "zero_sum_db db \<longleftrightarrow> (\<forall>p. pool_total db p = 0) \<and>
     (\<forall>b \<in> set (db_batches db). amount_sum (batch_entries db b) = 0)"

lemma planned_zero_sum:
  assumes "planned_request db req" "zero_sum_db db"
  shows "sum_list (amounts (bp_Entries (cr_Proposal req))) = 0"
proof -
  obtain s ctx where s: "s \<in> set Catalogue" and cases: "plans s ctx (cr_Proposal req) \<or>
     (\<exists>b. ps_PlanReversal s ctx b = Inr (cr_Proposal req) \<and>
       (\<exists>c \<in> set (db_batches db). lb_ID b = br_ID c \<and>
         amounts (lb_Entries b) = map (\<lambda>e. sint (er_AmountCp e)) (batch_entries db c)))"
    using assms(1) by (auto simp: planned_request_def)
  have law: "ledger_strategy s" by (rule catalogue_lawful [OF s])
  from cases show ?thesis
  proof (elim disjE exE conjE bexE)
    assume "plans s ctx (cr_Proposal req)"
    then show ?thesis using ledger_strategy.plans_zero_sum [OF law] by (simp add: zero_sum_plan_def)
  next
    fix b c assume b: "ps_PlanReversal s ctx b = Inr (cr_Proposal req)" and c: "c \<in> set (db_batches db)"
      "amounts (lb_Entries b) = map (\<lambda>e. sint (er_AmountCp e)) (batch_entries db c)"
    then obtain es where "negate_entries (lb_Entries b) = Inr es" "bp_Entries (cr_Proposal req) = es"
      by (auto simp: ledger_strategy.reversal_law [OF law] reversePlan_Inr)
    then have "sum_list (amounts (bp_Entries (cr_Proposal req))) = - sum_list (amounts (lb_Entries b))"
      by (simp add: amounts_negated sum_list_uminus)
    also have "sum_list (amounts (lb_Entries b)) = 0"
      using assms(2) c by (simp add: zero_sum_db_def amount_sum_def)
    finally show ?thesis by simp
  qed
qed

lemma posting_net_new:
  assumes P: "posting H req db b es a db'"
  shows "amount_sum es = sum_list (amounts (bp_Entries (cr_Proposal req)))"
  using arg_cong [OF posting_entry_facts(2) [OF P], of "\<lambda>xs. sum_list (map sint xs)"]
  by (simp add: amount_sum_def amounts_def o_def)

lemma posting_pool_total_new:
  assumes P: "posting H req db b es a db'"
  shows "pool_total db' p = pool_total db p + (if br_PoolID b = p then amount_sum es else 0)"
proof -
  have "filter (\<lambda>e. er_PoolID e = p) es = (if br_PoolID b = p then es else [])"
    using posting_entry_facts(4) [OF P] by (auto simp: filter_id_conv filter_empty_conv)
  then show ?thesis by (simp add: pool_total_def posting_batch_facts [OF P] amount_sum_def)
qed

lemma posting_zero_sum_new:
  assumes P: "posting H req db b es a db'" and "zero_sum_db db" "sum_list (amounts (bp_Entries (cr_Proposal req))) = 0"
  shows "zero_sum_db db'"
  using assms posting_net_new [OF P] posting_entries_old [OF P] posting_entries_new [OF P]
  by (auto simp: zero_sum_db_def posting_pool_total_new [OF P] posting_batch_facts [OF P])

lemma zero_sum_frame:
  "zero_sum_db db \<Longrightarrow> zero_sum_db (db\<lparr>db_accounts := as\<rparr>)"
  "zero_sum_db db \<Longrightarrow> zero_sum_db (db\<lparr>db_guild := g, db_permissions := pms, db_roles := rs,
    db_role_permissions := gs, db_role_assignments := ras, db_users := us, db_identities := ids, db_sessions := ss,
    db_service_accounts := sas, db_tokens := ts\<rparr>)"
  "zero_sum_db db \<Longrightarrow> zero_sum_db (db\<lparr>db_pools := ps\<rparr>)"
  by (simp_all add: zero_sum_db_def pool_total_def batch_entries_def)

lemma zero_sum_step:
  assumes "ledger_step env planned_request w w'" "zero_sum_db (wd_db w)"
    "ledger_ok (ev_SHA256 env) (wd_db w)" "\<And>m. length (ev_SHA256 env m) = hashLength"
  shows "zero_sum_db (wd_db w')"
  using assms(1)
proof cases
  case (commit req r)
  show ?thesis
  proof (cases r)
    case (Inl e)
    then show ?thesis using Commit_Inl commit assms(2) by metis
  next
    case (Inr rc)
    with commit have "Commit env req w = (Inr rc, w')" by simp
    then show ?thesis
    proof (cases rule: Commit_Inr)
      case (posted b es a)
      then have P: "posting (ev_SHA256 env) req (wd_db w) b es a (wd_db w')"
        using assms(3,4) by (simp add: posting_def)
      show ?thesis
        by (rule posting_zero_sum_new [OF P assms(2) planned_zero_sum [OF commit(1) assms(2)]])
    qed (use assms(2) in simp)
  qed
qed (use assms(2) zero_sum_frame in \<open>auto dest!: InsertAccount_Inr\<close>)

text \<open>C16: The economy of the guild is closed. In every database reached by committing only what the
  shipped strategies plan, and reversals they plan of batches in the ledger, the balances of every
  pool sum to exactly zero, over all accounts and balance kinds, and so does every batch.\<close>

theorem closed_economy:
  assumes "reachable env planned_request w" "\<And>m. length (ev_SHA256 env m) = hashLength"
  shows "pool_total (wd_db w) p = 0 \<and>
    (\<forall>b \<in> set (db_batches (wd_db w)). br_NetAmountCp b = 0)"
proof -
  have z: "zero_sum_db (wd_db w)"
    using assms(1)
  proof induction
    case (start w)
    then show ?case by (simp add: zero_sum_db_def pool_total_def genesis_def amount_sum_def)
  next
    case (step w w')
    then show ?case using zero_sum_step reachable_ok assms(2) by blast
  qed
  have "sint (br_NetAmountCp b) = 0" if "b \<in> set (db_batches (wd_db w))" for b
    using z reachable_ok [OF assms] that by (simp add: zero_sum_db_def ledger_ok_def batch_ok_def)
  then show ?thesis using z by (simp add: zero_sum_db_def)
qed

section \<open>History\<close>

text \<open>C18: The past is immutable. A balance as of a seq the ledger has already reached reads the same
  after any commit: a correction is a new batch, never a change of what was.\<close>

theorem past_balances_fixed:
  assumes "reachable env any_request w" "\<And>m. length (ev_SHA256 env m) = hashLength"
    and "Commit env req w = (r, w')" "seq \<le>s q_MaxPoolSeq p (wd_db w)"
  shows "q_BalanceAsOfSeq p a k seq (wd_db w') = q_BalanceAsOfSeq p a k seq (wd_db w)"
proof (cases r)
  case (Inl e)
  then show ?thesis using Commit_Inl assms(3) by simp
next
  case (Inr rc)
  with assms(3) have "Commit env req w = (Inr rc, w')" by simp
  then show ?thesis
  proof (cases rule: Commit_Inr)
    case (posted b es ar)
    have P: "posting (ev_SHA256 env) req (wd_db w) b es ar (wd_db w')"
      using reachable_ok [OF assms(1,2)] posted(1) assms(2) by (simp add: posting_def)
    have "\<not> er_Seq e \<le>s seq" if "e \<in> set es" "er_PoolID e = p" for e
    proof -
      have e: "br_PoolID b = p" "er_Seq e = br_Seq b" using posting_entry_facts(4) [OF P that(1)] that(2) by auto
      have "sint (q_MaxPoolSeq p (wd_db w)) = int (length (pool_batches p (wd_db w)))"
        using linked_max [OF posting_chain_old [OF P, of p]] posting_seq_new [OF P] e(1)
        by (simp add: q_MaxPoolSeq_def pool_batches_def)
      then show ?thesis using posting_seq_new [OF P] e assms(4) by (simp add: sle_sint)
    qed
    then have "filter (\<lambda>e. er_PoolID e = p \<and> er_AccountID e = a \<and> er_BalanceKind e = k \<and> er_Seq e \<le>s seq) es = []"
      by (auto simp: filter_empty_conv)
    then show ?thesis
      by (simp add: q_BalanceAsOfSeq_def posting_batch_facts(2) [OF P])
  qed simp
qed

section \<open>Retries and reversals\<close>

lemma Commit_key_found:
  assumes "Commit env req w = (Inr rc, w1)" "cr_IdempotencyKey req = Some key"
  shows "\<exists>b. q_GetBatchByIdempotencyKey (cr_PoolID req) key (wd_db w1) = Some b \<and>
      br_ID b = rc_BatchID rc \<and> br_Seq b = rc_Seq rc \<and> br_Hash b = rc_Hash rc"
  using assms(1)
  proof (cases rule: Commit_Inr)
    case (replayed b)
    then show ?thesis using assms(2) by (auto simp: replays_def replay_receipt_def)
  next
    case (posted b es a)
    then have b: "br_PoolID b = cr_PoolID req" "br_IdempotencyKey b = Some key"
      "db_batches (wd_db w1) = db_batches (wd_db w) @ [b]"
      "unique_when br_IdempotencyKey (\<lambda>q. br_PoolID q = br_PoolID b) (db_batches (wd_db w)) b"
      using assms(2) by (auto simp: posts_def batch_of_def Let_def batch_legal_def)
    then have "filter (\<lambda>q. br_PoolID q = cr_PoolID req \<and> br_IdempotencyKey q = Some key) (db_batches (wd_db w)) = []"
      by (auto simp: unique_when_def filter_empty_conv)
    then show ?thesis
      using b posted by (simp add: q_GetBatchByIdempotencyKey_def find_row_def)
  qed

text \<open>C19: A retry is safe. When a commit under an idempotency key succeeded and nothing else ran
  since, any commit to the same pool under the same key that succeeds reports that batch, marked as
  replayed, and writes nothing.\<close>

theorem retry_is_replay:
  assumes "Commit env req w = (Inr rc, w1)" "cr_IdempotencyKey req = Some key"
    and "Commit env req' w1 = (Inr rc', w2)" "cr_IdempotencyKey req' = Some key"
    and "cr_PoolID req' = cr_PoolID req"
  shows "rc_Replayed rc' \<and> rc_BatchID rc' = rc_BatchID rc \<and> rc_Seq rc' = rc_Seq rc \<and>
    rc_Hash rc' = rc_Hash rc \<and> wd_db w2 = wd_db w1"
proof -
  note found = Commit_key_found [OF assms(1,2)]
  from assms(3) show ?thesis
  proof (cases rule: Commit_Inr)
    case (replayed b)
    then show ?thesis
      using found assms(4,5) by (auto simp: replays_def replay_receipt_def)
  next
    case (posted b es a)
    then have b: "br_IdempotencyKey b = Some key" "br_PoolID b = cr_PoolID req"
      "unique_when br_IdempotencyKey (\<lambda>q. br_PoolID q = br_PoolID b) (db_batches (wd_db w1)) b"
      using assms(4,5) by (auto simp: posts_def batch_of_def Let_def batch_legal_def)
    obtain c where "c \<in> set (db_batches (wd_db w1))" "br_PoolID c = cr_PoolID req" "br_IdempotencyKey c = Some key"
      using found by (auto simp: q_GetBatchByIdempotencyKey_def dest: find_row_Some)
    then show ?thesis using b by (auto simp: unique_when_def)
  qed
qed

text \<open>C20: A reversal names what it reverses, and a batch is reversed at most once. A committed batch is
  of kind reversal exactly when it points at another one; that one exists, is in the same pool, and no
  batch of the ledger pointed at it before.\<close>

theorem reversal_targets_once:
  assumes "Commit env req w = (Inr rc, w')" "\<not> rc_Replayed rc"
  shows "\<exists>b. db_batches (wd_db w') = db_batches (wd_db w) @ [b] \<and>
    (br_Kind b = KindReversal \<longleftrightarrow> br_ReversesBatchID b \<noteq> None) \<and>
    (\<forall>t. br_ReversesBatchID b = Some t \<longrightarrow>
      (\<exists>c \<in> set (db_batches (wd_db w)). br_ID c = t \<and> br_PoolID c = br_PoolID b) \<and>
      (\<forall>c \<in> set (db_batches (wd_db w)). br_ReversesBatchID c \<noteq> Some t))"
  using assms(1)
proof (cases rule: Commit_Inr)
  case (replayed b)
  then show ?thesis using assms(2) by (simp add: replay_receipt_def)
next
  case (posted b es a)
  have b: "br_Kind b = bp_Kind (cr_Proposal req)" "br_ReversesBatchID b = bp_ReversesBatchID (cr_Proposal req)"
    "db_batches (wd_db w') = db_batches (wd_db w) @ [b]"
    "unique_when br_ReversesBatchID (\<lambda>_. True) (db_batches (wd_db w)) b"
    using posted(1) by (auto simp: posts_def batch_of_def Let_def batch_legal_def)
  obtain w1 w2 where w1: "wd_db w1 = wd_db w" and ck: "checkInvariants env \<lparr>ic_PoolID = cr_PoolID req,
      ic_Seq = br_Seq b, ic_HeadSeq = br_Seq b - 1\<rparr> (cr_Proposal req) w1 = (Inr (), w2)"
    using posted(2) by (auto simp: checked_def)
  from ck obtain kinds w3 where u: "checkUniversal env \<lparr>ic_PoolID = cr_PoolID req,
      ic_Seq = br_Seq b, ic_HeadSeq = br_Seq b - 1\<rparr> (cr_Proposal req) w1 = (Inr kinds, w3)"
    by (rule checkInvariants_Inr)
  have "\<exists>c \<in> set (db_batches (wd_db w)). br_ID c = t \<and> br_PoolID c = br_PoolID b"
    if "br_ReversesBatchID b = Some t" for t
    using checkUniversal_Inr(6) [OF u, of t] that b(2) w1 posted(3)
    by (auto simp: q_GetLedgerBatch_def dest: find_row_Some)
  then show ?thesis
    using b checkUniversal_Inr(5) [OF u] by (auto simp: unique_when_def)
qed

end

