(* ===== verification/Verify.thy ===== *)
theory Verify
  imports LedgerState "HOL-Library.AList"
begin

text \<open>
  The replay (internal/ledger/verify.go): \<open>Verify\<close> reads the whole ledger from the first batch, a
  page at a time, and reports what does not hold. A check that the code writes as a sequence of
  conditional \<open>v.find\<close> calls is a function to the list of its findings, in the same order, which
  \<open>record_findings\<close> puts on the report. The sentence of a finding is not modelled; its kind and
  its location are. The progress callback is left out.

  The three paging loops of the code are one function, \<open>paged\<close>, on fuel; one page more than there
  are rows is enough, since every page but the last one has a row.
\<close>

section \<open>Findings and reports\<close>

datatype finding_kind =
    FindingSeqGap
  | FindingPrevHashMismatch
  | FindingBatchHashMismatch
  | FindingEntryCountMismatch
  | FindingNetAmountMismatch
  | FindingEntryDenormMismatch
  | FindingLedgerHeadMismatch
  | FindingSnapshotAmountMismatch
  | FindingSnapshotEntryCountMismatch
  | FindingSnapshotAsOfSeqMismatch
  | FindingSnapshotMissing
  | FindingSnapshotOrphan
  | FindingBalanceOverflow
  | FindingAuditSeqGap
  | FindingAuditPrevHashMismatch
  | FindingAuditHashMismatch
  | FindingAuditHeadMismatch

record finding =
  fd_Kind :: finding_kind
  fd_PoolID :: ulid
  fd_Seq :: i64
  fd_BatchID :: ulid
  fd_AccountID :: ulid
  fd_BalanceKind :: string

record pool_report =
  pr_PoolID :: ulid
  pr_Batches :: i64
  pr_Entries :: i64
  pr_Snapshots :: i64
  pr_HeadSeq :: i64
  pr_Head :: string

record audit_report =
  ad_Rows :: i64
  ad_HeadSeq :: i64
  ad_Head :: string

record report =
  rp_Pools :: "pool_report list"
  rp_Audit :: audit_report
  rp_Findings :: "finding list"
  rp_FindingCount :: i64

definition Clean :: "report \<Rightarrow> bool" where "Clean r \<longleftrightarrow> rp_FindingCount r = 0"

definition Truncated :: "report \<Rightarrow> bool" where
  "Truncated r \<longleftrightarrow> word_of_nat (length (rp_Findings r)) <s rp_FindingCount r"

definition sumPools :: "pool_report list \<Rightarrow> (pool_report \<Rightarrow> i64) \<Rightarrow> i64" where
  "sumPools pools field = fold (\<lambda>p n. n + field p) pools 0"

definition Batches :: "report \<Rightarrow> i64" where "Batches r = sumPools (rp_Pools r) pr_Batches"
definition Entries :: "report \<Rightarrow> i64" where "Entries r = sumPools (rp_Pools r) pr_Entries"
definition Snapshots :: "report \<Rightarrow> i64" where "Snapshots r = sumPools (rp_Pools r) pr_Snapshots"

text \<open>The zero value of an option is its default; a negative \<open>MaxFindings\<close> retains everything.\<close>

record verify_options =
  vo_PageSize :: i64
  vo_MaxFindings :: int

definition orDefaultInt64 :: "i64 \<Rightarrow> i64 \<Rightarrow> i64" where
  "orDefaultInt64 v fallback = (if v \<le>s 0 then fallback else v)"

definition orDefaultInt :: "int \<Rightarrow> int \<Rightarrow> int" where
  "orDefaultInt v fallback = (if v = 0 then fallback else v)"

definition DefaultVerifyPageSize :: i64 where "DefaultVerifyPageSize = 512"
definition DefaultVerifyMaxFindings :: int where "DefaultVerifyMaxFindings = 100"

text \<open>\<open>verifier.find\<close>: every finding counts, the first \<open>maxFindings\<close> are kept.\<close>

definition find_one :: "int \<Rightarrow> finding \<Rightarrow> report \<Rightarrow> report" where
  "find_one mx f r =
     (let r' = r\<lparr>rp_FindingCount := rp_FindingCount r + 1\<rparr> in
      if 0 \<le> mx \<and> mx \<le> int (length (rp_Findings r)) then r'
      else r'\<lparr>rp_Findings := rp_Findings r @ [f]\<rparr>)"

definition record_findings :: "int \<Rightarrow> finding list \<Rightarrow> report \<Rightarrow> report" where
  "record_findings mx fs r = fold (find_one mx) fs r"

section \<open>The checks of one row\<close>

definition when_finding :: "bool \<Rightarrow> finding \<Rightarrow> finding list" where
  "when_finding c f = (if c then [f] else [])"

definition sumEntries :: "entry_row list \<Rightarrow> centipoints option" where
  "sumEntries es = sum_cp 0 (map er_AmountCp es)"

definition checkBatch ::
    "(string \<Rightarrow> string) \<Rightarrow> batch_row \<Rightarrow> entry_row list \<Rightarrow> string option \<Rightarrow> i64 \<Rightarrow> finding list" where
  "checkBatch H b es prev wantSeq =
     (let at = \<lparr>fd_Kind = FindingSeqGap, fd_PoolID = br_PoolID b, fd_Seq = br_Seq b,
        fd_BatchID = br_ID b, fd_AccountID = [], fd_BalanceKind = []\<rparr> in
      when_finding (br_Seq b \<noteq> wantSeq) (at\<lparr>fd_Kind := FindingSeqGap\<rparr>) @
      when_finding (bytes_of (br_PrevHash b) \<noteq> bytes_of prev) (at\<lparr>fd_Kind := FindingPrevHashMismatch\<rparr>) @
      when_finding (BatchHash H (br_PrevHash b) b es \<noteq> br_Hash b)
        (at\<lparr>fd_Kind := FindingBatchHashMismatch\<rparr>) @
      when_finding (br_EntryCount b \<noteq> word_of_nat (length es))
        (at\<lparr>fd_Kind := FindingEntryCountMismatch\<rparr>) @
      (case sumEntries es of
         None \<Rightarrow> [at\<lparr>fd_Kind := FindingNetAmountMismatch\<rparr>]
       | Some net \<Rightarrow> when_finding (net \<noteq> br_NetAmountCp b) (at\<lparr>fd_Kind := FindingNetAmountMismatch\<rparr>)) @
      map (\<lambda>e. at\<lparr>fd_Kind := FindingEntryDenormMismatch, fd_AccountID := er_AccountID e,
             fd_BalanceKind := er_BalanceKind e\<rparr>)
        (filter (\<lambda>e. \<not> (er_PoolID e = br_PoolID b \<and> er_Seq e = br_Seq b)) es))"

text \<open>The accumulators: one per account and balance kind, in a map.\<close>

record fold_acc =
  fa_AmountCp :: centipoints
  fa_EntryCount :: i64
  fa_MaxSeq :: i64
  fa_Overflowed :: bool

type_synonym snap_key = "ulid \<times> string"
type_synonym fold_map = "(snap_key \<times> fold_acc) list"

definition acc0 :: fold_acc where
  "acc0 = \<lparr>fa_AmountCp = 0, fa_EntryCount = 0, fa_MaxSeq = 0, fa_Overflowed = False\<rparr>"

definition acc_at :: "fold_map \<Rightarrow> snap_key \<Rightarrow> fold_acc" where
  "acc_at m k = (case map_of m k of None \<Rightarrow> acc0 | Some a \<Rightarrow> a)"

definition add_entry :: "entry_row \<Rightarrow> fold_acc \<Rightarrow> fold_acc" where
  "add_entry e acc =
     (let acc1 = (case addCentipoints (fa_AmountCp acc) (er_AmountCp e) of
          Some s \<Rightarrow> acc\<lparr>fa_AmountCp := s\<rparr> | None \<Rightarrow> acc\<lparr>fa_Overflowed := True\<rparr>) in
      acc1\<lparr>fa_EntryCount := fa_EntryCount acc + 1,
           fa_MaxSeq := if fa_MaxSeq acc <s er_Seq e then er_Seq e else fa_MaxSeq acc\<rparr>)"

definition snap_key_of :: "entry_row \<Rightarrow> snap_key" where
  "snap_key_of e = (er_AccountID e, er_BalanceKind e)"

fun foldEntries :: "fold_map \<Rightarrow> entry_row list \<Rightarrow> fold_map" where
  "foldEntries m [] = m"
| "foldEntries m (e # es) =
    foldEntries (AList.update (snap_key_of e) (add_entry e (acc_at m (snap_key_of e))) m) es"

definition checkSnapshotRow :: "ulid \<Rightarrow> snap_key \<Rightarrow> snapshot_row \<Rightarrow> fold_map \<Rightarrow> finding list" where
  "checkSnapshotRow pool k row m =
     (let at = \<lparr>fd_Kind = FindingSnapshotOrphan, fd_PoolID = pool, fd_Seq = 0, fd_BatchID = [],
        fd_AccountID = fst k, fd_BalanceKind = snd k\<rparr> in
      case map_of m k of None \<Rightarrow> [at]
      | Some acc \<Rightarrow>
        (if fa_Overflowed acc then [at\<lparr>fd_Kind := FindingBalanceOverflow, fd_Seq := fa_MaxSeq acc\<rparr>]
         else when_finding (sn_AmountCp row \<noteq> fa_AmountCp acc)
           (at\<lparr>fd_Kind := FindingSnapshotAmountMismatch, fd_Seq := fa_MaxSeq acc\<rparr>)) @
        when_finding (sn_EntryCount row \<noteq> fa_EntryCount acc)
          (at\<lparr>fd_Kind := FindingSnapshotEntryCountMismatch, fd_Seq := fa_MaxSeq acc\<rparr>) @
        when_finding (sn_AsOfSeq row \<noteq> fa_MaxSeq acc)
          (at\<lparr>fd_Kind := FindingSnapshotAsOfSeqMismatch, fd_Seq := fa_MaxSeq acc\<rparr>))"

text \<open>What is left of the accumulators has no cached row.\<close>

definition missing_findings :: "ulid \<Rightarrow> fold_map \<Rightarrow> finding list" where
  "missing_findings pool m = map (\<lambda>(k, acc).
     \<lparr>fd_Kind = (if fa_Overflowed acc then FindingBalanceOverflow else FindingSnapshotMissing),
      fd_PoolID = pool, fd_Seq = fa_MaxSeq acc, fd_BatchID = [], fd_AccountID = fst k,
      fd_BalanceKind = snd k\<rparr>) (sort_key fst m)"

definition checkAuditRow :: "(string \<Rightarrow> string) \<Rightarrow> audit_row \<Rightarrow> string option \<Rightarrow> i64 \<Rightarrow> finding list" where
  "checkAuditRow H a prev wantSeq =
     (let at = \<lparr>fd_Kind = FindingAuditSeqGap, fd_PoolID = [], fd_Seq = au_Seq a, fd_BatchID = [],
        fd_AccountID = [], fd_BalanceKind = []\<rparr> in
      when_finding (au_Seq a \<noteq> wantSeq) (at\<lparr>fd_Kind := FindingAuditSeqGap\<rparr>) @
      when_finding (bytes_of (au_PrevHash a) \<noteq> bytes_of prev)
        (at\<lparr>fd_Kind := FindingAuditPrevHashMismatch\<rparr>) @
      when_finding (AuditHash H (au_PrevHash a) a \<noteq> au_Hash a)
        (at\<lparr>fd_Kind := FindingAuditHashMismatch\<rparr>))"

section \<open>The walk\<close>

fun foldA :: "('r \<Rightarrow> 's \<Rightarrow> 's act) \<Rightarrow> 'r list \<Rightarrow> 's \<Rightarrow> 's act" where
  "foldA body [] s = retA s"
| "foldA body (r # rs) s = bindA (body r s) (\<lambda>s'. foldA body rs s')"

fun paged :: "nat \<Rightarrow> ('c \<Rightarrow> 'r list act) \<Rightarrow> ('r \<Rightarrow> 's \<Rightarrow> 's act) \<Rightarrow> ('r \<Rightarrow> 'c) \<Rightarrow> 'c \<Rightarrow> 's \<Rightarrow> 's act" where
  "paged 0 list_after body key c s = liftA (Inl (ErrExternal ''out of fuel''))"
| "paged (Suc n) list_after body key c s = bindA (list_after c) (\<lambda>rows.
     if rows = [] then retA s
     else bindA (foldA body rows s) (\<lambda>s'. paged n list_after body key (key (last rows)) s'))"

text \<open>
  The locals of \<open>verifier.pool\<close>. The variables \<open>prev\<close> and \<open>lastHash\<close> of the code always hold the
  same hash and are one field; \<open>cursor\<close> is the loop's.
\<close>

record pool_walk =
  pw_Prev :: "string option"
  pw_WantSeq :: i64
  pw_Pool :: pool_report
  pw_Fold :: fold_map
  pw_Report :: report

definition batchEntries :: "env \<Rightarrow> batch_row \<Rightarrow> entry_row list act" where
  "batchEntries env b = query env (\<lambda>db. Inr (ListEntriesByBatch (br_ID b) db))"

definition pool_step :: "(string \<Rightarrow> string) \<Rightarrow> int \<Rightarrow> batch_row \<Rightarrow> entry_row list \<Rightarrow> pool_walk \<Rightarrow> pool_walk" where
  "pool_step H mx b es s =
     s\<lparr>pw_Report := record_findings mx (checkBatch H b es (pw_Prev s) (pw_WantSeq s)) (pw_Report s),
       pw_Fold := foldEntries (pw_Fold s) es,
       pw_Pool := (pw_Pool s)\<lparr>pr_Batches := pr_Batches (pw_Pool s) + 1,
         pr_Entries := pr_Entries (pw_Pool s) + word_of_nat (length es), pr_HeadSeq := br_Seq b\<rparr>,
       pw_Prev := Some (br_Hash b), pw_WantSeq := br_Seq b + 1\<rparr>"

text \<open>\<open>checkHead\<close>: a head that cannot be read or decoded is a finding too.\<close>

definition head_findings :: "string option res \<Rightarrow> string option \<Rightarrow> finding \<Rightarrow> finding list" where
  "head_findings stored last_hash at = (case stored of Inl _ \<Rightarrow> [at]
     | Inr h \<Rightarrow> when_finding (bytes_of h \<noteq> bytes_of last_hash) at)"

definition checkHead :: "env \<Rightarrow> int \<Rightarrow> string \<Rightarrow> string option \<Rightarrow> finding \<Rightarrow> report \<Rightarrow> report act" where
  "checkHead env mx key last_hash at r w =
     (case readHead env key w of (stored, w') \<Rightarrow>
        (Inr (record_findings mx (head_findings stored last_hash at) r), w'))"

record snapshot_walk =
  sw_Fold :: fold_map
  sw_Count :: i64
  sw_Report :: report

definition row_key :: "snapshot_row \<Rightarrow> snap_key" where
  "row_key s = (sn_AccountID s, sn_BalanceKind s)"

definition snapshot_step :: "int \<Rightarrow> ulid \<Rightarrow> snapshot_row \<Rightarrow> snapshot_walk \<Rightarrow> snapshot_walk" where
  "snapshot_step mx pool row s =
     s\<lparr>sw_Report := record_findings mx (checkSnapshotRow pool (row_key row) row (sw_Fold s)) (sw_Report s),
       sw_Fold := AList.delete (row_key row) (sw_Fold s), sw_Count := sw_Count s + 1\<rparr>"

definition checkSnapshots ::
    "nat \<Rightarrow> env \<Rightarrow> i64 \<Rightarrow> int \<Rightarrow> ulid \<Rightarrow> fold_map \<Rightarrow> report \<Rightarrow> (i64 \<times> report) act" where
  "checkSnapshots fuel env page mx pool m r =
     bindA (paged fuel
         (\<lambda>c. query env (\<lambda>db. Inr (ListSnapshotsAfter pool c page db)))
         (\<lambda>row s. retA (snapshot_step mx pool row s)) row_key ([], [])
         \<lparr>sw_Fold = m, sw_Count = 0, sw_Report = r\<rparr>) (\<lambda>s.
       retA (sw_Count s, record_findings mx (missing_findings pool (sw_Fold s)) (sw_Report s)))"

definition pool_walk0 :: "ulid \<Rightarrow> report \<Rightarrow> pool_walk" where
  "pool_walk0 pool r = \<lparr>pw_Prev = None, pw_WantSeq = 1,
     pw_Pool = \<lparr>pr_PoolID = pool, pr_Batches = 0, pr_Entries = 0, pr_Snapshots = 0, pr_HeadSeq = 0,
       pr_Head = []\<rparr>, pw_Fold = [], pw_Report = r\<rparr>"

definition head_of :: "string option \<Rightarrow> string" where
  "head_of h = (case h of None \<Rightarrow> [] | Some s \<Rightarrow> encodeHead s)"

definition verify_pool :: "nat \<Rightarrow> env \<Rightarrow> i64 \<Rightarrow> int \<Rightarrow> ulid \<Rightarrow> report \<Rightarrow> report act" where
  "verify_pool fuel env page mx pool r =
     bindA (paged fuel
         (\<lambda>c. query env (\<lambda>db. Inr (ListBatchesAfterSeq pool c page db)))
         (\<lambda>b s. bindA (batchEntries env b) (\<lambda>es. retA (pool_step (ev_SHA256 env) mx b es s)))
         br_Seq 0 (pool_walk0 pool r)) (\<lambda>s.
       let pr = (pw_Pool s)\<lparr>pr_Head := head_of (pw_Prev s)\<rparr> in
       bindA (checkHead env mx (MetaLedgerHeadKey pool) (pw_Prev s)
           \<lparr>fd_Kind = FindingLedgerHeadMismatch, fd_PoolID = pool, fd_Seq = pr_HeadSeq pr,
            fd_BatchID = [], fd_AccountID = [], fd_BalanceKind = []\<rparr> (pw_Report s)) (\<lambda>r1.
       bindA (checkSnapshots fuel env page mx pool (pw_Fold s) r1) (\<lambda>(n, r2).
         retA (r2\<lparr>rp_Pools := rp_Pools r2 @ [pr\<lparr>pr_Snapshots := n\<rparr>]\<rparr>))))"

record audit_walk =
  aw_Prev :: "string option"
  aw_WantSeq :: i64
  aw_Rows :: audit_report
  aw_Report :: report

definition audit_step :: "(string \<Rightarrow> string) \<Rightarrow> int \<Rightarrow> audit_row \<Rightarrow> audit_walk \<Rightarrow> audit_walk" where
  "audit_step H mx a s =
     s\<lparr>aw_Report := record_findings mx (checkAuditRow H a (aw_Prev s) (aw_WantSeq s)) (aw_Report s),
       aw_Rows := (aw_Rows s)\<lparr>ad_Rows := ad_Rows (aw_Rows s) + 1, ad_HeadSeq := au_Seq a\<rparr>,
       aw_Prev := Some (au_Hash a), aw_WantSeq := au_Seq a + 1\<rparr>"

definition auditChain :: "nat \<Rightarrow> env \<Rightarrow> i64 \<Rightarrow> int \<Rightarrow> report \<Rightarrow> report act" where
  "auditChain fuel env page mx r =
     bindA (paged fuel
         (\<lambda>c. query env (\<lambda>db. Inr (ListAuditRowsAfterSeq c page db)))
         (\<lambda>a s. retA (audit_step (ev_SHA256 env) mx a s)) au_Seq 0
         \<lparr>aw_Prev = None, aw_WantSeq = 1, aw_Rows = rp_Audit r, aw_Report = r\<rparr>) (\<lambda>s.
       let ad = (aw_Rows s)\<lparr>ad_Head := head_of (aw_Prev s)\<rparr> in
       checkHead env mx MetaAuditHeadKey (aw_Prev s)
         \<lparr>fd_Kind = FindingAuditHeadMismatch, fd_PoolID = [], fd_Seq = ad_HeadSeq ad,
          fd_BatchID = [], fd_AccountID = [], fd_BalanceKind = []\<rparr>
         ((aw_Report s)\<lparr>rp_Audit := ad\<rparr>))"

definition report0 :: report where
  "report0 = \<lparr>rp_Pools = [], rp_Audit = \<lparr>ad_Rows = 0, ad_HeadSeq = 0, ad_Head = []\<rparr>,
     rp_Findings = [], rp_FindingCount = 0\<rparr>"

definition verify_with :: "nat \<Rightarrow> env \<Rightarrow> verify_options \<Rightarrow> report act" where
  "verify_with fuel env opts =
     (let page = orDefaultInt64 (vo_PageSize opts) DefaultVerifyPageSize;
          mx = orDefaultInt (vo_MaxFindings opts) DefaultVerifyMaxFindings in
      bindA (query env (\<lambda>db. Inr (ListPoolIDs db))) (\<lambda>poolIDs.
      bindA (foldA (verify_pool fuel env page mx) poolIDs report0) (\<lambda>r.
        auditChain fuel env page mx r)))"

text \<open>The fuel of every loop: one more than all the rows there are to read.\<close>

definition page_fuel :: "database \<Rightarrow> nat" where
  "page_fuel db = Suc (length (db_batches db) + length (db_snapshots db) + length (db_audit db))"

definition Verify :: "env \<Rightarrow> verify_options \<Rightarrow> report act" where
  "Verify env opts w = verify_with (page_fuel (wd_db w)) env opts w"

end
