(* ===== verification/Replay.thy ===== *)
theory Replay
  imports Verify
begin

text \<open>
  The replay without its pages: \<open>replay\<close> is one pass over the sorted rows, and \<open>Verify\<close> computes it
  whatever its page size. What the paging loop needs of a listing is the locale \<open>listing\<close>, interpreted on the batches of a
  pool, on its cached balances and on the audit log. Then what a report without findings means, check by check.
\<close>

section \<open>Reading actions over a fixed database\<close>

definition quiet :: "env \<Rightarrow> bool" where "quiet env \<longleftrightarrow> (\<forall>n. ev_Fault env n = None)"

definition runs :: "'a act \<Rightarrow> database \<Rightarrow> 'a \<Rightarrow> bool" where
  "runs m db x \<longleftrightarrow> (\<forall>w. wd_db w = db \<longrightarrow> fst (m w) = Inr x \<and> wd_db (snd (m w)) = db)"

lemma runs_retA: "runs (retA x) db x"
  by (simp add: runs_def retA_def)

lemma runs_query: "quiet env \<Longrightarrow> f db = Inr x \<Longrightarrow> runs (query env f) db x"
  by (auto simp: runs_def quiet_def query_def exec_returning_def)

lemma runs_bindA: "runs m db x \<Longrightarrow> runs (k x) db y \<Longrightarrow> runs (bindA m k) db y"
  unfolding runs_def bindA_def by (auto split: prod.splits sum.splits)

lemma runs_world: "(\<And>w. wd_db w = db \<Longrightarrow> m w = m' w) \<Longrightarrow> runs m' db x \<Longrightarrow> runs m db x"
  by (simp add: runs_def)

lemma runs_foldA:
  "(\<And>r s. r \<in> set rs \<Longrightarrow> runs (body r s) db (step r s)) \<Longrightarrow> runs (foldA body rs s) db (fold step rs s)"
  by (induction rs arbitrary: s) (auto intro: runs_retA runs_bindA)

section \<open>Paging\<close>

text \<open>What the keys and the foreign keys of the schema promise of any database file.\<close>

definition schema_ok :: "database \<Rightarrow> bool" where
  "schema_ok db \<longleftrightarrow> distinct (map br_ID (db_batches db)) \<and>
     distinct (map (\<lambda>b. (br_PoolID b, br_Seq b)) (db_batches db)) \<and>
     distinct (map snapshot_key (db_snapshots db)) \<and> distinct (map au_Seq (db_audit db)) \<and>
     distinct (map er_ID (db_entries db)) \<and>
     (\<forall>b \<in> set (db_batches db). br_PoolID b \<in> set (db_pools db)) \<and>
     (\<forall>e \<in> set (db_entries db). er_BatchID e \<in> br_ID ` set (db_batches db) \<and> er_PoolID e \<in> set (db_pools db)) \<and>
     (\<forall>s \<in> set (db_snapshots db). sn_PoolID s \<in> set (db_pools db))"

text \<open>
  What the paging loop relies on: a listing of the rows behind a cursor, in the order of their
  keys, cut at the page size; and keys that are unique in a legal database.
\<close>

locale listing =
  fixes legal :: "database \<Rightarrow> bool" and list_after :: "'c \<Rightarrow> i64 \<Rightarrow> database \<Rightarrow> 'r list"
    and rows :: "database \<Rightarrow> 'r list" and key :: "'r \<Rightarrow> 'c" and pos :: "'c \<Rightarrow> 'k :: linorder"
  assumes list_after: "list_after c page db = sql_limit page (filter (\<lambda>r. pos c < pos (key r)) (rows db))"
    and ordered: "sorted (map (\<lambda>r. pos (key r)) (rows db))"
    and unique: "legal db \<Longrightarrow> distinct (map (\<lambda>r. pos (key r)) (rows db))"
begin

definition rest :: "database \<Rightarrow> 'c \<Rightarrow> 'r list" where
  "rest db c = filter (\<lambda>r. pos c < pos (key r)) (rows db)"

lemma rest_increasing:
  "sorted (map (\<lambda>r. pos (key r)) (rest db c))"
  "legal db \<Longrightarrow> distinct (map (\<lambda>r. pos (key r)) (rest db c))"
  using ordered unique by (auto simp: rest_def sorted_filter distinct_map_filter)

text \<open>After a page, what is left starts right behind its last row.\<close>

lemma rest_page:
  assumes "legal db" "rest db c = xs @ ys" "xs \<noteq> []"
  shows "rest db (key (last xs)) = ys"
proof -
  let ?f = "\<lambda>r. pos (key r)"
  have "rest db c = butlast xs @ last xs # ys" using assms(2,3) by simp
  then have inc: "sorted (map ?f (butlast xs @ last xs # ys))" "distinct (map ?f (butlast xs @ last xs # ys))"
    using rest_increasing(1) [of db c] rest_increasing(2) [OF assms(1), of c] by simp_all
  have "\<forall>x \<in> set (butlast xs @ [last xs]). ?f x \<le> ?f (last xs)"
    using inc(1) by (auto simp: sorted_append)
  then have le: "x \<in> set xs \<Longrightarrow> ?f x \<le> ?f (last xs)" for x
    using assms(3) by simp
  have gt: "y \<in> set ys \<Longrightarrow> ?f (last xs) < ?f y" for y
    using inc by (auto simp: sorted_append less_le image_iff)
  have "last xs \<in> set (rest db c)" using assms(2,3) by simp
  then have c: "pos c < ?f (last xs)" by (simp add: rest_def)
  have "rest db (key (last xs)) = filter (\<lambda>r. ?f (last xs) < ?f r) (rest db c)"
    unfolding rest_def filter_filter by (intro filter_cong) (use c in auto)
  also have "\<dots> = ys"
    using le gt by (auto simp: assms(2) filter_empty_conv filter_id_conv not_less)
  finally show ?thesis .
qed

lemma runs_paged:
  assumes "legal db" "quiet env" "0 <s page"
    and body: "\<And>r s. r \<in> set (rows db) \<Longrightarrow> runs (body r s) db (step r s)"
  shows "length (rest db c) < fuel \<Longrightarrow>
    runs (paged fuel (\<lambda>c. query env (\<lambda>db. Inr (list_after c page db))) body key c s) db (fold step (rest db c) s)"
proof (induction fuel arbitrary: c s)
  case (Suc n)
  let ?n = "nat (sint page)" and ?list = "\<lambda>c. query env (\<lambda>db. Inr (list_after c page db))"
  let ?xs = "take ?n (rest db c)" and ?ys = "drop ?n (rest db c)"
  have size: "sql_limit page zs = take ?n zs" "0 < ?n" for zs :: "'r list"
    using assms(3) by (auto simp: sql_limit_def sless_sint)
  have page: "runs (?list c) db ?xs"
    using assms(2) by (intro runs_query) (simp_all add: list_after rest_def size(1))
  show ?case
    unfolding paged.simps
  proof (rule runs_bindA [OF page])
    show "runs (if ?xs = [] then retA s else bindA (foldA body ?xs s)
        (\<lambda>s'. paged n ?list body key (key (last ?xs)) s')) db (fold step (rest db c) s)"
    proof (cases "?xs = []")
      case True
      then have "rest db c = []" using size(2) by simp
      then show ?thesis by (simp add: runs_retA)
    next
      case False
      have r: "rest db (key (last ?xs)) = ?ys" by (rule rest_page [OF assms(1) _ False]) simp
      have "set ?xs \<subseteq> set (rows db)" using set_take_subset [of ?n "rest db c"] by (auto simp: rest_def)
      then have b: "runs (foldA body ?xs s) db (fold step ?xs s)"
        using body by (intro runs_foldA) auto
      have "length ?ys < n" using Suc.prems size(2) False by (cases "rest db c") auto
      then have "runs (paged n ?list body key (key (last ?xs)) (fold step ?xs s)) db
          (fold step ?ys (fold step ?xs s))"
        using Suc.IH [of "key (last ?xs)"] r by simp
      moreover have "fold step (rest db c) s = fold step ?ys (fold step ?xs s)"
        by (metis append_take_drop_id fold_append comp_apply)
      ultimately show ?thesis using False runs_bindA [OF b] by simp
    qed
  qed
qed simp

text \<open>The whole walk, from a cursor, with fuel for every row there is.\<close>

lemma runs_walk:
  assumes "legal db" "quiet env" "0 <s page" "length (rows db) < fuel"
    and "\<And>r s. r \<in> set (rows db) \<Longrightarrow> runs (body r s) db (step r s)"
  shows "runs (paged fuel (\<lambda>c. query env (\<lambda>db. Inr (list_after c page db))) body key c s) db
    (fold step (rest db c) s)"
proof (rule runs_paged [OF assms(1-3,5)])
  show "length (rest db c) < fuel"
    unfolding rest_def using assms(4) by (rule le_less_trans [OF length_filter_le])
qed

end

text \<open>The three listings of the store.\<close>

lemma distinct_map_sint: "distinct (map (\<lambda>x. sint (f x)) xs) \<longleftrightarrow> distinct (map f xs)" for f :: "'a \<Rightarrow> i64"
  by (simp add: distinct_map inj_on_def sint_inject64)

lemma distinct_map_sort: "distinct (map f (sort_key g xs)) = distinct (map f xs)"
  by (simp add: distinct_map inj_on_def)

definition pool_rows :: "ulid \<Rightarrow> database \<Rightarrow> batch_row list" where
  "pool_rows pool db = sort_key (\<lambda>b. sint (br_Seq b)) (filter (\<lambda>b. br_PoolID b = pool) (db_batches db))"

definition snapshot_rows :: "ulid \<Rightarrow> database \<Rightarrow> snapshot_row list" where
  "snapshot_rows pool db = sort_key row_key (filter (\<lambda>s. sn_PoolID s = pool) (db_snapshots db))"

definition audit_rows :: "database \<Rightarrow> audit_row list" where
  "audit_rows db = sort_key (\<lambda>a. sint (au_Seq a)) (db_audit db)"

interpretation batches: listing schema_ok "ListBatchesAfterSeq pool" "pool_rows pool" br_Seq sint for pool
proof
  fix db assume "schema_ok db"
  then have "distinct (map (\<lambda>b. (br_PoolID b, br_Seq b)) (filter (\<lambda>b. br_PoolID b = pool) (db_batches db)))"
    by (simp add: schema_ok_def distinct_map_filter)
  then have "distinct (map br_Seq (filter (\<lambda>b. br_PoolID b = pool) (db_batches db)))"
    by (auto simp: distinct_map inj_on_def)
  then show "distinct (map (\<lambda>r. sint (br_Seq r)) (pool_rows pool db))"
    by (simp add: pool_rows_def distinct_map_sort distinct_map_sint)
qed (simp_all add: pool_rows_def ListBatchesAfterSeq_def filter_sort sless_sint conj_commute)

interpretation snapshots: listing schema_ok "ListSnapshotsAfter pool" "snapshot_rows pool" row_key "\<lambda>k. k" for pool
proof
  fix db assume "schema_ok db"
  then have "distinct (map snapshot_key (filter (\<lambda>s. sn_PoolID s = pool) (db_snapshots db)))"
    by (simp add: schema_ok_def distinct_map_filter)
  then have "distinct (map row_key (filter (\<lambda>s. sn_PoolID s = pool) (db_snapshots db)))"
    by (auto simp: distinct_map inj_on_def snapshot_key_def row_key_def)
  then show "distinct (map row_key (snapshot_rows pool db))"
    by (simp add: snapshot_rows_def distinct_map_sort)
qed (simp_all add: snapshot_rows_def ListSnapshotsAfter_def filter_sort row_key_def [symmetric] conj_commute)

interpretation audit: listing schema_ok ListAuditRowsAfterSeq audit_rows au_Seq sint
proof
  fix db assume "schema_ok db"
  then show "distinct (map (\<lambda>r. sint (au_Seq r)) (audit_rows db))"
    by (simp add: audit_rows_def distinct_map_sort distinct_map_sint schema_ok_def)
qed (simp_all add: audit_rows_def ListAuditRowsAfterSeq_def filter_sort sless_sint)

definition walk_batches :: "ulid \<Rightarrow> database \<Rightarrow> batch_row list" where
  "walk_batches pool db = sort_key (\<lambda>b. sint (br_Seq b)) (filter (\<lambda>b. br_PoolID b = pool \<and> 0 <s br_Seq b) (db_batches db))"

definition walk_snapshots :: "ulid \<Rightarrow> database \<Rightarrow> snapshot_row list" where
  "walk_snapshots pool db = sort_key row_key (filter (\<lambda>s. sn_PoolID s = pool \<and> ([], []) < row_key s) (db_snapshots db))"

definition walk_audit :: "database \<Rightarrow> audit_row list" where
  "walk_audit db = sort_key (\<lambda>a. sint (au_Seq a)) (filter (\<lambda>a. 0 <s au_Seq a) (db_audit db))"

lemma walk_rests:
  "batches.rest pool db 0 = walk_batches pool db"
  "snapshots.rest pool db ([], []) = walk_snapshots pool db"
  "audit.rest db 0 = walk_audit db"
  by (simp_all add: batches.rest_def snapshots.rest_def audit.rest_def walk_batches_def walk_snapshots_def
      walk_audit_def pool_rows_def snapshot_rows_def audit_rows_def filter_sort sless_sint conj_commute)

section \<open>One pass\<close>

definition replay_batches :: "(string \<Rightarrow> string) \<Rightarrow> int \<Rightarrow> database \<Rightarrow> ulid \<Rightarrow> report \<Rightarrow> pool_walk" where
  "replay_batches H mx db pool r =
     fold (\<lambda>b. pool_step H mx b (ListEntriesByBatch (br_ID b) db)) (walk_batches pool db) (pool_walk0 pool r)"

definition replay_snapshots :: "int \<Rightarrow> database \<Rightarrow> ulid \<Rightarrow> fold_map \<Rightarrow> report \<Rightarrow> i64 \<times> report" where
  "replay_snapshots mx db pool m r =
     (let s = fold (snapshot_step mx pool) (walk_snapshots pool db)
        \<lparr>sw_Fold = m, sw_Count = 0, sw_Report = r\<rparr> in
      (sw_Count s, record_findings mx (missing_findings pool (sw_Fold s)) (sw_Report s)))"

definition stored_head :: "database \<Rightarrow> string \<Rightarrow> string option res" where
  "stored_head db key = (case GetMetaValue key db of None \<Rightarrow> Inr None
     | Some v \<Rightarrow> bindR (decodeHead v) (\<lambda>h. Inr (Some h)))"

text \<open>
  The heads that \<open>Verify\<close> compares parse. The comments on \<open>Verify\<close> and \<open>checkHead\<close> promise an error for a
  head that does not, and the code records a finding, so the properties of a replay are about databases
  whose heads do.
\<close>

definition heads_readable :: "database \<Rightarrow> bool" where
  "heads_readable db \<longleftrightarrow> \<not> isl (stored_head db MetaAuditHeadKey) \<and>
     (\<forall>pool \<in> set (db_pools db). \<not> isl (stored_head db (MetaLedgerHeadKey pool)))"

definition pool_head_finding :: "ulid \<Rightarrow> i64 \<Rightarrow> finding" where
  "pool_head_finding pool seq = \<lparr>fd_Kind = FindingLedgerHeadMismatch, fd_PoolID = pool, fd_Seq = seq,
     fd_BatchID = [], fd_AccountID = [], fd_BalanceKind = []\<rparr>"

definition replay_pool :: "(string \<Rightarrow> string) \<Rightarrow> int \<Rightarrow> database \<Rightarrow> ulid \<Rightarrow> report \<Rightarrow> report" where
  "replay_pool H mx db pool r =
     (let s = replay_batches H mx db pool r;
          pr = (pw_Pool s)\<lparr>pr_Head := head_of (pw_Prev s)\<rparr>;
          r1 = record_findings mx (head_findings (stored_head db (MetaLedgerHeadKey pool)) (pw_Prev s)
                 (pool_head_finding pool (pr_HeadSeq pr))) (pw_Report s);
          (n, r2) = replay_snapshots mx db pool (pw_Fold s) r1 in
      r2\<lparr>rp_Pools := rp_Pools r2 @ [pr\<lparr>pr_Snapshots := n\<rparr>]\<rparr>)"

definition replay_audit :: "(string \<Rightarrow> string) \<Rightarrow> int \<Rightarrow> database \<Rightarrow> report \<Rightarrow> report" where
  "replay_audit H mx db r =
     (let s = fold (audit_step H mx) (walk_audit db)
        \<lparr>aw_Prev = None, aw_WantSeq = 1, aw_Rows = rp_Audit r, aw_Report = r\<rparr>;
          ad = (aw_Rows s)\<lparr>ad_Head := head_of (aw_Prev s)\<rparr> in
      record_findings mx (head_findings (stored_head db MetaAuditHeadKey) (aw_Prev s)
        \<lparr>fd_Kind = FindingAuditHeadMismatch, fd_PoolID = [], fd_Seq = ad_HeadSeq ad,
         fd_BatchID = [], fd_AccountID = [], fd_BalanceKind = []\<rparr>) ((aw_Report s)\<lparr>rp_Audit := ad\<rparr>))"

definition replay :: "(string \<Rightarrow> string) \<Rightarrow> int \<Rightarrow> database \<Rightarrow> report" where
  "replay H mx db = replay_audit H mx db (fold (replay_pool H mx db) (ListPoolIDs db) report0)"

lemma runs_batches:
  assumes "quiet env" "schema_ok db" "0 <s page" "length (db_batches db) < fuel"
  shows "runs (paged fuel
      (\<lambda>c. query env (\<lambda>db. Inr (ListBatchesAfterSeq pool c page db)))
      (\<lambda>b s. bindA (batchEntries env b) (\<lambda>es. retA (pool_step (ev_SHA256 env) mx b es s)))
      br_Seq 0 (pool_walk0 pool r)) db (replay_batches (ev_SHA256 env) mx db pool r)"
  unfolding replay_batches_def walk_rests(1) [symmetric]
proof (rule batches.runs_walk [OF assms(2,1,3)])
  show "length (pool_rows pool db) < fuel"
    using le_less_trans [OF length_filter_le assms(4)] by (simp add: pool_rows_def)
  show "runs (bindA (batchEntries env b) (\<lambda>es. retA (pool_step (ev_SHA256 env) mx b es s))) db
      (pool_step (ev_SHA256 env) mx b (ListEntriesByBatch (br_ID b) db) s)" for b s
    unfolding batchEntries_def using assms(1) by (intro runs_bindA [OF runs_query runs_retA]) simp_all
qed

lemma runs_checkHead:
  assumes "quiet env"
  shows "runs (checkHead env mx key h at r) db (record_findings mx (head_findings (stored_head db key) h at) r)"
proof -
  have "readHead env key w = (stored_head (wd_db w) key, w\<lparr>wd_stmts := Suc (wd_stmts w)\<rparr>)" for w
    using assms by (auto simp: readHead_def bindA_def query_def exec_returning_def quiet_def retA_def liftA_def
        stored_head_def Let_def bindR_def split: option.splits sum.splits)
  then show ?thesis by (simp add: runs_def checkHead_def)
qed

lemma runs_checkSnapshots:
  assumes "quiet env" "schema_ok db" "0 <s page" "length (db_snapshots db) < fuel"
  shows "runs (checkSnapshots fuel env page mx pool m r) db (replay_snapshots mx db pool m r)"
  unfolding replay_snapshots_def checkSnapshots_def Let_def walk_rests(2) [symmetric]
proof (rule runs_bindA [OF snapshots.runs_walk [OF assms(2,1,3)] runs_retA])
  show "length (snapshot_rows pool db) < fuel"
    using le_less_trans [OF length_filter_le assms(4)] by (simp add: snapshot_rows_def)
qed (rule runs_retA)

lemma runs_verify_pool:
  assumes "quiet env" "schema_ok db" "0 <s page" "page_fuel db \<le> fuel"
  shows "runs (verify_pool fuel env page mx pool r) db (replay_pool (ev_SHA256 env) mx db pool r)"
proof -
  have fuel: "length (db_batches db) < fuel" "length (db_snapshots db) < fuel"
    using assms(4) by (simp_all add: page_fuel_def)
  note walk = runs_batches [OF assms(1-3) fuel(1), of pool mx r]
  let ?s = "replay_batches (ev_SHA256 env) mx db pool r"
  let ?pr = "(pw_Pool ?s)\<lparr>pr_Head := head_of (pw_Prev ?s)\<rparr>"
  let ?r1 = "record_findings mx (head_findings (stored_head db (MetaLedgerHeadKey pool)) (pw_Prev ?s)
      (pool_head_finding pool (pr_HeadSeq ?pr))) (pw_Report ?s)"
  obtain n r2 where r2: "replay_snapshots mx db pool (pw_Fold ?s) ?r1 = (n, r2)" by fastforce
  have out: "replay_pool (ev_SHA256 env) mx db pool r = r2\<lparr>rp_Pools := rp_Pools r2 @ [?pr\<lparr>pr_Snapshots := n\<rparr>]\<rparr>"
    using r2 by (simp add: replay_pool_def Let_def)
  have snaps: "runs (checkSnapshots fuel env page mx pool (pw_Fold ?s) ?r1) db (n, r2)"
    using runs_checkSnapshots [OF assms(1-3) fuel(2)] by (metis r2)
  have head: "runs (checkHead env mx (MetaLedgerHeadKey pool) (pw_Prev ?s)
      \<lparr>fd_Kind = FindingLedgerHeadMismatch, fd_PoolID = pool, fd_Seq = pr_HeadSeq ?pr,
       fd_BatchID = [], fd_AccountID = [], fd_BalanceKind = []\<rparr> (pw_Report ?s)) db ?r1"
    unfolding pool_head_finding_def by (rule runs_checkHead [OF assms(1)])
  show ?thesis
    unfolding out verify_pool_def Let_def
    by (rule runs_bindA [OF walk], rule runs_bindA [OF head], rule runs_bindA [OF snaps]) (simp add: runs_retA)
qed

lemma runs_auditChain:
  assumes "quiet env" "schema_ok db" "0 <s page" "page_fuel db \<le> fuel"
  shows "runs (auditChain fuel env page mx r) db (replay_audit (ev_SHA256 env) mx db r)"
  unfolding replay_audit_def auditChain_def Let_def walk_rests(3) [symmetric]
proof (rule runs_bindA [OF audit.runs_walk [OF assms(2,1,3)] runs_checkHead [OF assms(1)]])
  show "length (audit_rows db) < fuel"
    using assms(4) by (simp add: audit_rows_def page_fuel_def)
qed (rule runs_retA)

definition page_of :: "verify_options \<Rightarrow> i64" where
  "page_of opts = orDefaultInt64 (vo_PageSize opts) DefaultVerifyPageSize"

definition cap_of :: "verify_options \<Rightarrow> int" where
  "cap_of opts = orDefaultInt (vo_MaxFindings opts) DefaultVerifyMaxFindings"

lemma page_of_pos: "0 <s page_of opts"
  by (simp add: page_of_def orDefaultInt64_def DefaultVerifyPageSize_def sless_sint sle_sint)

lemma runs_Verify:
  assumes "quiet env" "schema_ok db"
  shows "runs (Verify env opts) db (replay (ev_SHA256 env) (cap_of opts) db)"
proof (rule runs_world)
  show "Verify env opts w = verify_with (page_fuel db) env opts w" if "wd_db w = db" for w
    by (simp add: Verify_def that)
  have pools: "runs (query env (\<lambda>db. Inr (ListPoolIDs db))) db (ListPoolIDs db)"
    using assms(1) by (intro runs_query) simp_all
  have walk: "runs (foldA (verify_pool (page_fuel db) env (page_of opts) (cap_of opts)) (ListPoolIDs db) report0) db
      (fold (replay_pool (ev_SHA256 env) (cap_of opts) db) (ListPoolIDs db) report0)"
    by (intro runs_foldA runs_verify_pool assms page_of_pos order_refl)
  show "runs (verify_with (page_fuel db) env opts) db (replay (ev_SHA256 env) (cap_of opts) db)"
    unfolding verify_with_def Let_def replay_def page_of_def [symmetric] cap_of_def [symmetric]
    by (rule runs_bindA [OF pools], rule runs_bindA [OF walk])
      (intro runs_auditChain assms page_of_pos order_refl)
qed

text \<open>C21: The replay terminates and does not depend on its paging. On a database that obeys the keys of
  the schema and whose stored chain heads parse, when no statement fails, \<open>Verify\<close> returns, changes nothing,
  and its report is the one of a single pass over the sorted rows, for every page size.\<close>

theorem verify_is_one_pass:
  assumes "quiet env" "schema_ok (wd_db w)" "heads_readable (wd_db w)"
  shows "fst (Verify env opts w) = Inr (replay (ev_SHA256 env) (cap_of opts) (wd_db w)) \<and>
    wd_db (snd (Verify env opts w)) = wd_db w"
  using runs_Verify [OF assms(1,2)] by (simp add: runs_def)

end
