(* ===== verification/Progress.thy ===== *)
theory Progress
  imports Ledger Replay
begin

text \<open>
  A commit that may succeed does. The other theories say what a successful commit means; here the
  statements are run forwards: on a sound ledger, when no statement fails, the identifiers are new
  and the amounts leave room in 64 bits, a valid request whose proposal passes the checks is posted,
  and a key that was used is answered from the ledger. The last section is a small ledger on which
  the properties are instantiated.
\<close>

section \<open>Actions that end well\<close>

definition yields :: "'a act \<Rightarrow> world \<Rightarrow> ('a \<Rightarrow> world \<Rightarrow> bool) \<Rightarrow> bool" where
  "yields m w Q \<longleftrightarrow> (\<exists>x w'. m w = (Inr x, w') \<and> Q x w')"

lemma yields_retA [simp]: "yields (retA x) w Q \<longleftrightarrow> Q x w"
  by (simp add: yields_def retA_def)

lemma yields_liftA [simp]: "yields (liftA r) w Q \<longleftrightarrow> (\<exists>x. r = Inr x \<and> Q x w)"
  by (auto simp: yields_def liftA_def)

lemma yields_bindA: "yields m w Q \<Longrightarrow> (\<And>x w'. Q x w' \<Longrightarrow> yields (k x) w' R) \<Longrightarrow> yields (bindA m k) w R"
  unfolding yields_def bindA_eq by blast

lemma yields_weaken: "yields m w Q \<Longrightarrow> (\<And>x w'. Q x w' \<Longrightarrow> R x w') \<Longrightarrow> yields m w R"
  unfolding yields_def by blast

lemma yields_query:
  "quiet env \<Longrightarrow> f (wd_db w) = Inr x \<Longrightarrow> Q x (w\<lparr>wd_stmts := Suc (wd_stmts w)\<rparr>) \<Longrightarrow> yields (query env f) w Q"
  by (simp add: yields_def query_eq quiet_def)

lemma yields_exec:
  "quiet env \<Longrightarrow> f (wd_db w) = Inr db \<Longrightarrow> Q () (w\<lparr>wd_stmts := Suc (wd_stmts w), wd_db := db\<rparr>) \<Longrightarrow>
    yields (exec env f) w Q"
  by (simp add: yields_def exec_eq quiet_def)

lemma yields_exec_any:
  "quiet env \<Longrightarrow> \<exists>db. f (wd_db w) = Inr db \<and> Q () (w\<lparr>wd_stmts := Suc (wd_stmts w), wd_db := db\<rparr>) \<Longrightarrow>
    yields (exec env f) w Q"
  using yields_exec by blast

lemma bindA_step: "m w = (Inr x, w1) \<Longrightarrow> bindA m k w = k x w1"
  by (simp add: bindA_def)

text \<open>The generator never repeats itself, and what it still has to give is not in the database.\<close>

definition used_ids :: "database \<Rightarrow> ulid set" where
  "used_ids db = br_ID ` set (db_batches db) \<union> er_ID ` set (db_entries db) \<union> au_ID ` set (db_audit db)"

definition fresh_ids :: "env \<Rightarrow> (nat \<Rightarrow> ulid) \<Rightarrow> world \<Rightarrow> bool" where
  "fresh_ids env ids w \<longleftrightarrow> inj ids \<and> (\<forall>n. ev_NewID env n = Inr (ids n)) \<and>
     (\<forall>n \<ge> wd_ids w. ids n \<notin> used_ids (wd_db w))"

lemma yields_newID:
  "ev_NewID env (wd_ids w) = Inr k \<Longrightarrow> Q k (w\<lparr>wd_ids := Suc (wd_ids w)\<rparr>) \<Longrightarrow> yields (newID env) w Q"
  by (simp add: yields_def newID_def)

lemma yields_now: "Q (ev_Now env (wd_reads w)) (w\<lparr>wd_reads := Suc (wd_reads w)\<rparr>) \<Longrightarrow> yields (now env) w Q"
  by (simp add: yields_def now_def)

lemma yields_mapA_newID:
  assumes "fresh_ids env ids v"
  shows "yields (mapA (\<lambda>e. bindA (newID env) (\<lambda>k. retA (f e k))) xs) w
    (\<lambda>ys w'. \<exists>ks. length ks = length xs \<and> ys = map2 f xs ks \<and> distinct ks \<and>
      set ks \<subseteq> ids ` {wd_ids w ..< wd_ids w'} \<and> wd_db w' = wd_db w \<and> wd_ids w \<le> wd_ids w')"
proof (induction xs arbitrary: w)
  case (Cons x xs)
  let ?w = "w\<lparr>wd_ids := Suc (wd_ids w)\<rparr>" and ?k = "ids (wd_ids w)"
  have new: "ev_NewID env (wd_ids w) = Inr ?k" and inj: "inj ids"
    using assms by (simp_all add: fresh_ids_def)
  from Cons.IH [of ?w] obtain ys w' ks where
    run: "mapA (\<lambda>e. bindA (newID env) (\<lambda>k. retA (f e k))) xs ?w = (Inr ys, w')" and
    ks: "length ks = length xs" "ys = map2 f xs ks" "distinct ks"
      "set ks \<subseteq> ids ` {Suc (wd_ids w) ..< wd_ids w'}" "wd_db w' = wd_db w" "Suc (wd_ids w) \<le> wd_ids w'"
    by (auto simp: yields_def)
  have "?k \<notin> set ks"
  proof
    assume "?k \<in> set ks"
    then obtain n where "n \<in> {Suc (wd_ids w) ..< wd_ids w'}" "?k = ids n" using ks(4) by blast
    then show False using injD [OF inj, of "wd_ids w" n] by simp
  qed
  moreover have "set (?k # ks) \<subseteq> ids ` {wd_ids w ..< wd_ids w'}"
    using ks(4,6) by fastforce
  ultimately have "length (?k # ks) = length (x # xs) \<and> f x ?k # ys = map2 f (x # xs) (?k # ks) \<and>
      distinct (?k # ks) \<and> set (?k # ks) \<subseteq> ids ` {wd_ids w ..< wd_ids w'} \<and> wd_db w' = wd_db w \<and> wd_ids w \<le> wd_ids w'"
    using ks by simp
  moreover have "mapA (\<lambda>e. bindA (newID env) (\<lambda>k. retA (f e k))) (x # xs) w = (Inr (f x ?k # ys), w')"
    using run new by (auto simp: act_simps)
  ultimately show ?case
    unfolding yields_def by (intro exI [of _ "f x ?k # ys"] exI [of _ w'] conjI [OF _ exI [of _ "?k # ks"]])
qed simp

lemma yields_insert_entries:
  assumes "quiet env"
  shows "(\<And>e. e \<in> set es \<Longrightarrow> er_BatchID e \<in> br_ID ` set (db_batches (wd_db w)) \<and>
       er_PoolID e \<in> set (db_pools (wd_db w)) \<and>
       er_AccountID e \<in> ac_ID ` set (db_accounts (wd_db w)) \<and> er_AmountCp e \<noteq> 0) \<Longrightarrow>
    distinct (map er_ID es) \<Longrightarrow> er_ID ` set es \<inter> er_ID ` set (db_entries (wd_db w)) = {} \<Longrightarrow>
    yields (forA (\<lambda>e. exec env (InsertLedgerEntry e)) es) w
      (\<lambda>_ w'. wd_db w' = (wd_db w)\<lparr>db_entries := db_entries (wd_db w) @ es\<rparr> \<and> wd_ids w' = wd_ids w)"
proof (induction es arbitrary: w)
  case (Cons e es)
  let ?db = "(wd_db w)\<lparr>db_entries := db_entries (wd_db w) @ [e]\<rparr>"
  have "InsertLedgerEntry e (wd_db w) = Inr ?db"
    using Cons.prems by (auto simp: InsertLedgerEntry_def entry_legal_def)
  moreover have "yields (forA (\<lambda>e. exec env (InsertLedgerEntry e)) es) (w\<lparr>wd_stmts := Suc (wd_stmts w), wd_db := ?db\<rparr>)
      (\<lambda>_ w'. wd_db w' = ?db\<lparr>db_entries := db_entries ?db @ es\<rparr> \<and> wd_ids w' = wd_ids w)"
    by (rule yields_weaken [OF Cons.IH]) (use Cons.prems in \<open>auto simp: image_iff\<close>)
  ultimately show ?case
    unfolding forA.simps
    by (intro yields_bindA [OF yields_exec [OF assms, where Q = "\<lambda>_ w1. w1 = w\<lparr>wd_stmts := Suc (wd_stmts w), wd_db := ?db\<rparr>"]])
      simp_all
qed simp


section \<open>Room in 64 bits\<close>

definition volume :: "batch_proposal \<Rightarrow> int" where
  "volume p = sum_list (map (\<lambda>e. \<bar>sint (ep_AmountCp e)\<bar>) (bp_Entries p))"

text \<open>The deltas of a batch fit when the amounts without their signs do.\<close>

lemma add_delta_fits:
  "\<forall>d \<in> set ds. \<bar>sint (sn_AmountCp d)\<bar> \<le> v \<Longrightarrow> 0 \<le> v \<Longrightarrow>
    v + \<bar>sint (er_AmountCp e)\<bar> \<le> 9223372036854775807 \<Longrightarrow>
    \<exists>ds'. add_delta b e ds = Some ds' \<and> (\<forall>d \<in> set ds'. \<bar>sint (sn_AmountCp d)\<bar> \<le> v + \<bar>sint (er_AmountCp e)\<bar>)"
proof (induction b e ds rule: add_delta.induct)
  case (1 b e)
  then have "\<bar>sint (er_AmountCp e)\<bar> \<le> 9223372036854775807" by linarith
  then show ?case using 1 by (auto simp: addCentipoints_exact in64_def)
next
  case (2 b e d ds)
  have "in64 (sint (sn_AmountCp d) + sint (er_AmountCp e))"
    using "2.prems" by (auto simp: in64_def)
  then have sum: "addCentipoints (sn_AmountCp d) (er_AmountCp e) = Some (sn_AmountCp d + er_AmountCp e)"
    "sint (sn_AmountCp d + er_AmountCp e) = sint (sn_AmountCp d) + sint (er_AmountCp e)"
    by (simp_all add: addCentipoints_exact sint_add)
  show ?case
  proof (cases "sn_AccountID d = er_AccountID e \<and> sn_BalanceKind d = er_BalanceKind e")
    case True
    then show ?thesis using "2.prems" by (fastforce simp: sum)
  next
    case False
    then obtain ds' where "add_delta b e ds = Some ds'"
      "\<forall>d \<in> set ds'. \<bar>sint (sn_AmountCp d)\<bar> \<le> v + \<bar>sint (er_AmountCp e)\<bar>"
      using "2.IH" [OF False] "2.prems" by auto
    then show ?thesis using False "2.prems" by fastforce
  qed
qed

lemma snapshot_deltas_fits:
  "\<forall>d \<in> set ds. \<bar>sint (sn_AmountCp d)\<bar> \<le> v \<Longrightarrow> 0 \<le> v \<Longrightarrow> v + abs_sum es \<le> 9223372036854775807 \<Longrightarrow>
    \<exists>ds'. snapshot_deltas b ds es = Some ds'"
proof (induction es arbitrary: ds v)
  case (Cons e es)
  have "v + \<bar>sint (er_AmountCp e)\<bar> \<le> 9223372036854775807"
    using Cons.prems(3) abs_sum_nonneg [of es] unfolding abs_sum_Cons by linarith
  then obtain ds' where ds': "add_delta b e ds = Some ds'"
    "\<forall>d \<in> set ds'. \<bar>sint (sn_AmountCp d)\<bar> \<le> v + \<bar>sint (er_AmountCp e)\<bar>"
    using add_delta_fits [OF Cons.prems(1,2)] by blast
  then show ?case
    using Cons.IH [OF ds'(2)] Cons.prems by (simp add: add.assoc)
qed simp

text \<open>An upsert fails only on the row of its own key.\<close>

lemma upsert_rows_fits:
  "(\<And>s. s \<in> set ss \<Longrightarrow> snapshot_key s = snapshot_key d \<Longrightarrow> add_snapshot d s \<noteq> None) \<Longrightarrow>
    \<exists>ss'. upsert_rows d ss = Some ss' \<and>
      (\<forall>s \<in> set ss'. snapshot_key s \<noteq> snapshot_key d \<longrightarrow> s \<in> set ss)"
proof (induction ss)
  case (Cons s ss)
  show ?case
  proof (cases "snapshot_key s = snapshot_key d")
    case True
    then obtain s' where "add_snapshot d s = Some s'" using Cons.prems by fastforce
    moreover from this have "snapshot_key s' = snapshot_key s" using add_snapshot_Some by blast
    ultimately show ?thesis using True by auto
  next
    case False
    then show ?thesis using Cons by auto
  qed
qed simp

lemma upserts_fit:
  "distinct (map snapshot_key ds) \<Longrightarrow>
    (\<And>d s. d \<in> set ds \<Longrightarrow> s \<in> set ss \<Longrightarrow> snapshot_key s = snapshot_key d \<Longrightarrow> add_snapshot d s \<noteq> None) \<Longrightarrow>
    \<exists>ss'. upserts ds ss = Some ss'"
proof (induction ds arbitrary: ss)
  case (Cons d ds)
  obtain ss' where ss': "upsert_rows d ss = Some ss'"
    "\<forall>s \<in> set ss'. snapshot_key s \<noteq> snapshot_key d \<longrightarrow> s \<in> set ss"
    using upsert_rows_fits [of ss d] Cons.prems(2) by fastforce
  have "\<exists>ss''. upserts ds ss' = Some ss''"
  proof (rule Cons.IH)
    fix d' s assume "d' \<in> set ds" "s \<in> set ss'" "snapshot_key s = snapshot_key d'"
    moreover from this have "snapshot_key s \<noteq> snapshot_key d" using Cons.prems(1) by (auto simp: image_iff)
    ultimately show "add_snapshot d' s \<noteq> None" using ss'(2) Cons.prems(2) [of d' s] by auto
  qed (use Cons.prems(1) in simp)
  then show ?case by (simp add: ss'(1))
qed simp

lemma yields_upserts:
  assumes "quiet env"
  shows "upserts ds (db_snapshots (wd_db w)) = Some ss \<Longrightarrow>
    (\<And>d. d \<in> set ds \<Longrightarrow> sn_PoolID d \<in> set (db_pools (wd_db w)) \<and> sn_AccountID d \<in> ac_ID ` set (db_accounts (wd_db w))) \<Longrightarrow>
    yields (forA (\<lambda>d. exec env (q_UpsertBalanceSnapshot d)) ds) w
      (\<lambda>_ w'. wd_db w' = (wd_db w)\<lparr>db_snapshots := ss\<rparr> \<and> wd_ids w' = wd_ids w)"
proof (induction ds arbitrary: w)
  case (Cons d ds)
  then obtain ss' where ss': "upsert_rows d (db_snapshots (wd_db w)) = Some ss'" "upserts ds ss' = Some ss"
    by (auto split: option.splits)
  let ?w = "w\<lparr>wd_stmts := Suc (wd_stmts w), wd_db := (wd_db w)\<lparr>db_snapshots := ss'\<rparr>\<rparr>"
  have "q_UpsertBalanceSnapshot d (wd_db w) = Inr ((wd_db w)\<lparr>db_snapshots := ss'\<rparr>)"
    using Cons.prems(2) ss'(1) by (simp add: q_UpsertBalanceSnapshot_def)
  moreover have "yields (forA (\<lambda>d. exec env (q_UpsertBalanceSnapshot d)) ds) ?w
      (\<lambda>_ w'. wd_db w' = (wd_db ?w)\<lparr>db_snapshots := ss\<rparr> \<and> wd_ids w' = wd_ids ?w)"
    by (rule Cons.IH) (use Cons.prems(2) ss'(2) in auto)
  ultimately show ?case
    unfolding forA.simps
    by (intro yields_bindA [OF yields_exec [OF assms, where Q = "\<lambda>_ w1. w1 = ?w"]]) simp_all
qed simp


text \<open>What a request needs of the numbers in the database: no counter is at its end, and no balance
  can leave 64 bits.\<close>

definition room :: "database \<Rightarrow> batch_proposal \<Rightarrow> bool" where
  "room db p \<longleftrightarrow> (\<forall>k. \<bar>ledger_balance db k\<bar> + volume p \<le> 9223372036854775807) \<and>
     int (length (db_entries db)) + int (length (bp_Entries p)) \<le> 9223372036854775807 \<and>
     int (length (db_batches db)) < 9223372036854775807 \<and>
     int (length (db_audit db)) < 9223372036854775807 \<and> db_event_seq db \<noteq> max_int64"

lemma sint_word_of_nat: "int n \<le> 9223372036854775807 \<Longrightarrow> sint (word_of_nat n :: i64) = int n"
  using sint_of_int_eq [of "int n"] by (simp add: in64_def)

lemma deltas_of_entries:
  assumes "snapshot_deltas b [] es = Some ds"
    and "\<And>e. e \<in> set es \<Longrightarrow> er_PoolID e = br_PoolID b \<and> er_Seq e = br_Seq b" "d \<in> set ds"
  shows "of_key (snapshot_key d) es \<noteq> []"
    and "sint (sn_AmountCp d) = amount_sum (of_key (snapshot_key d) es)"
    and "sn_EntryCount d = word_of_nat (length (of_key (snapshot_key d) es))"
    and "sn_PoolID d = br_PoolID b" and "sn_AccountID d \<in> er_AccountID ` set es"
proof -
  note ds = snapshot_deltas_folded [OF assms(1,2)]
  have "snapshot_at ds (snapshot_key d) = Some d"
    using snapshot_at_mem ds(1) assms(3) by blast
  then have "folded es (snapshot_key d) = Some (balance_of_row d)"
    using ds(2) [of "snapshot_key d"] by (simp add: cached_def)
  then show f: "of_key (snapshot_key d) es \<noteq> []"
    "sint (sn_AmountCp d) = amount_sum (of_key (snapshot_key d) es)"
    "sn_EntryCount d = word_of_nat (length (of_key (snapshot_key d) es))"
    by (simp_all add: folded_def balance_of_row_def split: if_splits)
  from f(1) obtain e where e: "e \<in> set es" "entry_key e = snapshot_key d"
    unfolding of_key_def filter_empty_conv by blast
  then show "sn_PoolID d = br_PoolID b" "sn_AccountID d \<in> er_AccountID ` set es"
    using assms(2) [OF e(1)] by (auto simp: entry_key_def snapshot_key_def intro: rev_image_eqI)
qed

lemma upserts_of_room:
  assumes "cache_ok db" "room db p" "snapshot_deltas b [] es = Some ds"
    and "\<And>e. e \<in> set es \<Longrightarrow> er_PoolID e = br_PoolID b \<and> er_Seq e = br_Seq b"
    and "abs_sum es = volume p" "length es = length (bp_Entries p)"
  shows "\<exists>ss. upserts ds (db_snapshots db) = Some ss"
proof (rule upserts_fit)
  show "distinct (map snapshot_key ds)" using snapshot_deltas_folded [OF assms(3,4)] by blast
next
  fix d s assume d: "d \<in> set ds" and s: "s \<in> set (db_snapshots db)" and k: "snapshot_key s = snapshot_key d"
  let ?k = "snapshot_key d"
  note delta = deltas_of_entries [OF assms(3,4) d]
  have cache: "distinct (map snapshot_key (db_snapshots db))" "cached (db_snapshots db) ?k = folded (db_entries db) ?k"
    using assms(1) unfolding cache_ok_def by blast+
  have "cached (db_snapshots db) ?k = Some (balance_of_row s)"
    using snapshot_at_mem [OF cache(1) s] by (simp add: cached_def k)
  then have row: "sint (sn_AmountCp s) = ledger_balance db ?k"
    "sn_EntryCount s = word_of_nat (length (of_key ?k (db_entries db)))"
    using cache(2) by (simp_all add: folded_def balance_of_row_def ledger_balance_def split: if_splits)
  have "\<bar>amount_sum (of_key ?k es)\<bar> \<le> volume p"
    using amount_sum_abs [of "\<lambda>e. entry_key e = ?k" es] assms(5) by (simp add: of_key_def)
  moreover have "\<bar>ledger_balance db ?k\<bar> + volume p \<le> 9223372036854775807"
    using assms(2) unfolding room_def by blast
  ultimately have amount: "in64 (sint (sn_AmountCp s) + sint (sn_AmountCp d))"
    using row(1) delta(2) by (auto simp: in64_def)
  have le: "length (of_key ?k (db_entries db)) \<le> length (db_entries db)" "length (of_key ?k es) \<le> length es"
    by (simp_all add: of_key_def)
  have "int (length (of_key ?k (db_entries db))) + int (length (of_key ?k es)) \<le> 9223372036854775807"
    using le assms(2,6) by (simp add: room_def)
  then have "in64 (sint (sn_EntryCount s) + sint (sn_EntryCount d))"
    by (simp add: row(2) delta(3) sint_word_of_nat) (simp add: in64_def)
  with amount show "add_snapshot d s \<noteq> None"
    by (simp add: add_snapshot_def addCentipoints_exact)
qed

text \<open>The next number of a chain is new.\<close>

lemma linked_fresh:
  assumes "linked prev hash seq digest p 1 rs" "int (length rs) < 9223372036854775807"
  shows "sql_next (map seq rs) \<notin> seq ` set rs" "sint (sql_next (map seq rs)) = int (length rs) + 1"
proof -
  let ?m = "sql_max (map seq rs)"
  have m: "sint ?m = int (length rs)" by (rule linked_max [OF assms(1)])
  then have "?m \<noteq> max_int64" using assms(2) sint_max_int64 by auto
  moreover have "sint (?m + 1) = sint ?m + 1"
    using m assms(2) by (subst sint_add) (simp_all add: in64_def)
  ultimately show next_seq: "sint (sql_next (map seq rs)) = int (length rs) + 1"
    by (simp add: sql_next_def m)
  show "sql_next (map seq rs) \<notin> seq ` set rs"
  proof
    assume "sql_next (map seq rs) \<in> seq ` set rs"
    then have "sint (sql_next (map seq rs)) \<in> (\<lambda>r. sint (seq r)) ` set rs" by auto
    then show False using linked_seqs [OF assms(1)] next_seq by simp
  qed
qed


section \<open>A commit that may succeed does\<close>

definition the_check :: "env \<Rightarrow> commit_request \<Rightarrow> database \<Rightarrow> unit act" where
  "the_check env req db = checkInvariants env \<lparr>ic_PoolID = cr_PoolID req,
     ic_Seq = q_NextPoolSeq (cr_PoolID req) db, ic_HeadSeq = q_NextPoolSeq (cr_PoolID req) db - 1\<rparr>
     (cr_Proposal req)"

definition admissible :: "commit_request \<Rightarrow> database \<Rightarrow> bool" where
  "admissible req db \<longleftrightarrow> validate req = Inr () \<and> cr_PoolID req \<in> set (db_pools db) \<and>
     0 \<le>s bp_EffectiveAt (cr_Proposal req) \<and> room db (cr_Proposal req) \<and>
     (\<forall>b \<in> set (db_batches db).
        (br_PoolID b = cr_PoolID req \<longrightarrow>
           (cr_IdempotencyKey req = None \<or> br_IdempotencyKey b \<noteq> cr_IdempotencyKey req) \<and>
           (cr_SourceRef req = None \<or> br_SourceRef b \<noteq> cr_SourceRef req)) \<and>
        (bp_ReversesBatchID (cr_Proposal req) = None \<or>
           br_ReversesBatchID b \<noteq> bp_ReversesBatchID (cr_Proposal req)))"

lemma yields_readHead:
  assumes "quiet env" "GetMetaValue key (wd_db w) = map_option encodeHead h"
    "\<And>x. h = Some x \<Longrightarrow> length x = hashLength"
  shows "yields (readHead env key) w (\<lambda>_ w'. wd_db w' = wd_db w \<and> wd_ids w' = wd_ids w)"
  unfolding readHead_def
  by (rule yields_bindA [OF yields_query [OF assms(1),
        where Q = "\<lambda>x w'. x = map_option encodeHead h \<and> wd_db w' = wd_db w \<and> wd_ids w' = wd_ids w"]])
    (use assms(2,3) in \<open>auto intro!: yields_bindA [where Q = "\<lambda>_ w'. wd_db w' = wd_db w \<and> wd_ids w' = wd_ids w"]
      simp: decodeHead_encodeHead split: option.splits\<close>)

lemma yields_guildZone:
  "quiet env \<Longrightarrow> yields (guildZone env) w (\<lambda>_ w'. wd_db w' = wd_db w \<and> wd_ids w' = wd_ids w)"
  by (simp add: yields_def guildZone_def query_def exec_returning_def quiet_def bindR_def split: option.splits)

lemma yields_materialise:
  assumes "fresh_ids env ids v" "NetAmountCp (cr_Proposal req) = Some net"
  shows "yields (materialise env req seq zone) w (\<lambda>(b, es) w'. batch_of req b es \<and> br_Seq b = seq \<and>
    wd_db w' = wd_db w \<and> wd_ids w \<le> wd_ids w' \<and> br_SourceRef b = cr_SourceRef req \<and>
    br_ActorIsBeneficiary b = 0 \<and> br_EffectiveAt b = bp_EffectiveAt (cr_Proposal req) \<and>
    (\<exists>n. br_RecordedAt b = ev_Now env n) \<and>
    br_ID b \<in> ids ` {wd_ids w ..< wd_ids w'} \<and> er_ID ` set es \<subseteq> ids ` {wd_ids w ..< wd_ids w'} \<and>
    distinct (map er_ID es))"
proof -
  let ?p = "cr_Proposal req" and ?k = "ids (wd_ids w)"
  let ?entry = "entry_of ?k (cr_PoolID req) seq"
  let ?w = "w\<lparr>wd_ids := Suc (wd_ids w), wd_reads := Suc (wd_reads w)\<rparr>"
  have new: "ev_NewID env (wd_ids w) = Inr ?k" using assms(1) by (simp add: fresh_ids_def)
  obtain ks w' where run: "mapA (\<lambda>e. bindA (newID env) (\<lambda>k. retA (?entry e k))) (bp_Entries ?p) ?w =
      (Inr (map2 ?entry (bp_Entries ?p) ks), w')" and
    ks: "length ks = length (bp_Entries ?p)" "distinct ks" "set ks \<subseteq> ids ` {Suc (wd_ids w) ..< wd_ids w'}"
      "wd_db w' = wd_db w" "Suc (wd_ids w) \<le> wd_ids w'"
    using yields_mapA_newID [OF assms(1), of ?entry "bp_Entries ?p" ?w] by (auto simp: yields_def)
  define es where "es = map2 ?entry (bp_Entries ?p) ks"
  obtain b where b: "b = \<lparr>br_ID = ?k, br_PoolID = cr_PoolID req, br_Seq = seq,
        br_Kind = bp_Kind ?p,
        br_StrategyID = bp_StrategyID ?p, br_StrategyVersion = bp_StrategyVersion ?p,
        br_ConfigSnapshotJSON = orEmptyJSON (bp_ConfigSnapshotJSON ?p),
        br_RngSeed = bp_RngSeed ?p, br_Source = cr_Source req, br_SourceRef = cr_SourceRef req,
        br_ActorUserID = act_UserID (cr_Actor req), br_ActorTokenID = act_TokenID (cr_Actor req),
        br_ActorIsBeneficiary = 0, br_Reason = bp_Reason ?p,
        br_ReversesBatchID = bp_ReversesBatchID ?p, br_EffectiveAt = bp_EffectiveAt ?p,
        br_RecordedAt = ev_Now env (wd_reads w), br_EffectiveDay = ev_DateOnly env zone (bp_EffectiveAt ?p),
        br_IdempotencyKey = cr_IdempotencyKey req,
        br_EntryCount = word_of_nat (length (bp_Entries ?p)), br_NetAmountCp = net,
        br_PrevHash = None, br_Hash = []\<rparr>" by simp
  let ?w1 = "w\<lparr>wd_ids := Suc (wd_ids w)\<rparr>"
  have steps: "newID env w = (Inr ?k, ?w1)"
    "liftA (ok_or (ErrExternal ''net amount overflows int64'') (NetAmountCp ?p)) ?w1 = (Inr net, ?w1)"
    "now env ?w1 = (Inr (ev_Now env (wd_reads w)), ?w)"
    by (simp_all add: newID_def new liftA_def assms(2) ok_or_def now_def)
  have m: "materialise env req seq zone w = (Inr (b, es), w')"
    by (simp only: materialise_def Let_def bindA_step [where m = "newID env", OF steps(1)]
        bindA_step [where m = "liftA x" for x, OF steps(2)] bindA_step [where m = "now env", OF steps(3)]
        bindA_step [where m = "mapA f xs" for f xs, OF run] retA_def b es_def)
  have "batch_of req b es"
    using ks(1) assms(2) by (auto simp: batch_of_def Let_def es_def b simp del: map2_map_map)
  moreover have "br_Seq b = seq" "br_SourceRef b = cr_SourceRef req" "br_ActorIsBeneficiary b = 0"
    "br_EffectiveAt b = bp_EffectiveAt ?p" "br_RecordedAt b = ev_Now env (wd_reads w)" "br_ID b = ?k"
    by (simp_all add: b)
  moreover have "er_ID ` set es \<subseteq> ids ` {wd_ids w ..< wd_ids w'}" "map er_ID es = ks"
  proof -
    show "map er_ID es = ks"
      by (rule nth_equalityI) (simp_all add: es_def ks(1) entry_of_def)
    then have "er_ID ` set es = set ks" by (metis set_map)
    moreover have "ids ` {Suc (wd_ids w) ..< wd_ids w'} \<subseteq> ids ` {wd_ids w ..< wd_ids w'}"
      by (rule image_mono) simp
    ultimately show "er_ID ` set es \<subseteq> ids ` {wd_ids w ..< wd_ids w'}" using ks(3) by (metis order_trans)
  qed
  moreover have "?k \<in> ids ` {wd_ids w ..< wd_ids w'}" using ks(5) by simp
  moreover have "wd_ids w \<le> wd_ids w'" using ks(5) by simp
  ultimately have "(\<lambda>(b, es) w'. batch_of req b es \<and> br_Seq b = seq \<and>
    wd_db w' = wd_db w \<and> wd_ids w \<le> wd_ids w' \<and> br_SourceRef b = cr_SourceRef req \<and>
    br_ActorIsBeneficiary b = 0 \<and> br_EffectiveAt b = bp_EffectiveAt (cr_Proposal req) \<and>
    (\<exists>n. br_RecordedAt b = ev_Now env n) \<and>
    br_ID b \<in> ids ` {wd_ids w ..< wd_ids w'} \<and> er_ID ` set es \<subseteq> ids ` {wd_ids w ..< wd_ids w'} \<and>
    distinct (map er_ID es)) (b, es) w'"
    using ks(2,4) unfolding prod.case by metis
  with m show ?thesis unfolding yields_def by blast
qed


lemma yields_writeAudit:
  assumes "quiet env" "ev_NewID env (wd_ids w) = Inr k" "k \<notin> au_ID ` set (db_audit (wd_db w))"
    and "NextAuditSeq (wd_db w) \<notin> au_Seq ` set (db_audit (wd_db w))"
    and "GetMetaValue metaAuditHead (wd_db w) = map_option encodeHead h"
      "\<And>x. h = Some x \<Longrightarrow> length x = hashLength"
    and "br_ID b \<in> br_ID ` set (db_batches (wd_db w))" "IsActorKind (act_Kind (cr_Actor req))"
  shows "yields (writeAudit env req b) w (\<lambda>_ w'. db_event_seq (wd_db w') = db_event_seq (wd_db w) \<and>
    wd_ids w' = Suc (wd_ids w))"
proof -
  let ?Q = "\<lambda>w'. wd_db w' = wd_db w \<and> wd_ids w' = Suc (wd_ids w)"
  have insert: "yields (exec env (InsertAuditLog (audit_row_of req b (NextAuditSeq (wd_db w)) k prev at
      \<lparr>au_Hash := x\<rparr>))) w' (\<lambda>_ w'. db_event_seq (wd_db w') = db_event_seq (wd_db w) \<and> wd_ids w' = Suc (wd_ids w))"
    if "?Q w'" for prev at x w'
    using assms(1,3,4,7,8) that
    by (intro yields_exec_any) (simp_all add: InsertAuditLog_def audit_legal_def audit_row_of_def IsOutcome_def
        Outcomes_def contains_def)
  show ?thesis
    unfolding writeAudit_def Let_def
  proof (rule yields_bindA [OF yields_query [OF assms(1),
        where Q = "\<lambda>x w'. x = NextAuditSeq (wd_db w) \<and> wd_db w' = wd_db w \<and> wd_ids w' = wd_ids w"]])
    fix s and w1 :: world assume 1: "s = NextAuditSeq (wd_db w) \<and> wd_db w1 = wd_db w \<and> wd_ids w1 = wd_ids w"
    then have "yields (newID env) w1 (\<lambda>x w'. x = k \<and> ?Q w')"
      using assms(2) by (intro yields_newID) auto
    then show "yields (bindA (newID env) (\<lambda>k. bindA (readHead env metaAuditHead) (\<lambda>prev. bindA (now env) (\<lambda>at.
        bindA (exec env (InsertAuditLog (audit_row_of req b s k prev at
          \<lparr>au_Hash := AuditHash (ev_SHA256 env) prev (audit_row_of req b s k prev at)\<rparr>)))
        (\<lambda>_. retA (audit_row_of req b s k prev at
          \<lparr>au_Hash := AuditHash (ev_SHA256 env) prev (audit_row_of req b s k prev at)\<rparr>)))))) w1
      (\<lambda>_ w'. db_event_seq (wd_db w') = db_event_seq (wd_db w) \<and> wd_ids w' = Suc (wd_ids w))"
    proof (rule yields_bindA)
      fix k' and w2 :: world assume 2: "k' = k \<and> ?Q w2"
      then have "yields (readHead env metaAuditHead) w2 (\<lambda>_ w'. ?Q w')"
        using yields_readHead [OF assms(1) _ assms(6), of metaAuditHead w2] assms(5) by simp
      then show "yields (bindA (readHead env metaAuditHead) (\<lambda>prev. bindA (now env) (\<lambda>at.
          bindA (exec env (InsertAuditLog (audit_row_of req b s k' prev at
            \<lparr>au_Hash := AuditHash (ev_SHA256 env) prev (audit_row_of req b s k' prev at)\<rparr>)))
          (\<lambda>_. retA (audit_row_of req b s k' prev at
            \<lparr>au_Hash := AuditHash (ev_SHA256 env) prev (audit_row_of req b s k' prev at)\<rparr>))))) w2
        (\<lambda>_ w'. db_event_seq (wd_db w') = db_event_seq (wd_db w) \<and> wd_ids w' = Suc (wd_ids w))"
        using 1 2 by (auto intro!: yields_bindA [OF _ yields_bindA [OF yields_now
            [where Q = "\<lambda>_ w'. ?Q w'"] yields_bindA [OF insert]]])
    qed
  qed simp_all
qed


text \<open>What the rows of a batch need of the database before they are written.\<close>

definition writable :: "(nat \<Rightarrow> ulid) \<Rightarrow> env \<Rightarrow> commit_request \<Rightarrow> batch_row \<Rightarrow> entry_row list \<Rightarrow> world \<Rightarrow> bool" where
  "writable ids env req b es w \<longleftrightarrow> (let db = wd_db w in
     batch_legal b db \<and> distinct (map er_ID es) \<and> er_ID ` set es \<inter> er_ID ` set (db_entries db) = {} \<and>
     (\<forall>e \<in> set es. er_BatchID e = br_ID b \<and> er_PoolID e = br_PoolID b \<and> er_Seq e = br_Seq b \<and>
        er_AccountID e \<in> ac_ID ` set (db_accounts db) \<and> er_AmountCp e \<noteq> 0) \<and>
     (\<exists>ds ss. snapshot_deltas b [] es = Some ds \<and> upserts ds (db_snapshots db) = Some ss) \<and>
     (\<forall>n. ev_NewID env n = Inr (ids n)) \<and> ids (wd_ids w) \<notin> au_ID ` set (db_audit db) \<and>
     NextAuditSeq db \<notin> au_Seq ` set (db_audit db) \<and>
     (\<exists>h. GetMetaValue metaAuditHead db = map_option encodeHead h \<and> (\<forall>x. h = Some x \<longrightarrow> length x = hashLength)) \<and>
     IsActorKind (act_Kind (cr_Actor req)) \<and> db_event_seq db \<noteq> max_int64)"

lemma yields_write_rows:
  assumes "quiet env" "writable ids env req b es w"
  shows "yields (write_rows env req b es) w (\<lambda>rc _. rc_BatchID rc = br_ID b \<and> \<not> rc_Replayed rc)"
proof -
  let ?db = "wd_db w"
  let ?db1 = "?db\<lparr>db_batches := db_batches ?db @ [b]\<rparr>"
  let ?db2 = "?db1\<lparr>db_entries := db_entries ?db @ es\<rparr>"
  note ok = assms(2) [unfolded writable_def Let_def]
  from ok obtain ds ss where ds: "snapshot_deltas b [] es = Some ds" "upserts ds (db_snapshots ?db) = Some ss" by blast
  from ok obtain h where h: "GetMetaValue metaAuditHead ?db = map_option encodeHead h" "\<forall>x. h = Some x \<longrightarrow> length x = hashLength" by blast
  let ?db3 = "?db2\<lparr>db_snapshots := ss\<rparr>"
  have legal: "batch_legal b ?db" and ids: "ev_NewID env n = Inr (ids n)" for n using ok by simp_all
  have d: "sn_PoolID d \<in> set (db_pools ?db) \<and> sn_AccountID d \<in> ac_ID ` set (db_accounts ?db)" if "d \<in> set ds" for d
    using deltas_of_entries(4,5) [OF ds(1) _ that] ok legal by (fastforce simp: batch_legal_def)
  have 1: "yields (exec env (InsertLedgerBatch b)) w (\<lambda>_ w1. wd_db w1 = ?db1 \<and> wd_ids w1 = wd_ids w)"
    using legal by (intro yields_exec_any [OF assms(1)]) (simp add: InsertLedgerBatch_def)
  have 2: "yields (forA (\<lambda>e. exec env (InsertLedgerEntry e)) es) w1
      (\<lambda>_ w2. wd_db w2 = ?db2 \<and> wd_ids w2 = wd_ids w)" if "wd_db w1 = ?db1 \<and> wd_ids w1 = wd_ids w" for w1
    by (rule yields_weaken [OF yields_insert_entries [OF assms(1)]]) (use ok legal that in \<open>auto simp: batch_legal_def\<close>)
  have 3: "yields (upsertSnapshots env b es) w2 (\<lambda>_ w3. wd_db w3 = ?db3 \<and> wd_ids w3 = wd_ids w)"
    if "wd_db w2 = ?db2 \<and> wd_ids w2 = wd_ids w" for w2
    unfolding upsertSnapshots_def
    by (rule yields_bindA [where Q = "\<lambda>x w3. x = ds \<and> w3 = w2"], simp add: ds(1) ok_or_def,
        rule yields_weaken [OF yields_upserts [OF assms(1)]]) (use that ds(2) d in auto)
  have 4: "yields (writeAudit env req b) w3 (\<lambda>_ w4. db_event_seq (wd_db w4) = db_event_seq ?db)"
    if w3: "wd_db w3 = ?db3 \<and> wd_ids w3 = wd_ids w" for w3
  proof (rule yields_weaken [OF yields_writeAudit [OF assms(1), where k = "ids (wd_ids w)" and h = h]])
    show "NextAuditSeq (wd_db w3) \<notin> au_Seq ` set (db_audit (wd_db w3))"
      "GetMetaValue metaAuditHead (wd_db w3) = map_option encodeHead h"
      using ok h(1) w3 by (simp_all add: NextAuditSeq_def GetMetaValue_def)
  qed (use ok w3 ids h(2) in auto)
  have 5: "yields (writeOutboxEvent env req b) w4 (\<lambda>_ _. True)" if "db_event_seq (wd_db w4) = db_event_seq ?db" for w4
    using that ok ids assms(1)
    by (simp add: yields_def writeOutboxEvent_def act_simps InsertOutboxEvent_def Let_def quiet_def)
  have 6: "yields (writeHead env key x at) w' (\<lambda>_ _. True)" for key x at w'
    unfolding writeHead_def by (intro yields_exec_any [OF assms(1)]) simp
  show ?thesis
    unfolding write_rows_def
    by (rule yields_bindA [OF 1], rule yields_bindA [OF 2], assumption, rule yields_bindA [OF 3], assumption,
        rule yields_bindA [OF 4], assumption, rule yields_bindA [OF 5], assumption,
        rule yields_bindA [OF yields_now [where Q = "\<lambda>_ _. True"]], rule TrueI,
        rule yields_bindA [OF 6], rule yields_bindA [OF 6]) simp
qed


lemma yields_checkInvariants:
  assumes "runs (the_check env req (wd_db v)) (wd_db v) ()" "wd_db w = wd_db v"
  shows "yields (the_check env req (wd_db v)) w (\<lambda>_ w'. wd_db w' = wd_db v \<and> wd_ids w \<le> wd_ids w')"
proof -
  obtain w' where run: "the_check env req (wd_db v) w = (Inr (), w')" "wd_db w' = wd_db v"
    using assms by (metis runs_def prod.collapse)
  moreover have "wd_ids w \<le> wd_ids w'"
    using read_only_ids [OF read_only_checkInvariants] run(1) by (metis the_check_def)
  ultimately show ?thesis unfolding yields_def by blast
qed

text \<open>What the checks that passed say of the proposal.\<close>

lemma the_check_facts:
  assumes "runs (the_check env req db) db ()"
  shows "bp_Entries (cr_Proposal req) \<noteq> []"
    and "e \<in> set (bp_Entries (cr_Proposal req)) \<Longrightarrow> ep_AmountCp e \<noteq> 0"
    and "e \<in> set (bp_Entries (cr_Proposal req)) \<Longrightarrow> ep_AccountID e \<in> ac_ID ` set (db_accounts db)"
    and "\<exists>net. NetAmountCp (cr_Proposal req) = Some net"
    and "bp_ReversesBatchID (cr_Proposal req) = Some t \<Longrightarrow> t \<in> br_ID ` set (db_batches db)"
proof -
  obtain w :: world where w: "wd_db w = db" by (metis world.select_convs(1))
  obtain w' where "the_check env req db w = (Inr (), w')"
    using assms w by (metis runs_def prod.collapse)
  then obtain kinds w2 where "checkUniversal env \<lparr>ic_PoolID = cr_PoolID req, ic_Seq = q_NextPoolSeq (cr_PoolID req) db,
      ic_HeadSeq = q_NextPoolSeq (cr_PoolID req) db - 1\<rparr> (cr_Proposal req) w = (Inr kinds, w2)"
    unfolding the_check_def by (rule checkInvariants_Inr)
  note u = checkUniversal_Inr [OF this, unfolded w]
  show "bp_Entries (cr_Proposal req) \<noteq> []" "e \<in> set (bp_Entries (cr_Proposal req)) \<Longrightarrow> ep_AmountCp e \<noteq> 0"
    "\<exists>net. NetAmountCp (cr_Proposal req) = Some net"
    using u(1,2,3) by auto
  show "e \<in> set (bp_Entries (cr_Proposal req)) \<Longrightarrow> ep_AccountID e \<in> ac_ID ` set (db_accounts db)"
    using u(7) by (force simp: q_GetAccount_def dest: find_row_Some)
  show "bp_ReversesBatchID (cr_Proposal req) = Some t \<Longrightarrow> t \<in> br_ID ` set (db_batches db)"
    using u(6) by (force simp: q_GetLedgerBatch_def dest: find_row_Some)
qed

lemma validate_Inr:
  "validate req = Inr () \<Longrightarrow> IsBatchSource (cr_Source req) \<and> IsActorKind (act_Kind (cr_Actor req)) \<and>
    IsBatchKind (bp_Kind (cr_Proposal req))"
  by (auto simp: validate_def split: if_splits)

lemma batch_of_accounts:
  assumes "batch_of req b es"
  shows "er_AccountID ` set es = ep_AccountID ` set (bp_Entries (cr_Proposal req))"
    and "er_AmountCp ` set es = ep_AmountCp ` set (bp_Entries (cr_Proposal req))"
    and "abs_sum es = volume (cr_Proposal req)"
proof -
  have "map er_AccountID es = map ep_AccountID (bp_Entries (cr_Proposal req))"
    using arg_cong [OF batch_of_entries(3) [OF assms], of "map fst"] by (simp add: o_def account_kind_def)
  then show "er_AccountID ` set es = ep_AccountID ` set (bp_Entries (cr_Proposal req))"
    by (metis set_map)
  show "er_AmountCp ` set es = ep_AmountCp ` set (bp_Entries (cr_Proposal req))"
    using batch_of_entries(2) [OF assms] by (metis set_map)
  show "abs_sum es = volume (cr_Proposal req)"
    using arg_cong [OF batch_of_entries(2) [OF assms], of "\<lambda>xs. sum_list (map (\<lambda>x. \<bar>sint x\<bar>) xs)"]
    by (simp add: abs_sum_def volume_def o_def)
qed

text \<open>A batch as the engine makes it can be written.\<close>

lemma writable_batch:
  assumes ok: "ledger_ok (ev_SHA256 env) (wd_db v)" and digest: "\<And>m. length (ev_SHA256 env m) = hashLength"
    and fresh: "fresh_ids env ids v" and clock: "\<And>n. 0 \<le>s ev_Now env n"
    and adm: "admissible req (wd_db v)" and check: "runs (the_check env req (wd_db v)) (wd_db v) ()"
    and b: "batch_of req b es" "br_Seq b = q_NextPoolSeq (cr_PoolID req) (wd_db v)"
      "br_SourceRef b = cr_SourceRef req" "br_ActorIsBeneficiary b = 0"
      "br_EffectiveAt b = bp_EffectiveAt (cr_Proposal req)" "br_RecordedAt b = ev_Now env n"
    and new: "br_ID b \<in> ids ` {wd_ids v ..< m}" "er_ID ` set es \<subseteq> ids ` {wd_ids v ..< m}"
      "distinct (map er_ID es)" "wd_ids v \<le> m"
    and w: "wd_db w = wd_db v" "wd_ids w = m"
  shows "writable ids env req b es w"
proof -
  let ?db = "wd_db v" and ?p = "cr_Proposal req"
  have unused: "ids n \<notin> used_ids ?db" if "wd_ids v \<le> n" for n using fresh that by (simp add: fresh_ids_def)
  have pool: "br_PoolID b = cr_PoolID req" using b(1) by (simp add: batch_of_def Let_def)
  have room: "room ?db ?p" and adm': "validate req = Inr ()" "cr_PoolID req \<in> set (db_pools ?db)"
    "0 \<le>s bp_EffectiveAt ?p" using adm by (simp_all add: admissible_def)
  note entries = batch_of_entries [OF b(1)] and accounts = batch_of_accounts [OF b(1)]
  have chain: "linked br_PrevHash br_Hash br_Seq (batch_digest (ev_SHA256 env) ?db) None 1 (pool_batches (cr_PoolID req) ?db)"
    using ok by (simp add: ledger_ok_def chain_ok_def)
  have "length (pool_batches (cr_PoolID req) ?db) \<le> length (db_batches ?db)"
    by (simp add: pool_batches_def)
  then have "int (length (pool_batches (cr_PoolID req) ?db)) < 9223372036854775807"
    using room by (simp add: room_def)
  from linked_fresh(1) [OF chain this]
  have seq: "(br_PoolID b, br_Seq b) \<notin> (\<lambda>q. (br_PoolID q, br_Seq q)) ` set (db_batches ?db)"
    by (auto simp: b(2) pool q_NextPoolSeq_def pool_batches_def)
  have aud: "linked au_PrevHash au_Hash au_Seq (\<lambda>a. AuditHash (ev_SHA256 env) (au_PrevHash a) a) None 1 (db_audit ?db)"
    and head: "GetMetaValue metaAuditHead ?db = map_option encodeHead (chain_head au_Hash None (db_audit ?db))"
    using ok by (simp_all add: ledger_ok_def audit_ok_def MetaAuditHeadKey_def)
  have audit_seq: "NextAuditSeq ?db \<notin> au_Seq ` set (db_audit ?db)"
    using linked_fresh(1) [OF aud] room by (simp add: NextAuditSeq_def room_def)
  have head_length: "chain_head au_Hash None (db_audit ?db) = Some x \<Longrightarrow> length x = hashLength" for x
    using linked_lengths [OF aud] digest by (auto simp: chain_head_def AuditHash_def split: if_splits)
  have count: "0 <s br_EntryCount b"
    using the_check_facts(1) [OF check] room b(1)
    by (simp add: batch_of_def Let_def sless_sint sint_word_of_nat room_def)
  have drawn: "k \<notin> used_ids ?db" if "k \<in> ids ` {wd_ids v ..< m}" for k using unused that by auto
  have id_b: "br_ID b \<notin> br_ID ` set (db_batches ?db)" using drawn [OF new(1)] by (simp add: used_ids_def)
  have id_es: "er_ID ` set es \<inter> er_ID ` set (db_entries ?db) = {}"
    using new(2) drawn unfolding used_ids_def by blast
  have "batch_legal b ?db"
    unfolding batch_legal_def
  proof (intro conjI)
    show "case br_ReversesBatchID b of None \<Rightarrow> True | Some r \<Rightarrow> r = br_ID b \<or> r \<in> br_ID ` set (db_batches ?db)"
      using the_check_facts(5) [OF check] b(1) by (auto simp: batch_of_def Let_def split: option.splits)
    show "unique_when br_SourceRef (\<lambda>q. br_PoolID q = br_PoolID b) (db_batches ?db) b"
      "unique_when br_IdempotencyKey (\<lambda>q. br_PoolID q = br_PoolID b) (db_batches ?db) b"
      "unique_when br_ReversesBatchID (\<lambda>_. True) (db_batches ?db) b"
      using adm b(1,3) pool by (auto simp: admissible_def unique_when_def batch_of_def Let_def)
    show "IsBatchKind (br_Kind b)" "IsBatchSource (br_Source b)"
      using validate_Inr [OF adm'(1)] b(1) by (simp_all add: batch_of_def Let_def)
    show "0 \<le>s br_RecordedAt b" "0 \<le>s br_EffectiveAt b"
      using clock adm'(3) by (simp_all add: b(5,6))
  qed (use id_b seq count pool adm'(2) b(4) in simp_all)
  moreover have "\<exists>ds ss. snapshot_deltas b [] es = Some ds \<and> upserts ds (db_snapshots ?db) = Some ss"
  proof -
    have "\<bar>ledger_balance ?db undefined\<bar> + volume ?p \<le> 9223372036854775807"
      using room unfolding room_def by blast
    then have "volume ?p \<le> 9223372036854775807" by linarith
    then obtain ds where ds: "snapshot_deltas b [] es = Some ds"
      using snapshot_deltas_fits [of "[]" 0 es b] accounts(3) by auto
    have "cache_ok ?db" using ok by (simp add: ledger_ok_def)
    from upserts_of_room [OF this room ds _ accounts(3) entries(1)] entries(4) ds show ?thesis by blast
  qed
  moreover have "\<forall>e \<in> set es. er_AccountID e \<in> ac_ID ` set (db_accounts ?db) \<and> er_AmountCp e \<noteq> 0"
    using accounts(1,2) the_check_facts(2,3) [OF check] by (metis (no_types, lifting) imageE imageI)
  moreover have "ids m \<notin> au_ID ` set (db_audit ?db)" using unused [OF new(4)] by (simp add: used_ids_def)
  moreover have "\<forall>n. ev_NewID env n = Inr (ids n)" using fresh by (simp add: fresh_ids_def)
  ultimately show ?thesis
    unfolding writable_def Let_def w
    using new(3) id_es entries(4) audit_seq head head_length validate_Inr [OF adm'(1)] room
    by (auto simp: room_def)
qed


lemma yields_service_write:
  assumes ok: "ledger_ok (ev_SHA256 env) (wd_db w)" and digest: "\<And>m. length (ev_SHA256 env m) = hashLength"
    and quiet: "quiet env" and fresh: "fresh_ids env ids w" and clock: "\<And>n. 0 \<le>s ev_Now env n"
    and adm: "admissible req (wd_db w)" and check: "runs (the_check env req (wd_db w)) (wd_db w) ()"
  shows "yields (service_write env req) w (\<lambda>rc _. \<not> rc_Replayed rc)"
proof -
  let ?db = "wd_db w" and ?pool = "cr_PoolID req"
  let ?seq = "q_NextPoolSeq ?pool ?db"
  let ?Q = "\<lambda>w'. wd_db w' = ?db \<and> wd_ids w \<le> wd_ids w'"
  obtain net where net: "NetAmountCp (cr_Proposal req) = Some net" using the_check_facts(4) [OF check] by blast
  have 1: "yields (query env (\<lambda>db. Inr (q_NextPoolSeq ?pool db))) w (\<lambda>seq w'. seq = ?seq \<and> ?Q w')"
    by (intro yields_query [OF quiet]) simp_all
  have 2: "yields (checkInvariants env \<lparr>ic_PoolID = ?pool, ic_Seq = seq, ic_HeadSeq = seq - 1\<rparr> (cr_Proposal req)) w'
      (\<lambda>_. ?Q)" if "seq = ?seq \<and> ?Q w'" for seq w'
    using yields_checkInvariants [OF check, of w'] that
    by (auto simp: the_check_def elim!: yields_weaken)
  have 3: "yields (guildZone env) w' (\<lambda>_. ?Q)" if "?Q w'" for w'
    using yields_guildZone [OF quiet, of w'] that by (auto elim!: yields_weaken)
  define made where "made b es w' \<longleftrightarrow> batch_of req b es \<and> br_Seq b = ?seq \<and> br_SourceRef b = cr_SourceRef req \<and>
    br_ActorIsBeneficiary b = 0 \<and> br_EffectiveAt b = bp_EffectiveAt (cr_Proposal req) \<and>
    (\<exists>n. br_RecordedAt b = ev_Now env n) \<and> br_ID b \<in> ids ` {wd_ids w ..< wd_ids w'} \<and>
    er_ID ` set es \<subseteq> ids ` {wd_ids w ..< wd_ids w'} \<and> distinct (map er_ID es) \<and> ?Q w'" for b es and w' :: world
  have 4: "yields (materialise env req ?seq zone) w' (\<lambda>(b, es). made b es)" if q: "?Q w'" for zone w'
  proof (rule yields_weaken [OF yields_materialise [OF fresh net]], unfold case_prod_beta)
    fix x :: "batch_row \<times> entry_row list" and w2 :: world
    let ?b = "fst x" and ?es = "snd x"
    assume a: "batch_of req ?b ?es \<and> br_Seq ?b = ?seq \<and> wd_db w2 = wd_db w' \<and> wd_ids w' \<le> wd_ids w2 \<and>
      br_SourceRef ?b = cr_SourceRef req \<and> br_ActorIsBeneficiary ?b = 0 \<and>
      br_EffectiveAt ?b = bp_EffectiveAt (cr_Proposal req) \<and> (\<exists>n. br_RecordedAt ?b = ev_Now env n) \<and>
      br_ID ?b \<in> ids ` {wd_ids w' ..< wd_ids w2} \<and> er_ID ` set ?es \<subseteq> ids ` {wd_ids w' ..< wd_ids w2} \<and>
      distinct (map er_ID ?es)"
    have "ids ` {wd_ids w' ..< wd_ids w2} \<subseteq> ids ` {wd_ids w ..< wd_ids w2}"
      by (rule image_mono) (use q in simp)
    with a q show "made ?b ?es w2" unfolding made_def by (metis order_trans subsetD)
  qed
  have chain: "GetMetaValue (MetaLedgerHeadKey ?pool) ?db = map_option encodeHead (chain_head br_Hash None (pool_batches ?pool ?db))"
    "linked br_PrevHash br_Hash br_Seq (batch_digest (ev_SHA256 env) ?db) None 1 (pool_batches ?pool ?db)"
    using ok by (simp_all add: ledger_ok_def chain_ok_def)
  have lengths: "chain_head br_Hash None (pool_batches ?pool ?db) = Some x \<Longrightarrow> length x = hashLength" for x
    using linked_lengths [OF chain(2)] digest by (auto simp: chain_head_def batch_digest_def BatchHash_def split: if_splits)
  have 5: "yields (readHead env (metaLedgerHeadPrefix @ ?pool)) w' (\<lambda>_. made b es)" if "made b es w'" for b es w'
    using yields_readHead [OF quiet, of "MetaLedgerHeadKey ?pool" w' "chain_head br_Hash None (pool_batches ?pool ?db)"]
      chain(1) lengths that
    by (auto simp: MetaLedgerHeadKey_def made_def elim!: yields_weaken)
  have 6: "yields (write_rows env req (b\<lparr>br_PrevHash := prev, br_Hash := x\<rparr>) es) w' (\<lambda>rc _. \<not> rc_Replayed rc)"
    if m: "made b es w'" for b es prev x w'
  proof -
    obtain n where n: "br_RecordedAt b = ev_Now env n" using m by (auto simp: made_def)
    have "writable ids env req (b\<lparr>br_PrevHash := prev, br_Hash := x\<rparr>) es w'"
      by (rule writable_batch [OF ok digest fresh clock adm check, where n = n and m = "wd_ids w'"])
        (use m n in \<open>simp_all add: made_def\<close>)
    then show ?thesis by (rule yields_weaken [OF yields_write_rows [OF quiet]]) simp
  qed
  show ?thesis
    unfolding service_write_def
  proof (rule yields_bindA [OF 1])
    fix seq and w1 :: world assume s: "seq = ?seq \<and> ?Q w1"
    show "yields (bindA (checkInvariants env \<lparr>ic_PoolID = ?pool, ic_Seq = seq, ic_HeadSeq = seq - 1\<rparr> (cr_Proposal req)) (\<lambda>_.
        bindA (guildZone env) (\<lambda>zone. bindA (materialise env req seq zone) (\<lambda>(batch, entries).
        bindA (readHead env (metaLedgerHeadPrefix @ ?pool)) (\<lambda>prev.
          write_rows env req (batch\<lparr>br_PrevHash := prev,
            br_Hash := BatchHash (ev_SHA256 env) prev (batch\<lparr>br_PrevHash := prev\<rparr>) entries\<rparr>) entries))))) w1
        (\<lambda>rc _. \<not> rc_Replayed rc)"
      by (rule yields_bindA [OF 2 [OF s]], rule yields_bindA [OF 3], assumption,
          unfold conjunct1 [OF s], rule yields_bindA [OF 4], assumption, clarsimp,
          rule yields_bindA [OF 5], assumption, rule 6)
  qed
qed


lemma yields_Tx:
  assumes "quiet env" "yields f (w\<lparr>wd_stmts := Suc (wd_stmts w)\<rparr>) Q"
  shows "yields (Tx env f) w (\<lambda>x w'. \<exists>w2. Q x w2 \<and> wd_db w' = wd_db w2)"
proof -
  obtain x w2 where run: "f (w\<lparr>wd_stmts := Suc (wd_stmts w)\<rparr>) = (Inr x, w2)" "Q x w2"
    using assms(2) by (auto simp: yields_def)
  have "query env (\<lambda>_. Inr ()) w' = (Inr (), w'\<lparr>wd_stmts := Suc (wd_stmts w')\<rparr>)" for w'
    using assms(1) by (simp add: query_eq quiet_def)
  then have "Tx env f w = (Inr x, w2\<lparr>wd_stmts := Suc (wd_stmts w2)\<rparr>)"
    by (simp add: Tx_def run(1))
  then show ?thesis using run(2) by (auto simp: yields_def)
qed

lemma yields_findReplay:
  "quiet env \<Longrightarrow> yields (findReplay env req key) w (\<lambda>r w'. wd_db w' = wd_db w \<and> wd_ids w' = wd_ids w \<and>
    r = map_option replay_receipt (q_GetBatchByIdempotencyKey (cr_PoolID req) key (wd_db w)))"
  by (simp add: yields_def findReplay_def act_simps quiet_def replay_receipt_def split: option.splits)

lemma Commit_posts:
  assumes ok: "ledger_ok (ev_SHA256 env) (wd_db w)" and digest: "\<And>m. length (ev_SHA256 env m) = hashLength"
    and quiet: "quiet env" and fresh: "fresh_ids env ids w" and clock: "\<And>n. 0 \<le>s ev_Now env n"
    and adm: "admissible req (wd_db w)" and check: "runs (the_check env req (wd_db w)) (wd_db w) ()"
  shows "\<exists>rc w'. Commit env req w = (Inr rc, w') \<and> \<not> rc_Replayed rc"
proof -
  let ?Q = "\<lambda>(r :: receipt option) w'. r = None \<and> wd_db w' = wd_db w \<and> wd_ids w' = wd_ids w"
  have "yields (case cr_IdempotencyKey req of None \<Rightarrow> retA None | Some key \<Rightarrow> findReplay env req key)
      (w\<lparr>wd_stmts := Suc (wd_stmts w)\<rparr>) ?Q"
  proof (cases "cr_IdempotencyKey req")
    case (Some key)
    have "q_GetBatchByIdempotencyKey (cr_PoolID req) key (wd_db w) = None"
      using adm Some by (auto simp: q_GetBatchByIdempotencyKey_def find_row_def admissible_def
          filter_empty_conv split: list.splits dest!: filter_eq_ConsD)
    then show ?thesis using Some by (auto intro!: yields_weaken [OF yields_findReplay [OF quiet]])
  qed simp
  then have "yields (commit_tx env req) (w\<lparr>wd_stmts := Suc (wd_stmts w)\<rparr>) (\<lambda>rc _. \<not> rc_Replayed rc)"
    unfolding commit_tx_def
  proof (rule yields_bindA)
    fix r :: "receipt option" and w' :: world assume r: "?Q r w'"
    have "yields (service_write env req) w' (\<lambda>rc _. \<not> rc_Replayed rc)"
      by (rule yields_service_write [OF _ digest quiet _ clock])
        (use ok fresh adm check r in \<open>auto simp: fresh_ids_def\<close>)
    then show "yields (case r of None \<Rightarrow> service_write env req | Some r \<Rightarrow> retA r) w' (\<lambda>rc _. \<not> rc_Replayed rc)"
      using r by simp
  qed
  from yields_Tx [OF quiet this] adm show ?thesis
    by (auto simp: yields_def Commit_def act_simps admissible_def)
qed

lemma Commit_replays:
  assumes "quiet env" "validate req = Inr ()" "cr_IdempotencyKey req = Some key"
    and "q_GetBatchByIdempotencyKey (cr_PoolID req) key (wd_db w) = Some b"
  shows "\<exists>w'. Commit env req w = (Inr (replay_receipt b), w') \<and> wd_db w' = wd_db w"
proof -
  have "yields (commit_tx env req) (w\<lparr>wd_stmts := Suc (wd_stmts w)\<rparr>)
      (\<lambda>rc w'. rc = replay_receipt b \<and> wd_db w' = wd_db w)"
    unfolding commit_tx_def assms(3) option.case
    by (rule yields_bindA [OF yields_findReplay [OF assms(1)]]) (simp add: assms(4))
  from yields_Tx [OF assms(1) this] assms(2) show ?thesis
    by (auto simp: yields_def Commit_def act_simps)
qed

text \<open>C17: The engine makes progress. On a reachable ledger, when no statement fails, the generator
  gives new identifiers and the clock runs, a commit posts every valid request whose proposal passes
  the declared checks, that uses a new idempotency key and source reference, reverses nothing that is
  reversed, and leaves room in 64 bits.\<close>

theorem commit_succeeds:
  assumes "reachable env any_request w" "\<And>m. length (ev_SHA256 env m) = hashLength"
    and "quiet env" "fresh_ids env ids w" "\<And>n. 0 \<le>s ev_Now env n"
    and "admissible req (wd_db w)" "runs (the_check env req (wd_db w)) (wd_db w) ()"
  shows "\<exists>rc w'. Commit env req w = (Inr rc, w') \<and> \<not> rc_Replayed rc"
  by (rule Commit_posts [OF reachable_ok [OF assms(1,2)] assms(2-7)])

section \<open>A small ledger\<close>

text \<open>
  The migrated database with two raiders, identifiers in unary, and a digest that is not the real
  one; the guild grants 500 to the raider \<open>a\<close>.
\<close>

definition raider :: "string \<Rightarrow> account_row" where
  "raider k = \<lparr>ac_ID = k, ac_Kind = KindPerson, ac_PersonID = Some k, ac_SystemKey = None,
     ac_Label = k, ac_CreatedAt = 1, ac_UpdatedAt = 1\<rparr>"

definition sample_db :: database where
  "sample_db = genesis\<lparr>db_accounts := (db_accounts genesis @ [raider ''a'']) @ [raider ''b'']\<rparr>"

definition sample_world :: world where
  "sample_world = \<lparr>wd_db = sample_db, wd_stmts = 0, wd_ids = 0, wd_reads = 0\<rparr>"

definition unary :: "nat \<Rightarrow> ulid" where "unary n = replicate n (CHR ''i'')"

definition sample_env :: env where
  "sample_env = \<lparr>ev_Fault = (\<lambda>_. None), ev_NewID = (\<lambda>n. Inr (unary n)), ev_Now = (\<lambda>_. 1704067200000000),
     ev_SHA256 = (\<lambda>m. take hashLength (m @ replicate hashLength (CHR ''0''))),
     ev_LoadLocation = (\<lambda>_. False), ev_DateOnly = (\<lambda>_ _. ''2024-01-01'')\<rparr>"

definition ledger_ctx :: ctx where
  "ledger_ctx = (sample_ctx ''{}'' 500)\<lparr>cx_SystemAccount := (\<lambda>k. case map_of SystemAccountIDs k of
     Some i \<Rightarrow> Inr i | None \<Rightarrow> Inl (ErrExternal k))\<rparr>"

definition sample_request :: "batch_proposal \<Rightarrow> commit_request" where
  "sample_request p = \<lparr>cr_PoolID = DefaultPoolID, cr_Proposal = p, cr_Source = ''web'', cr_SourceRef = None,
     cr_IdempotencyKey = Some ''key'', cr_Actor = \<lparr>act_Kind = ''user'', act_Label = ''officer'',
       act_UserID = None, act_TokenID = None\<rparr>, cr_Action = [], cr_EventType = [], cr_Topic = []\<rparr>"

definition grant_event :: adjustment_event where
  "grant_event = \<lparr>aj_Account = sample_account ''a'', aj_AmountCp = 500, aj_Counterparty = AccountIDGuildBank,
     aj_EffectiveAt = 0, aj_Reason = ''welcome''\<rparr>"

definition grant :: batch_proposal where
  "grant = projr (ps_PlanAdjustment AuctionOpen ledger_ctx grant_event)"

lemma grant_planned: "ps_PlanAdjustment AuctionOpen ledger_ctx grant_event = Inr grant"
proof -
  have "\<exists>p. ps_PlanAdjustment AuctionOpen ledger_ctx grant_event = Inr p" by (rule not_isl_Inr, code_simp)
  then show ?thesis by (auto simp: grant_def)
qed

lemma grant_facts: "volume grant = 1000" "length (bp_Entries grant) = 2"
  by code_simp+

lemma sample_world_reachable: "reachable sample_env P sample_world"
proof -
  let ?w = "sample_world\<lparr>wd_db := genesis\<rparr>"
  let ?db = "genesis\<lparr>db_accounts := db_accounts genesis @ [raider ''a'']\<rparr>"
  have a: "InsertAccount (raider ''a'') (wd_db ?w) = Inr ?db"
    by (simp add: InsertAccount_def) code_simp
  have b: "InsertAccount (raider ''b'') ?db = Inr sample_db"
    by (simp add: InsertAccount_def sample_db_def) code_simp
  have "reachable sample_env P ?w" by (rule reachable.start) simp
  then have "reachable sample_env P (?w\<lparr>wd_db := ?db\<rparr>)" by (rule reachable.step [OF _ ledger_step.account [OF a]])
  then have "reachable sample_env P (?w\<lparr>wd_db := ?db\<rparr>\<lparr>wd_db := sample_db\<rparr>)"
    by (rule reachable.step [OF _ ledger_step.account [where a = "raider ''b''"]]) (simp add: b)
  then show ?thesis by (simp add: sample_world_def)
qed

lemma runs_check:
  assumes "\<And>n i r. fst (the_check env req db \<lparr>wd_db = db, wd_stmts = n, wd_ids = i, wd_reads = r\<rparr>) = Inr ()"
  shows "runs (the_check env req db) db ()"
  unfolding runs_def
proof (intro allI impI conjI)
  fix w :: world assume w: "wd_db w = db"
  then show "fst (the_check env req db w) = Inr ()" using assms by (cases w) simp
  show "wd_db (snd (the_check env req db w)) = db"
    using read_only_checkInvariants w by (simp add: read_only_def the_check_def)
qed

lemma grant_checked: "runs (the_check sample_env (sample_request grant) sample_db) sample_db ()"
  by (rule runs_check) code_simp

lemma sample_env_facts:
  "quiet sample_env" "fresh_ids sample_env unary sample_world" "0 \<le>s ev_Now sample_env n"
  "length (ev_SHA256 sample_env m) = hashLength"
proof -
  have "inj unary" unfolding unary_def by (metis injI length_replicate)
  then show "fresh_ids sample_env unary sample_world"
    by (simp add: fresh_ids_def sample_env_def used_ids_def sample_world_def sample_db_def genesis_def)
  show "length (ev_SHA256 sample_env m) = hashLength" by (simp add: sample_env_def)
qed (simp_all add: quiet_def sample_env_def sle_sint)

lemma grant_admissible: "admissible (sample_request grant) sample_db"
proof -
  have "validate (sample_request grant) = Inr ()" "0 \<le>s bp_EffectiveAt grant" by code_simp+
  then show ?thesis
    by (simp add: admissible_def room_def grant_facts ledger_balance_def of_key_def amount_sum_def
        sample_db_def genesis_def sample_request_def sint_max_int64) code_simp
qed

lemma grant_commits:
  obtains rc w' where "Commit sample_env (sample_request grant) sample_world = (Inr rc, w')" "\<not> rc_Replayed rc"
proof -
  have "ledger_ok (ev_SHA256 sample_env) (wd_db sample_world)"
    by (rule reachable_ok [OF sample_world_reachable sample_env_facts(4)])
  then show ?thesis
    using Commit_posts [OF _ sample_env_facts(4,1,2,3), of "sample_request grant"] grant_checked grant_admissible that
    by (auto simp: sample_world_def)
qed

theorem commit_succeeds_witness:
  "\<exists>rc w'. Commit sample_env (sample_request grant) sample_world = (Inr rc, w') \<and> \<not> rc_Replayed rc"
  by (rule commit_succeeds [OF sample_world_reachable sample_env_facts(4,1,2,3)])
    (simp_all add: sample_world_def grant_checked grant_admissible)

lemma sample_step:
  "P sample_db (sample_request grant) \<Longrightarrow> Commit sample_env (sample_request grant) sample_world = (r, w') \<Longrightarrow>
    reachable sample_env P w'"
  by (rule reachable.step [OF sample_world_reachable ledger_step.commit]) (simp_all add: sample_world_def)

theorem reachable_ledger_ok_witness:
  "\<exists>w. db_batches (wd_db w) \<noteq> [] \<and> reachable sample_env any_request w \<and> ledger_ok (ev_SHA256 sample_env) (wd_db w)"
proof -
  obtain rc w' where c: "Commit sample_env (sample_request grant) sample_world = (Inr rc, w')" "\<not> rc_Replayed rc"
    by (rule grant_commits)
  then have "db_batches (wd_db w') \<noteq> []"
    by (cases rule: Commit_Inr) (auto simp: posts_def replay_receipt_def)
  then show ?thesis
    using sample_step [OF _ c(1), of any_request] reachable_ledger_ok [OF sample_step [OF _ c(1)] sample_env_facts(4)] by blast
qed

theorem commit_atomic_witness:
  "\<exists>rc w' b. Commit sample_env (sample_request grant) sample_world = (Inr rc, w') \<and> db_batches (wd_db w') = db_batches sample_db @ [b]"
proof -
  obtain rc w' where c: "Commit sample_env (sample_request grant) sample_world = (Inr rc, w')" "\<not> rc_Replayed rc"
    by (rule grant_commits)
  from commit_atomic [OF c(1)] c show ?thesis by (auto simp: sample_world_def)
qed

theorem closed_economy_witness:
  "\<exists>w. reachable sample_env planned_request w \<and> db_batches (wd_db w) \<noteq> [] \<and> pool_total (wd_db w) DefaultPoolID = 0"
proof -
  obtain rc w' where c: "Commit sample_env (sample_request grant) sample_world = (Inr rc, w')" "\<not> rc_Replayed rc"
    by (rule grant_commits)
  then have new: "db_batches (wd_db w') \<noteq> []"
    by (cases rule: Commit_Inr) (auto simp: posts_def replay_receipt_def)
  have "plans AuctionOpen ledger_ctx grant" using grant_planned by (auto simp: plans_def)
  then have "planned_request sample_db (sample_request grant)"
    using in_catalogue(1) by (auto simp: planned_request_def sample_request_def)
  note step = sample_step [where P = planned_request, OF this c(1)]
  from closed_economy [OF step sample_env_facts(4)] step new show ?thesis by blast
qed

theorem past_balances_fixed_witness:
  "\<exists>rc w'. Commit sample_env (sample_request grant) sample_world = (Inr rc, w') \<and> db_batches (wd_db w') \<noteq> [] \<and> q_BalanceAsOfSeq DefaultPoolID ''a'' ''dkp'' 0 (wd_db w') =
    q_BalanceAsOfSeq DefaultPoolID ''a'' ''dkp'' 0 sample_db"
proof -
  obtain rc w' where c: "Commit sample_env (sample_request grant) sample_world = (Inr rc, w')" "\<not> rc_Replayed rc"
    by (rule grant_commits)
  then have new: "db_batches (wd_db w') \<noteq> []"
    by (cases rule: Commit_Inr) (auto simp: posts_def replay_receipt_def)
  have "0 \<le>s q_MaxPoolSeq DefaultPoolID (wd_db sample_world)" by code_simp
  from past_balances_fixed [OF sample_world_reachable sample_env_facts(4) c(1) this, of "''a''" "''dkp''"] new c(1)
  show ?thesis by (auto simp: sample_world_def)
qed

theorem retry_is_replay_witness:
  "\<exists>rc w1 rc' w2. Commit sample_env (sample_request grant) sample_world = (Inr rc, w1) \<and> \<not> rc_Replayed rc \<and>
    Commit sample_env (sample_request grant) w1 = (Inr rc', w2) \<and> rc_Replayed rc' \<and> rc_BatchID rc' = rc_BatchID rc"
proof -
  obtain rc w' where c: "Commit sample_env (sample_request grant) sample_world = (Inr rc, w')" "\<not> rc_Replayed rc"
    by (rule grant_commits)
  have key: "cr_IdempotencyKey (sample_request grant) = Some ''key''" by (simp add: sample_request_def)
  have valid: "validate (sample_request grant) = Inr ()" using grant_admissible by (simp add: admissible_def)
  obtain b where "q_GetBatchByIdempotencyKey (cr_PoolID (sample_request grant)) ''key'' (wd_db w') = Some b"
    using Commit_key_found [OF c(1) key] by blast
  from Commit_replays [OF sample_env_facts(1) valid key this] obtain rc' w2 where
    c2: "Commit sample_env (sample_request grant) w' = (Inr rc', w2)" by blast
  from retry_is_replay [OF c(1) key c2 key refl] c c2 show ?thesis by blast
qed

theorem reversal_targets_once_witness:
  "\<exists>rc w' b. Commit sample_env (sample_request grant) sample_world = (Inr rc, w') \<and> db_batches (wd_db w') = db_batches sample_db @ [b] \<and>
    (br_Kind b = KindReversal \<longleftrightarrow> br_ReversesBatchID b \<noteq> None)"
proof -
  obtain rc w' where c: "Commit sample_env (sample_request grant) sample_world = (Inr rc, w')" "\<not> rc_Replayed rc"
    by (rule grant_commits)
  from reversal_targets_once [OF c] c(1) show ?thesis by (auto simp: sample_world_def)
qed

text \<open>A charge of 300 to the raider, who may go down to -500.\<close>

definition charge :: batch_proposal where
  "charge = grant\<lparr>bp_Entries := [(hd (bp_Entries grant))\<lparr>ep_AmountCp := - 300\<rparr>,
     (hd (bp_Entries grant))\<lparr>ep_AccountID := AccountIDGuildBank, ep_AmountCp := 300\<rparr>],
     bp_Invariants := [\<lparr>iv_Kind = InvariantNonNegative, iv_BalanceKind = [], iv_FloorCp = Some (- 500),
       iv_TotalCp = None, iv_ToleranceBp = 0, iv_SecondBalanceKind = []\<rparr>]\<rparr>"

lemma charge_admissible: "admissible (sample_request charge) sample_db"
proof -
  have "validate (sample_request charge) = Inr ()" "0 \<le>s bp_EffectiveAt charge" "volume charge = 600"
    "length (bp_Entries charge) = 2"
    by code_simp+
  then show ?thesis
    by (simp add: admissible_def room_def ledger_balance_def of_key_def amount_sum_def
        sample_db_def genesis_def sample_request_def sint_max_int64) code_simp
qed

lemma charge_checked: "runs (the_check sample_env (sample_request charge) sample_db) sample_db ()"
  by (rule runs_check) code_simp

theorem no_overdraft_witness:
  "\<exists>rc w'. Commit sample_env (sample_request charge) sample_world = (Inr rc, w') \<and>
    (- 500 \<le> ledger_balance (wd_db w') (DefaultPoolID, ''a'', ''dkp'') \<or>
     ledger_balance sample_db (DefaultPoolID, ''a'', ''dkp'') \<le> ledger_balance (wd_db w') (DefaultPoolID, ''a'', ''dkp''))"
proof -
  have "ledger_ok (ev_SHA256 sample_env) (wd_db sample_world)"
    by (rule reachable_ok [OF sample_world_reachable sample_env_facts(4)])
  then obtain rc w' where c: "Commit sample_env (sample_request charge) sample_world = (Inr rc, w')" "\<not> rc_Replayed rc"
    using Commit_posts [OF _ sample_env_facts(4,1,2,3), of "sample_request charge"] charge_checked charge_admissible
    by (auto simp: sample_world_def)
  let ?iv = "hd (bp_Invariants charge)" and ?e = "hd (bp_Entries charge)"
  have iv: "?iv \<in> set (bp_Invariants (cr_Proposal (sample_request charge)))" "iv_Kind ?iv = InvariantNonNegative"
    "iv_FloorCp ?iv = Some (- 500)" "iv_BalanceKind ?iv = []" by code_simp+
  have e: "?e \<in> set (bp_Entries (cr_Proposal (sample_request charge)))" "in_scope (iv_BalanceKind ?iv) ?e"
    "kind_of (wd_db sample_world) (ep_AccountID ?e) \<noteq> KindSystem" "ep_AccountID ?e = ''a''" "ep_BalanceKind ?e = ''dkp''"
    by code_simp+
  from no_overdraft [OF sample_world_reachable sample_env_facts(4) c iv(1,2) e(1,2,3)] show ?thesis
    using c(1) unfolding iv(3) e(4,5) by (auto simp: Let_def sample_world_def sample_request_def)
qed

theorem verify_is_one_pass_witness:
  "fst (Verify sample_env \<lparr>vo_PageSize = 1, vo_MaxFindings = 0\<rparr> sample_world) =
    Inr (replay (ev_SHA256 sample_env) 100 sample_db)"
proof -
  have "schema_ok (wd_db sample_world)" by (simp add: schema_ok_def sample_world_def sample_db_def genesis_def)
  moreover have "heads_readable (wd_db sample_world)" by (simp add: heads_readable_def stored_head_def GetMetaValue_def
      find_row_def sample_world_def sample_db_def genesis_def)
  moreover have "cap_of \<lparr>vo_PageSize = 1, vo_MaxFindings = 0\<rparr> = 100" by code_simp
  ultimately show ?thesis
    using verify_is_one_pass [OF sample_env_facts(1), of sample_world "\<lparr>vo_PageSize = 1, vo_MaxFindings = 0\<rparr>"]
    by (simp add: sample_world_def)
qed

end
