(* ===== verification/Soundness.thy ===== *)
theory Soundness
  imports Progress
begin

text \<open>
  What a replay without findings says: exactly that the ledger is sound. Each check is unfolded to
  the condition under which it is silent; the chain checks together are \<open>linked\<close>, the balance
  checks together say that the cache is the fold of the log.
\<close>

section \<open>Silence\<close>

lemma find_one_findings: "mx \<noteq> 0 \<Longrightarrow> rp_Findings (find_one mx f r) \<noteq> []"
  by (auto simp: find_one_def Let_def)

lemma record_findings_silent:
  "mx \<noteq> 0 \<Longrightarrow> rp_Findings (record_findings mx fs r) = [] \<longleftrightarrow> fs = [] \<and> rp_Findings r = []"
proof (induction fs arbitrary: r)
  case (Cons f fs)
  have "record_findings mx (f # fs) r = record_findings mx fs (find_one mx f r)"
    by (simp add: record_findings_def)
  then show ?case using Cons find_one_findings by simp
qed (simp add: record_findings_def)

lemma record_findings_Nil [simp]: "record_findings mx [] r = r"
  by (simp add: record_findings_def)

lemma when_finding_Nil [simp]: "when_finding c f = [] \<longleftrightarrow> \<not> c"
  by (simp add: when_finding_def)

lemma checkBatch_silent:
  "checkBatch H b es prev want = [] \<longleftrightarrow> br_Seq b = want \<and> bytes_of (br_PrevHash b) = bytes_of prev \<and>
     BatchHash H (br_PrevHash b) b es = br_Hash b \<and> br_EntryCount b = word_of_nat (length es) \<and>
     sumEntries es = Some (br_NetAmountCp b) \<and>
     (\<forall>e \<in> set es. er_PoolID e = br_PoolID b \<and> er_Seq e = br_Seq b)"
  by (auto simp: checkBatch_def Let_def filter_empty_conv split: option.splits)

lemma checkAuditRow_silent:
  "checkAuditRow H a prev want = [] \<longleftrightarrow> au_Seq a = want \<and> bytes_of (au_PrevHash a) = bytes_of prev \<and>
     AuditHash H (au_PrevHash a) a = au_Hash a"
  by (auto simp: checkAuditRow_def Let_def)

lemma checkSnapshotRow_silent:
  "checkSnapshotRow pool k row m = [] \<longleftrightarrow> (\<exists>acc. map_of m k = Some acc \<and> \<not> fa_Overflowed acc \<and>
     sn_AmountCp row = fa_AmountCp acc \<and> sn_EntryCount row = fa_EntryCount acc \<and>
     sn_AsOfSeq row = fa_MaxSeq acc)"
  by (auto simp: checkSnapshotRow_def Let_def split: option.splits)

section \<open>The batches of a pool\<close>

fun clean_rows :: "('r \<Rightarrow> string option \<Rightarrow> i64 \<Rightarrow> finding list) \<Rightarrow> ('r \<Rightarrow> string) \<Rightarrow> ('r \<Rightarrow> i64) \<Rightarrow>
    string option \<Rightarrow> i64 \<Rightarrow> 'r list \<Rightarrow> bool" where
  "clean_rows check hash seq p want [] = True"
| "clean_rows check hash seq p want (r # rs) = (check r p want = [] \<and>
     clean_rows check hash seq (Some (hash r)) (seq r + 1) rs)"

text \<open>A chain walked from its first row without a finding is linked, and the other way round.\<close>

lemma clean_rows_linked:
  assumes "\<And>r p want. r \<in> set rs \<Longrightarrow> check r p want = [] \<longleftrightarrow>
      seq r = want \<and> bytes_of (prev r) = bytes_of p \<and> digest r = hash r \<and> other r"
    and "\<And>r. r \<in> set rs \<Longrightarrow> 0 <s seq r \<and> prev r \<noteq> Some [] \<and> digest r \<noteq> []"
    and "sint want = n" "p \<noteq> Some []"
  shows "clean_rows check hash seq p want rs \<longleftrightarrow> linked prev hash seq digest p n rs \<and> (\<forall>r \<in> set rs. other r)"
  using assms
proof (induction rs arbitrary: p want n)
  case (Cons r rs)
  have b: "bytes_of (prev r) = bytes_of p \<longleftrightarrow> prev r = p"
    using Cons.prems(2) [of r] Cons.prems(4) by (cases "prev r"; cases p) (auto simp: bytes_of_def)
  have seq: "seq r = want \<longleftrightarrow> sint (seq r) = n"
    using Cons.prems(3) by (metis sint_inject64)
  show ?case
  proof (cases "sint (seq r) = n \<and> digest r = hash r")
    case False
    then show ?thesis using Cons.prems(1) [of r] seq by auto
  next
    case True
    then have h: "Some (hash r) \<noteq> Some []" using Cons.prems(2) [of r] by auto
    show ?thesis
    proof (cases "rs = []")
      case True
      then show ?thesis using Cons.prems(1) [of r] seq b \<open>sint (seq r) = n \<and> digest r = hash r\<close> by auto
    next
      case False
      show ?thesis
      proof (cases "n < 9223372036854775807")
        case True
        then have "sint (seq r + 1) = n + 1"
          using \<open>sint (seq r) = n \<and> _\<close> sint_bounds [of "seq r"] by (subst sint_add) (simp_all add: in64_def)
        then show ?thesis
          using Cons.IH [of "seq r + 1" "n + 1" "Some (hash r)"] Cons.prems h b seq
            \<open>sint (seq r) = n \<and> digest r = hash r\<close> by auto
      next
        case False
        obtain q qs where q: "rs = q # qs" using \<open>rs \<noteq> []\<close> by (cases rs) auto
        have "n = 9223372036854775807"
          using False \<open>sint (seq r) = n \<and> _\<close> sint_bounds [of "seq r"] by linarith
        then have "seq r = max_int64"
          using \<open>sint (seq r) = n \<and> _\<close> sint_max_int64 by (metis sint_inject64)
        then have neg: "\<not> 0 <s seq r + 1" by (simp add: max_int64_def sless_sint)
        have "0 <s seq q" using Cons.prems(2) [of q] q by simp
        then have "seq q \<noteq> seq r + 1" "sint (seq q) \<noteq> n + 1"
          using neg \<open>n = _\<close> sint_bounds [of "seq q"] by (metis, linarith)
        then show ?thesis
          using Cons.prems(1) [of r] Cons.prems(1) [of q] q by auto
      qed
    qed
  qed
qed simp

lemma pool_fold_silent:
  assumes "mx \<noteq> 0"
  shows "rp_Findings (pw_Report (fold (\<lambda>b. pool_step H mx b (es b)) bs s)) = [] \<longleftrightarrow>
    rp_Findings (pw_Report s) = [] \<and>
    clean_rows (\<lambda>b. checkBatch H b (es b)) br_Hash br_Seq (pw_Prev s) (pw_WantSeq s) bs"
proof (induction bs arbitrary: s)
  case (Cons b bs)
  show ?case
    using Cons.IH [of "pool_step H mx b (es b) s"]
    by (auto simp: pool_step_def record_findings_silent [OF assms])
qed simp

lemma pool_fold_state:
  "pw_Prev (fold (\<lambda>b. pool_step H mx b (es b)) bs s) = chain_head br_Hash (pw_Prev s) bs"
  "pw_Fold (fold (\<lambda>b. pool_step H mx b (es b)) bs s) = foldEntries (pw_Fold s) (concat (map es bs))"
proof -
  have app: "foldEntries m (xs @ ys) = foldEntries (foldEntries m xs) ys" for m xs ys
    by (induction m xs rule: foldEntries.induct) auto
  show "pw_Prev (fold (\<lambda>b. pool_step H mx b (es b)) bs s) = chain_head br_Hash (pw_Prev s) bs"
    by (induction bs arbitrary: s) (auto simp: pool_step_def chain_head_def)
  show "pw_Fold (fold (\<lambda>b. pool_step H mx b (es b)) bs s) = foldEntries (pw_Fold s) (concat (map es bs))"
    by (induction bs arbitrary: s) (auto simp: pool_step_def app)
qed

lemma audit_fold_silent:
  assumes "mx \<noteq> 0"
  shows "rp_Findings (aw_Report (fold (audit_step H mx) as s)) = [] \<longleftrightarrow>
    rp_Findings (aw_Report s) = [] \<and> clean_rows (checkAuditRow H) au_Hash au_Seq (aw_Prev s) (aw_WantSeq s) as"
proof (induction as arbitrary: s)
  case (Cons a as)
  show ?case
    using Cons.IH [of "audit_step H mx a s"]
    by (auto simp: audit_step_def record_findings_silent [OF assms])
qed simp

lemma audit_fold_prev: "aw_Prev (fold (audit_step H mx) as s) = chain_head au_Hash (aw_Prev s) as"
  by (induction as arbitrary: s) (auto simp: audit_step_def chain_head_def)

section \<open>The cached balances of a pool\<close>

lemma distinct_update: "distinct (map fst m) \<Longrightarrow> distinct (map fst (AList.update k v m))"
  by (rule distinct_update)

lemma foldEntries_at:
  "map_of (foldEntries m es) k =
    (let mine = filter (\<lambda>e. snap_key_of e = k) es in
     if mine = [] then map_of m k else Some (fold add_entry mine (acc_at m k)))"
proof (induction m es rule: foldEntries.induct)
  case (2 m e es)
  let ?m = "AList.update (snap_key_of e) (add_entry e (acc_at m (snap_key_of e))) m"
  have at: "acc_at ?m k = (if k = snap_key_of e then add_entry e (acc_at m k) else acc_at m k)"
    by (simp add: acc_at_def update_conv')
  show ?case
    using 2 by (auto simp: Let_def at update_conv')
qed simp

lemma foldEntries_distinct: "distinct (map fst m) \<Longrightarrow> distinct (map fst (foldEntries m es))"
  by (induction m es rule: foldEntries.induct) (auto simp: distinct_update)

lemma snapshot_fold_silent:
  assumes "mx \<noteq> 0"
  shows "distinct (map row_key ss) \<Longrightarrow>
    (rp_Findings (sw_Report (fold (snapshot_step mx pool) ss s)) = [] \<longleftrightarrow> rp_Findings (sw_Report s) = [] \<and>
      (\<forall>r \<in> set ss. checkSnapshotRow pool (row_key r) r (sw_Fold s) = [])) \<and>
    map_of (sw_Fold (fold (snapshot_step mx pool) ss s)) = (\<lambda>k. if k \<in> row_key ` set ss then None else map_of (sw_Fold s) k)"
proof (induction ss arbitrary: s)
  case (Cons r ss)
  let ?s = "snapshot_step mx pool r s"
  have del: "map_of (sw_Fold ?s) = (\<lambda>k. if k = row_key r then None else map_of (sw_Fold s) k)"
    by (auto simp: snapshot_step_def delete_conv')
  have same: "checkSnapshotRow pool (row_key q) q (sw_Fold ?s) = [] \<longleftrightarrow>
      checkSnapshotRow pool (row_key q) q (sw_Fold s) = []" if "q \<in> set ss" for q
  proof -
    have "row_key q \<noteq> row_key r" using that Cons.prems by (metis distinct.simps(2) image_eqI list.simps(9) set_map)
    then show ?thesis by (simp add: checkSnapshotRow_silent del)
  qed
  have rep: "rp_Findings (sw_Report ?s) = [] \<longleftrightarrow>
      checkSnapshotRow pool (row_key r) r (sw_Fold s) = [] \<and> rp_Findings (sw_Report s) = []"
    by (simp add: snapshot_step_def record_findings_silent [OF assms])
  show ?case
    using Cons.IH [of ?s] Cons.prems same rep del by auto
qed auto

lemma missing_Nil: "missing_findings pool m = [] \<longleftrightarrow> m = []"
proof -
  have "sort_key fst m = [] \<longleftrightarrow> m = []" by (metis set_empty set_sort)
  then show ?thesis by (simp add: missing_findings_def)
qed

lemma map_of_empty: "m = [] \<longleftrightarrow> (\<forall>k. map_of m k = None)"
proof (cases m)
  case (Cons x xs)
  then have "map_of m (fst x) = Some (snd x)" by (cases x) simp
  then show ?thesis using Cons by auto
qed simp

text \<open>What an accumulator holds after some entries.\<close>

lemma fold_add_entry:
  "fa_EntryCount (fold add_entry es acc) = fa_EntryCount acc + word_of_nat (length es)"
  "sint (fa_MaxSeq (fold add_entry es acc)) = fold (\<lambda>e m. max m (sint (er_Seq e))) es (sint (fa_MaxSeq acc))"
proof -
  show "fa_EntryCount (fold add_entry es acc) = fa_EntryCount acc + word_of_nat (length es)"
    by (induction es arbitrary: acc) (auto simp: add_entry_def Let_def split: option.split)
  show "sint (fa_MaxSeq (fold add_entry es acc)) = fold (\<lambda>e m. max m (sint (er_Seq e))) es (sint (fa_MaxSeq acc))"
    by (induction es arbitrary: acc) (auto simp: add_entry_def Let_def sless_sint max_def split: option.split)
qed

lemma add_entry_amount:
  "fa_Overflowed (add_entry e acc) \<longleftrightarrow> fa_Overflowed acc \<or> addCentipoints (fa_AmountCp acc) (er_AmountCp e) = None"
  "addCentipoints (fa_AmountCp acc) (er_AmountCp e) \<noteq> None \<Longrightarrow>
    sint (fa_AmountCp (add_entry e acc)) = sint (fa_AmountCp acc) + sint (er_AmountCp e)"
  by (auto simp: add_entry_def Let_def dest: addCentipoints_sint split: option.split)

lemma fold_add_entry_amount:
  "\<not> fa_Overflowed (fold add_entry es acc) \<Longrightarrow> \<not> fa_Overflowed acc \<and>
    sint (fa_AmountCp (fold add_entry es acc)) = sint (fa_AmountCp acc) + amount_sum es"
proof (induction es arbitrary: acc)
  case (Cons e es)
  then have "\<not> fa_Overflowed (add_entry e acc) \<and>
      sint (fa_AmountCp (fold add_entry es (add_entry e acc))) = sint (fa_AmountCp (add_entry e acc)) + amount_sum es"
    by simp
  then show ?case using add_entry_amount(1) [of e acc] add_entry_amount(2) [of acc e] by (simp add: amount_sum_def)
qed (simp add: amount_sum_def)

lemma fold_add_entry_fits:
  "\<not> fa_Overflowed acc \<Longrightarrow> \<bar>sint (fa_AmountCp acc)\<bar> + abs_sum es < 9223372036854775808 \<Longrightarrow>
    \<not> fa_Overflowed (fold add_entry es acc)"
proof (induction es arbitrary: acc)
  case (Cons e es)
  have abs: "0 \<le> abs_sum es" by (rule abs_sum_nonneg)
  have c: "abs_sum (e # es) = \<bar>sint (er_AmountCp e)\<bar> + abs_sum es" by (simp add: abs_sum_def)
  have "in64 (sint (fa_AmountCp acc) + sint (er_AmountCp e))"
    using Cons.prems(2) abs c unfolding in64_def by arith
  then have ok: "addCentipoints (fa_AmountCp acc) (er_AmountCp e) \<noteq> None"
    by (simp add: addCentipoints_exact)
  have "\<bar>sint (fa_AmountCp (add_entry e acc))\<bar> + abs_sum es < 9223372036854775808"
    using Cons.prems(2) c unfolding add_entry_amount(2) [OF ok] by arith
  then show ?case
    using Cons.IH [of "add_entry e acc"] Cons.prems(1) ok by (simp add: add_entry_amount(1))
qed simp

lemma sum_cp_fits:
  "\<bar>sint n\<bar> + abs_sum es < 9223372036854775808 \<Longrightarrow> \<exists>r. sum_cp n (map er_AmountCp es) = Some r"
proof (induction es arbitrary: n)
  case (Cons e es)
  have abs: "0 \<le> abs_sum es" by (rule abs_sum_nonneg)
  have c: "abs_sum (e # es) = \<bar>sint (er_AmountCp e)\<bar> + abs_sum es" by (simp add: abs_sum_def)
  have "in64 (sint n + sint (er_AmountCp e))"
    using Cons.prems abs c unfolding in64_def by arith
  then obtain m where m: "addCentipoints n (er_AmountCp e) = Some m" by (auto simp: addCentipoints_exact)
  have "\<bar>sint m\<bar> + abs_sum es < 9223372036854775808"
    using Cons.prems c unfolding addCentipoints_sint [OF m] by arith
  then show ?case using Cons.IH m by simp
qed simp

lemma fold_max_last_seq:
  assumes "es \<noteq> []" "\<And>e. e \<in> set es \<Longrightarrow> 0 < sint (er_Seq e)"
  shows "fold (\<lambda>e m. max m (sint (er_Seq e))) es 0 = last_seq es"
proof -
  have fold: "fold (\<lambda>e m. max m (sint (er_Seq e))) es n = Max (insert n ((\<lambda>e. sint (er_Seq e)) ` set es))" for n
  proof (induction es arbitrary: n)
    case (Cons e es)
    then show ?case by (cases "es = []") (simp_all add: max.assoc max.commute max.left_commute)
  qed simp
  have "Max (insert 0 ((\<lambda>e. sint (er_Seq e)) ` set es)) = max 0 (last_seq es)"
    using assms(1) by (simp add: last_seq_def)
  moreover have "0 < last_seq es"
  proof -
    have "hd es \<in> set es" using assms(1) by simp
    then have "sint (er_Seq (hd es)) \<le> last_seq es" unfolding last_seq_def by (intro Max_ge) auto
    then show ?thesis using assms(2) [OF \<open>hd es \<in> set es\<close>] by linarith
  qed
  ultimately show ?thesis by (simp add: fold)
qed

section \<open>Soundness\<close>

definition by_seq :: "ulid \<Rightarrow> database \<Rightarrow> batch_row list" where
  "by_seq pool db = sort_key (\<lambda>b. sint (br_Seq b)) (pool_batches pool db)"

definition audit_by_seq :: "database \<Rightarrow> audit_row list" where
  "audit_by_seq db = sort_key (\<lambda>a. sint (au_Seq a)) (db_audit db)"

definition sound :: "(string \<Rightarrow> string) \<Rightarrow> database \<Rightarrow> bool" where
  "sound H db \<longleftrightarrow>
     (\<forall>pool \<in> set (db_pools db).
        linked br_PrevHash br_Hash br_Seq (batch_digest H db) None 1 (by_seq pool db) \<and>
        stored_head db (MetaLedgerHeadKey pool) = Inr (chain_head br_Hash None (by_seq pool db))) \<and>
     (\<forall>b \<in> set (db_batches db). batch_ok db b) \<and>
     (\<forall>e \<in> set (db_entries db). \<exists>b \<in> set (db_batches db).
        er_BatchID e = br_ID b \<and> er_PoolID e = br_PoolID b \<and> er_Seq e = br_Seq b) \<and>
     (\<forall>k. cached (db_snapshots db) k = folded (db_entries db) k) \<and>
     linked au_PrevHash au_Hash au_Seq (\<lambda>a. AuditHash H (au_PrevHash a) a) None 1 (audit_by_seq db) \<and>
     stored_head db MetaAuditHeadKey = Inr (chain_head au_Hash None (audit_by_seq db))"

text \<open>
  The rows the replay sees: it walks seqs from 1 and cached rows from the first key that is not
  empty, and it reads a NULL hash and an empty one alike.
\<close>

definition visible :: "database \<Rightarrow> bool" where
  "visible db \<longleftrightarrow> (\<forall>b \<in> set (db_batches db). 0 <s br_Seq b \<and> br_PrevHash b \<noteq> Some []) \<and>
     (\<forall>a \<in> set (db_audit db). 0 <s au_Seq a \<and> au_PrevHash a \<noteq> Some []) \<and>
     (\<forall>s \<in> set (db_snapshots db). row_key s \<noteq> ([], []))"

text \<open>The amounts that ever moved sum to less than what int64 holds, so no partial sum overflows.\<close>

definition volume_fits :: "database \<Rightarrow> bool" where
  "volume_fits db \<longleftrightarrow> abs_sum (db_entries db) < 9223372036854775808"

lemma walk_by_seq: "visible db \<Longrightarrow> walk_batches pool db = by_seq pool db"
  unfolding walk_batches_def by_seq_def pool_batches_def visible_def
  by (intro arg_cong [where f = "sort_key _"] filter_cong) auto

lemma walk_audit_by_seq: "visible db \<Longrightarrow> walk_audit db = audit_by_seq db"
  unfolding walk_audit_def audit_by_seq_def visible_def
  by (intro arg_cong [where f = "sort_key _"]) (simp add: filter_id_conv)

lemma head_findings_silent:
  assumes "h \<noteq> Some []"
  shows "head_findings (stored_head db key) h at = [] \<longleftrightarrow> stored_head db key = Inr h"
proof -
  have "stored_head db key \<noteq> Inr (Some [])"
    by (auto simp: stored_head_def decodeHead_def res_simps hashLength_def split: option.splits if_splits)
  then show ?thesis
    using assms by (cases h) (auto simp: head_findings_def bytes_of_def split: sum.splits option.splits)
qed

lemma ListEntriesByBatch_entries: "ListEntriesByBatch (br_ID b) db = sort_key er_ID (batch_entries db b)"
  by (simp add: ListEntriesByBatch_def batch_entries_def)

lemma BatchHash_sorted: "BatchHash H p b (sort_key er_ID es) = BatchHash H p b es"
proof -
  have "sort_key er_ID (sort_key er_ID es) = sort_key er_ID es"
    by (rule sort_key_id_if_sorted) simp
  then show ?thesis by (simp add: BatchHash_def entriesJSON_def)
qed

lemma amount_sum_mset: "mset xs = mset ys \<Longrightarrow> amount_sum xs = amount_sum ys"
  unfolding amount_sum_def by (metis mset_map sum_mset_sum_list)

lemma abs_sum_mset: "mset xs = mset ys \<Longrightarrow> abs_sum xs = abs_sum ys"
  unfolding abs_sum_def by (metis mset_map sum_mset_sum_list)

lemma sumEntries_exact:
  assumes "mset xs = mset es"
  shows "sumEntries xs = Some n \<Longrightarrow> sint n = amount_sum es"
    and "abs_sum es < 9223372036854775808 \<Longrightarrow> sint n = amount_sum es \<Longrightarrow> sumEntries xs = Some n"
proof -
  have exact: "sum_cp 0 (map er_AmountCp xs) = Some r \<Longrightarrow> sint r = amount_sum es" for r
    using amount_sum_mset [OF assms] by (auto dest!: sum_cp_exact simp: amount_sum_def o_def)
  then show "sumEntries xs = Some n \<Longrightarrow> sint n = amount_sum es" by (simp add: sumEntries_def)
  assume "abs_sum es < 9223372036854775808" "sint n = amount_sum es"
  then obtain r where "sum_cp 0 (map er_AmountCp xs) = Some r"
    using sum_cp_fits [of 0 xs] abs_sum_mset [OF assms] by auto
  with exact [OF this] \<open>sint n = _\<close> show "sumEntries xs = Some n"
    by (simp add: sumEntries_def) (metis sint_inject64)
qed


section \<open>A pool without findings\<close>

text \<open>The accumulators of a pool after all its batches.\<close>

definition walked_entries :: "ulid \<Rightarrow> database \<Rightarrow> entry_row list" where
  "walked_entries pool db = concat (map (\<lambda>b. ListEntriesByBatch (br_ID b) db) (walk_batches pool db))"

definition pool_clean :: "(string \<Rightarrow> string) \<Rightarrow> database \<Rightarrow> ulid \<Rightarrow> bool" where
  "pool_clean H db pool \<longleftrightarrow> (let m = foldEntries [] (walked_entries pool db); last = chain_head br_Hash None (walk_batches pool db) in
     clean_rows (\<lambda>b. checkBatch H b (ListEntriesByBatch (br_ID b) db)) br_Hash br_Seq None 1 (walk_batches pool db) \<and>
     (\<forall>at. head_findings (stored_head db (MetaLedgerHeadKey pool)) last at = []) \<and>
     (\<forall>r \<in> set (walk_snapshots pool db). checkSnapshotRow pool (row_key r) r m = []) \<and>
     (\<forall>k. k \<notin> row_key ` set (walk_snapshots pool db) \<longrightarrow> map_of m k = None))"

lemma head_findings_any: "head_findings s h at = [] \<longleftrightarrow> (\<forall>at'. head_findings s h at' = [])"
  by (auto simp: head_findings_def split: sum.splits)

lemma snapshot_row_keys:
  assumes "schema_ok db"
  shows "distinct (map row_key (walk_snapshots pool db))"
proof -
  have "distinct (map (\<lambda>k. k) (map row_key (snapshots.rest pool db ([], []))))"
    using snapshots.rest_increasing(2) [OF assms] by simp
  then show ?thesis by (simp add: walk_rests)
qed

lemma replay_pool_silent:
  assumes "schema_ok db" "mx \<noteq> 0"
  shows "rp_Findings (replay_pool H mx db pool r) = [] \<longleftrightarrow> rp_Findings r = [] \<and> pool_clean H db pool"
proof -
  let ?s = "replay_batches H mx db pool r"
  define at where "at = pool_head_finding pool (pr_HeadSeq (pw_Pool ?s))"
  define r1 where "r1 = record_findings mx (head_findings (stored_head db (MetaLedgerHeadKey pool)) (pw_Prev ?s) at) (pw_Report ?s)"
  define w where "w = fold (snapshot_step mx pool) (walk_snapshots pool db) \<lparr>sw_Fold = pw_Fold ?s, sw_Count = 0, sw_Report = r1\<rparr>"
  have out: "rp_Findings (replay_pool H mx db pool r) =
      rp_Findings (record_findings mx (missing_findings pool (sw_Fold w)) (sw_Report w))"
    by (simp add: replay_pool_def Let_def replay_snapshots_def at_def r1_def w_def)
  have state: "pw_Prev ?s = chain_head br_Hash None (walk_batches pool db)"
    "pw_Fold ?s = foldEntries [] (walked_entries pool db)"
    by (simp_all add: replay_batches_def pool_fold_state pool_walk0_def walked_entries_def)
  have batches: "rp_Findings (pw_Report ?s) = [] \<longleftrightarrow> rp_Findings r = [] \<and>
      clean_rows (\<lambda>b. checkBatch H b (ListEntriesByBatch (br_ID b) db)) br_Hash br_Seq None 1 (walk_batches pool db)"
    by (simp add: replay_batches_def pool_fold_silent [OF assms(2)] pool_walk0_def)
  note snaps = snapshot_fold_silent [OF assms(2) snapshot_row_keys [OF assms(1), of pool],
      of pool "\<lparr>sw_Fold = pw_Fold ?s, sw_Count = 0, sw_Report = r1\<rparr>", folded w_def]
  have "sw_Fold w = [] \<longleftrightarrow> (\<forall>k. k \<notin> row_key ` set (walk_snapshots pool db) \<longrightarrow> map_of (pw_Fold ?s) k = None)"
    using snaps by (auto simp: map_of_empty)
  then show ?thesis
    unfolding out record_findings_silent [OF assms(2)] missing_Nil
    using snaps batches head_findings_any [of "stored_head db (MetaLedgerHeadKey pool)" "pw_Prev ?s" at]
    by (auto simp: pool_clean_def Let_def state r1_def record_findings_silent [OF assms(2)])
qed

lemma replay_silent:
  assumes "schema_ok db" "mx \<noteq> 0"
  shows "rp_Findings (replay H mx db) = [] \<longleftrightarrow> (\<forall>pool \<in> set (db_pools db). pool_clean H db pool) \<and>
    clean_rows (checkAuditRow H) au_Hash au_Seq None 1 (walk_audit db) \<and>
    (\<forall>at. head_findings (stored_head db MetaAuditHeadKey) (chain_head au_Hash None (walk_audit db)) at = [])"
proof -
  have pools: "rp_Findings (fold (replay_pool H mx db) ps r) = [] \<longleftrightarrow>
      rp_Findings r = [] \<and> (\<forall>pool \<in> set ps. pool_clean H db pool)" for ps r
    by (induction ps arbitrary: r) (auto simp: replay_pool_silent [OF assms])
  have "set (ListPoolIDs db) = set (db_pools db)" by (simp add: ListPoolIDs_def)
  moreover have "rp_Findings report0 = []" by (simp add: report0_def)
  ultimately show ?thesis
    unfolding replay_def replay_audit_def Let_def record_findings_silent [OF assms(2)]
    by (simp add: audit_fold_silent [OF assms(2)] audit_fold_prev pools)
      (metis head_findings_any)
qed


section \<open>The entries of a pool\<close>

lemma mset_concat_batches:
  fixes es :: "entry_row list" and bs :: "batch_row list"
  assumes "distinct (map br_ID bs)" "\<And>b. mset (f b) = mset (filter (\<lambda>e. er_BatchID e = br_ID b) es)"
  shows "mset (concat (map f bs)) = mset (filter (\<lambda>e. er_BatchID e \<in> br_ID ` set bs) es)"
  using assms(1)
proof (induction bs)
  case (Cons b bs)
  have split: "mset (filter (\<lambda>e. P e \<or> Q e) es) = mset (filter P es) + mset (filter Q es)"
    if "\<And>e. P e \<Longrightarrow> \<not> Q e" for P Q and es :: "entry_row list"
    using that by (induction es) auto
  have "mset (filter (\<lambda>e. er_BatchID e = br_ID b \<or> er_BatchID e \<in> br_ID ` set bs) es) =
      mset (filter (\<lambda>e. er_BatchID e = br_ID b) es) + mset (filter (\<lambda>e. er_BatchID e \<in> br_ID ` set bs) es)"
    using Cons.prems by (intro split) auto
  then show ?case using Cons by (simp add: assms(2) insert_def [symmetric])
qed simp

definition denormalised :: "database \<Rightarrow> bool" where
  "denormalised db \<longleftrightarrow> (\<forall>b \<in> set (db_batches db). \<forall>e \<in> set (batch_entries db b).
     er_PoolID e = br_PoolID b \<and> er_Seq e = br_Seq b)"

lemma denormalised_entry:
  assumes "denormalised db" "schema_ok db" "e \<in> set (db_entries db)"
  obtains b where "b \<in> set (db_batches db)" "er_BatchID e = br_ID b" "er_PoolID e = br_PoolID b" "er_Seq e = br_Seq b"
proof -
  obtain b where b: "b \<in> set (db_batches db)" "er_BatchID e = br_ID b"
    using assms(2,3) by (auto simp: schema_ok_def)
  then have "e \<in> set (batch_entries db b)" using assms(3) by (simp add: batch_entries_def)
  then show ?thesis using that b assms(1) by (auto simp: denormalised_def)
qed

lemma denormalised_iff:
  assumes "schema_ok db"
  shows "denormalised db \<longleftrightarrow> (\<forall>e \<in> set (db_entries db). \<exists>b \<in> set (db_batches db).
    er_BatchID e = br_ID b \<and> er_PoolID e = br_PoolID b \<and> er_Seq e = br_Seq b)"
proof
  assume d: "denormalised db"
  show "\<forall>e \<in> set (db_entries db). \<exists>b \<in> set (db_batches db).
      er_BatchID e = br_ID b \<and> er_PoolID e = br_PoolID b \<and> er_Seq e = br_Seq b"
    by (rule ballI, rule denormalised_entry [OF d assms]) auto
next
  assume all: "\<forall>e \<in> set (db_entries db). \<exists>b \<in> set (db_batches db).
      er_BatchID e = br_ID b \<and> er_PoolID e = br_PoolID b \<and> er_Seq e = br_Seq b"
  have "distinct (map br_ID (db_batches db))" using assms by (simp add: schema_ok_def)
  then have "b = c" if "b \<in> set (db_batches db)" "c \<in> set (db_batches db)" "br_ID b = br_ID c" for b c
    using that by (auto simp: distinct_map dest: inj_onD)
  with all show "denormalised db" by (fastforce simp: denormalised_def batch_entries_def)
qed

lemma walked_entries_mset:
  assumes "schema_ok db" "visible db" "denormalised db"
  shows "mset (walked_entries pool db) = mset (filter (\<lambda>e. er_PoolID e = pool) (db_entries db))"
proof -
  have ids: "distinct (map br_ID (by_seq pool db))"
    using assms(1) by (simp add: by_seq_def pool_batches_def schema_ok_def distinct_map_sort distinct_map_filter)
  have "mset (walked_entries pool db) =
      mset (filter (\<lambda>e. er_BatchID e \<in> br_ID ` set (by_seq pool db)) (db_entries db))"
    unfolding walked_entries_def walk_by_seq [OF assms(2)]
    by (rule mset_concat_batches [OF ids]) (simp add: ListEntriesByBatch_def)
  also have "filter (\<lambda>e. er_BatchID e \<in> br_ID ` set (by_seq pool db)) (db_entries db) =
      filter (\<lambda>e. er_PoolID e = pool) (db_entries db)"
  proof (rule filter_cong [OF refl])
    fix e assume "e \<in> set (db_entries db)"
    from denormalised_entry [OF assms(3,1) this] obtain b where
      b: "b \<in> set (db_batches db)" "er_BatchID e = br_ID b" "er_PoolID e = br_PoolID b" by blast
    have "inj_on br_ID (set (db_batches db))" using assms(1) by (simp add: schema_ok_def distinct_map)
    then have "br_ID b \<in> br_ID ` set (pool_batches pool db) \<longleftrightarrow> b \<in> set (pool_batches pool db)"
      using b(1) by (auto simp: pool_batches_def dest: inj_onD)
    then show "er_BatchID e \<in> br_ID ` set (by_seq pool db) \<longleftrightarrow> er_PoolID e = pool"
      using b by (simp add: by_seq_def pool_batches_def)
  qed
  finally show ?thesis .
qed

section \<open>The cached balances\<close>

definition balance_of_acc :: "fold_acc \<Rightarrow> balance" where
  "balance_of_acc acc = (sint (fa_AmountCp acc), fa_EntryCount acc, sint (fa_MaxSeq acc))"

text \<open>The accumulators are the fold of the log.\<close>

lemma accumulated:
  assumes "mset es = mset (filter (\<lambda>e. er_PoolID e = pool) (db_entries db))" "volume_fits db"
    and "\<And>e. e \<in> set (db_entries db) \<Longrightarrow> 0 < sint (er_Seq e)"
  shows "map_option balance_of_acc (map_of (foldEntries [] es) (a, k)) = folded (db_entries db) (pool, a, k)"
    and "map_of (foldEntries [] es) (a, k) = Some acc \<Longrightarrow> \<not> fa_Overflowed acc"
proof -
  let ?key = "(pool, a, k)"
  let ?mine = "filter (\<lambda>e. snap_key_of e = (a, k)) es"
  have mset: "mset ?mine = mset (of_key ?key (db_entries db))"
    using arg_cong [OF assms(1), of "filter_mset (\<lambda>e. snap_key_of e = (a, k))"]
    by (simp add: of_key_def entry_key_def snap_key_of_def conj_commute flip: mset_filter)
  then have set: "set ?mine = set (of_key ?key (db_entries db))" and len: "length ?mine = length (of_key ?key (db_entries db))"
    by (metis set_mset_mset, metis size_mset)
  have at: "map_of (foldEntries [] es) (a, k) = (if ?mine = [] then None else Some (fold add_entry ?mine acc0))"
    by (simp add: foldEntries_at Let_def acc_at_def)
  have "abs_sum ?mine \<le> abs_sum (db_entries db)"
    using abs_sum_mset [OF mset] abs_sum_filter [of _ "db_entries db"] by (simp add: of_key_def)
  then have fits: "\<not> fa_Overflowed (fold add_entry ?mine acc0)"
    using assms(2) by (intro fold_add_entry_fits) (simp_all add: acc0_def volume_fits_def)
  then show "map_of (foldEntries [] es) (a, k) = Some acc \<Longrightarrow> \<not> fa_Overflowed acc"
    by (auto simp: at split: if_splits)
  show "map_option balance_of_acc (map_of (foldEntries [] es) (a, k)) = folded (db_entries db) ?key"
  proof (cases "?mine = []")
    case True
    then show ?thesis using len by (simp add: at folded_def)
  next
    case False
    have pos: "0 < sint (er_Seq e)" if "e \<in> set ?mine" for e
      using that assms(3) set set_of_key by blast
    have "sint (fa_AmountCp (fold add_entry ?mine acc0)) = amount_sum (of_key ?key (db_entries db))"
      using fold_add_entry_amount [OF fits] amount_sum_mset [OF mset] by (simp add: acc0_def)
    moreover have "fa_EntryCount (fold add_entry ?mine acc0) = word_of_nat (length (of_key ?key (db_entries db)))"
      using fold_add_entry(1) [of ?mine acc0] len by (simp add: acc0_def)
    moreover have "sint (fa_MaxSeq (fold add_entry ?mine acc0)) = last_seq (of_key ?key (db_entries db))"
      using fold_add_entry(2) [of ?mine acc0] fold_max_last_seq [OF False pos] set
      by (simp add: acc0_def last_seq_def)
    moreover have "of_key ?key (db_entries db) \<noteq> []" using False len by auto
    ultimately show ?thesis using False by (simp add: at folded_def balance_of_acc_def)
  qed
qed


lemma pair_pos: "k \<noteq> ([], []) \<Longrightarrow> ([], []) < (k :: string \<times> string)"
  by (cases k; cases "fst k"; cases "snd k") (auto simp: less_prod_def)

lemma walk_snapshots_set:
  "visible db \<Longrightarrow> set (walk_snapshots pool db) = {s \<in> set (db_snapshots db). sn_PoolID s = pool}"
  by (auto simp: walk_snapshots_def visible_def pair_pos)

lemma balance_row_eq:
  "balance_of_row r = balance_of_acc acc \<longleftrightarrow> sn_AmountCp r = fa_AmountCp acc \<and>
    sn_EntryCount r = fa_EntryCount acc \<and> sn_AsOfSeq r = fa_MaxSeq acc"
  by (auto simp: balance_of_row_def balance_of_acc_def sint_inject64)

lemma cached_row:
  assumes "schema_ok db" "r \<in> set (db_snapshots db)"
  shows "cached (db_snapshots db) (snapshot_key r) = Some (balance_of_row r)"
  using assms snapshot_at_mem by (auto simp: cached_def schema_ok_def)

lemma pool_cache_clean:
  assumes "schema_ok db" "visible db"
    and fold: "\<And>a k. map_option balance_of_acc (map_of m (a, k)) = folded (db_entries db) (pool, a, k)"
    and fits: "\<And>k acc. map_of m k = Some acc \<Longrightarrow> \<not> fa_Overflowed acc"
  shows "(\<forall>r \<in> set (walk_snapshots pool db). checkSnapshotRow pool (row_key r) r m = []) \<and>
      (\<forall>k. k \<notin> row_key ` set (walk_snapshots pool db) \<longrightarrow> map_of m k = None) \<longleftrightarrow>
    (\<forall>a k. cached (db_snapshots db) (pool, a, k) = folded (db_entries db) (pool, a, k))"
    (is "?rows \<and> ?missing \<longleftrightarrow> ?cached")
proof -
  note walk = walk_snapshots_set [OF assms(2), of pool]
  have key: "snapshot_key r = (pool, row_key r)" if "r \<in> set (walk_snapshots pool db)" for r
    using that by (simp add: walk snapshot_key_def row_key_def)
  have row: "checkSnapshotRow pool (row_key r) r m = [] \<longleftrightarrow>
      cached (db_snapshots db) (pool, row_key r) = folded (db_entries db) (pool, row_key r)"
    if r: "r \<in> set (walk_snapshots pool db)" for r
  proof -
    obtain a k where ak: "row_key r = (a, k)" by (cases "row_key r")
    have "cached (db_snapshots db) (pool, a, k) = Some (balance_of_row r)"
      using cached_row [OF assms(1), of r] key [OF r] r by (simp add: walk ak)
    then have "cached (db_snapshots db) (pool, a, k) = folded (db_entries db) (pool, a, k) \<longleftrightarrow>
        (\<exists>acc. map_of m (a, k) = Some acc \<and> balance_of_row r = balance_of_acc acc)"
      unfolding fold [symmetric] by (cases "map_of m (a, k)") auto
    then show ?thesis
      using fits by (auto simp: checkSnapshotRow_silent ak balance_row_eq)
  qed
  have none: "map_of m (a, k) = None \<longleftrightarrow> cached (db_snapshots db) (pool, a, k) = folded (db_entries db) (pool, a, k)"
    if "(a, k) \<notin> row_key ` set (walk_snapshots pool db)" for a k
  proof -
    have "cached (db_snapshots db) (pool, a, k) = None"
      using that by (auto simp: cached_None walk snapshot_key_def row_key_def)
    then show ?thesis using fold [of a k] by auto
  qed
  show ?thesis
  proof
    assume clean: "?rows \<and> ?missing"
    show ?cached
    proof (intro allI)
      fix a k
      show "cached (db_snapshots db) (pool, a, k) = folded (db_entries db) (pool, a, k)"
        using clean row none [of a k] by (cases "(a, k) \<in> row_key ` set (walk_snapshots pool db)") auto
    qed
  next
    assume "?cached"
    then show "?rows \<and> ?missing" using row none by (metis surj_pair)
  qed
qed

section \<open>The chains\<close>

lemma pool_chain_clean:
  assumes vis: "visible db" and vol: "volume_fits db" and digest: "\<And>m. H m \<noteq> []"
  shows "clean_rows (\<lambda>b. checkBatch H b (ListEntriesByBatch (br_ID b) db)) br_Hash br_Seq None 1 (walk_batches pool db) \<longleftrightarrow>
    linked br_PrevHash br_Hash br_Seq (batch_digest H db) None 1 (by_seq pool db) \<and>
    (\<forall>b \<in> set (pool_batches pool db). batch_ok db b \<and>
       (\<forall>e \<in> set (batch_entries db b). er_PoolID e = br_PoolID b \<and> er_Seq e = br_Seq b))"
proof -
  have "checkBatch H b (ListEntriesByBatch (br_ID b) db) p want = [] \<longleftrightarrow> br_Seq b = want \<and>
      bytes_of (br_PrevHash b) = bytes_of p \<and> batch_digest H db b = br_Hash b \<and> (batch_ok db b \<and>
      (\<forall>e \<in> set (batch_entries db b). er_PoolID e = br_PoolID b \<and> er_Seq e = br_Seq b))" for b p want
  proof -
    have "abs_sum (batch_entries db b) \<le> abs_sum (db_entries db)"
      by (simp add: batch_entries_def abs_sum_filter)
    then have "sumEntries (sort_key er_ID (batch_entries db b)) = Some (br_NetAmountCp b) \<longleftrightarrow>
        sint (br_NetAmountCp b) = amount_sum (batch_entries db b)"
      using sumEntries_exact [of "sort_key er_ID (batch_entries db b)" "batch_entries db b" "br_NetAmountCp b"] vol
      by (auto simp: volume_fits_def)
    then show ?thesis
      by (auto simp: checkBatch_silent ListEntriesByBatch_entries BatchHash_sorted batch_digest_def batch_ok_def)
  qed
  note check = this
  have set: "set (by_seq pool db) = set (pool_batches pool db)" by (simp add: by_seq_def)
  show ?thesis
    unfolding walk_by_seq [OF vis] set [symmetric]
  proof (rule clean_rows_linked [where n = 1, OF check])
    fix b assume "b \<in> set (by_seq pool db)"
    then show "0 <s br_Seq b \<and> br_PrevHash b \<noteq> Some [] \<and> batch_digest H db b \<noteq> []"
      using vis digest by (auto simp: set pool_batches_def visible_def batch_digest_def BatchHash_def)
  qed simp_all
qed

lemma audit_chain_clean:
  assumes vis: "visible db" and digest: "\<And>m. H m \<noteq> []"
  shows "clean_rows (checkAuditRow H) au_Hash au_Seq None 1 (walk_audit db) \<longleftrightarrow>
    linked au_PrevHash au_Hash au_Seq (\<lambda>a. AuditHash H (au_PrevHash a) a) None 1 (audit_by_seq db)"
proof -
  have "clean_rows (checkAuditRow H) au_Hash au_Seq None 1 (audit_by_seq db) \<longleftrightarrow>
      linked au_PrevHash au_Hash au_Seq (\<lambda>a. AuditHash H (au_PrevHash a) a) None 1 (audit_by_seq db) \<and>
      (\<forall>a \<in> set (audit_by_seq db). True)"
  proof (rule clean_rows_linked [where n = 1])
    fix a assume "a \<in> set (audit_by_seq db)"
    then show "0 <s au_Seq a \<and> au_PrevHash a \<noteq> Some [] \<and> AuditHash H (au_PrevHash a) a \<noteq> []"
      using vis digest by (auto simp: audit_by_seq_def visible_def AuditHash_def)
  qed (auto simp: checkAuditRow_silent)
  then show ?thesis by (simp add: walk_audit_by_seq [OF vis])
qed

lemma head_clean:
  assumes "linked prev hash seq digest None 1 rs" "\<And>r. digest r \<noteq> []"
  shows "(\<forall>at. head_findings (stored_head db key) (chain_head hash None rs) at = []) \<longleftrightarrow>
    stored_head db key = Inr (chain_head hash None rs)"
proof -
  have "hash r = digest r" if "r \<in> set rs" for r
    using assms(1) that by (induction rs arbitrary: r rule: rev_induct) (auto simp: linked_snoc)
  then have "chain_head hash None rs \<noteq> Some []" using assms(2) by (auto simp: chain_head_def)
  from head_findings_silent [OF this] show ?thesis by simp
qed


section \<open>The verifier finds nothing exactly when there is nothing to find\<close>

lemma pool_clean_sound:
  assumes "schema_ok db" "visible db" "volume_fits db" "\<And>m. H m \<noteq> []" "denormalised db"
  shows "pool_clean H db pool \<longleftrightarrow>
    linked br_PrevHash br_Hash br_Seq (batch_digest H db) None 1 (by_seq pool db) \<and>
    stored_head db (MetaLedgerHeadKey pool) = Inr (chain_head br_Hash None (by_seq pool db)) \<and>
    (\<forall>b \<in> set (pool_batches pool db). batch_ok db b) \<and>
    (\<forall>a k. cached (db_snapshots db) (pool, a, k) = folded (db_entries db) (pool, a, k))"
    (is "_ \<longleftrightarrow> ?chain \<and> ?head \<and> ?batches \<and> ?cache")
proof -
  have seqs: "0 < sint (er_Seq e)" if e: "e \<in> set (db_entries db)" for e
  proof -
    obtain b where "b \<in> set (db_batches db)" "er_Seq e = br_Seq b"
      using denormalised_entry [OF assms(5,1) e] by metis
    then show ?thesis using assms(2) by (auto simp: visible_def sless_sint)
  qed
  note acc = accumulated [OF walked_entries_mset [OF assms(1,2,5)] assms(3) seqs]
  have fits: "map_of (foldEntries [] (walked_entries pool db)) k = Some acc \<Longrightarrow> \<not> fa_Overflowed acc" for k acc
    using acc(2) by (cases k) auto
  have digest: "\<And>b. batch_digest H db b \<noteq> []" using assms(4) by (simp add: batch_digest_def BatchHash_def)
  have den: "\<forall>b \<in> set (pool_batches pool db). \<forall>e \<in> set (batch_entries db b). er_PoolID e = br_PoolID b \<and> er_Seq e = br_Seq b"
    using assms(5) by (auto simp: denormalised_def pool_batches_def)
  have chain: "clean_rows (\<lambda>b. checkBatch H b (ListEntriesByBatch (br_ID b) db)) br_Hash br_Seq None 1 (walk_batches pool db)
      \<longleftrightarrow> ?chain \<and> ?batches"
    unfolding pool_chain_clean [where H = H, OF assms(2,3,4)] using den by blast
  have head: "?chain \<Longrightarrow> (\<forall>at. head_findings (stored_head db (MetaLedgerHeadKey pool))
      (chain_head br_Hash None (walk_batches pool db)) at = []) \<longleftrightarrow> ?head"
    unfolding walk_by_seq [OF assms(2)] by (rule head_clean [OF _ digest])
  have cache: "(\<forall>r \<in> set (walk_snapshots pool db).
        checkSnapshotRow pool (row_key r) r (foldEntries [] (walked_entries pool db)) = []) \<and>
      (\<forall>k. k \<notin> row_key ` set (walk_snapshots pool db) \<longrightarrow>
        map_of (foldEntries [] (walked_entries pool db)) k = None) \<longleftrightarrow> ?cache"
    by (rule pool_cache_clean [OF assms(1,2) acc(1)]) (assumption, rule fits)
  show ?thesis
    unfolding pool_clean_def Let_def chain cache using head by blast
qed

lemma clean_denormalised:
  assumes "schema_ok db" "visible db" "volume_fits db" "\<And>m. H m \<noteq> []" "\<forall>pool \<in> set (db_pools db). pool_clean H db pool"
  shows "denormalised db"
  unfolding denormalised_def
proof
  fix b assume b: "b \<in> set (db_batches db)"
  then have "br_PoolID b \<in> set (db_pools db)" using assms(1) by (simp add: schema_ok_def)
  then have "pool_clean H db (br_PoolID b)" using assms(5) by blast
  then show "\<forall>e \<in> set (batch_entries db b). er_PoolID e = br_PoolID b \<and> er_Seq e = br_Seq b"
    using b by (simp add: pool_clean_def Let_def pool_chain_clean [where H = H, OF assms(2,3,4)] pool_batches_def)
qed

lemma replay_sound:
  assumes "schema_ok db" "visible db" "volume_fits db" "\<And>m. H m \<noteq> []" "mx \<noteq> 0"
  shows "rp_Findings (replay H mx db) = [] \<longleftrightarrow> sound H db"
proof (cases "denormalised db")
  case False
  then show ?thesis
    unfolding replay_silent [OF assms(1,5)] sound_def
    using clean_denormalised [where H = H, OF assms(1-4)] denormalised_iff [OF assms(1)] by blast
next
  case True
  note entries = True [unfolded denormalised_iff [OF assms(1)]]
  have digest: "\<And>a. AuditHash H (au_PrevHash a) a \<noteq> []" using assms(4) by (simp add: AuditHash_def)
  have batches: "(\<forall>b \<in> set (db_batches db). batch_ok db b) \<longleftrightarrow>
      (\<forall>pool \<in> set (db_pools db). \<forall>b \<in> set (pool_batches pool db). batch_ok db b)"
    using assms(1) by (auto simp: schema_ok_def pool_batches_def)
  have other: "cached (db_snapshots db) (pool, a, k) = folded (db_entries db) (pool, a, k)"
    if "pool \<notin> set (db_pools db)" for pool a k
  proof -
    have "(pool, a, k) \<notin> snapshot_key ` set (db_snapshots db)" "of_key (pool, a, k) (db_entries db) = []"
      using assms(1) that by (auto simp: schema_ok_def snapshot_key_def of_key_def entry_key_def filter_empty_conv)
    then show ?thesis by (simp add: cached_None folded_def)
  qed
  have cache: "(\<forall>k. cached (db_snapshots db) k = folded (db_entries db) k) \<longleftrightarrow>
      (\<forall>pool \<in> set (db_pools db). \<forall>a k. cached (db_snapshots db) (pool, a, k) = folded (db_entries db) (pool, a, k))"
    using other by (metis prod_cases3)
  have audit: "(\<forall>at. head_findings (stored_head db MetaAuditHeadKey) (chain_head au_Hash None (walk_audit db)) at = []) \<longleftrightarrow>
      stored_head db MetaAuditHeadKey = Inr (chain_head au_Hash None (audit_by_seq db))"
    if "linked au_PrevHash au_Hash au_Seq (\<lambda>a. AuditHash H (au_PrevHash a) a) None 1 (audit_by_seq db)"
    unfolding walk_audit_by_seq [OF assms(2)] by (rule head_clean [OF that digest])
  show ?thesis
    unfolding replay_silent [OF assms(1,5)] sound_def batches cache
      audit_chain_clean [where H = H, OF assms(2,4)] pool_clean_sound [where H = H, OF assms(1-4) True]
    using entries audit by blast
qed


text \<open>No finding is kept only when none was counted.\<close>

definition counted :: "report \<Rightarrow> bool" where
  "counted r \<longleftrightarrow> (rp_Findings r = [] \<longrightarrow> rp_FindingCount r = 0)"

lemma counted_record: "mx \<noteq> 0 \<Longrightarrow> counted r \<Longrightarrow> counted (record_findings mx fs r)"
  by (cases fs) (simp_all add: counted_def record_findings_silent)

lemma replay_counted:
  assumes "mx \<noteq> 0"
  shows "counted (replay H mx db)"
proof -
  note rec = counted_record [OF assms]
  have batches: "counted (pw_Report (replay_batches H mx db pool r))" if "counted r" for pool r
    unfolding replay_batches_def
    by (rule fold_invariant [where Q = "\<lambda>_. True" and P = "\<lambda>s. counted (pw_Report s)"])
      (use that rec in \<open>simp_all add: pool_step_def pool_walk0_def\<close>)
  have snaps: "counted (snd (replay_snapshots mx db pool m r))" if "counted r" for pool m r
  proof -
    have "counted (sw_Report (fold (snapshot_step mx pool) (walk_snapshots pool db) \<lparr>sw_Fold = m, sw_Count = 0, sw_Report = r\<rparr>))"
      by (rule fold_invariant [where Q = "\<lambda>_. True" and P = "\<lambda>s. counted (sw_Report s)"])
        (use that rec in \<open>simp_all add: snapshot_step_def\<close>)
    then show ?thesis by (simp add: replay_snapshots_def Let_def rec)
  qed
  have pool: "counted (replay_pool H mx db pool r)" if "counted r" for pool r
    using snaps [OF rec [OF batches [OF that]]]
    by (simp add: replay_pool_def Let_def case_prod_beta counted_def)
  have pools: "counted (fold (replay_pool H mx db) (ListPoolIDs db) report0)"
    by (rule fold_invariant [where Q = "\<lambda>_. True"]) (use pool in \<open>simp_all add: counted_def report0_def\<close>)
  have "counted (aw_Report (fold (audit_step H mx) (walk_audit db)
      \<lparr>aw_Prev = None, aw_WantSeq = 1, aw_Rows = rp_Audit r, aw_Report = r\<rparr>))" if "counted r" for r
    by (rule fold_invariant [where Q = "\<lambda>_. True" and P = "\<lambda>s. counted (aw_Report s)"])
      (use that rec in \<open>simp_all add: audit_step_def\<close>)
  from this [OF pools] show ?thesis
    unfolding replay_def replay_audit_def Let_def by (intro rec) (simp add: counted_def)
qed

lemma cap_of_nonzero: "cap_of opts \<noteq> 0"
  by (simp add: cap_of_def orDefaultInt_def DefaultVerifyMaxFindings_def)

lemma verify_finds:
  assumes "quiet env" "schema_ok (wd_db w)" "visible (wd_db w)" "volume_fits (wd_db w)"
    and "\<And>m. ev_SHA256 env m \<noteq> []"
  shows "\<exists>r. fst (Verify env opts w) = Inr r \<and> (rp_Findings r = [] \<longleftrightarrow> sound (ev_SHA256 env) (wd_db w)) \<and>
    (rp_Findings r = [] \<longrightarrow> Clean r)"
proof -
  have "fst (Verify env opts w) = Inr (replay (ev_SHA256 env) (cap_of opts) (wd_db w))"
    using runs_Verify [OF assms(1,2)] by (simp add: runs_def)
  then show ?thesis
    using replay_sound [where H = "ev_SHA256 env", OF assms(2-5) cap_of_nonzero] replay_counted [OF cap_of_nonzero, of "ev_SHA256 env" opts "wd_db w"]
    by (auto simp: Clean_def counted_def)
qed

lemma sound_heads: "sound H db \<Longrightarrow> heads_readable db"
  by (simp add: sound_def heads_readable_def)

text \<open>
  What the code does with a head that does not parse: it returns a report, with a finding, and no error.
\<close>

lemma unreadable_head_is_a_finding:
  assumes "quiet env" "schema_ok (wd_db w)" "visible (wd_db w)" "volume_fits (wd_db w)"
    and "\<And>m. ev_SHA256 env m \<noteq> []" "\<not> heads_readable (wd_db w)"
  shows "\<exists>r. fst (Verify env opts w) = Inr r \<and> rp_Findings r \<noteq> []"
  using verify_finds [OF assms(1-5), of opts] sound_heads assms(6) by blast

text \<open>C22: The verifier is sound and complete. On a database that obeys the keys of the schema, whose
  stored chain heads parse, whose batches and audit rows start at seq 1 and hold no empty (as opposed to
  absent) previous hash, whose cached rows name an account or a balance kind, and whose amounts leave room
  in 64 bits, when no statement fails and no digest is empty, \<open>Verify\<close> returns a report, whatever
  its page size and its cap, and the report holds no finding exactly when the database is sound: every
  chain is numbered from 1 without a gap and linked by its digests up to the stored head, every batch
  states the count and the net of its entries, every entry repeats the pool and seq of its batch, and
  every cached balance is the fold of the log.\<close>

theorem verify_exact:
  assumes "quiet env" "schema_ok (wd_db w)" "visible (wd_db w)" "volume_fits (wd_db w)"
    and "\<And>m. ev_SHA256 env m \<noteq> []" "heads_readable (wd_db w)"
  shows "\<exists>r. fst (Verify env opts w) = Inr r \<and> (rp_Findings r = [] \<longleftrightarrow> sound (ev_SHA256 env) (wd_db w))"
  using verify_finds [OF assms(1-5)] by blast

section \<open>A reachable ledger verifies clean\<close>

lemma linked_prev:
  "linked prev hash seq digest p n rs \<Longrightarrow> r \<in> set rs \<Longrightarrow> prev r = p \<or> (\<exists>q \<in> set rs. prev r = Some (hash q))"
  by (induction rs arbitrary: p n) auto

lemma linked_visible:
  assumes "linked prev hash seq digest None 1 rs" "\<And>r. length (digest r) = hashLength" "r \<in> set rs"
  shows "0 <s seq r \<and> prev r \<noteq> Some []"
proof -
  have "sint (seq r) \<in> (\<lambda>r. sint (seq r)) ` set rs" using assms(3) by simp
  then have "1 \<le> sint (seq r)" unfolding linked_seqs [OF assms(1)] by simp
  moreover have "hash q \<noteq> []" if "q \<in> set rs" for q
    using linked_lengths [OF assms(1,2) that] by (auto simp: hashLength_def)
  ultimately show ?thesis using linked_prev [OF assms(1,3)] by (auto simp: sless_sint)
qed

definition named_accounts :: "database \<Rightarrow> bool" where
  "named_accounts db \<longleftrightarrow> [] \<notin> ac_ID ` set (db_accounts db)"

lemma ledger_snapshot_entry:
  assumes "ledger_ok H db" "s \<in> set (db_snapshots db)"
  obtains e where "e \<in> set (db_entries db)" "entry_key e = snapshot_key s"
proof -
  have "cached (db_snapshots db) (snapshot_key s) \<noteq> None" using assms(2) by (auto simp: cached_None)
  moreover have "cached (db_snapshots db) (snapshot_key s) = folded (db_entries db) (snapshot_key s)"
    using assms(1) unfolding ledger_ok_def cache_ok_def by blast
  ultimately have "of_key (snapshot_key s) (db_entries db) \<noteq> []" by (auto simp: folded_def)
  then show ?thesis using that by (auto simp: of_key_def filter_empty_conv)
qed

lemma ledger_schema_ok:
  assumes ok: "ledger_ok H db"
  shows "schema_ok db"
proof -
  have chain: "linked br_PrevHash br_Hash br_Seq (batch_digest H db) None 1 (pool_batches pool db)" for pool
    using ok by (simp add: ledger_ok_def chain_ok_def)
  have ids: "distinct (map br_ID (db_batches db))" using ok by (simp add: ledger_ok_def)
  have "distinct (map (\<lambda>b. (br_PoolID b, br_Seq b)) (db_batches db))"
  proof -
    have "b = c" if "b \<in> set (db_batches db)" "c \<in> set (db_batches db)" "br_PoolID b = br_PoolID c" "br_Seq b = br_Seq c" for b c
    proof -
      have "inj_on (\<lambda>b. sint (br_Seq b)) (set (pool_batches (br_PoolID b) db))"
        using linked_sorted [OF chain] by (simp add: distinct_map)
      from inj_onD [OF this, of b c] that show ?thesis by (simp add: pool_batches_def)
    qed
    then show ?thesis using ids by (auto simp: distinct_map inj_on_def)
  qed
  moreover have "distinct (map au_Seq (db_audit db))"
    using ok linked_sorted [of au_PrevHash au_Hash au_Seq] by (auto simp: ledger_ok_def audit_ok_def distinct_map_sint)
  moreover have "distinct (map snapshot_key (db_snapshots db))"
    using ok by (simp add: ledger_ok_def cache_ok_def)
  moreover have entry: "er_BatchID e \<in> br_ID ` set (db_batches db) \<and> er_PoolID e \<in> set (db_pools db)"
    if "e \<in> set (db_entries db)" for e
    using ok that by (auto simp: ledger_ok_def entry_ok_def)
  moreover have "sn_PoolID s \<in> set (db_pools db)" if "s \<in> set (db_snapshots db)" for s
    using ledger_snapshot_entry [OF ok that] entry by (metis entry_key_def fst_conv snapshot_key_def)
  ultimately show ?thesis using ok by (auto simp: schema_ok_def ledger_ok_def)
qed

lemma ledger_visible:
  assumes ok: "ledger_ok H db" and digest: "\<And>m. length (H m) = hashLength" and named: "named_accounts db"
  shows "visible db"
  unfolding visible_def
proof (intro conjI ballI)
  fix b assume "b \<in> set (db_batches db)"
  then have b: "b \<in> set (pool_batches (br_PoolID b) db)" by (simp add: pool_batches_def)
  have "linked br_PrevHash br_Hash br_Seq (batch_digest H db) None 1 (pool_batches (br_PoolID b) db)"
    using ok by (simp add: ledger_ok_def chain_ok_def)
  from linked_visible [OF this _ b] show "0 <s br_Seq b" "br_PrevHash b \<noteq> Some []"
    by (simp_all add: batch_digest_def BatchHash_def digest)
next
  fix a assume a: "a \<in> set (db_audit db)"
  have "linked au_PrevHash au_Hash au_Seq (\<lambda>a. AuditHash H (au_PrevHash a) a) None 1 (db_audit db)"
    using ok by (simp add: ledger_ok_def audit_ok_def)
  from linked_visible [OF this _ a] show "0 <s au_Seq a" "au_PrevHash a \<noteq> Some []"
    by (simp_all add: AuditHash_def digest)
next
  fix s assume "s \<in> set (db_snapshots db)"
  from ledger_snapshot_entry [OF ok this] obtain e where "e \<in> set (db_entries db)" "entry_key e = snapshot_key s" .
  moreover from this have "er_AccountID e = sn_AccountID s" by (simp add: entry_key_def snapshot_key_def)
  ultimately have "sn_AccountID s \<in> ac_ID ` set (db_accounts db)"
    using ok by (metis ledger_ok_def entry_ok_def)
  then show "row_key s \<noteq> ([], [])" using named by (auto simp: named_accounts_def row_key_def)
qed

lemma ledger_sound:
  assumes ok: "ledger_ok H db" and digest: "\<And>m. length (H m) = hashLength"
  shows "sound H db"
proof -
  have chain: "linked br_PrevHash br_Hash br_Seq (batch_digest H db) None 1 (pool_batches pool db)"
    "GetMetaValue (MetaLedgerHeadKey pool) db = map_option encodeHead (chain_head br_Hash None (pool_batches pool db))" for pool
    using ok by (simp_all add: ledger_ok_def chain_ok_def)
  have aud: "linked au_PrevHash au_Hash au_Seq (\<lambda>a. AuditHash H (au_PrevHash a) a) None 1 (db_audit db)"
    "GetMetaValue MetaAuditHeadKey db = map_option encodeHead (chain_head au_Hash None (db_audit db))"
    using ok by (simp_all add: ledger_ok_def audit_ok_def)
  have seqs: "by_seq pool db = pool_batches pool db" "audit_by_seq db = db_audit db" for pool
    using linked_sorted [OF chain(1)] linked_sorted [OF aud(1)]
    by (simp_all add: by_seq_def audit_by_seq_def sort_key_id_if_sorted)
  have stored: "stored_head db key = Inr h"
    if "GetMetaValue key db = map_option encodeHead h" "\<And>x. h = Some x \<Longrightarrow> length x = hashLength" for key h
    using that by (cases h) (auto simp: stored_head_def decodeHead_encodeHead res_simps)
  have lengths: "chain_head hash None rs = Some x \<Longrightarrow> length x = hashLength"
    if "linked prev hash seq dg None 1 rs" "\<And>r. length (dg r) = hashLength"
    for prev and hash :: "'r \<Rightarrow> string" and seq dg rs x
    using linked_lengths [OF that] by (auto simp: chain_head_def split: if_splits)
  have "stored_head db (MetaLedgerHeadKey pool) = Inr (chain_head br_Hash None (pool_batches pool db))" for pool
    by (rule stored [OF chain(2)]) (rule lengths [OF chain(1)], auto simp: batch_digest_def BatchHash_def digest)
  moreover have "stored_head db MetaAuditHeadKey = Inr (chain_head au_Hash None (db_audit db))"
    by (rule stored [OF aud(2)]) (rule lengths [OF aud(1)], auto simp: AuditHash_def digest)
  moreover have "\<forall>k. cached (db_snapshots db) k = folded (db_entries db) k"
    using ok unfolding ledger_ok_def cache_ok_def by blast
  moreover have "\<forall>b \<in> set (db_batches db). batch_ok db b" using ok by (simp add: ledger_ok_def)
  moreover have "\<forall>e \<in> set (db_entries db). \<exists>b \<in> set (db_batches db).
      er_BatchID e = br_ID b \<and> er_PoolID e = br_PoolID b \<and> er_Seq e = br_Seq b"
    using ok by (simp add: ledger_ok_def entry_ok_def)
  ultimately show ?thesis
    unfolding sound_def seqs using chain(1) aud(1) by blast
qed

text \<open>C23: An honest ledger verifies clean. Whatever commits were made, failed or were retried, \<open>Verify\<close>
  on the database they left reports nothing, as long as no account has an empty id and the amounts
  that ever moved leave room in 64 bits.\<close>

theorem reachable_verifies_clean:
  assumes "reachable env any_request w" "\<And>m. length (ev_SHA256 env m) = hashLength"
    and "quiet env'" "ev_SHA256 env' = ev_SHA256 env" "named_accounts (wd_db w)" "volume_fits (wd_db w)"
  shows "\<exists>r. fst (Verify env' opts w) = Inr r \<and> Clean r \<and> rp_Findings r = []"
proof -
  note ok = reachable_ok [OF assms(1,2)]
  have "ev_SHA256 env' m \<noteq> []" for m
    using assms(2) [of m] assms(4) by (auto simp: hashLength_def)
  from verify_finds [OF assms(3) ledger_schema_ok [OF ok] ledger_visible [OF ok assms(2,5)] assms(6) this]
  show ?thesis
    using ledger_sound [OF ok assms(2)] assms(4) by auto
qed


section \<open>Instances\<close>

theorem verify_exact_witness:
  "\<exists>r. fst (Verify sample_env \<lparr>vo_PageSize = 0, vo_MaxFindings = 0\<rparr> sample_world) = Inr r \<and>
    (rp_Findings r = [] \<longleftrightarrow> sound (ev_SHA256 sample_env) sample_db)"
proof -
  have "schema_ok sample_db" "visible sample_db" "volume_fits sample_db"
    by (simp_all add: schema_ok_def visible_def volume_fits_def abs_sum_def sample_db_def genesis_def)
  moreover have "ev_SHA256 sample_env m \<noteq> []" for m
    using sample_env_facts(4) [of m] by (auto simp: hashLength_def)
  moreover have "heads_readable sample_db"
    by (simp add: heads_readable_def stored_head_def GetMetaValue_def find_row_def sample_db_def genesis_def)
  ultimately show ?thesis
    using verify_exact [OF sample_env_facts(1), of sample_world] by (simp add: sample_world_def)
qed

theorem reachable_verifies_clean_witness:
  "\<exists>w r. db_batches (wd_db w) \<noteq> [] \<and>
    fst (Verify sample_env \<lparr>vo_PageSize = 0, vo_MaxFindings = 0\<rparr> w) = Inr r \<and> Clean r"
proof -
  obtain rc w' where c: "Commit sample_env (sample_request grant) sample_world = (Inr rc, w')" "\<not> rc_Replayed rc"
    by (rule grant_commits)
  from c(1) obtain b es a where p: "posts (ev_SHA256 sample_env) (sample_request grant) sample_db b es a (wd_db w')"
    by (rule Commit_Inr) (use c(2) in \<open>auto simp: replay_receipt_def sample_world_def\<close>)
  then have new: "db_entries (wd_db w') = es" "db_accounts (wd_db w') = db_accounts sample_db"
    "batch_of (sample_request grant) b es" "db_batches (wd_db w') \<noteq> []"
    by (auto simp: posts_def sample_db_def genesis_def)
  have "volume_fits (wd_db w')"
    using batch_of_accounts(3) [OF new(3)] by (simp add: volume_fits_def new(1) sample_request_def grant_facts)
  moreover have "named_accounts (wd_db w')" unfolding named_accounts_def new(2) by code_simp
  ultimately show ?thesis
    using reachable_verifies_clean [OF sample_step [where P = any_request, OF _ c(1)] sample_env_facts(4,1) refl] new(4)
    by blast
qed

end
