(* ===== verification/Standings.thy ===== *)
theory Standings
  imports Soundness
begin

text \<open>
  The reads of internal/ledger (account.go, balance.go, seq.go, standings.go) and what they promise:
  the standings page reads the cache, the audit reads the log, and on a ledger the engine wrote the
  two agree, row by row and in the same order.
\<close>

section \<open>Accounts\<close>

record account =
  acc_ID :: ulid
  acc_Kind :: string
  acc_PersonID :: "ulid option"
  acc_SystemKey :: "string option"
  acc_Label :: string
  acc_CreatedAt :: micros
  acc_UpdatedAt :: micros

definition accountFromRow :: "account_row \<Rightarrow> account" where
  "accountFromRow r = \<lparr>acc_ID = ac_ID r, acc_Kind = ac_Kind r, acc_PersonID = ac_PersonID r,
     acc_SystemKey = ac_SystemKey r, acc_Label = ac_Label r, acc_CreatedAt = ac_CreatedAt r,
     acc_UpdatedAt = ac_UpdatedAt r\<rparr>"

definition found :: "account_row option \<Rightarrow> account act" where
  "found row = liftA (case row of None \<Rightarrow> Inl ErrNotFound | Some r \<Rightarrow> Inr (accountFromRow r))"

definition GetAccount :: "env \<Rightarrow> ulid \<Rightarrow> account act" where
  "GetAccount env k = bindA (query env (\<lambda>db. Inr (q_GetAccount k db))) found"

definition GetSystemAccount :: "env \<Rightarrow> string \<Rightarrow> account act" where
  "GetSystemAccount env key = bindA (query env (\<lambda>db. Inr (q_GetSystemAccount key db))) found"

section \<open>Balances\<close>

definition MaxPoolSeq :: "env \<Rightarrow> ulid \<Rightarrow> i64 act" where
  "MaxPoolSeq env pool = query env (\<lambda>db. Inr (q_MaxPoolSeq pool db))"

definition NextPoolSeq :: "env \<Rightarrow> ulid \<Rightarrow> i64 act" where
  "NextPoolSeq env pool = query env (\<lambda>db. Inr (q_NextPoolSeq pool db))"

definition BalanceAsOfSeq :: "env \<Rightarrow> ulid \<Rightarrow> ulid \<Rightarrow> string \<Rightarrow> i64 \<Rightarrow> centipoints act" where
  "BalanceAsOfSeq env pool account kind asOfSeq = query env (q_BalanceAsOfSeq pool account kind asOfSeq)"

definition CurrentBalance :: "env \<Rightarrow> ulid \<Rightarrow> ulid \<Rightarrow> string \<Rightarrow> centipoints act" where
  "CurrentBalance env pool account kind =
     bindA (MaxPoolSeq env pool) (BalanceAsOfSeq env pool account kind)"

section \<open>Standings\<close>

definition standing_of_snapshot :: "snapshot_row \<Rightarrow> standing" where
  "standing_of_snapshot r = \<lparr>st_AccountID = sn_AccountID r, st_AmountCp = sn_AmountCp r,
     st_AsOfSeq = sn_AsOfSeq r, st_EntryCount = sn_EntryCount r\<rparr>"

definition StandingsFromSnapshot :: "env \<Rightarrow> ulid \<Rightarrow> string \<Rightarrow> i64 \<Rightarrow> standing list act" where
  "StandingsFromSnapshot env pool kind n =
     bindA (query env (\<lambda>db. Inr (q_StandingsFromSnapshot pool kind n db))) (\<lambda>rows.
       retA (map standing_of_snapshot rows))"

definition StandingsFromLedger :: "env \<Rightarrow> ulid \<Rightarrow> string \<Rightarrow> i64 \<Rightarrow> i64 \<Rightarrow> standing list act" where
  "StandingsFromLedger env pool kind asOfSeq n =
     bindA (query env (q_StandingsFromLedger pool kind asOfSeq n)) (\<lambda>rows.
       retA (map (\<lambda>(account, amount, count). \<lparr>st_AccountID = account, st_AmountCp = amount,
         st_AsOfSeq = asOfSeq, st_EntryCount = count\<rparr>) rows))"

section \<open>The log in sums\<close>

text \<open>The rows of one account and balance kind in a pool, as a standing without its seq.\<close>

definition total_row :: "ulid \<Rightarrow> string \<Rightarrow> database \<Rightarrow> ulid \<Rightarrow> ulid \<times> i64 \<times> i64" where
  "total_row pool kind db a = (let es = of_key (pool, a, kind) (db_entries db) in
     (a, word_of_int (amount_sum es), word_of_nat (length es)))"

lemma sql_sum_fits:
  assumes "abs_sum es < 9223372036854775808"
  shows "sql_sum es = Inr (word_of_int (amount_sum es))"
proof -
  have "mset (index_order es) = mset es" by (simp add: index_order_def)
  then obtain r where "sum_cp 0 (map er_AmountCp (index_order es)) = Some r"
    using sum_cp_fits [of 0 "index_order es"] abs_sum_mset [of "index_order es" es] assms by auto
  then have r: "sql_sum es = Inr r" by (simp add: sql_sum_def ok_or_def)
  have "word_of_int (sint r) = r" by simp
  then show ?thesis using r sql_sum_exact [OF r] by simp
qed

lemma group_sums_fits:
  assumes "abs_sum rows < 9223372036854775808"
  shows "group_sums rows as = Inr (map (\<lambda>a. let mine = filter (\<lambda>e. er_AccountID e = a) rows in
    (a, word_of_int (amount_sum mine), word_of_nat (length mine))) as)"
proof (induction as)
  case (Cons a as)
  have "abs_sum (filter (\<lambda>e. er_AccountID e = a) rows) < 9223372036854775808"
    using abs_sum_filter [of "\<lambda>e. er_AccountID e = a" rows] assms by linarith
  note sum = sql_sum_fits [OF this]
  show ?case
    unfolding group_sums.simps Let_def sum bindR_Inr Cons [unfolded Let_def] by (simp only: list.map)
qed simp

lemma map_sort_key: "map g (sort_key (\<lambda>x. f (g x)) xs) = sort_key f (map g xs)"
proof (induction xs)
  case (Cons x xs)
  have "map g (insort_key (\<lambda>x. f (g x)) x ys) = insort_key f (g x) (map g ys)" for ys
    by (induction ys) auto
  then show ?case using Cons by simp
qed simp

text \<open>The head of a pool is above every entry of it.\<close>

lemma pool_head:
  assumes "ledger_ok H db"
  shows "sint (q_MaxPoolSeq pool db) = int (length (pool_batches pool db))"
proof -
  have "linked br_PrevHash br_Hash br_Seq (batch_digest H db) None 1 (pool_batches pool db)"
    using assms by (simp add: ledger_ok_def chain_ok_def)
  from linked_max [OF this] show ?thesis by (simp add: q_MaxPoolSeq_def pool_batches_def)
qed

lemma entry_below_head:
  assumes "ledger_ok H db" "e \<in> set (db_entries db)"
  shows "er_Seq e \<le>s q_MaxPoolSeq (er_PoolID e) db"
  using entry_seq_bound(2) [OF assms] pool_head [OF assms(1)] by (simp add: sle_sint)

text \<open>What the cache holds for a pool and a kind is the totals of the accounts in the log.\<close>

lemma snapshot_totals:
  fixes pool :: ulid and kind :: string
  assumes "ledger_ok H db"
  defines "rows \<equiv> filter (\<lambda>s. sn_PoolID s = pool \<and> sn_BalanceKind s = kind) (db_snapshots db)"
  shows "map (\<lambda>s. (sn_AccountID s, sn_AmountCp s, sn_EntryCount s)) rows =
      map (total_row pool kind db) (map sn_AccountID rows)"
    and "distinct (map sn_AccountID rows)"
    and "set (map sn_AccountID rows) = er_AccountID ` {e \<in> set (db_entries db). er_PoolID e = pool \<and> er_BalanceKind e = kind}"
proof -
  have cache: "distinct (map snapshot_key (db_snapshots db))" "cached (db_snapshots db) k = folded (db_entries db) k" for k
    using assms(1) unfolding ledger_ok_def cache_ok_def by blast+
  have row: "folded (db_entries db) (pool, sn_AccountID s, kind) = Some (balance_of_row s)" if "s \<in> set rows" for s
  proof -
    have "snapshot_at (db_snapshots db) (snapshot_key s) = Some s"
      using snapshot_at_mem [OF cache(1)] that by (simp add: rows_def)
    then show ?thesis
      using cache(2) [of "snapshot_key s"] that by (simp add: cached_def snapshot_key_def rows_def)
  qed
  have "(sn_AccountID s, sn_AmountCp s, sn_EntryCount s) = total_row pool kind db (sn_AccountID s)"
    if "s \<in> set rows" for s
  proof -
    have "amount_sum (of_key (pool, sn_AccountID s, kind) (db_entries db)) = sint (sn_AmountCp s)"
      "word_of_nat (length (of_key (pool, sn_AccountID s, kind) (db_entries db))) = sn_EntryCount s"
      using row [OF that] by (simp_all add: folded_def balance_of_row_def split: if_splits)
    then show ?thesis by (simp add: total_row_def)
  qed
  then show "map (\<lambda>s. (sn_AccountID s, sn_AmountCp s, sn_EntryCount s)) rows =
      map (total_row pool kind db) (map sn_AccountID rows)"
    by simp
  have "distinct (map snapshot_key rows)" using cache(1) by (simp add: rows_def distinct_map_filter)
  then show "distinct (map sn_AccountID rows)"
    by (auto simp: distinct_map inj_on_def snapshot_key_def rows_def)
  show "set (map sn_AccountID rows) = er_AccountID ` {e \<in> set (db_entries db). er_PoolID e = pool \<and> er_BalanceKind e = kind}"
  proof (intro equalityI subsetI)
    fix a assume "a \<in> set (map sn_AccountID rows)"
    then obtain s where s: "s \<in> set rows" "a = sn_AccountID s" by auto
    then have "folded (db_entries db) (pool, a, kind) \<noteq> None" using row by simp
    then have "of_key (pool, a, kind) (db_entries db) \<noteq> []" by (simp add: folded_def split: if_splits)
    then show "a \<in> er_AccountID ` {e \<in> set (db_entries db). er_PoolID e = pool \<and> er_BalanceKind e = kind}"
      by (auto simp: of_key_def filter_empty_conv entry_key_def)
  next
    fix a assume "a \<in> er_AccountID ` {e \<in> set (db_entries db). er_PoolID e = pool \<and> er_BalanceKind e = kind}"
    then have "of_key (pool, a, kind) (db_entries db) \<noteq> []"
      by (auto simp: of_key_def filter_empty_conv entry_key_def)
    then have "cached (db_snapshots db) (pool, a, kind) \<noteq> None" by (simp add: cache(2) folded_def)
    then show "a \<in> set (map sn_AccountID rows)" by (auto simp: cached_None snapshot_key_def rows_def)
  qed
qed

section \<open>The cache agrees with the log\<close>

definition line :: "standing \<Rightarrow> ulid \<times> i64 \<times> i64" where
  "line s = (st_AccountID s, st_AmountCp s, st_EntryCount s)"

definition rank :: "ulid \<times> i64 \<times> i64 \<Rightarrow> int \<times> ulid" where
  "rank = (\<lambda>(a, amount, _). (- sint amount, a))"

lemma snapshot_lines:
  fixes pool :: ulid and kind :: string
  assumes "ledger_ok H db"
  defines "es \<equiv> {e \<in> set (db_entries db). er_PoolID e = pool \<and> er_BalanceKind e = kind}"
  obtains as where "distinct as" "set as = er_AccountID ` es"
    "map line (map standing_of_snapshot (q_StandingsFromSnapshot pool kind n db)) =
       sql_limit n (sort_key rank (map (total_row pool kind db) as))"
proof -
  define rows where "rows = filter (\<lambda>s. sn_PoolID s = pool \<and> sn_BalanceKind s = kind) (db_snapshots db)"
  let ?t = "\<lambda>s. (sn_AccountID s, sn_AmountCp s, sn_EntryCount s)"
  note totals = snapshot_totals [OF assms(1), of pool kind, folded rows_def]
  have limit: "map f (sql_limit n xs) = sql_limit n (map f xs)" for f :: "snapshot_row \<Rightarrow> ulid \<times> i64 \<times> i64" and xs
    by (simp add: sql_limit_def take_map)
  have key: "(\<lambda>s. (- sint (sn_AmountCp s), sn_AccountID s)) = (\<lambda>s. rank (?t s))"
    by (simp add: rank_def)
  have "map line (map standing_of_snapshot (q_StandingsFromSnapshot pool kind n db)) =
      map ?t (q_StandingsFromSnapshot pool kind n db)"
    by (simp add: line_def standing_of_snapshot_def o_def)
  also have "\<dots> = sql_limit n (map ?t (sort_key (\<lambda>s. rank (?t s)) rows))"
    unfolding q_StandingsFromSnapshot_def limit key rows_def ..
  also have "map ?t (sort_key (\<lambda>s. rank (?t s)) rows) = sort_key rank (map (total_row pool kind db) (map sn_AccountID rows))"
    unfolding map_sort_key [where f = rank and g = ?t] totals(1) ..
  finally show ?thesis using totals(2,3) that by (simp add: es_def)
qed

lemma ledger_lines:
  fixes pool :: ulid and kind :: string
  assumes "ledger_ok H db" "volume_fits db"
  defines "es \<equiv> {e \<in> set (db_entries db). er_PoolID e = pool \<and> er_BalanceKind e = kind}"
  obtains as where "distinct as" "set as = er_AccountID ` es"
    "q_StandingsFromLedger pool kind (q_MaxPoolSeq pool db) n db =
       Inr (sql_limit n (sort_key rank (map (total_row pool kind db) as)))"
proof -
  define rows where "rows = filter (\<lambda>e. er_PoolID e = pool \<and> er_BalanceKind e = kind) (db_entries db)"
  have below: "filter (\<lambda>e. er_PoolID e = pool \<and> er_BalanceKind e = kind \<and> er_Seq e \<le>s q_MaxPoolSeq pool db)
      (db_entries db) = rows"
    unfolding rows_def using entry_below_head [OF assms(1)] by (intro filter_cong) auto
  have "abs_sum rows < 9223372036854775808"
    using assms(2) abs_sum_filter [of _ "db_entries db"] by (auto simp: rows_def volume_fits_def intro: le_less_trans)
  note sums = group_sums_fits [OF this]
  have "filter (\<lambda>e. er_AccountID e = a) rows = of_key (pool, a, kind) (db_entries db)" for a
    by (auto simp: rows_def of_key_def entry_key_def intro!: filter_cong)
  then have "group_sums rows as = Inr (map (total_row pool kind db) as)" for as
    unfolding sums by (simp add: total_row_def)
  then have "q_StandingsFromLedger pool kind (q_MaxPoolSeq pool db) n db =
      Inr (sql_limit n (sort_key rank (map (total_row pool kind db) (remdups (map er_AccountID rows)))))"
    by (simp add: q_StandingsFromLedger_def Let_def below rank_def)
  then show ?thesis
    by (rule that [rotated 2]) (auto simp: rows_def es_def)
qed

lemma standings_of_log:
  assumes "ledger_ok H db" "volume_fits db"
  shows "\<exists>gs. q_StandingsFromLedger pool kind (q_MaxPoolSeq pool db) n db = Inr gs \<and>
    gs = map line (map standing_of_snapshot (q_StandingsFromSnapshot pool kind n db))"
proof -
  obtain as where as: "distinct as" "set as = er_AccountID ` {e \<in> set (db_entries db). er_PoolID e = pool \<and> er_BalanceKind e = kind}"
    "map line (map standing_of_snapshot (q_StandingsFromSnapshot pool kind n db)) =
       sql_limit n (sort_key rank (map (total_row pool kind db) as))"
    by (rule snapshot_lines [OF assms(1)])
  obtain bs where bs: "distinct bs" "set bs = er_AccountID ` {e \<in> set (db_entries db). er_PoolID e = pool \<and> er_BalanceKind e = kind}"
    "q_StandingsFromLedger pool kind (q_MaxPoolSeq pool db) n db =
       Inr (sql_limit n (sort_key rank (map (total_row pool kind db) bs)))"
    by (rule ledger_lines [OF assms])
  have "mset as = mset bs" using as(1,2) bs(1,2) by (simp add: set_eq_iff_mset_eq_distinct [symmetric])
  moreover have "inj_on rank (set (map (total_row pool kind db) as))"
    by (auto simp: inj_on_def rank_def total_row_def Let_def)
  ultimately have "sort_key rank (map (total_row pool kind db) as) = sort_key rank (map (total_row pool kind db) bs)"
    by (intro sort_key_perm_eq) (simp_all add: mset_map)
  then show ?thesis using as(3) bs(3) by simp
qed

text \<open>C24: The cache refines the log. On every reachable ledger whose amounts leave room in 64 bits, the
  standings page, which reads the cached balances, shows the same accounts with the same amounts and
  entry counts in the same order as the standings computed from the log at its head, for every limit.\<close>

theorem standings_agree:
  assumes "reachable env any_request w" "\<And>m. length (ev_SHA256 env m) = hashLength"
    and "quiet env'" "volume_fits (wd_db w)"
  shows "\<exists>cached log. fst (StandingsFromSnapshot env' pool kind n w) = Inr cached \<and>
    fst (StandingsFromLedger env' pool kind (q_MaxPoolSeq pool (wd_db w)) n w) = Inr log \<and>
    map (\<lambda>s. (st_AccountID s, st_AmountCp s, st_EntryCount s)) cached =
      map (\<lambda>s. (st_AccountID s, st_AmountCp s, st_EntryCount s)) log"
proof -
  from standings_of_log [OF reachable_ok [OF assms(1,2)] assms(4), of pool kind n] obtain gs where gs:
    "q_StandingsFromLedger pool kind (q_MaxPoolSeq pool (wd_db w)) n (wd_db w) = Inr gs"
    "gs = map line (map standing_of_snapshot (q_StandingsFromSnapshot pool kind n (wd_db w)))" by blast
  have "runs (StandingsFromSnapshot env' pool kind n) (wd_db w)
      (map standing_of_snapshot (q_StandingsFromSnapshot pool kind n (wd_db w)))"
    unfolding StandingsFromSnapshot_def by (rule runs_bindA [OF runs_query [OF assms(3) refl] runs_retA])
  moreover have "runs (StandingsFromLedger env' pool kind (q_MaxPoolSeq pool (wd_db w)) n) (wd_db w)
      (map (\<lambda>(account, amount, count). \<lparr>st_AccountID = account, st_AmountCp = amount,
         st_AsOfSeq = q_MaxPoolSeq pool (wd_db w), st_EntryCount = count\<rparr>) gs)"
    unfolding StandingsFromLedger_def
    by (rule runs_bindA [OF runs_query runs_retA]) (use assms(3) gs(1) in simp_all)
  ultimately show ?thesis
    by (simp add: runs_def gs(2) line_def o_def)
qed

text \<open>The current balance is the log. On every reachable ledger whose amounts leave room in 64 bits,
  \<open>CurrentBalance\<close> returns the exact sum of all the entries of the account in the pool, of its kind.\<close>

theorem current_balance_exact:
  assumes "reachable env any_request w" "\<And>m. length (ev_SHA256 env m) = hashLength"
    and "quiet env'" "volume_fits (wd_db w)"
  shows "\<exists>b. fst (CurrentBalance env' pool account kind w) = Inr b \<and>
    sint b = ledger_balance (wd_db w) (pool, account, kind)"
proof -
  note ok = reachable_ok [OF assms(1,2)]
  let ?rows = "filter (\<lambda>e. er_PoolID e = pool \<and> er_AccountID e = account \<and> er_BalanceKind e = kind \<and>
    er_Seq e \<le>s q_MaxPoolSeq pool (wd_db w)) (db_entries (wd_db w))"
  have "abs_sum ?rows < 9223372036854775808"
    using assms(4) abs_sum_filter [of _ "db_entries (wd_db w)"] by (auto simp: volume_fits_def intro: le_less_trans)
  then obtain b where b: "q_BalanceAsOfSeq pool account kind (q_MaxPoolSeq pool (wd_db w)) (wd_db w) = Inr b"
    using sql_sum_fits by (auto simp: q_BalanceAsOfSeq_def)
  have "runs (CurrentBalance env' pool account kind) (wd_db w) b"
    unfolding CurrentBalance_def MaxPoolSeq_def BalanceAsOfSeq_def
    by (rule runs_bindA [where x = "q_MaxPoolSeq pool (wd_db w)"]; rule runs_query) (simp_all add: assms(3) b)
  then show ?thesis
    using head_balance [OF ok b] pool_head [OF ok, of pool] by (simp add: runs_def)
qed

section \<open>Instances\<close>

lemma grant_posted:
  obtains w' where "reachable sample_env any_request w'" "volume_fits (wd_db w')" "db_batches (wd_db w') \<noteq> []"
proof -
  obtain rc w' where c: "Commit sample_env (sample_request grant) sample_world = (Inr rc, w')" "\<not> rc_Replayed rc"
    by (rule grant_commits)
  from c(1) obtain b es a where p: "posts (ev_SHA256 sample_env) (sample_request grant) sample_db b es a (wd_db w')"
    by (rule Commit_Inr) (use c(2) in \<open>auto simp: replay_receipt_def sample_world_def\<close>)
  then have new: "db_entries (wd_db w') = es" "batch_of (sample_request grant) b es" "db_batches (wd_db w') \<noteq> []"
    by (auto simp: posts_def sample_db_def genesis_def)
  have "volume_fits (wd_db w')"
    using batch_of_accounts(3) [OF new(2)] by (simp add: volume_fits_def new(1) sample_request_def grant_facts)
  with new(3) sample_step [where P = any_request, OF _ c(1)] show ?thesis by (blast intro: that)
qed

theorem standings_agree_witness:
  "\<exists>w cached. db_batches (wd_db w) \<noteq> [] \<and>
    fst (StandingsFromSnapshot sample_env DefaultPoolID ''dkp'' 50 w) = Inr cached"
proof -
  obtain w' where w: "reachable sample_env any_request w'" "volume_fits (wd_db w')" "db_batches (wd_db w') \<noteq> []"
    by (rule grant_posted)
  from standings_agree [OF w(1) sample_env_facts(4,1) w(2), of DefaultPoolID "''dkp''" 50] w(3)
  show ?thesis by blast
qed

theorem current_balance_exact_witness:
  "\<exists>w b. db_batches (wd_db w) \<noteq> [] \<and> fst (CurrentBalance sample_env DefaultPoolID ''a'' ''dkp'' w) = Inr b \<and>
    sint b = ledger_balance (wd_db w) (DefaultPoolID, ''a'', ''dkp'')"
proof -
  obtain w' where w: "reachable sample_env any_request w'" "volume_fits (wd_db w')" "db_batches (wd_db w') \<noteq> []"
    by (rule grant_posted)
  from current_balance_exact [OF w(1) sample_env_facts(4,1) w(2), of DefaultPoolID "''a''" "''dkp''"] w(3)
  show ?thesis by blast
qed

end
