(* ===== verification/SwapPolicy.thy ===== *)
theory SwapPolicy
  imports Model
begin

text \<open>
  The main-swap policy and request (internal/swap/policy.go, request.go, quote.go): the data, and the
  validation that refuses a policy or a request before anything is priced. A Go \<open>int\<close> is an int64.
  The maps of the code that remember what was seen are lists. The texts of the errors are not
  modelled; \<open>ErrInvalidPolicy\<close> and \<open>ErrInvalidRequest\<close> are the sentinels they wrap.
\<close>

section \<open>Policies\<close>

datatype swap_rule_kind = RuleOpenWindow | RuleAnnualAllowance | RuleTargetLevel | RuleNeededClass
  | RuleAttendance | RuleReturningMain | RuleUnknown string

datatype effect = EffectFree | EffectDiscount | EffectMultiply

fun rule_effect :: "swap_rule_kind \<Rightarrow> effect option" where
  "rule_effect RuleOpenWindow = Some EffectFree"
| "rule_effect RuleAnnualAllowance = Some EffectFree"
| "rule_effect RuleTargetLevel = Some EffectDiscount"
| "rule_effect RuleNeededClass = Some EffectDiscount"
| "rule_effect RuleAttendance = Some EffectDiscount"
| "rule_effect RuleReturningMain = Some EffectMultiply"
| "rule_effect (RuleUnknown _) = None"

datatype rule_field = FieldAmountCp | FieldFactorBp | FieldPerYear | FieldMinLevel
  | FieldMinAttendanceBp | FieldWindowDays | FieldClasses

record swap_rule =
  sr_Kind :: swap_rule_kind
  sr_Enabled :: bool
  sr_AmountCp :: i64
  sr_FactorBp :: i64
  sr_PerYear :: i64
  sr_MinLevel :: i64
  sr_MinAttendanceBp :: i64
  sr_WindowDays :: i64
  sr_Classes :: "string list"

record swap_window =
  wi_Name :: string
  wi_StartsAt :: i64
  wi_EndsAt :: i64

definition covers :: "swap_window \<Rightarrow> i64 \<Rightarrow> bool" where
  "covers w now \<longleftrightarrow> wi_StartsAt w \<le>s now \<and> now <s wi_EndsAt w"

record guards =
  gu_CooldownDays :: i64
  gu_MinAttendanceBp :: i64
  gu_AttendanceWindowDays :: i64
  gu_ApprovalsRequired :: i64

record policy =
  po_BaseCostCp :: i64
  po_Rules :: "swap_rule list"
  po_Windows :: "swap_window list"
  po_Guards :: guards

definition swap_basisPointsWhole :: i64 where "swap_basisPointsWhole = 10000"
definition maxLevel :: i64 where "maxLevel = 60"
definition maxDays :: i64 where "maxDays = 3650"

definition rule0 :: "swap_rule_kind \<Rightarrow> bool \<Rightarrow> swap_rule" where
  "rule0 k on = \<lparr>sr_Kind = k, sr_Enabled = on, sr_AmountCp = 0, sr_FactorBp = 0, sr_PerYear = 0,
     sr_MinLevel = 0, sr_MinAttendanceBp = 0, sr_WindowDays = 0, sr_Classes = []\<rparr>"

definition DefaultPolicy :: policy where
  "DefaultPolicy = \<lparr>po_BaseCostCp = 75000, po_Rules = [
     rule0 RuleOpenWindow True,
     (rule0 RuleAnnualAllowance True)\<lparr>sr_PerYear := 2\<rparr>,
     (rule0 RuleTargetLevel True)\<lparr>sr_AmountCp := 25000, sr_MinLevel := 60\<rparr>,
     (rule0 RuleNeededClass True)\<lparr>sr_AmountCp := 30000\<rparr>,
     (rule0 RuleAttendance False)\<lparr>sr_AmountCp := 10000, sr_MinAttendanceBp := 8000, sr_WindowDays := 90\<rparr>,
     (rule0 RuleReturningMain False)\<lparr>sr_FactorBp := 2 * swap_basisPointsWhole\<rparr>],
   po_Windows = [], po_Guards = \<lparr>gu_CooldownDays = 90, gu_MinAttendanceBp = 5000,
     gu_AttendanceWindowDays = 30, gu_ApprovalsRequired = 2\<rparr>\<rparr>"

section \<open>Validation of a policy\<close>

fun rule_fields :: "swap_rule_kind \<Rightarrow> rule_field list" where
  "rule_fields RuleOpenWindow = []"
| "rule_fields RuleAnnualAllowance = [FieldPerYear]"
| "rule_fields RuleTargetLevel = [FieldAmountCp, FieldMinLevel]"
| "rule_fields RuleNeededClass = [FieldAmountCp, FieldClasses]"
| "rule_fields RuleAttendance = [FieldAmountCp, FieldMinAttendanceBp, FieldWindowDays]"
| "rule_fields RuleReturningMain = [FieldFactorBp]"
| "rule_fields (RuleUnknown _) = []"

definition setFields :: "swap_rule \<Rightarrow> rule_field list" where
  "setFields r = map fst (filter snd [
     (FieldAmountCp, sr_AmountCp r \<noteq> 0), (FieldFactorBp, sr_FactorBp r \<noteq> 0),
     (FieldPerYear, sr_PerYear r \<noteq> 0), (FieldMinLevel, sr_MinLevel r \<noteq> 0),
     (FieldMinAttendanceBp, sr_MinAttendanceBp r \<noteq> 0), (FieldWindowDays, sr_WindowDays r \<noteq> 0),
     (FieldClasses, sr_Classes r \<noteq> [])])"

fun containsField :: "rule_field list \<Rightarrow> rule_field \<Rightarrow> bool" where
  "containsField [] want = False"
| "containsField (f # fs) want = (f = want \<or> containsField fs want)"

definition checkFields :: "swap_rule \<Rightarrow> unit res" where
  "checkFields r = (let used = rule_fields (sr_Kind r) in
     if \<forall>f \<in> set (setFields r). containsField used f then Inr () else Inl ErrInvalidPolicy)"

definition char_in :: "char \<Rightarrow> char \<Rightarrow> char \<Rightarrow> bool" where
  "char_in lo hi c \<longleftrightarrow> (of_char lo :: nat) \<le> of_char c \<and> (of_char c :: nat) \<le> of_char hi"

fun snake_loop :: "string \<Rightarrow> bool" where
  "snake_loop [] = True"
| "snake_loop (c # cs) =
    (if char_in (CHR ''a'') (CHR ''z'') c \<or> char_in (CHR ''0'') (CHR ''9'') c then snake_loop cs
     else if c = CHR ''_'' then (case cs of [] \<Rightarrow> False | d # _ \<Rightarrow> d \<noteq> CHR ''_'' \<and> snake_loop cs)
     else False)"

definition isSnakeCase :: "string \<Rightarrow> bool" where
  "isSnakeCase s \<longleftrightarrow> (case s of [] \<Rightarrow> False
     | c # _ \<Rightarrow> char_in (CHR ''a'') (CHR ''z'') c \<and> snake_loop s)"

fun checkClasses :: "string list \<Rightarrow> string list \<Rightarrow> unit res" where
  "checkClasses seen [] = Inr ()"
| "checkClasses seen (c # cs) =
    (if \<not> isSnakeCase c then Inl ErrInvalidPolicy
     else if c \<in> set seen then Inl ErrInvalidPolicy
     else checkClasses (c # seen) cs)"

fun checkMagnitude :: "swap_rule \<Rightarrow> effect \<Rightarrow> unit res" where
  "checkMagnitude r EffectDiscount = (if sr_AmountCp r \<le>s 0 then Inl ErrInvalidPolicy else Inr ())"
| "checkMagnitude r EffectMultiply = (if sr_FactorBp r \<le>s 0 then Inl ErrInvalidPolicy else Inr ())"
| "checkMagnitude r EffectFree = Inr ()"

definition outside :: "i64 \<Rightarrow> i64 \<Rightarrow> i64 \<Rightarrow> bool" where
  "outside lo hi n \<longleftrightarrow> n <s lo \<or> hi <s n"

definition refuse :: "error \<Rightarrow> bool \<Rightarrow> unit res" where
  "refuse e bad = (if bad then Inl e else Inr ())"

definition rule_validate :: "swap_rule \<Rightarrow> unit res" where
  "rule_validate r = (case rule_effect (sr_Kind r) of None \<Rightarrow> Inl ErrInvalidPolicy
   | Some e \<Rightarrow> bindR (checkFields r) (\<lambda>_.
     if sr_Kind r = RuleOpenWindow then Inr ()
     else bindR (case sr_Kind r of
         RuleAnnualAllowance \<Rightarrow> refuse ErrInvalidPolicy (sr_PerYear r <s 1)
       | RuleTargetLevel \<Rightarrow> refuse ErrInvalidPolicy (outside 1 maxLevel (sr_MinLevel r))
       | RuleNeededClass \<Rightarrow> checkClasses [] (sr_Classes r)
       | RuleAttendance \<Rightarrow>
           bindR (refuse ErrInvalidPolicy (outside 1 swap_basisPointsWhole (sr_MinAttendanceBp r))) (\<lambda>_.
             refuse ErrInvalidPolicy (outside 1 maxDays (sr_WindowDays r)))
       | _ \<Rightarrow> Inr ()) (\<lambda>_. checkMagnitude r e)))"

definition window_validate :: "swap_window \<Rightarrow> unit res" where
  "window_validate w =
     (if wi_Name w = [] then Inl ErrInvalidPolicy
      else if wi_StartsAt w \<le>s 0 then Inl ErrInvalidPolicy
      else if wi_EndsAt w \<le>s wi_StartsAt w then Inl ErrInvalidPolicy
      else Inr ())"

definition guards_validate :: "guards \<Rightarrow> unit res" where
  "guards_validate g =
     (if outside 0 maxDays (gu_CooldownDays g) then Inl ErrInvalidPolicy
      else if outside 0 swap_basisPointsWhole (gu_MinAttendanceBp g) then Inl ErrInvalidPolicy
      else if outside 0 maxDays (gu_AttendanceWindowDays g) then Inl ErrInvalidPolicy
      else if 0 <s gu_MinAttendanceBp g \<and> gu_AttendanceWindowDays g <s 1 then Inl ErrInvalidPolicy
      else if gu_ApprovalsRequired g <s 0 then Inl ErrInvalidPolicy
      else Inr ())"

fun validate_rules :: "swap_rule_kind list \<Rightarrow> swap_rule list \<Rightarrow> unit res" where
  "validate_rules seen [] = Inr ()"
| "validate_rules seen (r # rs) =
    (if sr_Kind r \<in> set seen then Inl ErrInvalidPolicy
     else bindR (rule_validate r) (\<lambda>_. validate_rules (sr_Kind r # seen) rs))"

definition policy_Validate :: "policy \<Rightarrow> unit res" where
  "policy_Validate p =
     (if po_BaseCostCp p <s 0 then Inl ErrInvalidPolicy
      else bindR (validate_rules [] (po_Rules p)) (\<lambda>_.
           bindR (all_ok window_validate (po_Windows p)) (\<lambda>_.
             guards_validate (po_Guards p))))"

section \<open>Requests\<close>

record swap_character =
  sc_ID :: ulid
  sc_Class :: string
  sc_Level :: i64
  sc_Shared :: bool

record attendance =
  at_WindowDays :: i64
  at_Bp :: i64

record swap_request =
  rq_At :: i64
  rq_Target :: swap_character
  rq_CurrentMainID :: ulid
  rq_PreviousMainIDs :: "ulid list"
  rq_AllowanceUsedAt :: "i64 list"
  rq_AllowanceYearStart :: i64
  rq_Attendance :: "attendance list"
  rq_SpendableCp :: i64
  rq_LastSwapAt :: "i64 option"

fun validateMains :: "ulid list \<Rightarrow> ulid list \<Rightarrow> unit res" where
  "validateMains seen [] = Inr ()"
| "validateMains seen (k # ks) =
    (if k = [] then Inl ErrInvalidRequest
     else if k \<in> set seen then Inl ErrInvalidRequest
     else validateMains (k # seen) ks)"

fun used_loop :: "i64 \<Rightarrow> i64 list \<Rightarrow> i64 list \<Rightarrow> unit res" where
  "used_loop now seen [] = Inr ()"
| "used_loop now seen (u # us) =
    (if u \<le>s 0 then Inl ErrInvalidRequest
     else if now <s u then Inl ErrInvalidRequest
     else if u \<in> set seen then Inl ErrInvalidRequest
     else used_loop now (u # seen) us)"

definition validateAllowance :: "swap_request \<Rightarrow> i64 \<Rightarrow> unit res" where
  "validateAllowance r now =
     (if rq_AllowanceYearStart r <s 0 \<or> now <s rq_AllowanceYearStart r then Inl ErrInvalidRequest
      else used_loop now [] (rq_AllowanceUsedAt r))"

fun validateAttendance :: "i64 list \<Rightarrow> attendance list \<Rightarrow> unit res" where
  "validateAttendance seen [] = Inr ()"
| "validateAttendance seen (a # as) =
    (if outside 1 maxDays (at_WindowDays a) then Inl ErrInvalidRequest
     else if outside 0 swap_basisPointsWhole (at_Bp a) then Inl ErrInvalidRequest
     else if at_WindowDays a \<in> set seen then Inl ErrInvalidRequest
     else validateAttendance (at_WindowDays a # seen) as)"

definition request_validate :: "swap_request \<Rightarrow> i64 \<Rightarrow> unit res" where
  "request_validate r now =
     (if sc_ID (rq_Target r) = [] then Inl ErrInvalidRequest
      else if \<not> isSnakeCase (sc_Class (rq_Target r)) then Inl ErrInvalidRequest
      else if outside 1 maxLevel (sc_Level (rq_Target r)) then Inl ErrInvalidRequest
      else bindR (validateMains [] (rq_PreviousMainIDs r)) (\<lambda>_.
           bindR (validateAllowance r now) (\<lambda>_.
           bindR (validateAttendance [] (rq_Attendance r)) (\<lambda>_.
             case rq_LastSwapAt r of None \<Rightarrow> Inr ()
             | Some prev \<Rightarrow> if prev \<le>s 0 then Inl ErrInvalidRequest
                 else if now <s prev then Inl ErrInvalidRequest else Inr ()))))"

fun sample_of :: "i64 \<Rightarrow> attendance list \<Rightarrow> i64 option" where
  "sample_of days [] = None"
| "sample_of days (a # as) = (if at_WindowDays a = days then Some (at_Bp a) else sample_of days as)"

definition attendanceOver :: "swap_request \<Rightarrow> i64 \<Rightarrow> i64 res" where
  "attendanceOver r days = ok_or ErrInvalidRequest (sample_of days (rq_Attendance r))"

definition isPreviousMain :: "swap_request \<Rightarrow> bool" where
  "isPreviousMain r \<longleftrightarrow> sc_ID (rq_Target r) \<in> set (rq_PreviousMainIDs r)"

section \<open>Quotes\<close>

text \<open>The reason a rule gives, without its wording.\<close>

datatype detail = DetailWindow string | DetailAllowance i64 i64 i64 | DetailLevel i64 i64
  | DetailClass string | DetailAttendance i64 i64 i64 | DetailReturning | DetailNone

record applied_rule =
  ap_Kind :: swap_rule_kind
  ap_Effect :: effect
  ap_AmountCp :: i64
  ap_FactorBp :: i64
  ap_Detail :: detail
  ap_RunningCp :: i64

record swap_quote =
  qu_BaseCostCp :: i64
  qu_CostCp :: i64
  qu_Free :: bool
  qu_ConsumesAllowance :: bool
  qu_Applied :: "applied_rule list"
  qu_EvaluatedAt :: i64

datatype block_code = BlockTargetIsCurrentMain | BlockTargetIsShared | BlockCooldownActive
  | BlockBelowAttendanceFloor | BlockInsufficientPoints

record block =
  bk_Code :: block_code
  bk_ShortfallCp :: i64
  bk_ClearsAt :: i64

record decision =
  de_Quote :: swap_quote
  de_Blocks :: "block list"
  de_ApprovalsRequired :: i64

definition Allowed :: "decision \<Rightarrow> bool" where "Allowed d \<longleftrightarrow> de_Blocks d = []"

end
