(* ===== verification/Swap.thy ===== *)
theory Swap
  imports SwapPolicy
begin

text \<open>
  The price and the guards of a main swap (internal/swap/evaluate.go). The rules apply in the order
  of the policy, each on the running cost the ones before it left; the first free rule ends the
  evaluation. Then the guards, which never end it. Of the standard library the code uses \<open>math/bits\<close>
  and the UTC calendar of \<open>time\<close>.
\<close>

section \<open>Arithmetic\<close>

definition discount :: "i64 \<Rightarrow> i64 \<Rightarrow> i64" where
  "discount running amount = (if running \<le>s amount then 0 else running - amount)"

definition multiply :: "i64 \<Rightarrow> i64 \<Rightarrow> i64 option" where
  "multiply amount factorBp =
     (if amount = 0 \<or> factorBp = 0 then Some 0
      else let (hi, lo) = mul64 amount factorBp in
        if swap_basisPointsWhole \<le> hi then None
        else case div64 hi lo swap_basisPointsWhole of Inl _ \<Rightarrow> None
          | Inr (q, _) \<Rightarrow> if max_int64 < q then None else Some q)"

definition swap_subCentipoints :: "i64 \<Rightarrow> i64 \<Rightarrow> i64 option" where
  "swap_subCentipoints a b = (let diff = a - b in
     if b <s 0 \<and> diff <s a \<or> 0 <s b \<and> a <s diff then None else Some diff)"

definition saturatingAdd :: "i64 \<Rightarrow> i64 \<Rightarrow> i64" where
  "saturatingAdd a b = (let sum = a + b in if a \<le>s sum then sum else max_int64)"

section \<open>The calendar\<close>

text \<open>
  What \<open>time.UnixMicro(m).UTC()\<close> answers for an instant after the epoch: the seconds of its day,
  and the day of its year by the Gregorian rule. Earlier instants are refused before they get here.
\<close>

definition microsPerSecond :: int where "microsPerSecond = 1000000"
definition secondsPerDay :: int where "secondsPerDay = 24 * 60 * 60"
definition microsPerDay :: i64 where "microsPerDay = word_of_int (secondsPerDay * microsPerSecond)"

definition leap :: "int \<Rightarrow> bool" where
  "leap y \<longleftrightarrow> y mod 4 = 0 \<and> (y mod 100 \<noteq> 0 \<or> y mod 400 = 0)"

definition days_in_year :: "int \<Rightarrow> int" where "days_in_year y = (if leap y then 366 else 365)"

function year_day :: "int \<Rightarrow> int \<Rightarrow> int" where
  "year_day y d = (if d < days_in_year y then d + 1 else year_day (y + 1) (d - days_in_year y))"
  by auto
termination
  by (relation "measure (\<lambda>(y, d). nat d)") (auto simp: days_in_year_def split: if_splits)

declare year_day.simps [simp del]

definition YearDay :: "int \<Rightarrow> int" where
  "YearDay seconds = year_day 1970 (seconds div secondsPerDay)"

definition yearStart :: "i64 \<Rightarrow> i64" where
  "yearStart now =
     (let seconds = sint now div microsPerSecond;
          day = seconds mod secondsPerDay;
          elapsedSeconds = (YearDay seconds - 1) * secondsPerDay +
            day div 3600 * 60 * 60 + day mod 3600 div 60 * 60 + day mod 60
      in now - word_of_int (elapsedSeconds * microsPerSecond + sint now mod microsPerSecond))"

section \<open>Matching\<close>

fun open_window :: "swap_window list \<Rightarrow> i64 \<Rightarrow> string option" where
  "open_window [] now = None"
| "open_window (w # ws) now = (if covers w now then Some (wi_Name w) else open_window ws now)"

fun count_from :: "i64 \<Rightarrow> i64 list \<Rightarrow> i64" where
  "count_from start [] = 0"
| "count_from start (u # us) = (if start \<le>s u then 1 else 0) + count_from start us"

definition match :: "policy \<Rightarrow> swap_rule \<Rightarrow> swap_request \<Rightarrow> i64 \<Rightarrow> (detail \<times> bool) res" where
  "match p rule r now = (case sr_Kind rule of
     RuleOpenWindow \<Rightarrow> (case open_window (po_Windows p) now of
         None \<Rightarrow> Inr (DetailNone, False) | Some name \<Rightarrow> Inr (DetailWindow name, True))
   | RuleAnnualAllowance \<Rightarrow>
       (let start = (if rq_AllowanceYearStart r = 0 then yearStart now else rq_AllowanceYearStart r);
            used = count_from start (rq_AllowanceUsedAt r)
        in Inr (DetailAllowance used (sr_PerYear rule) start, used <s sr_PerYear rule))
   | RuleTargetLevel \<Rightarrow> Inr (DetailLevel (sc_Level (rq_Target r)) (sr_MinLevel rule),
       sr_MinLevel rule \<le>s sc_Level (rq_Target r))
   | RuleNeededClass \<Rightarrow> if sc_Class (rq_Target r) \<in> set (sr_Classes rule)
       then Inr (DetailClass (sc_Class (rq_Target r)), True) else Inr (DetailNone, False)
   | RuleAttendance \<Rightarrow> bindR (attendanceOver r (sr_WindowDays rule)) (\<lambda>bp.
       Inr (DetailAttendance bp (sr_WindowDays rule) (sr_MinAttendanceBp rule), sr_MinAttendanceBp rule \<le>s bp))
   | RuleReturningMain \<Rightarrow> Inr (DetailReturning, isPreviousMain r)
   | RuleUnknown _ \<Rightarrow> Inl ErrInvalidPolicy)"

section \<open>The price\<close>

definition applied :: "swap_rule \<Rightarrow> effect \<Rightarrow> detail \<Rightarrow> i64 \<Rightarrow> i64 \<Rightarrow> i64 \<Rightarrow> applied_rule" where
  "applied rule e detail amount factor running = \<lparr>ap_Kind = sr_Kind rule, ap_Effect = e,
     ap_AmountCp = amount, ap_FactorBp = factor, ap_Detail = detail, ap_RunningCp = running\<rparr>"

definition charge_step :: "swap_quote \<Rightarrow> i64 \<Rightarrow> applied_rule \<Rightarrow> swap_quote" where
  "charge_step q cost step = q\<lparr>qu_CostCp := cost, qu_Applied := qu_Applied q @ [step]\<rparr>"

fun price_loop :: "policy \<Rightarrow> swap_request \<Rightarrow> i64 \<Rightarrow> swap_rule list \<Rightarrow> swap_quote \<Rightarrow> swap_quote res" where
  "price_loop p r now [] q = Inr q"
| "price_loop p r now (rule # rules) q =
    (if \<not> sr_Enabled rule then price_loop p r now rules q
     else bindR (match p rule r now) (\<lambda>(detail, matched).
       if \<not> matched then price_loop p r now rules q
       else case rule_effect (sr_Kind rule) of
         Some EffectFree \<Rightarrow> Inr ((charge_step q 0 (applied rule EffectFree detail 0 0 0))
           \<lparr>qu_Free := True, qu_ConsumesAllowance := (sr_Kind rule = RuleAnnualAllowance)\<rparr>)
       | Some EffectDiscount \<Rightarrow>
           (let cost = discount (qu_CostCp q) (sr_AmountCp rule) in
            price_loop p r now rules (charge_step q cost (applied rule EffectDiscount detail (sr_AmountCp rule) 0 cost)))
       | Some EffectMultiply \<Rightarrow>
           (case multiply (qu_CostCp q) (sr_FactorBp rule) of None \<Rightarrow> Inl ErrInvalidPolicy
            | Some cost \<Rightarrow>
                price_loop p r now rules (charge_step q cost (applied rule EffectMultiply detail 0 (sr_FactorBp rule) cost)))
       | None \<Rightarrow> price_loop p r now rules q))"

definition price :: "policy \<Rightarrow> swap_request \<Rightarrow> i64 \<Rightarrow> swap_quote res" where
  "price p r now = price_loop p r now (po_Rules p)
     \<lparr>qu_BaseCostCp = po_BaseCostCp p, qu_CostCp = po_BaseCostCp p, qu_Free = False,
      qu_ConsumesAllowance = False, qu_Applied = [], qu_EvaluatedAt = now\<rparr>"

section \<open>The guards\<close>

definition blocked :: "block_code \<Rightarrow> block" where
  "blocked c = \<lparr>bk_Code = c, bk_ShortfallCp = 0, bk_ClearsAt = 0\<rparr>"

definition block_when :: "bool \<Rightarrow> block \<Rightarrow> block list" where
  "block_when c b = (if c then [b] else [])"

definition cooldown_blocks :: "policy \<Rightarrow> swap_request \<Rightarrow> i64 \<Rightarrow> block list" where
  "cooldown_blocks p r now = (case rq_LastSwapAt r of None \<Rightarrow> []
     | Some prev \<Rightarrow> if \<not> 0 <s gu_CooldownDays (po_Guards p) then []
         else let cooldown = gu_CooldownDays (po_Guards p) * microsPerDay in
           block_when (now - prev <s cooldown)
             ((blocked BlockCooldownActive)\<lparr>bk_ClearsAt := saturatingAdd prev cooldown\<rparr>))"

definition floor_blocks :: "policy \<Rightarrow> swap_request \<Rightarrow> block list res" where
  "floor_blocks p r =
     (if \<not> 0 <s gu_MinAttendanceBp (po_Guards p) then Inr []
      else bindR (attendanceOver r (gu_AttendanceWindowDays (po_Guards p))) (\<lambda>bp.
        Inr (block_when (bp <s gu_MinAttendanceBp (po_Guards p)) (blocked BlockBelowAttendanceFloor))))"

definition points_blocks :: "swap_request \<Rightarrow> swap_quote \<Rightarrow> block list res" where
  "points_blocks r q =
     (if 0 <s qu_CostCp q \<and> rq_SpendableCp r <s qu_CostCp q
      then bindR (ok_or ErrInvalidRequest (swap_subCentipoints (qu_CostCp q) (rq_SpendableCp r))) (\<lambda>short.
        Inr [(blocked BlockInsufficientPoints)\<lparr>bk_ShortfallCp := short\<rparr>])
      else Inr [])"

definition guard :: "policy \<Rightarrow> swap_request \<Rightarrow> i64 \<Rightarrow> swap_quote \<Rightarrow> block list res" where
  "guard p r now q =
     bindR (floor_blocks p r) (\<lambda>floors.
     bindR (points_blocks r q) (\<lambda>points.
       Inr (block_when (rq_CurrentMainID r \<noteq> [] \<and> sc_ID (rq_Target r) = rq_CurrentMainID r)
              (blocked BlockTargetIsCurrentMain) @
            block_when (sc_Shared (rq_Target r)) (blocked BlockTargetIsShared) @
            cooldown_blocks p r now @ floors @ points)))"

section \<open>The decision\<close>

text \<open>The evaluator holds a clock, or none; \<open>clock\<close> is what the clock reads.\<close>

definition instant :: "i64 option \<Rightarrow> swap_request \<Rightarrow> i64 res" where
  "instant clock r =
     bindR (if rq_At r = 0 then ok_or ErrInvalidRequest clock else Inr (rq_At r)) (\<lambda>now.
       if now \<le>s 0 then Inl ErrInvalidRequest else Inr now)"

definition Evaluate :: "i64 option \<Rightarrow> policy \<Rightarrow> swap_request \<Rightarrow> decision res" where
  "Evaluate clock p r =
     bindR (policy_Validate p) (\<lambda>_.
     bindR (instant clock r) (\<lambda>now.
     bindR (request_validate r now) (\<lambda>_.
     bindR (price p r now) (\<lambda>quote.
     bindR (guard p r now quote) (\<lambda>blocks.
       Inr \<lparr>de_Quote = quote, de_Blocks = blocks, de_ApprovalsRequired = gu_ApprovalsRequired (po_Guards p)\<rparr>)))))"

end
