(* ===== verification/SwapQuote.thy ===== *)
theory SwapQuote
  imports Swap
begin

text \<open>
  What a main swap costs and when it may be requested, as a specification over unbounded integers, and
  the proof that the evaluator of internal/swap/evaluate.go computes it: the 128-bit product of the
  multiplier, the saturating discount, the calendar, the conditions of the rules, the price of a list
  of rules and the guards.
\<close>

section \<open>Arithmetic facts\<close>

lemma multiply_exact:
  assumes a: "0 \<le> sint a" and f: "0 \<le> sint f"
  shows "map_option sint (multiply a f) = (if sint a * sint f div 10000 < 9223372036854775808
    then Some (sint a * sint f div 10000) else None)"
proof (cases "a = 0 \<or> f = 0")
  case True
  then show ?thesis by (auto simp: multiply_def)
next
  case False
  let ?n = "unat a * unat f" and ?w = "swap_basisPointsWhole"
  have w: "unat ?w = 10000" "?w \<noteq> 0" by (simp_all add: swap_basisPointsWhole_def)
  have n: "int ?n = sint a * sint f" by (simp only: of_nat_mult unat_eq_sint [OF a] unat_eq_sint [OF f])
  have "?n < 9223372036854775808 * 9223372036854775808"
    by (rule mult_strict_mono [OF unat_less_sint [OF a] unat_less_sint [OF f]]) simp_all
  then have hi: "?n div 18446744073709551616 < 18446744073709551616" by simp
  have fst_hi: "unat (fst (mul64 a f)) = ?n div 18446744073709551616"
    using hi by (simp add: mul64_nat Let_def unat_word_of_nat)
  show ?thesis
  proof (cases "?w \<le> fst (mul64 a f)")
    case True
    then have "10000 \<le> ?n div 18446744073709551616"
      using w fst_hi by (simp add: word_le_nat_alt)
    then have "10000 * 18446744073709551616 \<le> ?n"
      by (simp add: less_eq_div_iff_mult_less_eq mult.commute)
    then have "9223372036854775808 \<le> int ?n div 10000" by linarith
    then show ?thesis
      using True False n by (simp add: multiply_def case_prod_unfold Let_def)
  next
    case small: False
    then have "?n div 18446744073709551616 < 10000"
      using w fst_hi by (simp add: word_le_nat_alt)
    then have "?n < 10000 * 18446744073709551616" by linarith
    then have "?n div unat ?w < 18446744073709551616" using w by simp
    then obtain q m where q: "div64 (fst (mul64 a f)) (snd (mul64 a f)) ?w = Inr (q, m)"
      "unat q = ?n div unat ?w"
      using w(2) by (rule div64_mul64)
    have quo: "int (unat q) = sint a * sint f div 10000"
      using q(2) w(1) n by (simp add: zdiv_int)
    have "max_int64 < q \<longleftrightarrow> 9223372036854775807 < unat q"
      by (simp add: word_less_nat_alt max_int64_def)
    then have over: "max_int64 < q \<longleftrightarrow> \<not> sint a * sint f div 10000 < 9223372036854775808"
      using quo by linarith
    show ?thesis
    proof (cases "max_int64 < q")
      case True
      then show ?thesis
        using small False q(1) over by (auto simp: multiply_def case_prod_unfold Let_def)
    next
      case fits: False
      then have "sint q = sint a * sint f div 10000"
        using over quo sint_eq_unat [of q] by linarith
      then show ?thesis
        using small False q(1) over fits by (auto simp: multiply_def case_prod_unfold Let_def)
    qed
  qed
qed

lemma discount_exact: "0 \<le> sint c \<Longrightarrow> 0 < sint a \<Longrightarrow> sint (discount c a) = max 0 (sint c - sint a)"
  using sint_bounds [of a] sint_bounds [of c]
  by (auto simp: discount_def i64_simps max_def in64_def sint_sub)

lemma swap_sub_exact: "swap_subCentipoints a b =
    (if in64 (sint a - sint b) then Some (a - b) else None)"
proof -
  note ab = sint_bounds [of a] sint_bounds [of b]
  consider "in64 (sint a - sint b)" | "9223372036854775808 \<le> sint a - sint b"
    | "sint a - sint b < - 9223372036854775808" unfolding in64_def by linarith
  then show ?thesis
  proof cases
    case 1
    then show ?thesis using ab by (auto simp: swap_subCentipoints_def Let_def i64_simps sint_sub)
  next
    case 2
    then show ?thesis using ab
      by (auto simp: swap_subCentipoints_def Let_def i64_simps sint_sub_over in64_def)
  next
    case 3
    then show ?thesis using ab
      by (auto simp: swap_subCentipoints_def Let_def i64_simps sint_sub_under in64_def)
  qed
qed

section \<open>The start of the year\<close>

text \<open>Days from the epoch to 1 January of a year, counted year by year.\<close>

fun days_before :: "nat \<Rightarrow> int" where
  "days_before 0 = 0"
| "days_before (Suc n) = days_before n + days_in_year (1970 + int n)"

lemma days_before_nonneg: "0 \<le> days_before n"
  by (induction n) (auto simp: days_in_year_def)

lemma year_day_spec:
  assumes "0 \<le> d" and "y = 1970 + int k"
  shows "\<exists>n. days_before k + d = days_before n + (year_day y d - 1) \<and> 1 \<le> year_day y d \<and>
    year_day y d \<le> days_in_year (1970 + int n)"
  using assms
proof (induction y d arbitrary: k rule: year_day.induct)
  case (1 y d)
  show ?case
  proof (cases "d < days_in_year y")
    case True
    then show ?thesis using 1 by (intro exI [of _ k]) (simp add: year_day.simps [of "1970 + int k" d])
  next
    case False
    then obtain n where "days_before (Suc k) + (d - days_in_year y) =
        days_before n + (year_day (y + 1) (d - days_in_year y) - 1) \<and>
      1 \<le> year_day (y + 1) (d - days_in_year y) \<and>
      year_day (y + 1) (d - days_in_year y) \<le> days_in_year (1970 + int n)"
      using "1.IH" [of "Suc k"] "1.prems" by fastforce
    then show ?thesis
      using False "1.prems" by (intro exI [of _ n]) (simp add: year_day.simps [of "1970 + int k" d])
  qed
qed

lemma yearStart_spec:
  assumes t: "0 < sint t"
  shows "\<exists>n. sint (yearStart t) = days_before n * 86400000000 \<and> sint (yearStart t) \<le> sint t \<and>
    sint t < days_before (Suc n) * 86400000000"
proof -
  define S where "S = sint t div 1000000"
  define U where "U = sint t mod 1000000"
  define D where "D = S div 86400"
  define T where "T = S mod 86400"
  have parts: "sint t = 86400000000 * D + 1000000 * T + U"
  proof -
    have "sint t = 1000000 * S + U" by (simp add: S_def U_def)
    moreover have "S = 86400 * D + T" by (simp add: D_def T_def)
    ultimately show ?thesis by simp
  qed
  have range: "0 \<le> T" "T < 86400" "0 \<le> U" "U < 1000000"
    by (simp_all add: T_def U_def)
  have D: "0 \<le> D" using t by (simp add: S_def D_def pos_imp_zdiv_nonneg_iff)
  obtain n where n: "D = days_before n + (year_day 1970 D - 1)" "1 \<le> year_day 1970 D"
      "year_day 1970 D \<le> days_in_year (1970 + int n)"
    using year_day_spec [OF D, of 1970 0] by auto
  let ?x = "sint t - days_before n * 86400000000"
  have clock: "T div 3600 * 60 * 60 + T mod 3600 div 60 * 60 + T mod 60 = T"
  proof -
    have "T mod 60 = T mod 3600 mod 60" by (rule mod_mod_cancel [symmetric]) simp
    then have "T mod 3600 div 60 * 60 + T mod 60 = T mod 3600" by simp
    moreover have "T div 3600 * 3600 + T mod 3600 = T" by simp
    ultimately show ?thesis by linarith
  qed
  have e: "((year_day 1970 D - 1) * 86400 + T div 3600 * 60 * 60 + T mod 3600 div 60 * 60 + T mod 60) *
      1000000 + U = ?x"
  proof -
    have add4: "A + h + m + s = A + T" if "h + m + s = T" for A h m s :: int using that by simp
    have yd: "year_day 1970 D - 1 = D - days_before n" using n(1) by simp
    show ?thesis unfolding add4 [OF clock] yd parts by (simp add: algebra_simps)
  qed
  have ge: "0 \<le> ?x" using n parts range by linarith
  have pos: "0 \<le> days_before n" by (rule days_before_nonneg)
  have "in64 ?x" using ge pos sint_bounds(2) [of t] unfolding in64_def by linarith
  then have fit: "sint (word_of_int ?x :: i64) = ?x" by (rule sint_of_int_eq)
  have start: "yearStart t = t - word_of_int ?x"
    unfolding yearStart_def Let_def YearDay_def microsPerSecond_def secondsPerDay_def e [symmetric]
    by (simp only: S_def U_def D_def T_def mult.assoc mult_numeral_left_semiring_numeral semiring_norm numeral_times_numeral arith_simps)
  have "in64 (sint t - ?x)" using ge pos sint_bounds(2) [of t] unfolding in64_def by linarith
  then have "sint (t - word_of_int ?x) = sint t - ?x"
    using sint_sub [of t "word_of_int ?x"] fit by simp
  then have "sint (yearStart t) = days_before n * 86400000000" by (simp only: start)
  moreover have "sint t < days_before (Suc n) * 86400000000"
    using n parts range unfolding days_before.simps distrib_right by linarith
  ultimately show ?thesis using ge by (intro exI [of _ n]) simp
qed

section \<open>What validation promises\<close>

lemma used_loop_ok: "used_loop now seen us = Inr () \<Longrightarrow>
    distinct us \<and> set us \<inter> set seen = {} \<and> (\<forall>u \<in> set us. 0 < sint u \<and> sint u \<le> sint now)"
  by (induction now seen us rule: used_loop.induct) (auto simp: i64_simps split: if_splits)

lemma short_list:
  assumes "distinct (us :: i64 list)" "\<forall>u \<in> set us. 0 < sint u \<and> sint u \<le> sint (now :: i64)"
  shows "length us < 9223372036854775808"
proof -
  have "length us = card (sint ` set us)"
    using assms(1) by (simp add: distinct_card [symmetric] card_image inj_on_def sint_inject64)
  also have "\<dots> \<le> card {0 <.. sint now}"
    using assms(2) by (intro card_mono) auto
  finally show ?thesis using sint_bounds [of now] by simp
qed

lemma count_from_exact: "length us < 9223372036854775808 \<Longrightarrow>
    sint (count_from s us) = int (length (filter (\<lambda>u. sint s \<le> sint u) us))"
proof (induction us)
  case (Cons u us)
  have "length (filter (\<lambda>u. sint s \<le> sint u) us) \<le> length us" by (rule length_filter_le)
  then have "length (filter (\<lambda>u. sint s \<le> sint u) us) < 9223372036854775807"
    by (rule le_less_trans) (use Cons.prems in simp)
  then show ?case using Cons sint_add [of 1 "count_from s us"]
    by (simp add: i64_simps in64_def)
qed simp

definition period_start :: "swap_request \<Rightarrow> i64 \<Rightarrow> i64" where
  "period_start r now = (if rq_AllowanceYearStart r = 0 then yearStart now else rq_AllowanceYearStart r)"

text \<open>The condition of a rule, over the integers and sets its data stands for.\<close>

definition applies :: "policy \<Rightarrow> swap_request \<Rightarrow> i64 \<Rightarrow> swap_rule \<Rightarrow> bool" where
  "applies p r now rule = (case sr_Kind rule of
     RuleOpenWindow \<Rightarrow> \<exists>w \<in> set (po_Windows p). sint (wi_StartsAt w) \<le> sint now \<and> sint now < sint (wi_EndsAt w)
   | RuleAnnualAllowance \<Rightarrow>
       int (card {u \<in> set (rq_AllowanceUsedAt r). sint (period_start r now) \<le> sint u}) < sint (sr_PerYear rule)
   | RuleTargetLevel \<Rightarrow> sint (sr_MinLevel rule) \<le> sint (sc_Level (rq_Target r))
   | RuleNeededClass \<Rightarrow> sc_Class (rq_Target r) \<in> set (sr_Classes rule)
   | RuleAttendance \<Rightarrow> \<exists>a \<in> set (rq_Attendance r).
       at_WindowDays a = sr_WindowDays rule \<and> sint (sr_MinAttendanceBp rule) \<le> sint (at_Bp a)
   | RuleReturningMain \<Rightarrow> sc_ID (rq_Target r) \<in> set (rq_PreviousMainIDs r)
   | RuleUnknown _ \<Rightarrow> False)"

lemma open_window_Some: "(\<exists>n. open_window ws now = Some n) \<longleftrightarrow> (\<exists>w \<in> set ws. covers w now)"
  by (induction ws) auto

lemma validateAttendance_ok: "validateAttendance seen as = Inr () \<Longrightarrow>
    distinct (map at_WindowDays as) \<and> set (map at_WindowDays as) \<inter> set seen = {} \<and>
    (\<forall>a \<in> set as. 0 \<le> sint (at_Bp a))"
  by (induction seen as rule: validateAttendance.induct)
    (auto simp: i64_simps outside_def swap_basisPointsWhole_def split: if_splits)

lemma sample_of_Some: "distinct (map at_WindowDays as) \<Longrightarrow>
    sample_of days as = Some bp \<longleftrightarrow> (\<exists>a \<in> set as. at_WindowDays a = days \<and> at_Bp a = bp)"
proof (induction as)
  case (Cons a as)
  show ?case
  proof (cases "at_WindowDays a = days")
    case True
    then have "\<forall>x \<in> set as. at_WindowDays x \<noteq> days" using Cons.prems
      by (metis distinct.simps(2) image_eqI list.map(2) list.set_map)
    then show ?thesis using True by auto
  next
    case False
    then show ?thesis using Cons by auto
  qed
qed simp

lemma sample_of_None: "sample_of days as = None \<longleftrightarrow> days \<notin> at_WindowDays ` set as"
  by (induction as) auto

lemma attendanceOver_ok:
  "attendanceOver r days = Inr bp \<longleftrightarrow> sample_of days (rq_Attendance r) = Some bp"
  by (cases "sample_of days (rq_Attendance r)") (auto simp: attendanceOver_def ok_or_def)

text \<open>A validated request.\<close>

lemma request_ok:
  assumes "request_validate r now = Inr ()"
  shows "distinct (map at_WindowDays (rq_Attendance r))"
    and "distinct (rq_AllowanceUsedAt r)"
    and "\<forall>u \<in> set (rq_AllowanceUsedAt r). 0 < sint u \<and> sint u \<le> sint now"
    and "rq_LastSwapAt r = Some prev \<Longrightarrow> 0 < sint prev \<and> sint prev \<le> sint now"
  using assms
  by (auto simp: request_validate_def validateAllowance_def res_simps i64_simps
      dest!: used_loop_ok validateAttendance_ok split: if_splits option.splits)

text \<open>The one sample of a window is the measurement a condition on it is about.\<close>

lemma sample_exists:
  assumes r: "request_validate r now = Inr ()" and bp: "sample_of days (rq_Attendance r) = Some bp"
  shows "(\<exists>a \<in> set (rq_Attendance r). at_WindowDays a = days \<and> least \<le> sint (at_Bp a)) \<longleftrightarrow> least \<le> sint bp"
proof -
  note S = sample_of_Some [OF request_ok(1) [OF r], of days]
  have one: "at_Bp a = bp" if "a \<in> set (rq_Attendance r)" "at_WindowDays a = days" for a
  proof -
    have "sample_of days (rq_Attendance r) = Some (at_Bp a)"
      using that by (intro iffD2 [OF S]) auto
    then show ?thesis using bp by simp
  qed
  obtain a where "a \<in> set (rq_Attendance r)" "at_WindowDays a = days" "at_Bp a = bp"
    using iffD1 [OF S bp] by blast
  then show ?thesis by (metis one)
qed

lemma match_applies:
  assumes r: "request_validate r now = Inr ()" and m: "match p rule r now = Inr (d, b)"
  shows "b = applies p r now rule"
proof (cases "sr_Kind rule")
  case RuleOpenWindow
  then show ?thesis using m open_window_Some [of "po_Windows p" now]
    by (auto simp: match_def applies_def covers_def i64_simps split: option.splits)
next
  case RuleAnnualAllowance
  let ?us = "rq_AllowanceUsedAt r"
  note us = request_ok(2,3) [OF r]
  have "card {u \<in> set ?us. sint (period_start r now) \<le> sint u} =
      length (filter (\<lambda>u. sint (period_start r now) \<le> sint u) ?us)"
    using us(1) by (simp add: distinct_length_filter Int_def conj_commute)
  then have "sint (count_from (period_start r now) ?us) =
      int (card {u \<in> set ?us. sint (period_start r now) \<le> sint u})"
    using count_from_exact [OF short_list [OF us]] by simp
  moreover have "b = (count_from (period_start r now) ?us <s sr_PerYear rule)"
    using m RuleAnnualAllowance by (simp add: match_def Let_def period_start_def)
  ultimately show ?thesis using RuleAnnualAllowance by (simp add: applies_def sless_sint)
next
  case RuleAttendance
  then obtain bp where bp: "sample_of (sr_WindowDays rule) (rq_Attendance r) = Some bp"
      "b = (sint (sr_MinAttendanceBp rule) \<le> sint bp)"
    using m by (auto simp: match_def res_simps attendanceOver_ok i64_simps)
  then show ?thesis using RuleAttendance sample_exists [OF r bp(1)] by (simp add: applies_def)
next
  case RuleTargetLevel
  then show ?thesis using m by (simp add: match_def applies_def i64_simps)
next
  case RuleNeededClass
  then show ?thesis using m by (simp add: match_def applies_def split: if_splits)
next
  case RuleReturningMain
  then show ?thesis using m by (simp add: match_def applies_def isPreviousMain_def)
next
  case (RuleUnknown k)
  then show ?thesis using m by (simp add: match_def)
qed

section \<open>The price, as a specification\<close>

definition is_free :: "swap_rule \<Rightarrow> bool" where
  "is_free rule \<longleftrightarrow> rule_effect (sr_Kind rule) = Some EffectFree"

fun upto_free :: "swap_rule list \<Rightarrow> swap_rule list" where
  "upto_free [] = []"
| "upto_free (rule # rules) = (if is_free rule then [rule] else rule # upto_free rules)"

definition step_cost :: "int \<Rightarrow> swap_rule \<Rightarrow> int" where
  "step_cost c rule = (case rule_effect (sr_Kind rule) of
     Some EffectFree \<Rightarrow> 0
   | Some EffectDiscount \<Rightarrow> max 0 (c - sint (sr_AmountCp rule))
   | Some EffectMultiply \<Rightarrow> c * sint (sr_FactorBp rule) div 10000
   | None \<Rightarrow> c)"

fun runs :: "int \<Rightarrow> swap_rule list \<Rightarrow> int list" where
  "runs c [] = []"
| "runs c (rule # rules) = step_cost c rule # runs (step_cost c rule) rules"

definition hits :: "policy \<Rightarrow> swap_request \<Rightarrow> i64 \<Rightarrow> swap_rule list \<Rightarrow> swap_rule list" where
  "hits p r now rules = upto_free (filter (\<lambda>rule. sr_Enabled rule \<and> applies p r now rule) rules)"

definition trail :: "swap_quote \<Rightarrow> (swap_rule_kind \<times> int) list" where
  "trail q = map (\<lambda>a. (ap_Kind a, sint (ap_RunningCp a))) (qu_Applied q)"

definition quoted :: "policy \<Rightarrow> swap_request \<Rightarrow> swap_quote \<Rightarrow> bool" where
  "quoted p r q \<longleftrightarrow> (let base = sint (po_BaseCostCp p); hs = hits p r (qu_EvaluatedAt q) (po_Rules p) in
     trail q = zip (map sr_Kind hs) (runs base hs) \<and>
     sint (qu_CostCp q) = last (base # runs base hs) \<and>
     qu_Free q = (\<exists>h \<in> set hs. is_free h) \<and>
     qu_ConsumesAllowance q = (RuleAnnualAllowance \<in> sr_Kind ` set hs))"

lemma length_runs [simp]: "length (runs c hs) = length hs"
  by (induction hs arbitrary: c) auto

lemma rule_ok:
  assumes "rule_validate rule = Inr ()"
  shows "\<exists>e. rule_effect (sr_Kind rule) = Some e \<and> checkMagnitude rule e = Inr ()"
  using assms by (cases "sr_Kind rule") (auto simp: rule_validate_def res_simps)

lemma price_loop_spec:
  assumes "request_validate r now = Inr ()"
    and "\<forall>rule \<in> set rules. rule_validate rule = Inr ()"
    and "0 \<le> sint (qu_CostCp q)" and "\<not> qu_Free q" and "\<not> qu_ConsumesAllowance q"
    and "price_loop p r now rules q = Inr q'"
  shows "trail q' = trail q @ zip (map sr_Kind (hits p r now rules)) (runs (sint (qu_CostCp q)) (hits p r now rules)) \<and>
    sint (qu_CostCp q') = last (sint (qu_CostCp q) # runs (sint (qu_CostCp q)) (hits p r now rules)) \<and>
    0 \<le> sint (qu_CostCp q') \<and> qu_EvaluatedAt q' = qu_EvaluatedAt q \<and>
    qu_Free q' = (\<exists>h \<in> set (hits p r now rules). is_free h) \<and>
    qu_ConsumesAllowance q' = (RuleAnnualAllowance \<in> sr_Kind ` set (hits p r now rules))"
  using assms
proof (induction rules arbitrary: q)
  case Nil
  then show ?case by (simp add: hits_def)
next
  case (Cons rule rules)
  note ok = Cons.prems
  show ?case
  proof (cases "sr_Enabled rule")
    case False
    then show ?thesis using Cons.IH [OF ok(1) _ ok(3-5)] ok(2,6) by (simp add: hits_def)
  next
    case enabled: True
    then obtain d b where m: "match p rule r now = Inr (d, b)" using ok(6) by (auto simp: res_simps)
    have b: "b = applies p r now rule" by (rule match_applies [OF ok(1) m])
    show ?thesis
    proof (cases b)
      case False
      then show ?thesis using Cons.IH [OF ok(1) _ ok(3-5)] ok(2,6) enabled m b by (simp add: hits_def)
    next
      case True
      then have hit: "hits p r now (rule # rules) =
          (if is_free rule then [rule] else rule # hits p r now rules)"
        using enabled b by (simp add: hits_def)
      obtain e where e: "rule_effect (sr_Kind rule) = Some e" "checkMagnitude rule e = Inr ()"
        using rule_ok ok(2) by (meson list.set_intros(1))
      show ?thesis
      proof (cases e)
        case EffectFree
        then have q': "q' = (charge_step q 0 (applied rule EffectFree d 0 0 0))
            \<lparr>qu_Free := True, qu_ConsumesAllowance := (sr_Kind rule = RuleAnnualAllowance)\<rparr>"
          using ok(6) enabled m True e by simp
        show ?thesis unfolding q' using EffectFree e hit
          by (auto simp: is_free_def trail_def charge_step_def applied_def step_cost_def)
      next
        case EffectDiscount
        then have next_q: "price_loop p r now rules (charge_step q (discount (qu_CostCp q) (sr_AmountCp rule))
            (applied rule EffectDiscount d (sr_AmountCp rule) 0 (discount (qu_CostCp q) (sr_AmountCp rule)))) = Inr q'"
          using ok(6) enabled m True e by (simp add: Let_def)
        have c: "sint (discount (qu_CostCp q) (sr_AmountCp rule)) = step_cost (sint (qu_CostCp q)) rule"
          using e EffectDiscount ok(3) by (simp add: step_cost_def discount_exact i64_simps split: if_splits)
        have "0 \<le> step_cost (sint (qu_CostCp q)) rule" using e EffectDiscount by (simp add: step_cost_def)
        then show ?thesis
          using Cons.IH [OF ok(1) _ _ _ _ next_q] ok hit e EffectDiscount c
          by (auto simp: is_free_def trail_def charge_step_def applied_def)
      next
        case EffectMultiply
        then obtain cost where s: "multiply (qu_CostCp q) (sr_FactorBp rule) = Some cost"
          using ok(6) enabled m True e by (auto split: option.splits)
        then have next_q: "price_loop p r now rules (charge_step q cost
            (applied rule EffectMultiply d 0 (sr_FactorBp rule) cost)) = Inr q'"
          using ok(6) enabled m True e EffectMultiply by simp
        have f: "0 \<le> sint (sr_FactorBp rule)"
          using e EffectMultiply by (simp add: i64_simps split: if_splits)
        have c: "sint cost = step_cost (sint (qu_CostCp q)) rule"
          using multiply_exact [OF ok(3) f] s e EffectMultiply by (simp add: step_cost_def split: if_splits)
        have "0 \<le> step_cost (sint (qu_CostCp q)) rule"
          using e EffectMultiply f ok(3) by (simp add: step_cost_def pos_imp_zdiv_nonneg_iff)
        then show ?thesis
          using Cons.IH [OF ok(1) _ _ _ _ next_q] ok hit e EffectMultiply c
          by (auto simp: is_free_def trail_def charge_step_def applied_def)
      qed
    qed
  qed
qed

section \<open>Properties\<close>

lemma validate_rules_ok: "validate_rules seen rules = Inr () \<Longrightarrow>
    (\<forall>rule \<in> set rules. rule_validate rule = Inr ()) \<and> distinct (map sr_Kind rules) \<and>
    sr_Kind ` set rules \<inter> set seen = {}"
  by (induction seen rules rule: validate_rules.induct) (auto simp: res_simps split: if_splits)

lemma policy_ok:
  assumes "policy_Validate p = Inr ()"
  shows "0 \<le> sint (po_BaseCostCp p)"
    and "\<forall>rule \<in> set (po_Rules p). rule_validate rule = Inr ()"
    and "distinct (map sr_Kind (po_Rules p))"
    and "0 \<le> sint (gu_CooldownDays (po_Guards p))" and "sint (gu_CooldownDays (po_Guards p)) \<le> 3650"
  using assms
  by (auto simp: policy_Validate_def guards_validate_def outside_def maxDays_def res_simps i64_simps
      dest!: validate_rules_ok split: if_splits)

lemma Evaluate_ok: "Evaluate clock p r = Inr d \<longleftrightarrow>
    (\<exists>now q bs. policy_Validate p = Inr () \<and> instant clock r = Inr now \<and> request_validate r now = Inr () \<and>
      price p r now = Inr q \<and> guard p r now q = Inr bs \<and>
      d = \<lparr>de_Quote = q, de_Blocks = bs, de_ApprovalsRequired = gu_ApprovalsRequired (po_Guards p)\<rparr>)"
  by (auto simp: Evaluate_def res_simps)

lemma price_spec:
  assumes p: "policy_Validate p = Inr ()" and r: "request_validate r now = Inr ()"
    and q: "price p r now = Inr q"
  shows "quoted p r q \<and> 0 \<le> sint (qu_CostCp q) \<and> qu_EvaluatedAt q = now"
  using price_loop_spec [OF r policy_ok(2) [OF p] _ _ _ q [unfolded price_def]] policy_ok(1) [OF p]
  by (simp add: quoted_def Let_def trail_def)

text \<open>C25: the quote of a swap is what the rules of the policy make of its base cost. The rules that
  are enabled and whose condition holds are applied in order up to the first free one; the trail names
  them with the running cost after each (0 for a free rule, the cost less the discount but never
  below 0, the cost times the factor in basis points rounded down), all in unbounded integers; the
  cost is the last of them, and the free and allowance marks tell whether a free rule ended it.
  The cost is never negative.\<close>

theorem quote_is_the_rules_cost:
  assumes "Evaluate clock p r = Inr d"
  shows "quoted p r (de_Quote d) \<and> 0 \<le> sint (qu_CostCp (de_Quote d))"
  using assms price_spec by (auto simp: Evaluate_ok)

text \<open>What the guards leave: the swap may be requested at \<open>now\<close> for \<open>cost\<close>.\<close>

definition permitted :: "policy \<Rightarrow> swap_request \<Rightarrow> int \<Rightarrow> int \<Rightarrow> bool" where
  "permitted p r now cost \<longleftrightarrow>
     sc_ID (rq_Target r) \<noteq> rq_CurrentMainID r \<and>
     \<not> sc_Shared (rq_Target r) \<and>
     (case rq_LastSwapAt r of None \<Rightarrow> True
      | Some prev \<Rightarrow> sint (gu_CooldownDays (po_Guards p)) * 86400000000 \<le> now - sint prev) \<and>
     (0 < sint (gu_MinAttendanceBp (po_Guards p)) \<longrightarrow>
       (\<exists>a \<in> set (rq_Attendance r). at_WindowDays a = gu_AttendanceWindowDays (po_Guards p) \<and>
         sint (gu_MinAttendanceBp (po_Guards p)) \<le> sint (at_Bp a))) \<and>
     (cost = 0 \<or> cost \<le> sint (rq_SpendableCp r))"

lemma block_when_Nil [simp]: "block_when c b = [] \<longleftrightarrow> \<not> c"
  by (simp add: block_when_def)

lemma cooldown_Nil:
  assumes p: "policy_Validate p = Inr ()" and r: "request_validate r now = Inr ()"
  shows "cooldown_blocks p r now = [] \<longleftrightarrow> (case rq_LastSwapAt r of None \<Rightarrow> True
      | Some prev \<Rightarrow> sint (gu_CooldownDays (po_Guards p)) * 86400000000 \<le> sint now - sint prev)"
proof (cases "rq_LastSwapAt r")
  case None
  then show ?thesis by (simp add: cooldown_blocks_def)
next
  case (Some prev)
  let ?c = "gu_CooldownDays (po_Guards p)"
  note prev = request_ok(4) [OF r Some] and c = policy_ok(4,5) [OF p]
  have d: "sint (now - prev) = sint now - sint prev"
    using prev sint_bounds [of now] by (intro sint_sub) (simp add: in64_def)
  have day: "sint microsPerDay = 86400000000"
    by (simp add: microsPerDay_def secondsPerDay_def microsPerSecond_def)
  have m: "sint (?c * microsPerDay) = sint ?c * 86400000000"
    using c sint_mul [of ?c microsPerDay] by (simp add: day in64_def)
  show ?thesis
  proof (cases "?c = 0")
    case True
    then show ?thesis using Some prev by (simp add: cooldown_blocks_def i64_simps)
  next
    case False
    then have "0 < sint ?c" using c sint_eq_0 [of ?c] by linarith
    then show ?thesis using Some d m by (simp add: cooldown_blocks_def Let_def i64_simps not_less)
  qed
qed

lemma floor_Nil:
  assumes r: "request_validate r now = Inr ()" and f: "floor_blocks p r = Inr bs"
  shows "bs = [] \<longleftrightarrow> (0 < sint (gu_MinAttendanceBp (po_Guards p)) \<longrightarrow>
       (\<exists>a \<in> set (rq_Attendance r). at_WindowDays a = gu_AttendanceWindowDays (po_Guards p) \<and>
         sint (gu_MinAttendanceBp (po_Guards p)) \<le> sint (at_Bp a)))"
proof (cases "0 < sint (gu_MinAttendanceBp (po_Guards p))")
  case False
  then show ?thesis using f by (auto simp: floor_blocks_def i64_simps)
next
  case True
  then obtain bp where bp: "sample_of (gu_AttendanceWindowDays (po_Guards p)) (rq_Attendance r) = Some bp"
      "bs = [] \<longleftrightarrow> sint (gu_MinAttendanceBp (po_Guards p)) \<le> sint bp"
    using f by (auto simp: floor_blocks_def i64_simps res_simps attendanceOver_ok not_less)
  then show ?thesis using True sample_exists [OF r bp(1)] by simp
qed

lemma points_Nil: "points_blocks r q = Inr bs \<Longrightarrow> 0 \<le> sint (qu_CostCp q) \<Longrightarrow>
    bs = [] \<longleftrightarrow> sint (qu_CostCp q) = 0 \<or> sint (qu_CostCp q) \<le> sint (rq_SpendableCp r)"
  by (auto simp: points_blocks_def i64_simps res_simps split: if_splits)

text \<open>C26: a swap is allowed (no block is recorded) exactly when the target is neither the current
  main nor a shared character, the cooldown since the last swap has passed, the attendance over the
  floor's window reaches the floor, and the cost is nothing or can be spent, in unbounded
  integers.\<close>

theorem allowed_iff_permitted:
  assumes "Evaluate clock p r = Inr d"
  shows "Allowed d \<longleftrightarrow> permitted p r (sint (qu_EvaluatedAt (de_Quote d))) (sint (qu_CostCp (de_Quote d)))"
proof -
  obtain now q bs where p: "policy_Validate p = Inr ()" and r: "request_validate r now = Inr ()"
      and q: "price p r now = Inr q" and g: "guard p r now q = Inr bs"
      and d: "de_Quote d = q" "de_Blocks d = bs"
    using assms by (auto simp: Evaluate_ok)
  obtain fs ps where f: "floor_blocks p r = Inr fs" and s: "points_blocks r q = Inr ps"
      and bs: "bs = block_when (rq_CurrentMainID r \<noteq> [] \<and> sc_ID (rq_Target r) = rq_CurrentMainID r)
              (blocked BlockTargetIsCurrentMain) @
            block_when (sc_Shared (rq_Target r)) (blocked BlockTargetIsShared) @
            cooldown_blocks p r now @ fs @ ps"
    using g by (auto simp: guard_def res_simps)
  have id: "sc_ID (rq_Target r) \<noteq> []" using r by (auto simp: request_validate_def split: if_splits)
  have cost: "0 \<le> sint (qu_CostCp q)" "qu_EvaluatedAt q = now" using price_spec [OF p r q] by simp_all
  show ?thesis
    unfolding Allowed_def d bs permitted_def append_is_Nil_conv cooldown_Nil [OF p r] floor_Nil [OF r f]
      points_Nil [OF s cost(1)] cost(2)
    using id by auto
qed

section \<open>When a swap can be priced\<close>

definition measurable :: "policy \<Rightarrow> swap_request \<Rightarrow> bool" where
  "measurable p r \<longleftrightarrow> (let have = at_WindowDays ` set (rq_Attendance r) in
     (\<forall>rule \<in> set (po_Rules p). sr_Enabled rule \<and> sr_Kind rule = RuleAttendance \<longrightarrow> sr_WindowDays rule \<in> have) \<and>
     (0 < sint (gu_MinAttendanceBp (po_Guards p)) \<longrightarrow> gu_AttendanceWindowDays (po_Guards p) \<in> have))"

definition scalable :: "policy \<Rightarrow> bool" where
  "scalable p \<longleftrightarrow> (\<forall>rule \<in> set (po_Rules p). sr_Kind rule = RuleReturningMain \<longrightarrow>
     sint (po_BaseCostCp p) * sint (sr_FactorBp rule) div 10000 < 9223372036854775808)"

lemma match_total:
  assumes "rule_validate rule = Inr ()"
    and "sr_Kind rule = RuleAttendance \<Longrightarrow> sr_WindowDays rule \<in> at_WindowDays ` set (rq_Attendance r)"
  shows "\<exists>d b. match p rule r now = Inr (d, b)"
  using assms rule_ok [OF assms(1)]
  by (cases "sr_Kind rule")
    (auto simp: match_def Let_def attendanceOver_def sample_of_None split: option.splits
      intro!: exI simp: ok_or_def)

lemma price_loop_total:
  assumes "\<forall>rule \<in> set rules. rule_validate rule = Inr ()" and "distinct (map sr_Kind rules)"
    and "\<forall>rule \<in> set rules. sr_Enabled rule \<and> sr_Kind rule = RuleAttendance \<longrightarrow>
      sr_WindowDays rule \<in> at_WindowDays ` set (rq_Attendance r)"
    and "0 \<le> sint (qu_CostCp q)"
    and "\<forall>rule \<in> set rules. sr_Kind rule = RuleReturningMain \<longrightarrow>
      sint (qu_CostCp q) * sint (sr_FactorBp rule) div 10000 < 9223372036854775808"
  shows "\<exists>q'. price_loop p r now rules q = Inr q'"
  using assms
proof (induction rules arbitrary: q)
  case (Cons rule rules)
  note ok = Cons.prems
  have IH: "\<exists>q'. price_loop p r now rules q1 = Inr q'"
    if "0 \<le> sint (qu_CostCp q1)" "\<forall>x \<in> set rules. sr_Kind x = RuleReturningMain \<longrightarrow>
      sint (qu_CostCp q1) * sint (sr_FactorBp x) div 10000 < 9223372036854775808" for q1
    using Cons.IH that ok by simp
  show ?case
  proof (cases "sr_Enabled rule")
    case False
    then show ?thesis using IH ok by simp
  next
    case on: True
    obtain d b where m: "match p rule r now = Inr (d, b)"
      using match_total ok on by (metis list.set_intros(1))
    obtain e where e: "rule_effect (sr_Kind rule) = Some e" "checkMagnitude rule e = Inr ()"
      using rule_ok ok(1) by (meson list.set_intros(1))
    show ?thesis
    proof (cases b)
      case False
      then show ?thesis using IH ok on m by simp
    next
      case hit: True
      show ?thesis
      proof (cases e)
        case EffectFree
        then show ?thesis using on m hit e by simp
      next
        case EffectDiscount
        let ?c = "discount (qu_CostCp q) (sr_AmountCp rule)"
        have c: "0 \<le> sint ?c" "sint ?c \<le> sint (qu_CostCp q)"
          using e EffectDiscount ok(4) by (simp_all add: discount_exact i64_simps split: if_splits)
        have "sint ?c * sint (sr_FactorBp x) div 10000 < 9223372036854775808"
          if "x \<in> set rules" "sr_Kind x = RuleReturningMain" for x
        proof -
          have "0 < sint (sr_FactorBp x)"
            using rule_ok [of x] ok(1) that by (auto simp: i64_simps split: if_splits)
          then have "sint ?c * sint (sr_FactorBp x) \<le> sint (qu_CostCp q) * sint (sr_FactorBp x)"
            using c by (intro mult_right_mono) auto
          then have "sint ?c * sint (sr_FactorBp x) div 10000 \<le>
              sint (qu_CostCp q) * sint (sr_FactorBp x) div 10000" by (rule zdiv_mono1) simp
          also have "\<dots> < 9223372036854775808" using ok(5) that by simp
          finally show ?thesis .
        qed
        then show ?thesis using on m hit e EffectDiscount c IH by (simp add: Let_def charge_step_def)
      next
        case EffectMultiply
        then have ret: "sr_Kind rule = RuleReturningMain" using e(1) by (cases "sr_Kind rule") auto
        have f: "0 \<le> sint (sr_FactorBp rule)" using e EffectMultiply by (simp add: i64_simps split: if_splits)
        have "sint (qu_CostCp q) * sint (sr_FactorBp rule) div 10000 < 9223372036854775808"
          using ok(5) ret by simp
        then obtain c where c: "multiply (qu_CostCp q) (sr_FactorBp rule) = Some c"
            "sint c = sint (qu_CostCp q) * sint (sr_FactorBp rule) div 10000"
          using multiply_exact [OF ok(4) f] by auto
        have "0 \<le> sint c" using c(2) ok(4) f by (simp add: pos_imp_zdiv_nonneg_iff)
        moreover have "\<forall>x \<in> set rules. sr_Kind x \<noteq> RuleReturningMain" using ok(2) ret by force
        ultimately show ?thesis using on m hit e EffectMultiply c IH by (simp add: charge_step_def)
      qed
    qed
  qed
qed simp

text \<open>C27: a valid policy and request are always answered: if every attendance window the policy
  asks for was measured, the base cost times the returning-main factor fits an int64 and the spendable
  balance is not negative, \<open>Evaluate\<close> returns a decision and no error.\<close>

theorem evaluate_answers:
  assumes p: "policy_Validate p = Inr ()" and t: "instant clock r = Inr now"
    and r: "request_validate r now = Inr ()"
    and "measurable p r" and "scalable p" and "0 \<le> sint (rq_SpendableCp r)"
  shows "\<exists>d. Evaluate clock p r = Inr d"
proof -
  obtain q where q: "price p r now = Inr q"
    using price_loop_total [OF policy_ok(2,3) [OF p]] policy_ok(1) [OF p] assms(4,5)
    unfolding price_def measurable_def scalable_def Let_def by force
  have cost: "0 \<le> sint (qu_CostCp q)" using price_spec [OF p r q] by simp
  have "\<exists>fs. floor_blocks p r = Inr fs"
    using assms(4) sample_of_None [of "gu_AttendanceWindowDays (po_Guards p)" "rq_Attendance r"]
    by (auto simp: floor_blocks_def measurable_def i64_simps attendanceOver_def ok_or_def split: option.splits)
  moreover have "\<exists>ps. points_blocks r q = Inr ps"
    using cost assms(6) sint_bounds [of "qu_CostCp q"] sint_bounds [of "rq_SpendableCp r"]
    by (auto simp: points_blocks_def swap_sub_exact in64_def)
  ultimately have "\<exists>bs. guard p r now q = Inr bs" by (auto simp: guard_def)
  then show ?thesis using p t r q by (auto simp: Evaluate_ok)
qed

text \<open>The start of the allowance year is midnight of 1 January, UTC, of the year the instant
  lies in: a whole number of Gregorian years after the epoch, and the instant lies between it and the
  start of the next year.\<close>

theorem year_starts_at_midnight:
  assumes "0 < sint t"
  shows "\<exists>n. sint (yearStart t) = days_before n * 86400000000 \<and> sint (yearStart t) \<le> sint t \<and>
    sint t < days_before (Suc n) * 86400000000"
  by (rule yearStart_spec [OF assms])

section \<open>Witnesses\<close>

text \<open>
  A returning main on the needed list, after both free swaps of the period: 750.00, less 250.00 for
  the level and 300.00 for the class, doubled for the return.
\<close>

definition sample_policy :: policy where
  "sample_policy = DefaultPolicy\<lparr>po_Rules := [
     rule0 RuleOpenWindow True,
     (rule0 RuleAnnualAllowance True)\<lparr>sr_PerYear := 2\<rparr>,
     (rule0 RuleTargetLevel True)\<lparr>sr_AmountCp := 25000, sr_MinLevel := 60\<rparr>,
     (rule0 RuleNeededClass True)\<lparr>sr_AmountCp := 30000, sr_Classes := [''cleric'']\<rparr>,
     (rule0 RuleReturningMain True)\<lparr>sr_FactorBp := 20000\<rparr>]\<rparr>"

definition sample_swap :: swap_request where
  "sample_swap = \<lparr>rq_At = 1700000000000000,
     rq_Target = \<lparr>sc_ID = ''B'', sc_Class = ''cleric'', sc_Level = 60, sc_Shared = False\<rparr>,
     rq_CurrentMainID = ''A'', rq_PreviousMainIDs = [''B''],
     rq_AllowanceUsedAt = [1680000000000000, 1690000000000000], rq_AllowanceYearStart = 1672531200000000,
     rq_Attendance = [\<lparr>at_WindowDays = 30, at_Bp = 9000\<rparr>], rq_SpendableCp = 45000,
     rq_LastSwapAt = Some 1690000000000000\<rparr>"

lemma sample_policy_valid: "policy_Validate sample_policy = Inr ()"
  by code_simp

lemma sample_request_valid: "request_validate sample_swap 1700000000000000 = Inr ()"
  by code_simp

lemma sample_instant: "instant None sample_swap = Inr 1700000000000000"
  by code_simp

lemma sample_cost: "map_sum id (\<lambda>d. (sint (qu_CostCp (de_Quote d)), de_Blocks d)) (Evaluate None sample_policy sample_swap) = Inr (40000, [])"
  by code_simp

definition sample_decision :: decision where
  "sample_decision = projr (Evaluate None sample_policy sample_swap)"

lemma sample_evaluates: "Evaluate None sample_policy sample_swap = Inr sample_decision"
  using sample_cost by (cases "Evaluate None sample_policy sample_swap") (simp_all add: sample_decision_def)

lemma sample_decision_cost: "sint (qu_CostCp (de_Quote sample_decision)) = 40000" "Allowed sample_decision"
  using sample_cost by (simp_all add: sample_evaluates Allowed_def)

theorem quote_is_the_rules_cost_witness:
  "quoted sample_policy sample_swap (de_Quote sample_decision) \<and>
    sint (qu_CostCp (de_Quote sample_decision)) = 40000"
  using quote_is_the_rules_cost [OF sample_evaluates] by (simp add: sample_decision_cost)

theorem allowed_iff_permitted_witness:
  "permitted sample_policy sample_swap (sint (qu_EvaluatedAt (de_Quote sample_decision))) 40000"
  using allowed_iff_permitted [OF sample_evaluates] by (simp add: sample_decision_cost)

theorem evaluate_answers_witness: "\<exists>d. Evaluate None sample_policy sample_swap = Inr d"
  by (rule evaluate_answers [OF sample_policy_valid sample_instant sample_request_valid])
    (simp_all add: measurable_def scalable_def sample_policy_def sample_swap_def DefaultPolicy_def rule0_def Let_def)

theorem year_starts_at_midnight_witness:
  "\<exists>n. sint (yearStart 1700000000000000) = days_before n * 86400000000 \<and>
    sint (yearStart 1700000000000000) \<le> 1700000000000000 \<and>
    1700000000000000 < days_before (Suc n) * 86400000000"
  using year_starts_at_midnight [of 1700000000000000] by simp

end
