(* ===== verification/Base64.thy ===== *)
theory Base64
  imports HashChain
begin

text \<open>
  \<open>base64.RawURLEncoding\<close>, the encoding of cursors, session secrets and access tokens: the
  alphabet of RFC 4648 section 5 without padding. The decoder skips line ends and does not check the
  unused bits of the last character, as the encoding is not in strict mode. A byte string is encoded
  through the list of its six-bit values.
\<close>

section \<open>Encoding and decoding\<close>

definition b64_char :: "int \<Rightarrow> char" where
  "b64_char v = (if v < 26 then chr (65 + v) else if v < 52 then chr (71 + v)
     else if v < 62 then chr (v - 4) else if v = 62 then CHR ''-'' else CHR ''_'')"

definition b64_val :: "char \<Rightarrow> int option" where
  "b64_val c = (if in_range 65 90 c then Some (byte c - 65)
     else if in_range 97 122 c then Some (byte c - 71)
     else if in_range 48 57 c then Some (byte c + 4)
     else if c = CHR ''-'' then Some 62 else if c = CHR ''_'' then Some 63 else None)"

fun b64_split :: "string \<Rightarrow> int list" where
  "b64_split [] = []"
| "b64_split [a] = [byte a div 4, byte a mod 4 * 16]"
| "b64_split [a, b] = [byte a div 4, byte a mod 4 * 16 + byte b div 16, byte b mod 16 * 4]"
| "b64_split (a # b # c # s) = (byte a div 4) # (byte a mod 4 * 16 + byte b div 16) #
     (byte b mod 16 * 4 + byte c div 64) # (byte c mod 64) # b64_split s"

fun b64_join :: "int list \<Rightarrow> string option" where
  "b64_join [] = Some []"
| "b64_join [v] = None"
| "b64_join [v, w] = Some [chr (v * 4 + w div 16)]"
| "b64_join [v, w, x] = Some [chr (v * 4 + w div 16), chr (w mod 16 * 16 + x div 4)]"
| "b64_join (v # w # x # y # vs) = map_option
     (\<lambda>s. chr (v * 4 + w div 16) # chr (w mod 16 * 16 + x div 4) # chr (x mod 4 * 64 + y) # s) (b64_join vs)"

definition b64_encode :: "string \<Rightarrow> string" where
  "b64_encode s = map b64_char (b64_split s)"

definition line_end :: "char \<Rightarrow> bool" where "line_end c \<longleftrightarrow> byte c = 10 \<or> byte c = 13"

definition b64_decode :: "string \<Rightarrow> string option" where
  "b64_decode s = Option.bind (those (map b64_val (filter (\<lambda>c. \<not> line_end c) s))) b64_join"

section \<open>Decoding gives back what was encoded\<close>

lemma sextet_char:
  assumes "0 \<le> v" "v < 64"
  shows "b64_val (b64_char v) = Some v \<and> \<not> line_end (b64_char v) \<and> b64_char v \<noteq> CHR ''.'' \<and>
    b64_char v \<noteq> CHR '' ''"
proof -
  have "\<forall>v \<in> set [0..63]. b64_val (b64_char v) = Some v \<and> \<not> line_end (b64_char v) \<and> b64_char v \<noteq> CHR ''.'' \<and>
    b64_char v \<noteq> CHR '' ''"
    by code_simp
  then show ?thesis using assms by simp
qed

lemma b64_split_range: "v \<in> set (b64_split s) \<Longrightarrow> 0 \<le> v \<and> v < 64"
proof (induction s rule: b64_split.induct)
  case (2 a)
  then show ?case using byte_range [of a] by auto
next
  case (3 a b)
  then show ?case using byte_range [of a] byte_range [of b] by auto
next
  case (4 a b c s)
  then show ?case using byte_range [of a] byte_range [of b] byte_range [of c] by auto
qed simp

lemma two_digits: "0 \<le> d \<Longrightarrow> d < k \<Longrightarrow> (m * k + d) div k = m \<and> (m * k + d) mod k = (d :: int)"
  by simp

lemma byte_nibbles: "0 \<le> byte c div 16" "byte c div 16 < 16" "0 \<le> byte c div 64" "byte c div 64 < 4"
  using byte_range [of c] by auto

lemma joined:
  "(byte a mod 4 * 16 + byte b div 16) div 16 = byte a mod 4"
  "(byte a mod 4 * 16 + byte b div 16) mod 16 = byte b div 16"
  "(byte b mod 16 * 4 + byte c div 64) div 4 = byte b mod 16"
  "(byte b mod 16 * 4 + byte c div 64) mod 4 = byte c div 64"
  using two_digits [OF byte_nibbles(1,2)] two_digits [OF byte_nibbles(3,4)] by blast+

lemma nibbles_small: "byte c div 16 mod 16 = byte c div 16" "byte c div 64 mod 4 = byte c div 64"
  using byte_nibbles [of c] by (simp_all only: mod_pos_pos_trivial)

lemma b64_join_split: "b64_join (b64_split s) = Some s"
  by (induction s rule: b64_split.induct) (simp_all add: joined nibbles_small)

lemma those_map_Some: "(\<And>x. x \<in> set xs \<Longrightarrow> f (g x) = Some x) \<Longrightarrow> those (map f (map g xs)) = Some xs"
  by (induction xs) auto

lemma b64_decode_encode [simp]: "b64_decode (b64_encode s) = Some s"
proof -
  have "filter (\<lambda>c. \<not> line_end c) (b64_encode s) = b64_encode s"
    using sextet_char b64_split_range by (auto simp: b64_encode_def filter_id_conv)
  moreover have "those (map b64_val (b64_encode s)) = Some (b64_split s)"
    unfolding b64_encode_def by (rule those_map_Some) (use sextet_char b64_split_range in blast)
  ultimately show ?thesis by (simp add: b64_decode_def b64_join_split)
qed

lemma b64_encode_chars: "c \<in> set (b64_encode s) \<Longrightarrow> c \<noteq> CHR ''.'' \<and> c \<noteq> CHR '' ''"
  using sextet_char b64_split_range by (auto simp: b64_encode_def)

lemma length_b64_encode: "length (b64_encode s) = (4 * length s + 2) div 3"
  unfolding b64_encode_def by (induction s rule: b64_split.induct) simp_all

text \<open>What decodes has three quarters of the length of its encoding.\<close>

lemma length_b64_join: "b64_join vs = Some s \<Longrightarrow> length s = 3 * length vs div 4"
  by (induction vs arbitrary: s rule: b64_join.induct) auto

end
