(* ===== verification/Cursor.thy ===== *)
theory Cursor
  imports Base64 Config HashChain
begin

text \<open>
  Pagination cursors (internal/core/cursor.go): a token \<open>key.body.mac\<close> whose body is the base64url
  JSON of the position and of what it was minted for, and whose mac authenticates the clear key and
  the body. HMAC-SHA-256 and SHA-256 are parameters. Encoding a struct of strings and integers cannot
  fail, so the error branch after \<open>json.Marshal\<close> is not there.
\<close>

section \<open>encoding/json as Marshal and Unmarshal use it\<close>

text \<open>\<open>json.Marshal\<close> escapes the characters HTML gives a meaning to; they only occur in strings.\<close>

definition html_char :: "char \<Rightarrow> string" where
  "html_char c = (if byte c = 60 \<or> byte c = 62 \<or> byte c = 38
     then [CHR 0x5C, CHR ''u'', CHR ''0'', CHR ''0'', hex_digit (byte c div 16), hex_digit (byte c mod 16)]
     else [c])"

definition html_escape :: "string \<Rightarrow> string" where
  "html_escape s = concat (map html_char s)"

definition json_Marshal :: "json \<Rightarrow> string" where
  "json_Marshal j = html_escape (json_encode j)"

text \<open>\<open>json.Unmarshal\<close> into a struct passes over the members no field has the name of.\<close>

definition known :: "'c knob list \<Rightarrow> (string \<times> json) list \<Rightarrow> (string \<times> json) list" where
  "known ks ms = filter (\<lambda>(key, _). find_knob ks key \<noteq> None) ms"

definition json_Unmarshal :: "'c knob list \<Rightarrow> string \<Rightarrow> 'c \<Rightarrow> 'c option" where
  "json_Unmarshal ks s c = Option.bind (json_parse s) (\<lambda>j. case j of
     JObj ms \<Rightarrow> decode_members ks (known ks ms) c
   | JNull \<Rightarrow> Some c | _ \<Rightarrow> None)"

section \<open>Cursors\<close>

record cursor =
  cu_Version :: i64
  cu_Key :: ulid
  cu_ID :: ulid
  cu_Filter :: string
  cu_PrincipalClass :: string

record payload =
  pl_V :: i64
  pl_K :: string
  pl_I :: string
  pl_F :: string
  pl_PC :: string

definition cursorVersion :: i64 where "cursorVersion = 1"
definition cursorSep :: char where "cursorSep = CHR ''.''"

definition NewCursorCodec :: "string \<Rightarrow> string res" where
  "NewCursorCodec hmacKey = (if hmacKey = [] then Inl ErrEmptyHMACKey else Inr hmacKey)"

definition payload_json :: "payload \<Rightarrow> json" where
  "payload_json p = JObj [(''v'', json_int (pl_V p)), (''k'', JStr (pl_K p)), (''id'', JStr (pl_I p)),
     (''f'', JStr (pl_F p)), (''pc'', JStr (pl_PC p))]"

definition payload_knobs :: "payload knob list" where
  "payload_knobs = [(''v'', set_int pl_V_update), (''k'', set_string pl_K_update),
     (''id'', set_string pl_I_update), (''f'', set_string pl_F_update), (''pc'', set_string pl_PC_update)]"

definition sign :: "(string \<Rightarrow> string \<Rightarrow> string) \<Rightarrow> string \<Rightarrow> string \<Rightarrow> string \<Rightarrow> string" where
  "sign hmac key keyPart bodyEnc = hmac key (keyPart @ CHR 0x00 # bodyEnc)"

definition Encode :: "(string \<Rightarrow> string \<Rightarrow> string) \<Rightarrow> string \<Rightarrow> cursor \<Rightarrow> string res" where
  "Encode hmac key c0 =
     (let c = (if cu_Version c0 = 0 then c0\<lparr>cu_Version := cursorVersion\<rparr> else c0) in
      if cu_PrincipalClass c = [] then Inl ErrEmptyPrincipalClass
      else let p = \<lparr>pl_V = cu_Version c, pl_K = cu_Key c, pl_I = cu_ID c, pl_F = cu_Filter c,
                    pl_PC = cu_PrincipalClass c\<rparr>;
               bodyEnc = b64_encode (json_Marshal (payload_json p));
               mac = sign hmac key (cu_Key c) bodyEnc
           in Inr (cu_Key c @ cursorSep # bodyEnc @ cursorSep # b64_encode mac))"

text \<open>\<open>strings.Split\<close> at a one-byte separator.\<close>

fun split_at :: "char \<Rightarrow> string \<Rightarrow> string list" where
  "split_at sep [] = [[]]"
| "split_at sep (c # s) = (if c = sep then [] # split_at sep s
     else case split_at sep s of [] \<Rightarrow> [[c]] | p # ps \<Rightarrow> (c # p) # ps)"

definition payload0 :: payload where
  "payload0 = \<lparr>pl_V = 0, pl_K = [], pl_I = [], pl_F = [], pl_PC = []\<rparr>"

definition Decode :: "(string \<Rightarrow> string \<Rightarrow> string) \<Rightarrow> string \<Rightarrow> string \<Rightarrow> string \<Rightarrow> string \<Rightarrow> cursor res" where
  "Decode hmac key token wantPrincipal wantFilter =
     (if wantPrincipal = [] then Inl ErrEmptyPrincipalClass
      else case split_at cursorSep token of
        [keyPart, bodyEnc, macEnc] \<Rightarrow>
          bindR (ok_or ErrCursorInvalid (b64_decode macEnc)) (\<lambda>gotMAC.
          if gotMAC \<noteq> sign hmac key keyPart bodyEnc then Inl ErrCursorInvalid
          else bindR (ok_or ErrCursorInvalid (b64_decode bodyEnc)) (\<lambda>body.
          bindR (ok_or ErrCursorInvalid (json_Unmarshal payload_knobs body payload0)) (\<lambda>p.
          if pl_K p \<noteq> keyPart then Inl ErrCursorInvalid
          else if pl_V p \<noteq> cursorVersion then Inl ErrCursorInvalid
          else if pl_PC p = [] then Inl ErrCursorInvalid
          else if pl_PC p \<noteq> wantPrincipal then Inl ErrCursorInvalid
          else if pl_F p \<noteq> wantFilter then Inl ErrCursorFilterMismatch
          else Inr \<lparr>cu_Version = pl_V p, cu_Key = pl_K p, cu_ID = pl_I p, cu_Filter = pl_F p,
                    cu_PrincipalClass = pl_PC p\<rparr>)))
      | _ \<Rightarrow> Inl ErrCursorInvalid)"

definition FilterFingerprint :: "(string \<Rightarrow> string) \<Rightarrow> string \<Rightarrow> string" where
  "FilterFingerprint sha256 canonicalFilters = b64_encode (sha256 canonicalFilters)"

end
