(* ===== verification/CursorCodec.thy ===== *)
theory CursorCodec
  imports Cursor
begin

text \<open>
  A cursor survives its token, and a token that is accepted is authentic (internal/core/cursor.go).
  The round trip goes through the three encodings a token nests: a UTF-8 text through the JSON string
  literal \<open>json.Marshal\<close> writes, a list of members through the document, and the bytes of the
  document through base64url.
\<close>

section \<open>Strings survive being written and read\<close>

fun valid_utf8 :: "string \<Rightarrow> bool" where
  "valid_utf8 [] = True"
| "valid_utf8 (c # s) = (rune_len (c # s) \<noteq> 0 \<and> valid_utf8 (drop (rune_len (c # s) - 1) s))"

text \<open>A piece of a string literal stands for a text when it scans as itself and unquotes to the text.\<close>

definition stands_for :: "string \<Rightarrow> string \<Rightarrow> bool" where
  "stands_for t u \<longleftrightarrow> (\<forall>rest. scan_string (t @ rest) =
       map_option (\<lambda>(b, r). (t @ b, r)) (scan_string rest) \<and> unquote (t @ rest) = u @ unquote rest)"

lemma stands_for_Nil: "stands_for [] []"
  by (auto simp: stands_for_def option.map_id prod.case_eq_if map_option.identity split: option.splits)

lemma stands_for_append: "stands_for t u \<Longrightarrow> stands_for t' u' \<Longrightarrow> stands_for (t @ t') (u @ u')"
  by (simp add: stands_for_def option.map_comp comp_def case_prod_unfold)

lemma byte_ascii [simp]: "byte (CHR 0x5C) = 92" "byte (CHR ''u'') = 117" "byte (CHR ''0'') = 48"
  "byte (CHR 0x22) = 34"
  by code_simp+

lemma stands_for_char:
  assumes "32 \<le> byte c" "byte c < 128" "byte c \<noteq> 34" "byte c \<noteq> 92"
  shows "stands_for [c] [c]"
  using assms by (auto simp: stands_for_def split: option.splits)

lemma getu4_not_u: "u \<noteq> CHR ''u'' \<Longrightarrow> getu4 (b # u # s) = None"
  by (induction "b # u # s" rule: getu4.induct) auto

lemma stands_for_short:
  assumes "e \<in> set [CHR ''b'', CHR ''f'', CHR ''n'', CHR ''r'', CHR ''t'', CHR 0x5C, CHR 0x22]"
  shows "stands_for [CHR 0x5C, e] [unescape e]"
proof -
  have u: "e \<noteq> CHR ''u''" using assms by auto
  show ?thesis using assms getu4_not_u [OF u]
    by (auto simp: stands_for_def split: option.splits)
qed

lemma stands_for_hex:
  assumes h: "hex4 h1 h2 h3 h4 = Some n" and n: "n < 55296 \<or> 57344 \<le> n"
  shows "stands_for [CHR 0x5C, CHR ''u'', h1, h2, h3, h4] (encode_rune n)"
  using h n by (auto simp: stands_for_def split: option.splits)

lemma stands_for_bytes: "(\<forall>c \<in> set t. 128 \<le> byte c) \<Longrightarrow>
    scan_string (t @ rest) = map_option (\<lambda>(b, r). (t @ b, r)) (scan_string rest)"
  by (induction t) (auto simp: option.map_id0 split: option.splits)

lemma rune_len_prefix:
  "rune_len (c # s) \<noteq> 0 \<Longrightarrow> rune_len (take (rune_len (c # s)) (c # s) @ rest) = rune_len (c # s)"
  by (cases s; cases "tl s"; cases "tl (tl s)") (auto split: if_splits)

lemma rune_len_le: "rune_len s \<le> length s"
  by (cases s; cases "tl s"; cases "tl (tl s)"; cases "tl (tl (tl s))") (auto split: if_splits)

lemma rune_bytes: "128 \<le> byte c \<Longrightarrow> x \<in> set (take (rune_len (c # s)) (c # s)) \<Longrightarrow> 128 \<le> byte x"
  by (cases s; cases "tl s"; cases "tl (tl s)") (auto simp: cont_def in_range_def split: if_splits)

lemma stands_for_rune:
  assumes c: "128 \<le> byte c" and n: "rune_len (c # s) \<noteq> 0"
  shows "stands_for (take (rune_len (c # s)) (c # s)) (take (rune_len (c # s)) (c # s))"
proof -
  let ?t = "take (rune_len (c # s)) (c # s)"
  obtain k where k: "rune_len (c # s) = Suc k" using n by (cases "rune_len (c # s)") auto
  have len: "length (take k s) = k" using rune_len_le [of "c # s"] k by simp
  have "unquote (?t @ rest) = ?t @ unquote rest" for rest
  proof -
    have t: "?t @ rest = c # (take k s @ rest)" using k by simp
    have "rune_len (c # (take k s @ rest)) = Suc k"
      using rune_len_prefix [OF n, of rest] unfolding t unfolding k .
    then show ?thesis
      unfolding t using c len k by (subst unquote.simps(2)) simp
  qed
  then show ?thesis
    using stands_for_bytes rune_bytes [OF c] by (simp add: stands_for_def)
qed


lemma html_escape_simps [simp]: "html_escape [] = []" "html_escape (c # s) = html_char c @ html_escape s"
  "html_escape (s @ t) = html_escape s @ html_escape t"
  by (simp_all add: html_escape_def)

lemma html_char_plain: "byte c \<noteq> 60 \<Longrightarrow> byte c \<noteq> 62 \<Longrightarrow> byte c \<noteq> 38 \<Longrightarrow> html_char c = [c]"
  by (simp add: html_char_def)

lemma html_bytes: "(\<forall>c \<in> set t. 128 \<le> byte c) \<Longrightarrow> html_escape t = t"
  by (induction t) (auto simp: html_char_plain)

text \<open>The 128 ASCII characters, one by one.\<close>

lemma ascii_hex:
  assumes "n < 32 \<or> n = 38 \<or> n = 60 \<or> n = 62" "0 \<le> n"
  shows "hex4 (CHR ''0'') (CHR ''0'') (hex_digit (n div 16)) (hex_digit (n mod 16)) = Some n \<and>
    html_char (hex_digit (n div 16)) = [hex_digit (n div 16)] \<and>
    html_char (hex_digit (n mod 16)) = [hex_digit (n mod 16)]"
proof -
  have "\<forall>n \<in> set ([0..31] @ [38, 60, 62]).
      hex4 (CHR ''0'') (CHR ''0'') (hex_digit (n div 16)) (hex_digit (n mod 16)) = Some n \<and>
      html_char (hex_digit (n div 16)) = [hex_digit (n div 16)] \<and>
      html_char (hex_digit (n mod 16)) = [hex_digit (n mod 16)]"
    by code_simp
  then show ?thesis using assms by auto
qed

lemma stands_for_ascii_hex:
  assumes "byte c < 32 \<or> byte c = 38 \<or> byte c = 60 \<or> byte c = 62"
  shows "stands_for [CHR 0x5C, CHR ''u'', CHR ''0'', CHR ''0'', hex_digit (byte c div 16), hex_digit (byte c mod 16)] [c]"
proof -
  have "byte c < 128" using assms by auto
  then have "encode_rune (byte c) = [c]" by (simp add: encode_rune_def)
  then show ?thesis
    using stands_for_hex [OF conjunct1 [OF ascii_hex [OF assms byte_range(1)]]] \<open>byte c < 128\<close> by auto
qed

lemma stands_for_ascii:
  assumes "byte c < 128"
  shows "stands_for (html_escape (escape_ascii c)) [c]"
proof -
  consider (short) "byte c \<in> {34, 92, 8, 12, 10, 13, 9}"
    | (hex) "byte c < 32" "byte c \<notin> {34, 92, 8, 12, 10, 13, 9}"
    | (html) "byte c = 38 \<or> byte c = 60 \<or> byte c = 62"
    | (plain) "32 \<le> byte c" "byte c \<notin> {34, 92, 38, 60, 62}"
    by fastforce
  then show ?thesis
  proof cases
    case short
    have "\<forall>n \<in> set [34, 92, 8, 12, 10, 13, 9 :: int].
        \<exists>e \<in> set [CHR ''b'', CHR ''f'', CHR ''n'', CHR ''r'', CHR ''t'', CHR 0x5C, CHR 0x22].
        html_escape (escape_ascii (chr n)) = [CHR 0x5C, e] \<and> unescape e = chr n"
      by code_simp
    moreover have "byte c \<in> set [34, 92, 8, 12, 10, 13, 9]" using short by simp
    ultimately obtain e where "html_escape (escape_ascii (chr (byte c))) = [CHR 0x5C, e]"
        "unescape e = chr (byte c)"
        "e \<in> set [CHR ''b'', CHR ''f'', CHR ''n'', CHR ''r'', CHR ''t'', CHR 0x5C, CHR 0x22]"
      by (elim ballE [where x = "byte c"]) blast+
    then show ?thesis using stands_for_short [of e] by (simp only: chr_byte)
  next
    case hex
    then have "html_escape (escape_ascii c) =
        [CHR 0x5C, CHR ''u'', CHR ''0'', CHR ''0'', hex_digit (byte c div 16), hex_digit (byte c mod 16)]"
      using ascii_hex [of "byte c"] byte_range [of c] by (simp add: escape_ascii_def html_char_plain)
    then show ?thesis using stands_for_ascii_hex [of c] hex by simp
  next
    case html
    then have "escape_ascii c = [c]" unfolding escape_ascii_def by (elim disjE) simp_all
    moreover have "html_char c =
        [CHR 0x5C, CHR ''u'', CHR ''0'', CHR ''0'', hex_digit (byte c div 16), hex_digit (byte c mod 16)]"
      unfolding html_char_def using html by (intro if_P) blast
    ultimately have "html_escape (escape_ascii c) =
        [CHR 0x5C, CHR ''u'', CHR ''0'', CHR ''0'', hex_digit (byte c div 16), hex_digit (byte c mod 16)]"
      by (simp only: html_escape_simps append_Nil2)
    moreover have "byte c < 32 \<or> byte c = 38 \<or> byte c = 60 \<or> byte c = 62" using html by blast
    ultimately show ?thesis using stands_for_ascii_hex [of c] by (simp only:)
  next
    case plain
    then have "html_escape (escape_ascii c) = [c]"
      by (simp add: escape_ascii_def html_char_plain)
    then show ?thesis using stands_for_char [of c] plain assms by simp
  qed
qed

lemma stands_for_separator:
  assumes "r = 8232 \<or> r = 8233"
  shows "stands_for (html_escape (escape_rune (encode_rune r))) (encode_rune r)"
proof -
  have "hex4 (CHR ''2'') (CHR ''0'') (CHR ''2'') (CHR ''8'') = Some 8232"
    "hex4 (CHR ''2'') (CHR ''0'') (CHR ''2'') (CHR ''9'') = Some 8233" by code_simp+
  moreover have "html_escape (escape_rune (encode_rune 8232)) = CHR 0x5C # ''u2028''"
    "html_escape (escape_rune (encode_rune 8233)) = CHR 0x5C # ''u2029''" by code_simp+
  ultimately show ?thesis using assms stands_for_hex [of "CHR ''2''" "CHR ''0''" "CHR ''2''"] by auto
qed

lemma escaped_stands_for: "valid_utf8 s \<Longrightarrow> stands_for (html_escape (escape_string s)) s"
proof (induction s rule: escape_string.induct)
  case 1
  then show ?case by (simp add: stands_for_Nil)
next
  case (2 c s)
  let ?n = "rune_len (c # s)"
  have n: "?n \<noteq> 0" and rest: "valid_utf8 (drop (?n - 1) s)" using "2.prems" by simp_all
  show ?case
  proof (cases "byte c < 128")
    case True
    then have "valid_utf8 s" using rest by simp
    then have "stands_for (html_escape (escape_string s)) s" using "2.IH" True by blast
    from stands_for_append [OF stands_for_ascii [OF True] this] show ?thesis using True by simp
  next
    case False
    let ?r = "take ?n (c # s)"
    have "stands_for (html_escape (escape_rune ?r)) ?r"
    proof (cases "?r = encode_rune 8232 \<or> ?r = encode_rune 8233")
      case True
      then show ?thesis using stands_for_separator by metis
    next
      case no: False
      have "\<forall>x \<in> set ?r. 128 \<le> byte x" using rune_bytes [of c _ s] False by auto
      then have "html_escape ?r = ?r" by (rule html_bytes)
      moreover have "escape_rune ?r = ?r" using no by (simp only: escape_rune_def de_Morgan_disj if_False)
      ultimately have "html_escape (escape_rune ?r) = ?r" by (simp only:)
      then show ?thesis using stands_for_rune [OF _ n] False by simp
    qed
    moreover have "stands_for (html_escape (escape_string (drop (?n - 1) s))) (drop (?n - 1) s)"
      using "2.IH" False n rest by blast
    ultimately have "stands_for (html_escape (escape_rune ?r) @ html_escape (escape_string (drop (?n - 1) s)))
        (?r @ drop (?n - 1) s)" by (rule stands_for_append)
    moreover have "?r @ drop (?n - 1) s = c # s" using n by (cases ?n) auto
    ultimately show ?thesis using False n by simp
  qed
qed

section \<open>Documents survive being written and read\<close>

abbreviation literal :: "string \<Rightarrow> string" where "literal s \<equiv> html_escape (escape_string s)"

lemma scan_literal: "valid_utf8 s \<Longrightarrow> scan_string (literal s @ CHR 0x22 # r) = Some (literal s, r)"
  using escaped_stands_for [of s] by (auto simp: stands_for_def)

lemma unquote_literal: "valid_utf8 s \<Longrightarrow> unquote (literal s) = s"
proof -
  assume "valid_utf8 s"
  then have "unquote (literal s @ []) = s @ unquote []"
    using escaped_stands_for unfolding stands_for_def by blast
  then show ?thesis by simp
qed

text \<open>The members of a cursor's body: strings, and the version number.\<close>

fun flat :: "json \<Rightarrow> bool" where
  "flat (JStr s) = valid_utf8 s"
| "flat (JNum l) = (l = ''1'')"
| "flat _ = False"

lemma punctuation [simp]: "html_char (CHR 0x22) = [CHR 0x22]" "html_char (CHR '':'') = '':''"
  "html_char (CHR '','') = '',''" "html_char (CHR ''1'') = ''1''" "html_char (CHR ''{'') = ''{''"
  "html_char (CHR ''}'') = ''}''" "is_ws (CHR 0x22) = False" "is_ws (CHR '':'') = False"
  "is_ws (CHR '','') = False" "is_ws (CHR ''}'') = False" "is_ws (CHR ''{'') = False" "is_ws (CHR ''1'') = False"
  "byte (CHR ''1'') = 49"
  by code_simp+

lemma scan_one: "c = CHR '','' \<or> c = CHR ''}'' \<Longrightarrow> scan_number (CHR ''1'' # c # r) = Some (''1'', c # r)"
proof -
  have "is_digit (CHR ''1'')" "\<not> is_digit (CHR '','')" "\<not> is_digit (CHR ''}'')" by code_simp+
  then show "c = CHR '','' \<or> c = CHR ''}'' \<Longrightarrow> scan_number (CHR ''1'' # c # r) = Some (''1'', c # r)"
    by (auto simp: scan_number_def scan_sign_def scan_int_def scan_frac_def scan_exp_def)
qed

lemma parse_flat:
  assumes "flat v" "c = CHR '','' \<or> c = CHR ''}''"
  shows "parse_value (Suc n) (html_escape (json_encode v) @ c # r) = Some (v, c # r)"
  using assms scan_literal unquote_literal scan_one
  by (cases v) auto

lemma parse_flat_members:
  assumes "ms \<noteq> []" "\<forall>(k, v) \<in> set ms. valid_utf8 k \<and> flat v" "length ms < n"
  shows "parse_members n (html_escape (encode_members ms) @ CHR ''}'' # r) = Some (ms, r)"
  using assms
proof (induction ms arbitrary: n)
  case (Cons m ms)
  obtain k v where m: "m = (k, v)" by (cases m)
  have kv: "valid_utf8 k" "flat v" using Cons.prems m by auto
  obtain N where n: "n = Suc N" and N: "length ms < N" using Cons.prems(3) by (cases n) auto
  then obtain n' where n': "N = Suc n'" by (cases N) auto
  have val: "parse_value N (html_escape (json_encode v) @ c # t) = Some (v, c # t)"
    if "c = CHR '','' \<or> c = CHR ''}''" for c t
    unfolding n' by (rule parse_flat [OF kv(2) that])
  note lits = scan_literal [OF kv(1)] unquote_literal [OF kv(1)]
  show ?case
  proof (cases "ms = []")
    case True
    then show ?thesis using val lits by (simp add: m n)
  next
    case False
    then have "parse_members N (html_escape (encode_members ms) @ CHR ''}'' # r) = Some (ms, r)"
      using Cons N by simp
    then show ?thesis using False val lits by (simp add: m n)
  qed
qed simp

lemma length_flat_members: "ms \<noteq> [] \<Longrightarrow> length ms \<le> length (html_escape (encode_members ms))"
proof (induction ms)
  case (Cons m ms)
  then show ?case by (cases m; cases ms) auto
qed simp

lemma json_parse_Marshal:
  assumes "ms \<noteq> []" "\<forall>(k, v) \<in> set ms. valid_utf8 k \<and> flat v"
  shows "json_parse (json_Marshal (JObj ms)) = Some (JObj ms)"
proof -
  let ?d = "html_escape (encode_members ms)" and ?s = "json_Marshal (JObj ms)"
  have s: "?s = CHR ''{'' # ?d @ ''}''" by (simp add: json_Marshal_def)
  obtain k v ms' where "ms = (k, v) # ms'" using assms(1) by (cases ms) auto
  then obtain d' where d: "?d = CHR 0x22 # d'" by simp
  have "length ms < 2 * length ?s" using length_flat_members [OF assms(1)] s by simp
  then have "parse_members (2 * length ?s) (?d @ CHR ''}'' # []) = Some (ms, [])"
    using parse_flat_members [OF assms] by blast
  then have "parse_value (Suc (2 * length ?s)) ?s = Some (JObj ms, [])"
    unfolding s using d by simp
  then show ?thesis by (simp add: json_parse_def)
qed

section \<open>Cursors\<close>

lemma split_at_one: "sep \<notin> set s \<Longrightarrow> split_at sep s = [s]"
  by (induction s) auto

lemma split_at_app: "sep \<notin> set s \<Longrightarrow> split_at sep (s @ sep # t) = s # split_at sep t"
  by (induction s) auto

lemma split_at_join: "split_at sep t = [a, b, c] \<Longrightarrow> t = a @ sep # b @ sep # c"
proof -
  have ne: "split_at sep s \<noteq> []" for s by (induction s) (auto split: list.splits)
  have one: "split_at sep t = [a] \<Longrightarrow> t = a" for t a
    by (induction t arbitrary: a) (use ne in \<open>auto split: if_splits list.splits\<close>)
  have more: "split_at sep t = a # p # ps \<Longrightarrow> \<exists>t'. t = a @ sep # t' \<and> split_at sep t' = p # ps" for t a p ps
    by (induction t arbitrary: a) (use ne in \<open>auto split: if_splits list.splits\<close>)
  show "split_at sep t = [a, b, c] \<Longrightarrow> t = a @ sep # b @ sep # c"
    by (auto dest!: more one)
qed

lemma payload_document:
  assumes "valid_utf8 k" "valid_utf8 i" "valid_utf8 f" "valid_utf8 pc"
  shows "json_Unmarshal payload_knobs (json_Marshal (payload_json
    \<lparr>pl_V = cursorVersion, pl_K = k, pl_I = i, pl_F = f, pl_PC = pc\<rparr>)) payload0 =
    Some \<lparr>pl_V = cursorVersion, pl_K = k, pl_I = i, pl_F = f, pl_PC = pc\<rparr>"
proof -
  have v: "json_int cursorVersion = JNum ''1''" by code_simp
  have names: "valid_utf8 ''v''" "valid_utf8 ''k''" "valid_utf8 ''id''" "valid_utf8 ''f''" "valid_utf8 ''pc''"
    by code_simp+
  have folds: "map fold_name [''v'', ''k'', ''id'', ''f'', ''pc''] = [''V'', ''K'', ''ID'', ''F'', ''PC'']"
    by code_simp
  have one: "ParseInt64 ''1'' = Some cursorVersion" by code_simp
  have "json_parse (json_Marshal (payload_json \<lparr>pl_V = cursorVersion, pl_K = k, pl_I = i, pl_F = f, pl_PC = pc\<rparr>)) =
      Some (payload_json \<lparr>pl_V = cursorVersion, pl_K = k, pl_I = i, pl_F = f, pl_PC = pc\<rparr>)"
    unfolding payload_json_def by (rule json_parse_Marshal) (use assms names v in auto)
  then show ?thesis using folds
    by (simp add: json_Unmarshal_def payload_json_def known_def payload_knobs_def v set_int_def set_string_def
        one payload0_def)
qed

lemma decode_encode:
  assumes "Encode hmac key c = Inr token"
    and "cu_Version c = 0 \<or> cu_Version c = cursorVersion" and "cursorSep \<notin> set (cu_Key c)"
    and "valid_utf8 (cu_Key c)" "valid_utf8 (cu_ID c)" "valid_utf8 (cu_Filter c)" "valid_utf8 (cu_PrincipalClass c)"
  shows "Decode hmac key token (cu_PrincipalClass c) (cu_Filter c) = Inr (c\<lparr>cu_Version := cursorVersion\<rparr>)"
proof -
  let ?p = "\<lparr>pl_V = cursorVersion, pl_K = cu_Key c, pl_I = cu_ID c, pl_F = cu_Filter c,
    pl_PC = cu_PrincipalClass c\<rparr>"
  let ?body = "b64_encode (json_Marshal (payload_json ?p))"
  have pc: "cu_PrincipalClass c \<noteq> []" and token: "token = cu_Key c @ cursorSep # ?body @ cursorSep #
      b64_encode (sign hmac key (cu_Key c) ?body)"
    using assms(1,2) by (auto simp: Encode_def Let_def split: if_splits)
  have "cursorSep \<notin> set (b64_encode s)" for s
    using b64_encode_chars by (auto simp: cursorSep_def)
  then have "split_at cursorSep token = [cu_Key c, ?body, b64_encode (sign hmac key (cu_Key c) ?body)]"
    using assms(3) by (simp add: token split_at_app split_at_one)
  then show ?thesis using pc payload_document [OF assms(4-7)] by (simp add: Decode_def)
qed

text \<open>C28: a cursor comes back from its token: a cursor of the current version whose texts are UTF-8 and
  whose key has no separator in it, once encoded, is decoded to itself for the principal class and the
  filter it was minted with, whatever the MAC computes.\<close>

theorem cursor_roundtrip:
  assumes "Encode hmac key c = Inr token"
    and "cu_Version c = 0 \<or> cu_Version c = cursorVersion" and "cursorSep \<notin> set (cu_Key c)"
    and "valid_utf8 (cu_Key c)" "valid_utf8 (cu_ID c)" "valid_utf8 (cu_Filter c)" "valid_utf8 (cu_PrincipalClass c)"
  shows "Decode hmac key token (cu_PrincipalClass c) (cu_Filter c) = Inr (c\<lparr>cu_Version := cursorVersion\<rparr>)"
  by (rule decode_encode [OF assms])

text \<open>C29: a decoded cursor is authentic and bound: the token is its key, a body and a MAC of just that key
  and body under the server's key, the body is the JSON of the cursor, and the cursor is of the
  current version, of the principal class and of the filter asked for.\<close>

theorem decoded_cursor_is_authentic:
  assumes "Decode hmac key token wantPrincipal wantFilter = Inr c"
  shows "\<exists>body mac. token = cu_Key c @ cursorSep # body @ cursorSep # mac \<and>
    b64_decode mac = Some (sign hmac key (cu_Key c) body) \<and>
    Option.bind (b64_decode body) (\<lambda>s. json_Unmarshal payload_knobs s payload0) =
      Some \<lparr>pl_V = cursorVersion, pl_K = cu_Key c, pl_I = cu_ID c, pl_F = wantFilter, pl_PC = wantPrincipal\<rparr> \<and>
    cu_Version c = cursorVersion \<and> cu_PrincipalClass c = wantPrincipal \<and> wantPrincipal \<noteq> [] \<and>
    cu_Filter c = wantFilter"
proof -
  obtain k body mac where parts: "split_at cursorSep token = [k, body, mac]"
    and want: "wantPrincipal \<noteq> []"
    using assms by (auto simp: Decode_def split: if_splits list.splits)
  then have token: "token = k @ cursorSep # body @ cursorSep # mac" by (intro split_at_join)
  obtain b p where "b64_decode mac = Some (sign hmac key k body)" "b64_decode body = Some b"
    "json_Unmarshal payload_knobs b payload0 = Some p" "pl_K p = k" "pl_V p = cursorVersion"
    "pl_PC p = wantPrincipal" "pl_F p = wantFilter"
    "c = \<lparr>cu_Version = pl_V p, cu_Key = pl_K p, cu_ID = pl_I p, cu_Filter = pl_F p, cu_PrincipalClass = pl_PC p\<rparr>"
    using assms want parts by (auto simp: Decode_def res_simps split: if_splits)
  then show ?thesis using token want by (intro exI [of _ body] exI [of _ mac]) auto
qed

section \<open>Witnesses\<close>

text \<open>A MAC that is no MAC, to run the codec on: the round trip holds for every function.\<close>

definition sample_hmac :: "string \<Rightarrow> string \<Rightarrow> string" where "sample_hmac key msg = key @ take 4 msg"

definition sample_cursor :: cursor where
  "sample_cursor = \<lparr>cu_Version = 1, cu_Key = ''01HV'', cu_ID = ''01HW'', cu_Filter = ''a<b'',
     cu_PrincipalClass = ''member''\<rparr>"

lemma sample_cursor_valid: "valid_utf8 (cu_Key sample_cursor)" "valid_utf8 (cu_ID sample_cursor)"
  "valid_utf8 (cu_Filter sample_cursor)" "valid_utf8 (cu_PrincipalClass sample_cursor)"
  "cursorSep \<notin> set (cu_Key sample_cursor)"
  by code_simp+

lemma sample_cursor_encodes: "Encode sample_hmac ''key'' sample_cursor = Inr (projr (Encode sample_hmac ''key'' sample_cursor))"
  by (simp add: Encode_def Let_def sample_cursor_def)

lemma sample_cursor_version: "cu_Version sample_cursor = 0 \<or> cu_Version sample_cursor = cursorVersion"
  by (simp add: sample_cursor_def cursorVersion_def)

theorem cursor_roundtrip_witness:
  "Decode sample_hmac ''key'' (projr (Encode sample_hmac ''key'' sample_cursor)) ''member'' ''a<b'' = Inr sample_cursor"
  using cursor_roundtrip [OF sample_cursor_encodes sample_cursor_version sample_cursor_valid(5) sample_cursor_valid(1-4)]
  by (simp add: sample_cursor_def cursorVersion_def)

theorem decoded_cursor_is_authentic_witness:
  "\<exists>body mac. projr (Encode sample_hmac ''key'' sample_cursor) = cu_Key sample_cursor @ cursorSep # body @ cursorSep # mac \<and>
    b64_decode mac = Some (sign sample_hmac ''key'' (cu_Key sample_cursor) body)"
proof -
  have "Decode sample_hmac ''key'' (projr (Encode sample_hmac ''key'' sample_cursor)) ''member'' ''a<b'' = Inr sample_cursor"
    using decode_encode [OF sample_cursor_encodes sample_cursor_version sample_cursor_valid(5) sample_cursor_valid(1-4)]
    by (simp add: sample_cursor_def cursorVersion_def)
  from decoded_cursor_is_authentic [OF this] show ?thesis by blast
qed

end
