(* ===== verification/AuthzCatalogue.thy ===== *)
theory AuthzCatalogue
  imports Prelude Int64
begin

text \<open>
  The permission catalogue, the capability floor, the token scopes and the built-in roles
  (internal/authz/catalogue.go, mint.go, roles.go): the data the binary ships, and the check of the
  scopes a token may be minted with. A text is a list of bytes; the one that is not ASCII is spelled
  out. Catalogue() numbers the rows in a loop over the list, \<open>number_from\<close> here.
\<close>

section \<open>Permissions\<close>

record permission =
  pm_Key :: string
  pm_Category :: string
  pm_Label :: string
  pm_Description :: string
  pm_RequiresStepUp :: bool
  pm_IsDangerous :: bool
  pm_SortOrder :: i64

definition perm :: "string \<Rightarrow> string \<Rightarrow> string \<Rightarrow> string \<Rightarrow> permission" where
  "perm key category label description = \<lparr>pm_Key = key, pm_Category = category, pm_Label = label,
     pm_Description = description, pm_RequiresStepUp = False, pm_IsDangerous = False, pm_SortOrder = 0\<rparr>"

definition roster_permissions :: "permission list" where
  "roster_permissions = [
     perm ''roster.read'' ''roster'' ''Read roster''
       ''View the guild roster, members and characters.'',
     perm ''roster.write'' ''roster'' ''Edit roster''
       ''Add, edit and archive members and characters.'',
     perm ''person.merge'' ''roster'' ''Merge people''
       ''Merge two person records into one, re-parenting their characters.'',
     perm ''character.claim.approve'' ''roster'' ''Approve character claims''
       ''Approve or reject a member's claim to a character.'',
     perm ''character.key.verify'' ''roster'' ''Verify zone keys''
       ''Move a self-reported zone key to verified, which gates raid eligibility.'']"

definition raids_permissions :: "permission list" where
  "raids_permissions = [
     perm ''raid.read'' ''raids'' ''Read raids''
       ''View raids, attendance and ticks.'',
     perm ''raid.create'' ''raids'' ''Create raids''
       ''Open a new raid.'',
     perm ''raid.update'' ''raids'' ''Update raids''
       ''Edit a raid's details before it is finalized.'',
     perm ''raid.finalize'' ''raids'' ''Finalize raids''
       ''Finalize a raid, freezing its attendance and ticks.'',
     perm ''raid.tick.create'' ''raids'' ''Create ticks''
       ''Award an attendance tick during a raid.'',
     perm ''raid.tick.delete'' ''raids'' ''Delete ticks''
       ''Remove an attendance tick from a raid.'',
     perm ''raid.custody.manage'' ''raids'' ''Manage custody''
       ''Transfer custody of an in-progress raid between officers.'']"

definition loot_permissions :: "permission list" where
  "loot_permissions = [
     perm ''item.read'' ''loot'' ''Read items''
       ''View the item catalogue and award history.'',
     perm ''item.award'' ''loot'' ''Award items''
       ''Record an item award to a character.'',
     perm ''item.alias.manage'' ''loot'' ''Manage item aliases''
       ''Add and edit the aliases the parser resolves item names through.'',
     perm ''item.priority.manage'' ''loot'' ''Manage item priority''
       ''Edit the loot-priority lists that resolution reads.'']"

definition points_permissions :: "permission list" where
  "points_permissions = [
     perm ''dkp.read'' ''points'' ''Read points''
       ''View standings, balances and the ledger.'',
     perm ''dkp.adjust'' ''points'' ''Adjust points''
       ''Create a manual point adjustment.'',
     perm ''dkp.decay.run'' ''points'' ''Run decay''
       ''Run a decay pass over the point pools.'',
     perm ''ledger.reverse'' ''points'' ''Reverse a batch''
       ''Write a reversal batch that undoes a prior ledger batch.'']"

definition bidding_permissions :: "permission list" where
  "bidding_permissions = [
     perm ''bid.read'' ''bidding'' ''Read bids''
       ''View bid sessions and, after reveal, the bids in them.'',
     perm ''bid.manage'' ''bidding'' ''Manage bids''
       ''Open, extend, close, resolve and settle bid sessions.'',
     (perm ''bid.reveal_early'' ''bidding'' ''Reveal bids early''
       ''Reveal a sealed bid session before its scheduled reveal.'')\<lparr>pm_IsDangerous := True\<rparr>]"

definition bank_permissions :: "permission list" where
  "bank_permissions = [
     perm ''bank.read'' ''bank'' ''Read bank''
       ''View the guild bank's contents and requests.'',
     perm ''bank.request'' ''bank'' ''Request from bank''
       ''Ask the guild bank for an item.'',
     perm ''bank.fulfil'' ''bank'' ''Fulfil bank requests''
       ''Hand over a requested item and close the delivery handshake.'',
     perm ''bank.manage'' ''bank'' ''Manage bank''
       ''Add, remove and reconcile the guild bank's inventory.'']"

definition calendar_permissions :: "permission list" where
  "calendar_permissions = [
     perm ''calendar.read'' ''calendar'' ''Read calendar''
       ''View the raid calendar and events.'',
     perm ''calendar.write'' ''calendar'' ''Edit calendar''
       ''Create and edit calendar events.'',
     perm ''signup.manage'' ''calendar'' ''Manage signups''
       ''Manage the signup list for an event.'']"

definition draft_permissions :: "permission list" where
  "draft_permissions = [
     perm ''draft.read'' ''draft'' ''Read drafts''
       ''View draft weeks and ballots.'',
     perm ''draft.vote'' ''draft'' ''Vote in a draft''
       ''Submit a ranked ballot in an open draft.'',
     perm ''draft.manage'' ''draft'' ''Manage drafts''
       ''Open, close and publish draft weeks and quakes.'']"

definition swaps_permissions :: "permission list" where
  "swaps_permissions = [
     perm ''swap.request'' ''swaps'' ''Request a swap''
       ''Ask for a main-character swap quote.'',
     perm ''swap.approve'' ''swaps'' ''Approve a swap''
       ''Approve or deny a requested main swap.'',
     perm ''swap.policy.manage'' ''swaps'' ''Manage swap policy''
       ''Edit the pricing and rules that govern main swaps.'']"

definition recruitment_permissions :: "permission list" where
  "recruitment_permissions = [
     perm ''recruit.read'' ''recruitment'' ''Read applications''
       ''View recruitment applications.'',
     perm ''recruit.comment'' ''recruitment'' ''Comment on applications''
       ''Leave signed feedback on a recruitment application.'',
     perm ''recruit.decide'' ''recruitment'' ''Decide on applications''
       ''Accept or reject a recruitment application.'',
     perm ''vouch.manage'' ''recruitment'' ''Manage vouches''
       ''Record and settle vouches for applicants.'']"

definition policy_permissions :: "permission list" where
  "policy_permissions = [
     perm ''policy.read'' ''policy'' ''Read policies''
       ''View guild policies and their acceptance state.'',
     perm ''policy.write'' ''policy'' ''Edit policies''
       ''Author and revise guild policies.'']"

definition content_permissions :: "permission list" where
  "content_permissions = [
     perm ''cms.read'' ''content'' ''Read content''
       ''View articles, media and portal blocks.'',
     perm ''cms.write'' ''content'' ''Edit content''
       ''Author and edit articles, media and portal blocks.'',
     perm ''cms.moderate'' ''content'' ''Moderate content''
       ''Moderate comments and untrusted rich text.'']"

definition import_permissions :: "permission list" where
  "import_permissions = [
     perm ''import.run'' ''import'' ''Run an import''
       ''Run an EQdkp import in dry-run, staging the data without committing it.'',
     (perm ''import.commit'' ''import'' ''Commit an import''
       ''Commit a staged import into the live database.'')\<lparr>pm_RequiresStepUp := True\<rparr>]"

definition webhooks_permissions :: "permission list" where
  "webhooks_permissions = [
     perm ''webhook.manage'' ''webhooks'' ''Manage webhooks''
       ''Create, edit and delete outbound webhooks.'']"

definition tokens_permissions :: "permission list" where
  "tokens_permissions = [
     (perm ''token.mint'' ''tokens'' ''Mint tokens''
       ''Mint a personal access token or a service-account token.'')\<lparr>pm_RequiresStepUp := True\<rparr>,
     (perm ''token.revoke'' ''tokens'' ''Revoke tokens''
       ''Revoke a personal access token or a service-account token.'')\<lparr>pm_RequiresStepUp := True\<rparr>]"

definition administration_permissions :: "permission list" where
  "administration_permissions = [
     perm ''admin.settings'' ''administration'' ''Manage settings''
       ''Change instance configuration that does not affect the security posture, such as the guild name, timezone and point label.'',
     (perm ''admin.security.manage'' ''administration'' ''Manage security settings''
       (''Read and change security-affecting configuration '' @ [CHR 0xE2, CHR 0x80, CHR 0x94] @ '' identity-provider credentials, MFA and session policy, the outbound allowlist '' @ [CHR 0xE2, CHR 0x80, CHR 0x94] @ '' and feed tokens.''))\<lparr>pm_RequiresStepUp := True\<rparr>,
     (perm ''admin.roles.manage'' ''administration'' ''Manage roles''
       ''Edit roles and role assignments.'')\<lparr>pm_RequiresStepUp := True\<rparr>,
     (perm ''admin.backup'' ''administration'' ''Manage backups''
       ''Download and restore database backups.'')\<lparr>pm_RequiresStepUp := True\<rparr>,
     (perm ''admin.owner'' ''administration'' ''Owner''
       ''The owner capability: an ordinary permission row, not a hardcoded superuser.'')\<lparr>pm_RequiresStepUp := True\<rparr>]"

definition sensitive_permissions :: "permission list" where
  "sensitive_permissions = [
     (perm ''person.pii.read'' ''sensitive'' ''Read PII''
       ''Read personally-identifying information in bulk, such as email addresses.'')\<lparr>pm_RequiresStepUp := True\<rparr>,
     (perm ''audit.read'' ''sensitive'' ''Read the audit log''
       ''Read the audit log.'')\<lparr>pm_RequiresStepUp := True\<rparr>,
     perm ''ops.read'' ''sensitive'' ''Read operational status''
       ''Read operational status and diagnostics.'']"

definition shipped :: "permission list" where
  "shipped = roster_permissions @ raids_permissions @ loot_permissions @
     points_permissions @ bidding_permissions @ bank_permissions @
     calendar_permissions @ draft_permissions @ swaps_permissions @
     recruitment_permissions @ policy_permissions @ content_permissions @
     import_permissions @ webhooks_permissions @ tokens_permissions @
     administration_permissions @ sensitive_permissions"

fun number_from :: "i64 \<Rightarrow> permission list \<Rightarrow> permission list" where
  "number_from n [] = []"
| "number_from n (p # ps) = p\<lparr>pm_SortOrder := n + 1\<rparr> # number_from (n + 1) ps"

definition PermissionCatalogue :: "permission list" where
  "PermissionCatalogue = number_from 0 shipped"

definition CapabilityFloor :: "string list" where
  "CapabilityFloor = [''token.mint'', ''token.revoke'', ''admin.security.manage'', ''admin.roles.manage'',
     ''admin.backup'', ''admin.owner'', ''person.pii.read'', ''audit.read'', ''import.commit'']"

section \<open>Scopes\<close>

record scope =
  sp_Key :: string
  sp_Label :: string
  sp_Description :: string

definition scope_of :: "string \<Rightarrow> string \<Rightarrow> string \<Rightarrow> scope" where
  "scope_of key label description = \<lparr>sp_Key = key, sp_Label = label, sp_Description = description\<rparr>"

definition Scopes :: "scope list" where
  "Scopes = [
     scope_of ''roster:read'' ''Read roster'' ''Read the guild roster.'',
     scope_of ''roster:write'' ''Edit roster'' ''Edit the guild roster.'',
     scope_of ''raids:read'' ''Read raids'' ''Read raids and attendance.'',
     scope_of ''raids:write'' ''Write raids'' ''Create and update raids and ticks.'',
     scope_of ''dkp:read'' ''Read points'' ''Read standings and the ledger.'',
     scope_of ''dkp:adjust'' ''Adjust points'' ''Create point adjustments.'',
     scope_of ''loot:read'' ''Read loot'' ''Read the item catalogue and awards.'',
     scope_of ''loot:award'' ''Award loot'' ''Record item awards.'',
     scope_of ''bids:read'' ''Read bids'' ''Read bid sessions.'',
     scope_of ''bids:place'' ''Place bids'' ''Place and retract bids in an open session, for the token owner's own accounts only.'',
     scope_of ''bids:manage'' ''Manage bids'' ''Open, extend, close, resolve and settle bid sessions.'',
     scope_of ''logs:ingest'' ''Ingest logs'' ''Submit parsed P99 log artefacts.'',
     scope_of ''calendar:read'' ''Read calendar'' ''Read the raid calendar.'',
     scope_of ''calendar:write'' ''Write calendar'' ''Create and edit calendar events.'',
     scope_of ''cms:read'' ''Read content'' ''Read articles, media and policies.'',
     scope_of ''cms:write'' ''Write content'' ''Author articles, media and policies.'',
     scope_of ''events:subscribe'' ''Subscribe to events'' ''Subscribe to the realtime event stream.'',
     scope_of ''webhooks:manage'' ''Manage webhooks'' ''Create, edit and delete webhooks.'',
     scope_of ''bank:read'' ''Read bank'' ''Read the guild bank.'',
     scope_of ''bank:request'' ''Request from bank'' ''Request an item from the bank, for the token owner's own accounts only.'',
     scope_of ''bank:manage'' ''Manage bank'' ''Manage the guild bank's inventory and requests.'',
     scope_of ''draft:read'' ''Read drafts'' ''Read draft weeks and ballots.'',
     scope_of ''draft:vote'' ''Vote in drafts'' ''Submit a ranked ballot, for the token owner's own account only.'',
     scope_of ''recruit:read'' ''Read recruitment'' ''Read recruitment applications.'',
     scope_of ''recruit:manage'' ''Manage recruitment'' ''Comment on and decide recruitment applications.'',
     scope_of ''swap:read'' ''Read swaps'' ''Read and quote main swaps, without committing one.'',
     scope_of ''swap:manage'' ''Manage swaps'' ''Approve, deny and configure main swaps.'']"

text \<open>\<open>ValidateScopes\<close>: the scopes of the request that are not in the catalogue, each once.\<close>

fun unknown_scopes :: "string list \<Rightarrow> string list \<Rightarrow> string list \<Rightarrow> string list" where
  "unknown_scopes valid unknown [] = unknown"
| "unknown_scopes valid unknown (s # ss) =
    (if s \<notin> set valid \<and> s \<notin> set unknown then unknown_scopes valid (unknown @ [s]) ss
     else unknown_scopes valid unknown ss)"

definition ValidateScopes :: "string list \<Rightarrow> unit res" where
  "ValidateScopes requested =
     (if unknown_scopes (map sp_Key Scopes) [] requested \<noteq> [] then Inl ErrUnknownScope else Inr ())"

section \<open>Built-in roles\<close>

record role =
  bl_ID :: string
  bl_Key :: string
  bl_Name :: string
  bl_NameNorm :: string
  bl_Description :: string
  bl_AppliesTo :: string
  bl_SortOrder :: i64
  bl_Permissions :: "string list"

definition AppliesToUser :: string where "AppliesToUser = ''user''"
definition AppliesToServiceAccount :: string where "AppliesToServiceAccount = ''service_account''"
definition AppliesToBoth :: string where "AppliesToBoth = ''both''"

definition AppliesTo :: "string list" where
  "AppliesTo = [AppliesToUser, AppliesToServiceAccount, AppliesToBoth]"

definition guestReads :: "string list" where
  "guestReads = [''roster.read'', ''raid.read'', ''item.read'', ''dkp.read'', ''bid.read'', ''calendar.read'']"

definition member_grants :: "string list" where "member_grants = guestReads @ [''cms.read'']"

definition raid_leader_grants :: "string list" where
  "raid_leader_grants = member_grants @ [''raid.create'', ''raid.update'', ''raid.finalize'', ''raid.tick.create'',
     ''raid.tick.delete'', ''item.award'', ''signup.manage'']"

definition officer_grants :: "string list" where
  "officer_grants = raid_leader_grants @ [''roster.write'', ''person.merge'', ''character.claim.approve'', ''dkp.adjust'',
     ''bid.manage'', ''bid.reveal_early'', ''item.alias.manage'', ''calendar.write'',
     ''cms.write'', ''audit.read'']"

definition admin_grants :: "string list" where
  "admin_grants = officer_grants @ [''dkp.decay.run'', ''ledger.reverse'', ''cms.moderate'', ''import.run'',
     ''import.commit'', ''webhook.manage'', ''token.mint'', ''token.revoke'',
     ''admin.settings'', ''admin.security.manage'', ''admin.roles.manage'',
     ''admin.backup'', ''person.pii.read'', ''ops.read'']"

definition owner_grants :: "string list" where "owner_grants = admin_grants @ [''admin.owner'']"

definition bot_raid_grants :: "string list" where
  "bot_raid_grants = guestReads @ [''raid.create'', ''raid.update'', ''raid.tick.create'', ''item.award'']"

definition BuiltinRoles :: "role list" where
  "BuiltinRoles = [
     \<lparr>bl_ID = ''0000000000000000DKPRB00001'', bl_Key = ''guest'', bl_Name = ''Guest'', bl_NameNorm = ''guest'',
       bl_Description = ''Read-only access to the surfaces a guild chooses to make public.'',
       bl_AppliesTo = AppliesToUser, bl_SortOrder = 1, bl_Permissions = guestReads\<rparr>,
     \<lparr>bl_ID = ''0000000000000000DKPRB00002'', bl_Key = ''member'', bl_Name = ''Member'', bl_NameNorm = ''member'',
       bl_Description = ''An ordinary guild member. Signing up and claiming your own character are ownership, not permissions.'',
       bl_AppliesTo = AppliesToUser, bl_SortOrder = 2, bl_Permissions = member_grants\<rparr>,
     \<lparr>bl_ID = ''0000000000000000DKPRB00003'', bl_Key = ''raider'', bl_Name = ''Raider'', bl_NameNorm = ''raider'',
       bl_Description = ''The same capability as Member, under a name guilds that want the rank distinction can assign.'',
       bl_AppliesTo = AppliesToUser, bl_SortOrder = 3, bl_Permissions = member_grants\<rparr>,
     \<lparr>bl_ID = ''0000000000000000DKPRB00004'', bl_Key = ''raid_leader'', bl_Name = ''Raid Leader'', bl_NameNorm = ''raid leader'',
       bl_Description = ''Runs raids: opens them, takes attendance ticks and awards loot. Commonly assigned scoped to a raid group.'',
       bl_AppliesTo = AppliesToUser, bl_SortOrder = 4, bl_Permissions = raid_leader_grants\<rparr>,
     \<lparr>bl_ID = ''0000000000000000DKPRB00005'', bl_Key = ''officer'', bl_Name = ''Officer'', bl_NameNorm = ''officer'',
       bl_Description = ''Runs the guild day to day: the roster, point adjustments, bidding and the audit log.'',
       bl_AppliesTo = AppliesToUser, bl_SortOrder = 5, bl_Permissions = officer_grants\<rparr>,
     \<lparr>bl_ID = ''0000000000000000DKPRB00006'', bl_Key = ''admin'', bl_Name = ''Admin'', bl_NameNorm = ''admin'',
       bl_Description = ''Runs the instance: decay, reversals, imports, tokens, backups and security settings.'',
       bl_AppliesTo = AppliesToUser, bl_SortOrder = 6, bl_Permissions = admin_grants\<rparr>,
     \<lparr>bl_ID = ''0000000000000000DKPRB00007'', bl_Key = ''owner'', bl_Name = ''Owner'', bl_NameNorm = ''owner'',
       bl_Description = ''Everything an Admin can do, plus the owner capability. At least one account must hold it.'',
       bl_AppliesTo = AppliesToUser, bl_SortOrder = 7, bl_Permissions = owner_grants\<rparr>,
     \<lparr>bl_ID = ''0000000000000000DKPRB00008'', bl_Key = ''bot_readonly'', bl_Name = ''Read-only Bot'', bl_NameNorm = ''readonly bot'',
       bl_Description = ''A service account that can read the guild's data and change nothing.'',
       bl_AppliesTo = AppliesToServiceAccount, bl_SortOrder = 8, bl_Permissions = guestReads\<rparr>,
     \<lparr>bl_ID = ''0000000000000000DKPRB00009'', bl_Key = ''bot_raid'', bl_Name = ''Raid Bot'', bl_NameNorm = ''raid bot'',
       bl_Description = ''A service account that records raids, attendance ticks and item awards. It cannot adjust points.'',
       bl_AppliesTo = AppliesToServiceAccount, bl_SortOrder = 9, bl_Permissions = bot_raid_grants\<rparr>]"

end
