(* ===== verification/AuthzStore.thy ===== *)
theory AuthzStore
  imports Tx AuthzCatalogue
begin

text \<open>
  The generated statements over the authorization tables (internal/store/sqlitegen/authz.sql.go), with
  the CHECK, UNIQUE and foreign key constraints of 000007_authz_catalogue_and_roles.sql and
  000010_wire_app_user_fks_and_cover_foreign_keys.sql, and the closed lists of values those CHECKs are
  generated from (internal/authz/role/kinds, internal/authz/roleassignment/kinds). The last section is
  what the constraints say of a whole database, and that every statement keeps it.
\<close>

section \<open>Closed lists\<close>

definition IsAppliesTo :: "string \<Rightarrow> bool" where "IsAppliesTo v \<longleftrightarrow> v \<in> set AppliesTo"

definition SubjectKindUser :: string where "SubjectKindUser = ''user''"
definition SubjectKindServiceAccount :: string where "SubjectKindServiceAccount = ''service_account''"

definition SubjectKinds :: "string list" where
  "SubjectKinds = [SubjectKindUser, SubjectKindServiceAccount]"

definition ScopeGlobal :: string where "ScopeGlobal = ''global''"
definition ScopePool :: string where "ScopePool = ''pool''"
definition ScopeRaidGroup :: string where "ScopeRaidGroup = ''raid_group''"

definition ScopeTypes :: "string list" where "ScopeTypes = [ScopeGlobal, ScopePool, ScopeRaidGroup]"

definition GrantedVia :: "string list" where
  "GrantedVia = [''manual'', ''invitation'', ''discord_sync'', ''import'', ''bootstrap'']"

section \<open>What a subject may do\<close>

record effective_params =
  ep_SubjectKind :: string
  ep_SubjectID :: string
  ep_Now :: i64
  ep_ScopeType :: string
  ep_ScopeID :: "string option"
  ep_PermissionKey :: string

record effective_row =
  ef_RequiresStepUp :: i64
  ef_Granted :: i64

text \<open>
  A comparison with NULL is not true: a scoped assignment only matches a target that has an id, and
  the one it is scoped to.
\<close>

definition assignment_live :: "effective_params \<Rightarrow> role_assignment_row \<Rightarrow> bool" where
  "assignment_live a ra \<longleftrightarrow> ra_SubjectKind ra = ep_SubjectKind a \<and> ra_SubjectID ra = ep_SubjectID a \<and>
     (case ra_ExpiresAt ra of None \<Rightarrow> True | Some e \<Rightarrow> ep_Now a <s e) \<and>
     (case ra_SuspendedUntilAt ra of None \<Rightarrow> True | Some s \<Rightarrow> s \<le>s ep_Now a) \<and>
     (ra_ScopeType ra = ScopeGlobal \<or> ra_ScopeType ra = ep_ScopeType a \<and> ra_ScopeID ra \<noteq> None \<and>
       ra_ScopeID ra = ep_ScopeID a)"

definition role_reaches :: "role_assignment_row \<Rightarrow> role_row \<Rightarrow> bool" where
  "role_reaches ra r \<longleftrightarrow> ro_ID r = ra_RoleID ra \<and> ro_DeletedAt r = None \<and>
     (ro_AppliesTo r = AppliesToBoth \<or> ro_AppliesTo r = ra_SubjectKind ra)"

definition q_EffectivePermission :: "effective_params \<Rightarrow> database \<Rightarrow> effective_row option" where
  "q_EffectivePermission a db = map_option (\<lambda>p. \<lparr>ef_RequiresStepUp = pe_RequiresStepUp p,
       ef_Granted = (if \<exists>ra \<in> set (db_role_assignments db). \<exists>r \<in> set (db_roles db).
         \<exists>g \<in> set (db_role_permissions db). role_reaches ra r \<and> rp_RoleID g = ra_RoleID ra \<and>
           assignment_live a ra \<and> rp_PermissionKey g = pe_Key p then 1 else 0)\<rparr>)
     (find_row (\<lambda>p. pe_Key p = ep_PermissionKey a \<and> pe_OrphanedAt p = None) (db_permissions db))"

section \<open>Reads\<close>

definition q_GetPermission :: "string \<Rightarrow> database \<Rightarrow> permission_row option" where
  "q_GetPermission key db = find_row (\<lambda>p. pe_Key p = key) (db_permissions db)"

definition ListPermissions :: "database \<Rightarrow> permission_row list" where
  "ListPermissions db = sort_key (\<lambda>p. (sint (pe_SortOrder p), pe_Key p)) (db_permissions db)"

definition ListRoles :: "database \<Rightarrow> role_row list" where
  "ListRoles db = sort_key (\<lambda>r. (sint (ro_SortOrder r), ro_ID r)) (db_roles db)"

section \<open>Writes\<close>

definition bool01 :: "i64 \<Rightarrow> bool" where "bool01 n \<longleftrightarrow> n = 0 \<or> n = 1"

definition permission_legal :: "permission_row \<Rightarrow> bool" where
  "permission_legal p \<longleftrightarrow> bool01 (pe_IsDangerous p) \<and> bool01 (pe_RequiresStepUp p)"

text \<open>
  The upsert: a new row, or the row with the key made the new one. The insert parameters are the row
  with no orphan stamp.
\<close>

fun upsert_permission :: "permission_row \<Rightarrow> permission_row list \<Rightarrow> permission_row list" where
  "upsert_permission p [] = [p]"
| "upsert_permission p (q # qs) = (if pe_Key q = pe_Key p then p # qs else q # upsert_permission p qs)"

definition UpsertPermission :: "permission_row \<Rightarrow> database \<Rightarrow> database res" where
  "UpsertPermission p db = (let p' = p\<lparr>pe_OrphanedAt := None\<rparr> in if permission_legal p'
     then Inr (db\<lparr>db_permissions := upsert_permission p' (db_permissions db)\<rparr>) else Inl constraint_failed)"

definition OrphanPermission :: "micros \<Rightarrow> string \<Rightarrow> database \<Rightarrow> database" where
  "OrphanPermission stamp key db = db\<lparr>db_permissions := map (\<lambda>p.
     if pe_Key p = key \<and> pe_OrphanedAt p = None then p\<lparr>pe_OrphanedAt := Some stamp\<rparr> else p) (db_permissions db)\<rparr>"

definition role_legal :: "role_row \<Rightarrow> database \<Rightarrow> bool" where
  "role_legal r db \<longleftrightarrow> ro_ID r \<notin> ro_ID ` set (db_roles db) \<and> IsAppliesTo (ro_AppliesTo r) \<and>
     bool01 (ro_IsBuiltin r) \<and> unique_when ro_Key (\<lambda>_. True) (db_roles db) r \<and>
     (ro_DeletedAt r = None \<longrightarrow> ro_NameNorm r \<notin> ro_NameNorm ` {q \<in> set (db_roles db). ro_DeletedAt q = None})"

definition InsertRole :: "role_row \<Rightarrow> database \<Rightarrow> database res" where
  "InsertRole r db = (let r' = r\<lparr>ro_DeletedAt := None\<rparr> in if role_legal r' db
     then Inr (db\<lparr>db_roles := db_roles db @ [r']\<rparr>) else Inl constraint_failed)"

definition grant_legal :: "role_permission_row \<Rightarrow> database \<Rightarrow> bool" where
  "grant_legal g db \<longleftrightarrow> g \<notin> set (db_role_permissions db) \<and> rp_RoleID g \<in> ro_ID ` set (db_roles db) \<and>
     rp_PermissionKey g \<in> pe_Key ` set (db_permissions db)"

definition InsertRolePermission :: "role_permission_row \<Rightarrow> database \<Rightarrow> database res" where
  "InsertRolePermission g db = (if grant_legal g db
     then Inr (db\<lparr>db_role_permissions := db_role_permissions db @ [g]\<rparr>) else Inl constraint_failed)"

definition assignment_key :: "role_assignment_row \<Rightarrow> string \<times> ulid \<times> ulid \<times> string \<times> string" where
  "assignment_key ra = (ra_SubjectKind ra, ra_SubjectID ra, ra_RoleID ra, ra_ScopeType ra,
     case ra_ScopeID ra of None \<Rightarrow> '''' | Some s \<Rightarrow> s)"

definition assignment_legal :: "role_assignment_row \<Rightarrow> database \<Rightarrow> bool" where
  "assignment_legal ra db \<longleftrightarrow> ra_ID ra \<notin> ra_ID ` set (db_role_assignments db) \<and>
     ra_RoleID ra \<in> ro_ID ` set (db_roles db) \<and>
     (case ra_GrantedBy ra of None \<Rightarrow> True | Some u \<Rightarrow> u \<in> us_ID ` set (db_users db)) \<and>
     ra_SubjectKind ra \<in> set SubjectKinds \<and> ra_ScopeType ra \<in> set ScopeTypes \<and>
     ra_GrantedVia ra \<in> set GrantedVia \<and>
     (ra_ScopeType ra = ScopeGlobal) = (ra_ScopeID ra = None) \<and>
     assignment_key ra \<notin> assignment_key ` set (db_role_assignments db)"

definition InsertRoleAssignment :: "role_assignment_row \<Rightarrow> database \<Rightarrow> database res" where
  "InsertRoleAssignment ra db = (if assignment_legal ra db
     then Inr (db\<lparr>db_role_assignments := db_role_assignments db @ [ra]\<rparr>) else Inl constraint_failed)"

section \<open>The constraints of the tables\<close>

definition permissions_typed :: "permission_row list \<Rightarrow> bool" where
  "permissions_typed ps \<longleftrightarrow> distinct (map pe_Key ps) \<and> (\<forall>p \<in> set ps. permission_legal p)"

definition roles_typed :: "role_row list \<Rightarrow> bool" where
  "roles_typed rs \<longleftrightarrow> distinct (map ro_ID rs) \<and>
     distinct (map ro_Key (filter (\<lambda>r. ro_Key r \<noteq> None) rs)) \<and>
     distinct (map ro_NameNorm (filter (\<lambda>r. ro_DeletedAt r = None) rs)) \<and>
     (\<forall>r \<in> set rs. IsAppliesTo (ro_AppliesTo r) \<and> bool01 (ro_IsBuiltin r))"

definition grants_typed :: "role_permission_row list \<Rightarrow> ulid set \<Rightarrow> string set \<Rightarrow> bool" where
  "grants_typed gs role_ids keys \<longleftrightarrow> distinct gs \<and>
     (\<forall>g \<in> set gs. rp_RoleID g \<in> role_ids \<and> rp_PermissionKey g \<in> keys)"

definition assignment_typed :: "role_assignment_row \<Rightarrow> ulid set \<Rightarrow> ulid set \<Rightarrow> bool" where
  "assignment_typed ra role_ids users \<longleftrightarrow> ra_RoleID ra \<in> role_ids \<and>
     (case ra_GrantedBy ra of None \<Rightarrow> True | Some u \<Rightarrow> u \<in> users) \<and>
     ra_SubjectKind ra \<in> set SubjectKinds \<and> ra_ScopeType ra \<in> set ScopeTypes \<and>
     ra_GrantedVia ra \<in> set GrantedVia \<and> (ra_ScopeType ra = ScopeGlobal) = (ra_ScopeID ra = None)"

definition assignments_typed :: "role_assignment_row list \<Rightarrow> ulid set \<Rightarrow> ulid set \<Rightarrow> bool" where
  "assignments_typed as role_ids users \<longleftrightarrow> distinct (map ra_ID as) \<and> distinct (map assignment_key as) \<and>
     (\<forall>ra \<in> set as. assignment_typed ra role_ids users)"

definition authz_typed :: "database \<Rightarrow> bool" where
  "authz_typed db \<longleftrightarrow> permissions_typed (db_permissions db) \<and> roles_typed (db_roles db) \<and>
     grants_typed (db_role_permissions db) (ro_ID ` set (db_roles db)) (pe_Key ` set (db_permissions db)) \<and>
     assignments_typed (db_role_assignments db) (ro_ID ` set (db_roles db)) (us_ID ` set (db_users db))"

lemma grants_typed_mono: "grants_typed gs R K \<Longrightarrow> R \<subseteq> R' \<Longrightarrow> K \<subseteq> K' \<Longrightarrow> grants_typed gs R' K'"
  by (auto simp: grants_typed_def)

lemma assignments_typed_mono: "assignments_typed as R U \<Longrightarrow> R \<subseteq> R' \<Longrightarrow> assignments_typed as R' U"
  unfolding assignments_typed_def assignment_typed_def by blast

lemma upsert_permission_keys:
  "pe_Key ` set (upsert_permission p ps) = insert (pe_Key p) (pe_Key ` set ps)"
  by (induction ps) auto

lemma upsert_permission_mem:
  "q \<in> set (upsert_permission p ps) \<Longrightarrow> q = p \<or> q \<in> set ps"
  by (induction ps) (auto split: if_splits)

lemma upsert_permission_distinct: "distinct (map pe_Key ps) \<Longrightarrow> distinct (map pe_Key (upsert_permission p ps))"
proof (induction ps)
  case (Cons q qs)
  have "set (map pe_Key (upsert_permission p qs)) = insert (pe_Key p) (set (map pe_Key qs))"
    using upsert_permission_keys [of p qs] by simp
  with Cons show ?case by auto
qed simp

lemma upsert_permission_set: "distinct (map pe_Key ps) \<Longrightarrow>
    set (upsert_permission p ps) = insert p {q \<in> set ps. pe_Key q \<noteq> pe_Key p}"
proof (induction ps)
  case (Cons q qs)
  then have "pe_Key q \<notin> pe_Key ` set qs" by simp
  then have q: "pe_Key x \<noteq> pe_Key q" if "x \<in> set qs" for x using imageI [OF that, of pe_Key] by auto
  show ?case
  proof (cases "pe_Key q = pe_Key p")
    case True
    then have "{x \<in> set (q # qs). pe_Key x \<noteq> pe_Key p} = set qs" using q by auto
    then show ?thesis using True by simp
  next
    case False
    then have "{x \<in> set (q # qs). pe_Key x \<noteq> pe_Key p} = insert q {x \<in> set qs. pe_Key x \<noteq> pe_Key p}" by auto
    then show ?thesis using Cons False by (simp add: insert_commute)
  qed
qed simp

lemma UpsertPermission_typed: "UpsertPermission p db = Inr db' \<Longrightarrow> authz_typed db \<Longrightarrow> authz_typed db'"
proof -
  assume "UpsertPermission p db = Inr db'" and ok: "authz_typed db"
  then have p: "permission_legal (p\<lparr>pe_OrphanedAt := None\<rparr>)"
    and db': "db' = db\<lparr>db_permissions := upsert_permission (p\<lparr>pe_OrphanedAt := None\<rparr>) (db_permissions db)\<rparr>"
    by (auto simp: UpsertPermission_def Let_def split: if_splits)
  have "permissions_typed (upsert_permission (p\<lparr>pe_OrphanedAt := None\<rparr>) (db_permissions db))"
    using ok p upsert_permission_mem unfolding authz_typed_def permissions_typed_def
    by (blast intro: upsert_permission_distinct)
  then show ?thesis using ok grants_typed_mono [OF _ subset_refl subset_insertI [of _ "pe_Key p"]]
    unfolding authz_typed_def db' by (simp add: upsert_permission_keys)
qed

lemma OrphanPermission_keys: "map pe_Key (db_permissions (OrphanPermission t k db)) = map pe_Key (db_permissions db)"
  by (simp add: OrphanPermission_def)

lemma OrphanPermission_typed:
  assumes "authz_typed db"
  shows "authz_typed (OrphanPermission t k db)"
proof -
  have k: "pe_Key ` set (db_permissions (OrphanPermission t k db)) = pe_Key ` set (db_permissions db)"
    using arg_cong [OF OrphanPermission_keys [of t k db], of set] by (simp only: set_map)
  have "\<forall>p \<in> set (db_permissions (OrphanPermission t k db)). permission_legal p"
    using assms by (auto simp: OrphanPermission_def authz_typed_def permissions_typed_def permission_legal_def)
  then have "permissions_typed (db_permissions (OrphanPermission t k db))"
    using assms unfolding permissions_typed_def authz_typed_def OrphanPermission_keys by blast
  then show ?thesis using assms unfolding authz_typed_def k by (simp add: OrphanPermission_def)
qed

lemma InsertRole_typed: "InsertRole r db = Inr db' \<Longrightarrow> authz_typed db \<Longrightarrow> authz_typed db'"
proof -
  assume "InsertRole r db = Inr db'" and ok: "authz_typed db"
  then have r: "role_legal (r\<lparr>ro_DeletedAt := None\<rparr>) db"
    and db': "db' = db\<lparr>db_roles := db_roles db @ [r\<lparr>ro_DeletedAt := None\<rparr>]\<rparr>"
    by (auto simp: InsertRole_def Let_def split: if_splits)
  have "roles_typed (db_roles db @ [r\<lparr>ro_DeletedAt := None\<rparr>])"
    using ok r unfolding authz_typed_def roles_typed_def role_legal_def unique_when_def by auto
  then show ?thesis using ok grants_typed_mono [OF _ subset_insertI subset_refl]
      assignments_typed_mono [OF _ subset_insertI] unfolding authz_typed_def db' by simp
qed

lemma InsertRolePermission_typed: "InsertRolePermission g db = Inr db' \<Longrightarrow> authz_typed db \<Longrightarrow> authz_typed db'"
proof -
  assume "InsertRolePermission g db = Inr db'" and ok: "authz_typed db"
  then have g: "grant_legal g db" and db': "db' = db\<lparr>db_role_permissions := db_role_permissions db @ [g]\<rparr>"
    by (auto simp: InsertRolePermission_def split: if_splits)
  have "grants_typed (db_role_permissions db @ [g]) (ro_ID ` set (db_roles db)) (pe_Key ` set (db_permissions db))"
    using ok g unfolding authz_typed_def grants_typed_def grant_legal_def by auto
  then show ?thesis using ok unfolding authz_typed_def db' by simp
qed

lemma InsertRoleAssignment_typed: "InsertRoleAssignment ra db = Inr db' \<Longrightarrow> authz_typed db \<Longrightarrow> authz_typed db'"
proof -
  assume "InsertRoleAssignment ra db = Inr db'" and ok: "authz_typed db"
  then have ra: "assignment_legal ra db" and db': "db' = db\<lparr>db_role_assignments := db_role_assignments db @ [ra]\<rparr>"
    by (auto simp: InsertRoleAssignment_def split: if_splits)
  have "assignment_typed ra (ro_ID ` set (db_roles db)) (us_ID ` set (db_users db))"
    using ra unfolding assignment_legal_def assignment_typed_def by blast
  then have "assignments_typed (db_role_assignments db @ [ra]) (ro_ID ` set (db_roles db)) (us_ID ` set (db_users db))"
    using ok ra unfolding authz_typed_def assignments_typed_def assignment_legal_def by auto
  then show ?thesis using ok unfolding authz_typed_def db' by simp
qed

end
