(* ===== verification/Authz.thy ===== *)
theory Authz
  imports AuthzStore
begin

text \<open>
  The capability check (internal/authz/check.go) and what it reads of a principal
  (internal/auth/principal.go). A Go pair of a decision and an error is a pair of a decision and an
  error option: the zero outcome is \<open>OutcomeAllowed\<close>, so the decision returned beside an error says
  nothing. The store of a degraded boot, nil in the code, is the flag \<open>store\<close>. The world is that of
  theory Tx; the clock is read once for the query and once for the step-up window.
\<close>

section \<open>Principals\<close>

datatype credential = CredentialSession | CredentialToken

record principal =
  pr_Kind :: string
  pr_ID :: ulid
  pr_Name :: string
  pr_Credential :: credential
  pr_SessionID :: ulid
  pr_TokenID :: ulid
  pr_TokenPrefix :: string
  pr_OwnerUserID :: ulid
  pr_Scopes :: "string list"
  pr_SteppedUpAt :: "micros option"

definition HasScope :: "principal option \<Rightarrow> string \<Rightarrow> bool" where
  "HasScope p s = (case p of None \<Rightarrow> False
     | Some p \<Rightarrow> if pr_Credential p \<noteq> CredentialToken then False else s \<in> set (pr_Scopes p))"

definition IsUser :: "principal option \<Rightarrow> bool" where
  "IsUser p \<longleftrightarrow> (case p of None \<Rightarrow> False | Some p \<Rightarrow> pr_Kind p = SubjectKindUser)"

definition IsServiceAccount :: "principal option \<Rightarrow> bool" where
  "IsServiceAccount p \<longleftrightarrow> (case p of None \<Rightarrow> False | Some p \<Rightarrow> pr_Kind p = SubjectKindServiceAccount)"

section \<open>Requirements and decisions\<close>

datatype outcome = OutcomeAllowed | OutcomeSessionRequired | OutcomeInsufficientScope
  | OutcomePermissionDenied | OutcomeStepUpRequired

fun outcome_String :: "outcome \<Rightarrow> string" where
  "outcome_String OutcomeAllowed = ''allowed''"
| "outcome_String OutcomeSessionRequired = ''session_required''"
| "outcome_String OutcomeInsufficientScope = ''insufficient_scope''"
| "outcome_String OutcomePermissionDenied = ''permission_denied''"
| "outcome_String OutcomeStepUpRequired = ''step_up_required''"

record target =
  tg_Type :: string
  tg_ID :: ulid

definition normalise :: "target \<Rightarrow> string \<times> string option" where
  "normalise t = (if tg_Type t = '''' \<or> tg_Type t = ScopeGlobal \<or> tg_ID t = '''' then (ScopeGlobal, None)
     else (tg_Type t, Some (tg_ID t)))"

record requirement =
  rm_Permission :: string
  rm_ScopeSets :: "string list list"
  rm_StepUp :: bool
  rm_Target :: target

record authz_decision =
  az_Outcome :: outcome
  az_RequiredPermission :: string
  az_RequiredScopes :: "string list"
  az_TokenScopes :: "string list"

definition authz_Allowed :: "authz_decision \<Rightarrow> bool" where
  "authz_Allowed d \<longleftrightarrow> az_Outcome d = OutcomeAllowed"

section \<open>The token half\<close>

definition satisfies :: "string list \<Rightarrow> string list \<Rightarrow> bool" where
  "satisfies held want \<longleftrightarrow> want \<noteq> [] \<and> (\<forall>s \<in> set want. s \<in> set held)"

fun union_loop :: "string list \<Rightarrow> string list \<Rightarrow> string list" where
  "union_loop acc [] = acc"
| "union_loop acc (s # ss) = union_loop (if s \<in> set acc then acc else acc @ [s]) ss"

definition unionScopes :: "string list list \<Rightarrow> string list" where
  "unionScopes sets = union_loop [] (concat sets)"

definition inCapabilityFloor :: "string \<Rightarrow> bool" where
  "inCapabilityFloor key \<longleftrightarrow> key \<noteq> '''' \<and> key \<in> set CapabilityFloor"

text \<open>The refusing outcome, if any, and the decision with the scopes filled in.\<close>

definition checkToken :: "principal \<Rightarrow> requirement \<Rightarrow> authz_decision \<Rightarrow> outcome option \<times> authz_decision" where
  "checkToken p req d =
     (if inCapabilityFloor (rm_Permission req) then (Some OutcomeSessionRequired, d)
      else if rm_ScopeSets req = [] then (Some OutcomeSessionRequired, d)
      else if \<exists>want \<in> set (rm_ScopeSets req). satisfies (pr_Scopes p) want then (None, d)
      else (Some OutcomeInsufficientScope,
        d\<lparr>az_RequiredScopes := unionScopes (rm_ScopeSets req), az_TokenScopes := pr_Scopes p\<rparr>))"

section \<open>The permission half\<close>

text \<open>A duration is in nanoseconds and an int64, so a distance of centuries wraps.\<close>

definition StepUpWindow :: i64 where "StepUpWindow = 5 * 60 * 1000000000"

definition micros_Sub :: "micros \<Rightarrow> micros \<Rightarrow> i64" where "micros_Sub m other = (m - other) * 1000"

text \<open>A time within the range of a duration: up to the year 2262.\<close>

definition in_era :: "micros \<Rightarrow> bool" where
  "in_era t \<longleftrightarrow> 0 \<le> sint t \<and> sint t < 9223372036854775"

definition steppedUpRecently :: "env \<Rightarrow> principal \<Rightarrow> world \<Rightarrow> bool \<times> world" where
  "steppedUpRecently env p w = (case pr_SteppedUpAt p of None \<Rightarrow> (False, w)
     | Some stamp \<Rightarrow> let elapsed = micros_Sub (ev_Now env (wd_reads w)) stamp in
         (0 \<le>s elapsed \<and> elapsed \<le>s StepUpWindow, w\<lparr>wd_reads := Suc (wd_reads w)\<rparr>))"

definition effective_request :: "principal \<Rightarrow> requirement \<Rightarrow> i64 \<Rightarrow> effective_params" where
  "effective_request p req t = \<lparr>ep_SubjectKind = pr_Kind p, ep_SubjectID = pr_ID p, ep_Now = t,
     ep_ScopeType = fst (normalise (rm_Target req)), ep_ScopeID = snd (normalise (rm_Target req)),
     ep_PermissionKey = rm_Permission req\<rparr>"

text \<open>None when the permission is not granted, else whether the operation takes a step-up.\<close>

definition held_step_up :: "env \<Rightarrow> principal \<Rightarrow> requirement \<Rightarrow> bool option act" where
  "held_step_up env p req =
     (if rm_Permission req = '''' then retA (Some (rm_StepUp req))
      else bindA (now env) (\<lambda>t.
           bindA (query env (\<lambda>db. ok_or ErrUnknownPermission
             (q_EffectivePermission (effective_request p req t) db))) (\<lambda>row.
           retA (if ef_Granted row = 0 then None
                 else Some (rm_StepUp req \<or> ef_RequiresStepUp row \<noteq> 0)))))"

section \<open>The check\<close>

definition Check :: "bool \<Rightarrow> env \<Rightarrow> principal option \<Rightarrow> requirement \<Rightarrow> world \<Rightarrow>
    (authz_decision \<times> error option) \<times> world" where
  "Check store env who req w =
     (let d0 = \<lparr>az_Outcome = OutcomeAllowed, az_RequiredPermission = rm_Permission req,
                az_RequiredScopes = [], az_TokenScopes = []\<rparr> in
      case who of None \<Rightarrow> ((d0, Some ErrNoPrincipal), w)
      | Some p \<Rightarrow>
        if \<not> store then ((d0, Some ErrNoChecker), w)
        else case (if pr_Credential p = CredentialToken then checkToken p req d0 else (None, d0)) of
          (Some refusal, d) \<Rightarrow> ((d\<lparr>az_Outcome := refusal\<rparr>, None), w)
        | (None, d) \<Rightarrow>
          (case held_step_up env p req w of
             (Inl e, w1) \<Rightarrow> ((d, Some e), w1)
           | (Inr None, w1) \<Rightarrow> ((d\<lparr>az_Outcome := OutcomePermissionDenied\<rparr>, None), w1)
           | (Inr (Some stepUp), w1) \<Rightarrow>
               if \<not> stepUp then ((d\<lparr>az_Outcome := OutcomeAllowed\<rparr>, None), w1)
               else (case steppedUpRecently env p w1 of (recent, w2) \<Rightarrow>
                 if \<not> recent then ((d\<lparr>az_Outcome := OutcomeStepUpRequired\<rparr>, None), w2)
                 else ((d\<lparr>az_Outcome := OutcomeAllowed\<rparr>, None), w2))))"

end
