(* ===== verification/AuthzCheck.thy ===== *)
theory AuthzCheck
  imports Authz Progress
begin

text \<open>
  What the capability check decides. The specification \<open>authorised\<close> says over the tables of the database who
  may do what, with no order of checks, early return or machine word; the check of theory Authz allows
  exactly that.
\<close>

section \<open>Who may do what\<close>

text \<open>A role assignment that reaches the subject and the target of a request at time \<open>t\<close>.\<close>

definition assigned :: "role_assignment_row \<Rightarrow> principal \<Rightarrow> target \<Rightarrow> int \<Rightarrow> bool" where
  "assigned ra p tgt t \<longleftrightarrow> ra_SubjectKind ra = pr_Kind p \<and> ra_SubjectID ra = pr_ID p \<and>
     (\<forall>e. ra_ExpiresAt ra = Some e \<longrightarrow> t < sint e) \<and>
     (\<forall>s. ra_SuspendedUntilAt ra = Some s \<longrightarrow> sint s \<le> t) \<and>
     (ra_ScopeType ra = ScopeGlobal \<or>
       ra_ScopeType ra = tg_Type tgt \<and> ra_ScopeID ra = Some (tg_ID tgt) \<and> tg_Type tgt \<noteq> '''' \<and> tg_ID tgt \<noteq> '''')"

definition granted :: "database \<Rightarrow> principal \<Rightarrow> target \<Rightarrow> int \<Rightarrow> string \<Rightarrow> bool" where
  "granted db p tgt t key \<longleftrightarrow> (\<exists>ra \<in> set (db_role_assignments db). \<exists>r \<in> set (db_roles db).
     assigned ra p tgt t \<and> ro_ID r = ra_RoleID ra \<and> ro_DeletedAt r = None \<and>
     ro_AppliesTo r \<in> {AppliesToBoth, pr_Kind p} \<and>
     \<lparr>rp_RoleID = ro_ID r, rp_PermissionKey = key\<rparr> \<in> set (db_role_permissions db))"

definition authorised :: "database \<Rightarrow> principal \<Rightarrow> requirement \<Rightarrow> int \<Rightarrow> int \<Rightarrow> bool" where
  "authorised db p req t t' \<longleftrightarrow> (let key = rm_Permission req in
     (pr_Credential p = CredentialToken \<longrightarrow> key \<notin> set CapabilityFloor \<and>
        (\<exists>want \<in> set (rm_ScopeSets req). set want \<subseteq> set (pr_Scopes p))) \<and>
     (key \<noteq> '''' \<longrightarrow> (\<exists>row \<in> set (db_permissions db). pe_Key row = key \<and> pe_OrphanedAt row = None) \<and>
        granted db p (rm_Target req) t key) \<and>
     (rm_StepUp req \<or> (\<exists>row \<in> set (db_permissions db). pe_Key row = key \<and> key \<noteq> '''' \<and> pe_RequiresStepUp row \<noteq> 0) \<longrightarrow>
        (\<exists>s. pr_SteppedUpAt p = Some s \<and> 0 \<le> t' - sint s \<and> t' - sint s \<le> 300000000)))"

lemma assignment_live_assigned: "assignment_live (effective_request p req t) ra \<longleftrightarrow>
    assigned ra p (rm_Target req) (sint t)"
  by (auto simp: assignment_live_def assigned_def effective_request_def normalise_def i64_simps
      split: option.splits)

lemma effective_granted:
  assumes "q_EffectivePermission (effective_request p req t) db = Some row"
  shows "ef_Granted row \<noteq> 0 \<longleftrightarrow> granted db p (rm_Target req) (sint t) (rm_Permission req)"
proof -
  have "ef_Granted row \<noteq> 0 \<longleftrightarrow> (\<exists>ra \<in> set (db_role_assignments db). \<exists>r \<in> set (db_roles db).
      \<exists>g \<in> set (db_role_permissions db). role_reaches ra r \<and> rp_RoleID g = ra_RoleID ra \<and>
        assignment_live (effective_request p req t) ra \<and> rp_PermissionKey g = rm_Permission req)"
  proof -
    let ?a = "effective_request p req t"
    obtain r where r: "find_row (\<lambda>p. pe_Key p = ep_PermissionKey ?a \<and> pe_OrphanedAt p = None) (db_permissions db) = Some r"
      and row: "ef_Granted row = (if \<exists>ra \<in> set (db_role_assignments db). \<exists>q \<in> set (db_roles db).
        \<exists>g \<in> set (db_role_permissions db). role_reaches ra q \<and> rp_RoleID g = ra_RoleID ra \<and>
          assignment_live ?a ra \<and> rp_PermissionKey g = pe_Key r then 1 else 0)"
      using assms unfolding q_EffectivePermission_def by fastforce
    have "pe_Key r = rm_Permission req" using find_row_Some [OF r] by (simp add: effective_request_def)
    then show ?thesis unfolding row by simp
  qed
  also have "\<dots> \<longleftrightarrow> granted db p (rm_Target req) (sint t) (rm_Permission req)"
    unfolding granted_def assignment_live_assigned
  proof (intro bex_cong refl)
    fix ra r assume "ra \<in> set (db_role_assignments db)" "r \<in> set (db_roles db)"
    show "(\<exists>g \<in> set (db_role_permissions db). role_reaches ra r \<and> rp_RoleID g = ra_RoleID ra \<and>
        assigned ra p (rm_Target req) (sint t) \<and> rp_PermissionKey g = rm_Permission req) \<longleftrightarrow>
      assigned ra p (rm_Target req) (sint t) \<and> ro_ID r = ra_RoleID ra \<and> ro_DeletedAt r = None \<and>
        ro_AppliesTo r \<in> {AppliesToBoth, pr_Kind p} \<and>
        \<lparr>rp_RoleID = ro_ID r, rp_PermissionKey = rm_Permission req\<rparr> \<in> set (db_role_permissions db)"
      (is "?l \<longleftrightarrow> ?r")
    proof
      assume ?l
      then obtain g where g: "g \<in> set (db_role_permissions db)" "role_reaches ra r" "rp_RoleID g = ra_RoleID ra"
        "assigned ra p (rm_Target req) (sint t)" "rp_PermissionKey g = rm_Permission req" by blast
      then have "g = \<lparr>rp_RoleID = ro_ID r, rp_PermissionKey = rm_Permission req\<rparr>"
        by (simp add: role_reaches_def)
      then show ?r using g by (auto simp: role_reaches_def assigned_def)
    next
      assume ?r
      then show ?l
        by (intro bexI [of _ "\<lparr>rp_RoleID = ro_ID r, rp_PermissionKey = rm_Permission req\<rparr>"])
          (auto simp: role_reaches_def assigned_def)
    qed
  qed
  finally show ?thesis .
qed

lemma micros_Sub_exact: "in_era a \<Longrightarrow> in_era b \<Longrightarrow> sint (micros_Sub a b) = (sint a - sint b) * 1000"
  by (simp add: micros_Sub_def in_era_def sint_mul sint_sub in64_def)

lemma steppedUpRecently_exact:
  assumes "\<And>s. pr_SteppedUpAt p = Some s \<Longrightarrow> in_era s" "in_era (ev_Now env (wd_reads w))"
  shows "fst (steppedUpRecently env p w) \<longleftrightarrow> (\<exists>s. pr_SteppedUpAt p = Some s \<and>
    0 \<le> sint (ev_Now env (wd_reads w)) - sint s \<and> sint (ev_Now env (wd_reads w)) - sint s \<le> 300000000)"
  using assms micros_Sub_exact [of "ev_Now env (wd_reads w)"]
  by (auto simp: steppedUpRecently_def Let_def i64_simps StepUpWindow_def split: option.splits)

text \<open>What the permission half answers.\<close>

lemma held_step_up_exact:
  assumes db: "permissions_typed (db_permissions (wd_db w))" and key: "rm_Permission req \<noteq> ''''"
    and h: "held_step_up env p req w = (Inr v, w1)"
  shows "\<exists>row \<in> set (db_permissions (wd_db w)). pe_Key row = rm_Permission req \<and> pe_OrphanedAt row = None \<and>
    wd_reads w1 = Suc (wd_reads w) \<and>
    v = (if granted (wd_db w) p (rm_Target req) (sint (ev_Now env (wd_reads w))) (rm_Permission req)
         then Some (rm_StepUp req \<or> pe_RequiresStepUp row \<noteq> 0) else None)"
proof -
  let ?a = "effective_request p req (ev_Now env (wd_reads w))"
  obtain row where row: "q_EffectivePermission ?a (wd_db w) = Some row"
    and v: "v = (if ef_Granted row = 0 then None else Some (rm_StepUp req \<or> ef_RequiresStepUp row \<noteq> 0))"
    and w1: "wd_reads w1 = Suc (wd_reads w)"
    using h key by (auto simp: held_step_up_def act_simps res_simps)
  obtain r where r: "find_row (\<lambda>p. pe_Key p = rm_Permission req \<and> pe_OrphanedAt p = None) (db_permissions (wd_db w)) = Some r"
    and req: "ef_RequiresStepUp row = pe_RequiresStepUp r"
    using row by (auto simp: q_EffectivePermission_def effective_request_def)
  show ?thesis using find_row_Some [OF r] v w1 req effective_granted [OF row] by (intro bexI [of _ r]) auto
qed

lemma permission_unique: "permissions_typed ps \<Longrightarrow> a \<in> set ps \<Longrightarrow> b \<in> set ps \<Longrightarrow> pe_Key a = pe_Key b \<Longrightarrow> a = b"
  by (auto simp: permissions_typed_def distinct_map inj_on_def)

text \<open>The time of the second reading of the clock, after the query when there is one.\<close>

definition step_up_time :: "env \<Rightarrow> requirement \<Rightarrow> world \<Rightarrow> int" where
  "step_up_time env req w = sint (ev_Now env (if rm_Permission req = '''' then wd_reads w else Suc (wd_reads w)))"

lemma checkToken_passes:
  assumes "[] \<notin> set (rm_ScopeSets req)"
  shows "fst (checkToken p req d) = None \<longleftrightarrow> rm_Permission req \<notin> set CapabilityFloor \<and>
    (\<exists>want \<in> set (rm_ScopeSets req). set want \<subseteq> set (pr_Scopes p))"
proof -
  have "[] \<notin> set CapabilityFloor" by code_simp
  then show ?thesis using assms by (auto simp: checkToken_def inCapabilityFloor_def satisfies_def)
qed

text \<open>
  What the code does where its comment says otherwise: an empty set of scopes is satisfied by nothing.
\<close>

lemma empty_scope_set_refused: "set (rm_ScopeSets req) = {[]} \<Longrightarrow> fst (checkToken p req d) \<noteq> None"
  by (auto simp: checkToken_def satisfies_def)

lemma checkToken_refusal: "fst (checkToken p req d) \<noteq> Some OutcomeAllowed"
  by (auto simp: checkToken_def)

lemma held_without_permission: "rm_Permission req = '''' \<Longrightarrow> held_step_up env p req w = (Inr (Some (rm_StepUp req)), w)"
  by (simp add: held_step_up_def retA_def)

text \<open>What the check answers once the credential has passed.\<close>

lemma Check_passed:
  assumes "Check True env (Some p) req w = ((d, None), w')"
    and "pr_Credential p = CredentialToken \<Longrightarrow> fst (checkToken p req d0) = None"
    and d0: "d0 = \<lparr>az_Outcome = OutcomeAllowed, az_RequiredPermission = rm_Permission req,
      az_RequiredScopes = [], az_TokenScopes = []\<rparr>"
  shows "\<exists>v w1. held_step_up env p req w = (Inr v, w1) \<and> (az_Outcome d = OutcomeAllowed \<longleftrightarrow>
    v = Some False \<or> v = Some True \<and> fst (steppedUpRecently env p w1))"
proof -
  obtain d1 where pass: "(if pr_Credential p = CredentialToken then checkToken p req d0 else (None, d0)) = (None, d1)"
  proof (cases "pr_Credential p = CredentialToken")
    case True
    then show ?thesis using that assms(2) by (cases "checkToken p req d0") simp
  next
    case False
    then show ?thesis using that by simp
  qed
  obtain r w1 where h: "held_step_up env p req w = (r, w1)" by (cases "held_step_up env p req w")
  have c: "Check True env (Some p) req w = (case (r, w1) of
             (Inl e, w1) \<Rightarrow> ((d1, Some e), w1)
           | (Inr None, w1) \<Rightarrow> ((d1\<lparr>az_Outcome := OutcomePermissionDenied\<rparr>, None), w1)
           | (Inr (Some stepUp), w1) \<Rightarrow>
               if \<not> stepUp then ((d1\<lparr>az_Outcome := OutcomeAllowed\<rparr>, None), w1)
               else (case steppedUpRecently env p w1 of (recent, w2) \<Rightarrow>
                 if \<not> recent then ((d1\<lparr>az_Outcome := OutcomeStepUpRequired\<rparr>, None), w2)
                 else ((d1\<lparr>az_Outcome := OutcomeAllowed\<rparr>, None), w2)))"
    unfolding Check_def Let_def d0 [symmetric] using pass h by simp
  show ?thesis using assms(1) unfolding c h
    by (auto split: sum.splits option.splits prod.splits if_splits)
qed

lemma Check_allows:
  assumes "Check True env (Some p) req w = ((d, None), w')"
    and "permissions_typed (db_permissions (wd_db w))"
    and "\<And>n. in_era (ev_Now env n)" and "\<And>s. pr_SteppedUpAt p = Some s \<Longrightarrow> in_era s"
    and "[] \<notin> set (rm_ScopeSets req)"
  shows "authz_Allowed d \<longleftrightarrow>
    authorised (wd_db w) p req (sint (ev_Now env (wd_reads w))) (step_up_time env req w)"
proof -
  define d0 where "d0 = \<lparr>az_Outcome = OutcomeAllowed, az_RequiredPermission = rm_Permission req,
      az_RequiredScopes = [], az_TokenScopes = []\<rparr>"
  show ?thesis
  proof (cases "pr_Credential p = CredentialToken \<and> fst (checkToken p req d0) \<noteq> None")
    case True
    then obtain refusal d1 where refused: "checkToken p req d0 = (Some refusal, d1)"
      by (cases "checkToken p req d0") auto
    then have "d = d1\<lparr>az_Outcome := refusal\<rparr>" "refusal \<noteq> OutcomeAllowed"
      using assms(1) True checkToken_refusal [of p req d0] unfolding Check_def Let_def d0_def [symmetric] by auto
    then have "\<not> authz_Allowed d" by (simp add: authz_Allowed_def)
    moreover have "\<not> authorised (wd_db w) p req (sint (ev_Now env (wd_reads w))) (step_up_time env req w)"
      using True unfolding authorised_def Let_def checkToken_passes [OF assms(5)] by fast
    ultimately show ?thesis by blast
  next
    case passed: False
    have pass: "pr_Credential p = CredentialToken \<Longrightarrow> fst (checkToken p req d0) = None" using passed by blast
    obtain v w1 where h: "held_step_up env p req w = (Inr v, w1)" and a: "authz_Allowed d \<longleftrightarrow>
        v = Some False \<or> v = Some True \<and> fst (steppedUpRecently env p w1)"
      using Check_passed [OF assms(1) pass d0_def] unfolding authz_Allowed_def by metis
    have token: "pr_Credential p = CredentialToken \<longrightarrow> rm_Permission req \<notin> set CapabilityFloor \<and>
        (\<exists>want \<in> set (rm_ScopeSets req). set want \<subseteq> set (pr_Scopes p))"
      using passed checkToken_passes [OF assms(5), of p d0] by blast
    have recent: "fst (steppedUpRecently env p w1) \<longleftrightarrow> (\<exists>s. pr_SteppedUpAt p = Some s \<and>
        0 \<le> sint (ev_Now env (wd_reads w1)) - sint s \<and> sint (ev_Now env (wd_reads w1)) - sint s \<le> 300000000)"
      by (rule steppedUpRecently_exact [OF assms(4,3)])
    show ?thesis
    proof (cases "rm_Permission req = ''''")
      case True
      then have "v = Some (rm_StepUp req)" "w1 = w" using h held_without_permission [of req env p w] by auto
      then show ?thesis using a recent token True unfolding authorised_def Let_def step_up_time_def by auto
    next
      case False
      obtain row where row: "row \<in> set (db_permissions (wd_db w))" "pe_Key row = rm_Permission req"
          "pe_OrphanedAt row = None" "wd_reads w1 = Suc (wd_reads w)"
          "v = (if granted (wd_db w) p (rm_Target req) (sint (ev_Now env (wd_reads w))) (rm_Permission req)
            then Some (rm_StepUp req \<or> pe_RequiresStepUp row \<noteq> 0) else None)"
        using held_step_up_exact [OF assms(2) False h] by blast
      have "(\<exists>r \<in> set (db_permissions (wd_db w)). pe_Key r = rm_Permission req \<and> rm_Permission req \<noteq> '''' \<and>
          pe_RequiresStepUp r \<noteq> 0) \<longleftrightarrow> pe_RequiresStepUp row \<noteq> 0"
        using row(1,2) False permission_unique [OF assms(2) _ row(1)] by metis
      then show ?thesis using a recent token False row unfolding authorised_def Let_def step_up_time_def by auto
    qed
  qed
qed

text \<open>An error is a statement that failed or a permission without a live row.\<close>

lemma Check_error:
  assumes "Check True env (Some p) req w = ((d, Some e), w')"
  shows "ev_Fault env (wd_stmts w) \<noteq> None \<or>
    rm_Permission req \<noteq> '''' \<and> \<not> (\<exists>row \<in> set (db_permissions (wd_db w)). pe_Key row = rm_Permission req \<and> pe_OrphanedAt row = None)"
proof -
  obtain e' w1 where h: "held_step_up env p req w = (Inl e', w1)"
    using assms unfolding Check_def Let_def
    by (auto split: sum.splits option.splits prod.splits if_splits)
  then have key: "rm_Permission req \<noteq> ''''" using held_without_permission [of req env p w] by auto
  let ?a = "effective_request p req (ev_Now env (wd_reads w))"
  have "ev_Fault env (wd_stmts w) = None \<Longrightarrow> q_EffectivePermission ?a (wd_db w) = None"
    using h key by (auto simp: held_step_up_def bindA_def now_def query_def exec_returning_def Let_def retA_def ok_or_def
        split: option.splits if_splits)
  then have "ev_Fault env (wd_stmts w) = None \<Longrightarrow>
      find_row (\<lambda>p. pe_Key p = rm_Permission req \<and> pe_OrphanedAt p = None) (db_permissions (wd_db w)) = None"
    by (simp add: q_EffectivePermission_def effective_request_def)
  then show ?thesis using key by (auto simp: find_row_def filter_empty_conv split: list.splits)
qed

text \<open>C30: The check allows exactly what is authorised, for operations none of whose scope sets is empty,
  permission rows with unique keys, and clock readings and step-up stamps between 1970 and the year 2262 (past
  which durations wrap around). A token must not reach for the capability floor and must carry every scope of
  one scope set of the operation; the permission named must be a live row that some unexpired, unsuspended
  assignment grants to the subject, through an undeleted role made for its kind, globally or on just the
  target; where the operation or the permission asks for a step-up, the session must have stepped up in the
  last five minutes, and not in the future. No role, key or credential is special. The check only fails to
  decide when a statement fails or the permission has no live row.\<close>

theorem check_allows_the_authorised:
  assumes "Check True env (Some p) req w = ((d, err), w')"
    and "permissions_typed (db_permissions (wd_db w))"
    and "\<And>n. in_era (ev_Now env n)" and "\<And>s. pr_SteppedUpAt p = Some s \<Longrightarrow> in_era s"
    and "[] \<notin> set (rm_ScopeSets req)"
  shows "case err of
      None \<Rightarrow> authz_Allowed d \<longleftrightarrow>
        authorised (wd_db w) p req (sint (ev_Now env (wd_reads w))) (step_up_time env req w)
    | Some _ \<Rightarrow> ev_Fault env (wd_stmts w) \<noteq> None \<or> rm_Permission req \<noteq> '''' \<and>
        \<not> (\<exists>row \<in> set (db_permissions (wd_db w)). pe_Key row = rm_Permission req \<and> pe_OrphanedAt row = None)"
  using assms Check_allows [of env p req w d w'] Check_error [of env p req w d _ w']
  by (cases err) simp_all

text \<open>An officer with an assignment on one pool, an officer's token and a session stepped up a minute ago.\<close>

definition office_db :: database where
  "office_db = genesis\<lparr>
     db_permissions := [\<lparr>pe_Key = ''ledger.adjust'', pe_Category = ''ledger'', pe_Label = ''Adjust'', pe_Description = '''',
       pe_IsDangerous = 1, pe_RequiresStepUp = 1, pe_OrphanedAt = None, pe_SortOrder = 1\<rparr>],
     db_roles := [\<lparr>ro_ID = ''r'', ro_Key = None, ro_Name = ''Officer'', ro_NameNorm = ''officer'', ro_Description = '''',
       ro_IsBuiltin = 0, ro_AppliesTo = AppliesToBoth, ro_SortOrder = 1, ro_DeletedAt = None, ro_CreatedAt = 1,
       ro_UpdatedAt = 1\<rparr>],
     db_role_permissions := [\<lparr>rp_RoleID = ''r'', rp_PermissionKey = ''ledger.adjust''\<rparr>],
     db_role_assignments := [\<lparr>ra_ID = ''a'', ra_SubjectKind = SubjectKindUser, ra_SubjectID = ''u'', ra_RoleID = ''r'',
       ra_ScopeType = ''pool'', ra_ScopeID = Some ''p'', ra_SuspendedUntilAt = None, ra_GrantedBy = None,
       ra_GrantedVia = ''system'', ra_ExpiresAt = None, ra_CreatedAt = 1, ra_UpdatedAt = 1\<rparr>]\<rparr>"

definition officer :: principal where
  "officer = \<lparr>pr_Kind = SubjectKindUser, pr_ID = ''u'', pr_Name = ''officer'', pr_Credential = CredentialSession,
     pr_SessionID = ''s'', pr_TokenID = '''', pr_TokenPrefix = '''', pr_OwnerUserID = '''', pr_Scopes = [],
     pr_SteppedUpAt = Some 1704067140000000\<rparr>"

definition adjust_on :: "ulid \<Rightarrow> requirement" where
  "adjust_on pool = \<lparr>rm_Permission = ''ledger.adjust'', rm_ScopeSets = [], rm_StepUp = False,
     rm_Target = \<lparr>tg_Type = ''pool'', tg_ID = pool\<rparr>\<rparr>"

definition office_decision :: "ulid \<Rightarrow> authz_decision \<times> error option" where
  "office_decision pool = fst (Check True sample_env (Some officer) (adjust_on pool) (sample_world\<lparr>wd_db := office_db\<rparr>))"

lemma ancient_step_up_counts:
  "fst (steppedUpRecently sample_env (officer\<lparr>pr_SteppedUpAt := Some (1704067200000000 - 18446744073709552)\<rparr>) sample_world)"
  by code_simp

lemma office_decides: "authz_Allowed (fst (office_decision ''p''))" "\<not> authz_Allowed (fst (office_decision ''q''))"
  "snd (office_decision ''p'') = None" "snd (office_decision ''q'') = None"
  by code_simp+

theorem check_allows_the_authorised_witness:
  "authorised office_db officer (adjust_on ''p'') 1704067200000000 1704067200000000 \<and>
   \<not> authorised office_db officer (adjust_on ''q'') 1704067200000000 1704067200000000"
proof -
  let ?w = "sample_world\<lparr>wd_db := office_db\<rparr>"
  have typed: "permissions_typed (db_permissions (wd_db ?w))"
    by (simp add: permissions_typed_def permission_legal_def office_db_def bool01_def)
  have era: "in_era (ev_Now sample_env n)" "pr_SteppedUpAt officer = Some s \<Longrightarrow> in_era s" for n s
    by (auto simp: in_era_def sample_env_def officer_def)
  have no_sets: "[] \<notin> set (rm_ScopeSets (adjust_on pool))" for pool by (simp add: adjust_on_def)
  have iff: "authz_Allowed (fst (office_decision pool)) \<longleftrightarrow>
      authorised office_db officer (adjust_on pool) 1704067200000000 1704067200000000"
    if none: "snd (office_decision pool) = None" for pool
  proof -
    obtain d w' where run: "Check True sample_env (Some officer) (adjust_on pool) ?w = ((d, None), w')"
      using none by (cases "Check True sample_env (Some officer) (adjust_on pool) ?w") (auto simp: office_decision_def)
    then show ?thesis using check_allows_the_authorised [OF run typed era no_sets]
      by (simp add: office_decision_def step_up_time_def sample_env_def)
  qed
  show ?thesis using iff [OF office_decides(3)] iff [OF office_decides(4)] office_decides(1,2) by blast
qed

end
