(* ===== verification/Reconcile.thy ===== *)
theory Reconcile
  imports AuthzStore
begin

text \<open>
  Boot reconciliation (internal/authz/reconcile.go): the shipped catalogue is written into the permission
  table, the built-in roles are seeded, the keys the binary no longer ships are stamped, and the keys
  the routes declare are read back, in one transaction. Logging is not modelled. The maps of the code
  are the rows they are built from; the keys of one are visited in sorted order, as the code does.
\<close>

section \<open>The steps\<close>

record boot_report =
  rep_Live :: nat
  rep_Inserted :: nat
  rep_Updated :: nat
  rep_Orphaned :: "string list"
  rep_Restored :: "string list"
  rep_RolesSeeded :: "string list"
  rep_GrantsSeeded :: nat

definition boolToInt :: "bool \<Rightarrow> i64" where "boolToInt b = (if b then 1 else 0)"

definition toParams :: "permission \<Rightarrow> permission_row" where
  "toParams p = \<lparr>pe_Key = pm_Key p, pe_Category = pm_Category p, pe_Label = pm_Label p,
     pe_Description = pm_Description p, pe_IsDangerous = boolToInt (pm_IsDangerous p),
     pe_RequiresStepUp = boolToInt (pm_RequiresStepUp p), pe_OrphanedAt = None, pe_SortOrder = pm_SortOrder p\<rparr>"

definition sameRow :: "permission_row \<Rightarrow> permission \<Rightarrow> bool" where
  "sameRow row p \<longleftrightarrow> pe_Category row = pm_Category p \<and> pe_Label row = pm_Label p \<and>
     pe_Description row = pm_Description p \<and> pe_IsDangerous row = boolToInt (pm_IsDangerous p) \<and>
     pe_RequiresStepUp row = boolToInt (pm_RequiresStepUp p) \<and> pe_SortOrder row = pm_SortOrder p"

definition existing :: "permission_row list \<Rightarrow> string \<Rightarrow> permission_row option" where
  "existing rows key = find_row (\<lambda>r. pe_Key r = key) rows"

fun upsertCatalogue :: "env \<Rightarrow> permission_row list \<Rightarrow> permission list \<Rightarrow> boot_report \<Rightarrow> boot_report act" where
  "upsertCatalogue env rows [] rep = retA rep"
| "upsertCatalogue env rows (p # ps) rep =
    (let put = (\<lambda>rep. bindA (exec env (UpsertPermission (toParams p))) (\<lambda>_. upsertCatalogue env rows ps rep)) in
     case existing rows (pm_Key p) of
       None \<Rightarrow> put (rep\<lparr>rep_Inserted := rep_Inserted rep + 1\<rparr>)
     | Some row \<Rightarrow>
         if pe_OrphanedAt row \<noteq> None then put (rep\<lparr>rep_Restored := rep_Restored rep @ [pm_Key p]\<rparr>)
         else if sameRow row p then upsertCatalogue env rows ps rep
         else put (rep\<lparr>rep_Updated := rep_Updated rep + 1\<rparr>))"

definition role_params :: "micros \<Rightarrow> role \<Rightarrow> role_row" where
  "role_params t b = \<lparr>ro_ID = bl_ID b, ro_Key = Some (bl_Key b), ro_Name = bl_Name b, ro_NameNorm = bl_NameNorm b,
     ro_Description = bl_Description b, ro_IsBuiltin = 1, ro_AppliesTo = bl_AppliesTo b,
     ro_SortOrder = bl_SortOrder b, ro_DeletedAt = None, ro_CreatedAt = t, ro_UpdatedAt = t\<rparr>"

definition seed_role :: "env \<Rightarrow> micros \<Rightarrow> role \<Rightarrow> unit act" where
  "seed_role env t b = bindA (exec env (InsertRole (role_params t b))) (\<lambda>_.
     forA (\<lambda>key. exec env (InsertRolePermission \<lparr>rp_RoleID = bl_ID b, rp_PermissionKey = key\<rparr>)) (bl_Permissions b))"

fun seed_loop :: "env \<Rightarrow> micros \<Rightarrow> role_row list \<Rightarrow> role list \<Rightarrow> boot_report \<Rightarrow> boot_report act" where
  "seed_loop env t rows [] rep = retA rep"
| "seed_loop env t rows (b # bs) rep =
    (if Some (bl_Key b) \<in> ro_Key ` set rows then seed_loop env t rows bs rep
     else bindA (seed_role env t b) (\<lambda>_. seed_loop env t rows bs
       (rep\<lparr>rep_RolesSeeded := rep_RolesSeeded rep @ [bl_Key b],
            rep_GrantsSeeded := rep_GrantsSeeded rep + length (bl_Permissions b)\<rparr>)))"

definition seedBuiltinRoles :: "env \<Rightarrow> micros \<Rightarrow> boot_report \<Rightarrow> boot_report act" where
  "seedBuiltinRoles env t rep = bindA (query env (\<lambda>db. Inr (ListRoles db))) (\<lambda>rows.
     seed_loop env t rows BuiltinRoles rep)"

fun orphan_loop :: "env \<Rightarrow> permission_row list \<Rightarrow> permission list \<Rightarrow> micros \<Rightarrow> string list \<Rightarrow> boot_report \<Rightarrow> boot_report act" where
  "orphan_loop env rows catalogue t [] rep = retA rep"
| "orphan_loop env rows catalogue t (key # keys) rep =
    (let rep' = rep\<lparr>rep_Orphaned := rep_Orphaned rep @ [key]\<rparr> in
     if key \<in> pm_Key ` set catalogue then orphan_loop env rows catalogue t keys rep
     else if (case existing rows key of None \<Rightarrow> False | Some row \<Rightarrow> pe_OrphanedAt row \<noteq> None)
       then orphan_loop env rows catalogue t keys rep'
     else bindA (exec env (\<lambda>db. Inr (OrphanPermission t key db))) (\<lambda>_.
       orphan_loop env rows catalogue t keys rep'))"

definition orphanRetired :: "env \<Rightarrow> permission_row list \<Rightarrow> permission list \<Rightarrow> micros \<Rightarrow> boot_report \<Rightarrow> boot_report act" where
  "orphanRetired env rows catalogue t rep =
     orphan_loop env rows catalogue t (sort (remdups (map pe_Key rows))) rep"

text \<open>\<open>sql.ErrNoRows\<close> and an orphaned row are both a missing key; any other failure is an error at once.\<close>

fun missing_keys :: "env \<Rightarrow> string list \<Rightarrow> string list act" where
  "missing_keys env [] = retA []"
| "missing_keys env (key # keys) =
    bindA (query env (\<lambda>db. Inr (q_GetPermission key db))) (\<lambda>row.
    bindA (missing_keys env keys) (\<lambda>missing.
      retA ((case row of None \<Rightarrow> [key] | Some r \<Rightarrow> if pe_OrphanedAt r \<noteq> None then [key] else []) @ missing)))"

definition requireKeys :: "env \<Rightarrow> string list \<Rightarrow> unit act" where
  "requireKeys env required = bindA (missing_keys env required) (\<lambda>missing.
     liftA (if missing \<noteq> [] then Inl ErrMissingPermission else Inr ()))"

definition boot_report0 :: boot_report where
  "boot_report0 = \<lparr>rep_Live = length PermissionCatalogue, rep_Inserted = 0, rep_Updated = 0, rep_Orphaned = [],
     rep_Restored = [], rep_RolesSeeded = [], rep_GrantsSeeded = 0\<rparr>"

section \<open>The transaction\<close>

definition reconcile_tx :: "env \<Rightarrow> micros \<Rightarrow> string list \<Rightarrow> boot_report act" where
  "reconcile_tx env t required =
     bindA (query env (\<lambda>db. Inr (ListPermissions db))) (\<lambda>rows.
     bindA (upsertCatalogue env rows PermissionCatalogue boot_report0) (\<lambda>rep.
     bindA (seedBuiltinRoles env t rep) (\<lambda>rep.
     bindA (orphanRetired env rows PermissionCatalogue t rep) (\<lambda>rep.
     bindA (requireKeys env required) (\<lambda>_. retA rep)))))"

definition Reconcile :: "bool \<Rightarrow> env \<Rightarrow> string list \<Rightarrow> boot_report act" where
  "Reconcile store env required =
     (if \<not> store then liftA (Inl ErrNoStore)
      else bindA (now env) (\<lambda>t. Tx env (reconcile_tx env t required)))"

end
