(* ===== verification/ReconcileSteps.thy ===== *)
theory ReconcileSteps
  imports Reconcile
begin

text \<open>
  The steps of a boot reconciliation, each as one change of a table: the upsert_all write every row of the
  catalogue, seeding only adds rows, and the orphans are stamped where they are. First what the shipped
  catalogue and roles are known to satisfy, by evaluation.
\<close>

section \<open>Facts of the shipped data\<close>

lemma catalogue_keys_distinct: "distinct (map pm_Key PermissionCatalogue)"
  by code_simp

lemma roles_grant_shipped_keys: "\<forall>b \<in> set BuiltinRoles. \<forall>k \<in> set (bl_Permissions b). k \<in> pm_Key ` set PermissionCatalogue"
  by code_simp

lemma builtin_roles_distinct: "distinct (map bl_ID BuiltinRoles)" "distinct (map bl_Key BuiltinRoles)"
  "distinct (map bl_NameNorm BuiltinRoles)" "\<forall>b \<in> set BuiltinRoles. IsAppliesTo (bl_AppliesTo b) \<and> distinct (bl_Permissions b)"
  by code_simp+

text \<open>The floor is the permissions that take a step-up, and no role a service account may hold has one.\<close>

lemma floor_is_step_up: "set CapabilityFloor = pm_Key ` {p \<in> set PermissionCatalogue. pm_RequiresStepUp p}"
  by code_simp

lemma bots_below_floor: "\<forall>b \<in> set BuiltinRoles. bl_AppliesTo b \<noteq> AppliesToUser \<longrightarrow>
    set (bl_Permissions b) \<inter> set CapabilityFloor = {}"
  by code_simp

section \<open>The catalogue in the table\<close>

lemma bool01_boolToInt [simp]: "bool01 (boolToInt b)"
  by (simp add: bool01_def boolToInt_def)

lemma toParams_sel [simp]: "pe_Key (toParams p) = pm_Key p" "pe_OrphanedAt (toParams p) = None"
  "(toParams p)\<lparr>pe_OrphanedAt := None\<rparr> = toParams p" "permission_legal (toParams p)"
  by (simp_all add: toParams_def permission_legal_def)

lemma sameRow_toParams: "sameRow row p \<Longrightarrow> pe_Key row = pm_Key p \<Longrightarrow> pe_OrphanedAt row = None \<Longrightarrow> row = toParams p"
  by (simp add: sameRow_def toParams_def)

lemma sameRow_self [simp]: "sameRow (toParams p) p"
  by (simp add: sameRow_def toParams_def)

lemma UpsertPermission_toParams: "UpsertPermission (toParams p) db =
    Inr (db\<lparr>db_permissions := upsert_permission (toParams p) (db_permissions db)\<rparr>)"
  by (simp add: UpsertPermission_def Let_def)

definition stale :: "permission_row list \<Rightarrow> permission \<Rightarrow> bool" where
  "stale rows p \<longleftrightarrow> (case existing rows (pm_Key p) of None \<Rightarrow> True
     | Some row \<Rightarrow> pe_OrphanedAt row \<noteq> None \<or> \<not> sameRow row p)"

definition upsert_all :: "permission list \<Rightarrow> permission_row list \<Rightarrow> permission_row list" where
  "upsert_all ps rows = foldl (\<lambda>rows p. upsert_permission (toParams p) rows) rows ps"

lemma upsert_all_simps [simp]: "upsert_all [] rows = rows"
  "upsert_all (p # ps) rows = upsert_all ps (upsert_permission (toParams p) rows)"
  by (simp_all add: upsert_all_def)

lemma upsertCatalogue_db: "upsertCatalogue env rows ps rep w = (Inr rep', w') \<Longrightarrow>
    wd_db w' = (wd_db w)\<lparr>db_permissions := upsert_all (filter (stale rows) ps) (db_permissions (wd_db w))\<rparr>"
proof (induction ps arbitrary: rep w)
  case (Cons p ps)
  show ?case
  proof (cases "stale rows p")
    case True
    then obtain rep1 where "bindA (exec env (UpsertPermission (toParams p))) (\<lambda>_. upsertCatalogue env rows ps rep1) w = (Inr rep', w')"
      using Cons.prems by (auto simp: stale_def Let_def split: option.splits if_splits)
    then obtain w1 where "exec env (UpsertPermission (toParams p)) w = (Inr (), w1)"
        "upsertCatalogue env rows ps rep1 w1 = (Inr rep', w')" by (auto elim: bindA_E)
    then show ?thesis using Cons.IH [of rep1 w1] True by (auto simp: exec_eq UpsertPermission_toParams)
  next
    case False
    then have "upsertCatalogue env rows ps rep w = (Inr rep', w')"
      using Cons.prems by (auto simp: stale_def Let_def split: option.splits if_splits)
    then show ?thesis using Cons.IH [of rep w] False by simp
  qed
qed (simp add: act_simps)

lemma upsert_all_set:
  assumes "distinct (map pe_Key rows)" "distinct (map pm_Key ps)"
  shows "set (upsert_all ps rows) = toParams ` set ps \<union> {q \<in> set rows. pe_Key q \<notin> pm_Key ` set ps} \<and>
    distinct (map pe_Key (upsert_all ps rows))"
  using assms
proof (induction ps arbitrary: rows)
  case (Cons p ps)
  let ?rows = "upsert_permission (toParams p) rows"
  have IH: "set (upsert_all ps ?rows) = toParams ` set ps \<union> {q \<in> set ?rows. pe_Key q \<notin> pm_Key ` set ps} \<and>
      distinct (map pe_Key (upsert_all ps ?rows))"
    using Cons upsert_permission_distinct by simp
  have "pm_Key p \<notin> pm_Key ` set ps" using Cons.prems(2) by simp
  moreover have "set ?rows = insert (toParams p) {q \<in> set rows. pe_Key q \<noteq> pm_Key p}"
    using upsert_permission_set [OF Cons.prems(1), of "toParams p"] by simp
  ultimately have "{q \<in> set ?rows. pe_Key q \<notin> pm_Key ` set ps} =
      insert (toParams p) {q \<in> set rows. pe_Key q \<notin> pm_Key ` set (p # ps)}"
    by (auto simp: toParams_def)
  then show ?case using IH by simp
qed simp

lemma existing_Some: "existing rows key = Some row \<Longrightarrow> row \<in> set rows \<and> pe_Key row = key"
  unfolding existing_def by (rule find_row_Some)

lemma existing_None: "existing rows key = None \<longleftrightarrow> key \<notin> pe_Key ` set rows"
  by (auto simp: existing_def find_row_def filter_empty_conv split: list.splits dest!: filter_eq_ConsD)

lemma existing_mem: "distinct (map pe_Key rows) \<Longrightarrow> row \<in> set rows \<Longrightarrow> existing rows (pe_Key row) = Some row"
  using existing_Some existing_None [of rows "pe_Key row"]
  by (cases "existing rows (pe_Key row)") (auto simp: distinct_map inj_on_def)

lemma fresh_row: "\<not> stale rows p \<Longrightarrow> toParams p \<in> set rows"
  using existing_Some sameRow_toParams by (fastforce simp: stale_def split: option.splits)

text \<open>Writing the stale rows leaves the table as if every row had been written.\<close>

lemma upsert_all_stale_set:
  assumes d: "distinct (map pe_Key rows)" "distinct (map pm_Key ps)" and same: "set rows' = set rows" "distinct (map pe_Key rows')"
  shows "set (upsert_all (filter (stale rows') ps) rows) = toParams ` set ps \<union> {q \<in> set rows. pe_Key q \<notin> pm_Key ` set ps}"
proof -
  let ?S = "set (filter (stale rows') ps)"
  have "set (upsert_all (filter (stale rows') ps) rows) = toParams ` ?S \<union> {q \<in> set rows. pe_Key q \<notin> pm_Key ` ?S}"
    using upsert_all_set [OF d(1), of "filter (stale rows') ps"] d(2) distinct_map_filter by blast
  also have "\<dots> = toParams ` set ps \<union> {q \<in> set rows. pe_Key q \<notin> pm_Key ` set ps}" (is "?l = ?r")
  proof (rule set_eqI)
    fix q
    show "q \<in> ?l \<longleftrightarrow> q \<in> ?r"
    proof (cases "pe_Key q \<in> pm_Key ` set ps")
      case False
      then show ?thesis by (auto simp: toParams_def)
    next
      case True
      then obtain p where p: "p \<in> set ps" "pe_Key q = pm_Key p" by blast
      have uniq: "p' = p" if "p' \<in> set ps" "pm_Key p' = pm_Key p" for p'
        using d(2) p(1) that by (auto simp: distinct_map inj_on_def)
      have img: "q \<in> toParams ` X \<longleftrightarrow> p \<in> X \<and> q = toParams p" if "X \<subseteq> set ps" for X
        using that p(2) uniq toParams_sel(1) by (metis image_iff subsetD)
      have keys: "pe_Key q \<in> pm_Key ` X \<longleftrightarrow> p \<in> X" if "X \<subseteq> set ps" for X
        using that p(2) uniq by (metis image_iff subsetD)
      have sub: "?S \<subseteq> set ps" by auto
      have l: "q \<in> ?l \<longleftrightarrow> p \<in> ?S \<and> q = toParams p \<or> q \<in> set rows \<and> p \<notin> ?S"
        unfolding Un_iff mem_Collect_eq img [OF sub] keys [OF sub] ..
      have "q \<in> ?r \<longleftrightarrow> q = toParams p"
        unfolding Un_iff mem_Collect_eq img [OF subset_refl] keys [OF subset_refl] using p(1) by blast
      moreover have "q \<in> ?l \<longleftrightarrow> q = toParams p"
      proof (cases "stale rows' p")
        case True
        then have "p \<in> ?S" using p(1) by simp
        then show ?thesis unfolding l by blast
      next
        case fresh: False
        then have f: "toParams p \<in> set rows" using fresh_row same(1) by blast
        have "q = toParams p" if "q \<in> set rows"
          using inj_onD [of pe_Key "set rows" q "toParams p"] d(1) that f p(2) by (simp add: distinct_map)
        moreover have "p \<notin> ?S" using fresh by simp
        ultimately show ?thesis unfolding l using f by blast
      qed
      ultimately show ?thesis by blast
    qed
  qed
  finally show ?thesis .
qed

section \<open>Seeding\<close>

text \<open>The roles and grants grow; the rest of the database stays.\<close>

definition grown :: "database \<Rightarrow> database \<Rightarrow> bool" where
  "grown db db' \<longleftrightarrow> (\<exists>rs gs. db' = db\<lparr>db_roles := db_roles db @ rs, db_role_permissions := db_role_permissions db @ gs\<rparr>)"

lemma grown_refl: "grown db db"
  unfolding grown_def by (intro exI [of _ "[]"]) simp

lemma grown_trans: "grown a b \<Longrightarrow> grown b c \<Longrightarrow> grown a c"
proof -
  assume "grown a b" "grown b c"
  then obtain rs gs rs' gs' where b: "b = a\<lparr>db_roles := db_roles a @ rs, db_role_permissions := db_role_permissions a @ gs\<rparr>"
    and c: "c = b\<lparr>db_roles := db_roles b @ rs', db_role_permissions := db_role_permissions b @ gs'\<rparr>"
    unfolding grown_def by blast
  show ?thesis unfolding grown_def c b by (intro exI [of _ "rs @ rs'"] exI [of _ "gs @ gs'"]) simp
qed

lemma InsertRole_Inr: "InsertRole r db = Inr db' \<Longrightarrow> db' = db\<lparr>db_roles := db_roles db @ [r\<lparr>ro_DeletedAt := None\<rparr>]\<rparr>"
  by (auto simp: InsertRole_def Let_def split: if_splits)

lemma InsertRolePermission_Inr: "InsertRolePermission g db = Inr db' \<Longrightarrow>
    db' = db\<lparr>db_role_permissions := db_role_permissions db @ [g]\<rparr>"
  by (auto simp: InsertRolePermission_def split: if_splits)

lemma insert_role_grown: "InsertRole r db = Inr db' \<Longrightarrow> grown db db'"
  unfolding grown_def by (intro exI [of _ "[r\<lparr>ro_DeletedAt := None\<rparr>]"] exI [of _ "[]"]) (simp add: InsertRole_Inr)

lemma insert_grant_grown: "InsertRolePermission g db = Inr db' \<Longrightarrow> grown db db'"
  unfolding grown_def by (intro exI [of _ "[]"] exI [of _ "[g]"]) (simp add: InsertRolePermission_Inr)

lemma seed_role_db:
  assumes "seed_role env t b w = (Inr (), w')" "authz_typed (wd_db w)"
  shows "grown (wd_db w) (wd_db w') \<and> authz_typed (wd_db w') \<and> role_params t b \<in> set (db_roles (wd_db w'))"
proof -
  let ?P = "\<lambda>v. authz_typed (wd_db v) \<and> grown (wd_db w) (wd_db v) \<and> role_params t b \<in> set (db_roles (wd_db v))"
  obtain w1 where w1: "exec env (InsertRole (role_params t b)) w = (Inr (), w1)"
    and rest: "forA (\<lambda>key. exec env (InsertRolePermission \<lparr>rp_RoleID = bl_ID b, rp_PermissionKey = key\<rparr>))
      (bl_Permissions b) w1 = (Inr (), w')"
    using assms(1) unfolding seed_role_def by (auto elim: bindA_E)
  obtain db1 where db1: "InsertRole (role_params t b) (wd_db w) = Inr db1" "wd_db w1 = db1"
    using w1 by (auto simp: exec_eq)
  have "?P w1"
    using InsertRole_typed [OF db1(1) assms(2)] insert_role_grown [OF db1(1)] InsertRole_Inr [OF db1(1)] db1(2)
    by (simp add: role_params_def)
  then have "?P w'"
  proof (rule forA_invariant [OF rest])
    fix key v v'
    assume v: "?P v" and "exec env (InsertRolePermission \<lparr>rp_RoleID = bl_ID b, rp_PermissionKey = key\<rparr>) v = (Inr (), v')"
    then have i: "InsertRolePermission \<lparr>rp_RoleID = bl_ID b, rp_PermissionKey = key\<rparr> (wd_db v) = Inr (wd_db v')"
      by (auto simp: exec_eq)
    show "?P v'"
      using v InsertRolePermission_typed [OF i] grown_trans [OF _ insert_grant_grown [OF i]] InsertRolePermission_Inr [OF i]
      by simp
  qed
  then show ?thesis by blast
qed

lemma grown_roles: "grown db db' \<Longrightarrow> set (db_roles db) \<subseteq> set (db_roles db')"
  unfolding grown_def by auto

lemma seed_loop_db:
  assumes "seed_loop env t rows bs rep w = (Inr rep', w')" "authz_typed (wd_db w)"
  shows "grown (wd_db w) (wd_db w') \<and> authz_typed (wd_db w') \<and>
    (\<forall>b \<in> set bs. Some (bl_Key b) \<in> ro_Key ` set rows \<or> Some (bl_Key b) \<in> ro_Key ` set (db_roles (wd_db w')))"
  using assms
proof (induction bs arbitrary: rep w)
  case Nil
  then show ?case by (simp add: act_simps grown_refl)
next
  case (Cons b bs)
  show ?case
  proof (cases "Some (bl_Key b) \<in> ro_Key ` set rows")
    case True
    then show ?thesis using Cons by auto
  next
    case False
    then obtain w1 rep1 where s: "seed_role env t b w = (Inr (), w1)" "seed_loop env t rows bs rep1 w1 = (Inr rep', w')"
      using Cons.prems(1) by (auto elim!: bindA_E)
    note seeded = seed_role_db [OF s(1) Cons.prems(2)]
    have IH: "grown (wd_db w1) (wd_db w') \<and> authz_typed (wd_db w') \<and>
        (\<forall>b \<in> set bs. Some (bl_Key b) \<in> ro_Key ` set rows \<or> Some (bl_Key b) \<in> ro_Key ` set (db_roles (wd_db w')))"
      using Cons.IH [OF s(2)] seeded by blast
    have "role_params t b \<in> set (db_roles (wd_db w'))" using grown_roles IH seeded by blast
    then have "Some (bl_Key b) \<in> ro_Key ` set (db_roles (wd_db w'))"
      by (rule image_eqI [rotated]) (simp add: role_params_def)
    then show ?thesis using IH seeded grown_trans by auto
  qed
qed

section \<open>Orphaning\<close>

definition stamp :: "micros \<Rightarrow> string set \<Rightarrow> permission_row \<Rightarrow> permission_row" where
  "stamp t K p = (if pe_Key p \<in> K \<and> pe_OrphanedAt p = None then p\<lparr>pe_OrphanedAt := Some t\<rparr> else p)"

lemma stamp_sel [simp]: "pe_Key (stamp t K p) = pe_Key p" "permission_legal (stamp t K p) = permission_legal p"
  "pe_OrphanedAt (stamp t K p) = None \<longleftrightarrow> pe_OrphanedAt p = None \<and> pe_Key p \<notin> K"
  by (auto simp: stamp_def permission_legal_def)

lemma stamp_empty [simp]: "stamp t {} = id"
  by (simp add: stamp_def fun_eq_iff)

lemma stamp_stamp: "stamp t K (stamp t L p) = stamp t (K \<union> L) p"
  by (auto simp: stamp_def)

lemma OrphanPermission_stamp: "OrphanPermission t key db = db\<lparr>db_permissions := map (stamp t {key}) (db_permissions db)\<rparr>"
  unfolding OrphanPermission_def by (simp add: stamp_def)

definition retired :: "permission_row list \<Rightarrow> permission list \<Rightarrow> string \<Rightarrow> bool" where
  "retired rows catalogue key \<longleftrightarrow> key \<notin> pm_Key ` set catalogue \<and>
     \<not> (case existing rows key of None \<Rightarrow> False | Some row \<Rightarrow> pe_OrphanedAt row \<noteq> None)"

lemma orphan_loop_db: "orphan_loop env rows catalogue t keys rep w = (Inr rep', w') \<Longrightarrow>
    wd_db w' = (wd_db w)\<lparr>db_permissions := map (stamp t {k \<in> set keys. retired rows catalogue k}) (db_permissions (wd_db w))\<rparr>"
proof (induction keys arbitrary: rep w)
  case (Cons key keys)
  show ?case
  proof (cases "retired rows catalogue key")
    case True
    let ?rep = "rep\<lparr>rep_Orphaned := rep_Orphaned rep @ [key]\<rparr>"
    have "bindA (exec env (\<lambda>db. Inr (OrphanPermission t key db))) (\<lambda>_.
        orphan_loop env rows catalogue t keys ?rep) w = (Inr rep', w')"
      using Cons.prems True by (simp add: retired_def Let_def)
    then obtain w1 where e: "exec env (\<lambda>db. Inr (OrphanPermission t key db)) w = (Inr (), w1)"
      and rest: "orphan_loop env rows catalogue t keys ?rep w1 = (Inr rep', w')"
      by (auto elim: bindA_E)
    have w1: "wd_db w1 = OrphanPermission t key (wd_db w)" using e by (auto simp: exec_eq)
    have "{k \<in> set (key # keys). retired rows catalogue k} = {k \<in> set keys. retired rows catalogue k} \<union> {key}"
      using True by auto
    then show ?thesis using Cons.IH [OF rest] by (simp add: w1 OrphanPermission_stamp stamp_stamp comp_def)
  next
    case False
    then obtain rep1 where rest: "orphan_loop env rows catalogue t keys rep1 w = (Inr rep', w')"
      using Cons.prems by (auto simp: retired_def Let_def split: if_splits)
    have "{k \<in> set (key # keys). retired rows catalogue k} = {k \<in> set keys. retired rows catalogue k}"
      using False by auto
    then show ?thesis using Cons.IH [OF rest] by simp
  qed
qed (simp add: act_simps)

section \<open>Required keys\<close>

lemma missing_keys_run: "missing_keys env keys w = (Inr missing, w') \<Longrightarrow> wd_db w' = wd_db w \<and>
    missing = filter (\<lambda>key. case q_GetPermission key (wd_db w) of None \<Rightarrow> True | Some r \<Rightarrow> pe_OrphanedAt r \<noteq> None) keys"
proof (induction keys arbitrary: missing w)
  case (Cons key keys)
  let ?w = "w\<lparr>wd_stmts := Suc (wd_stmts w)\<rparr>"
  obtain missing1 where m: "missing_keys env keys ?w = (Inr missing1, w')"
    "missing = (case q_GetPermission key (wd_db w) of None \<Rightarrow> [key] | Some r \<Rightarrow> if pe_OrphanedAt r \<noteq> None then [key] else []) @ missing1"
    using Cons.prems by (auto simp: act_simps)
  show ?case using Cons.IH [OF m(1)] m(2) by (simp split: option.splits)
qed (simp add: act_simps)

lemma requireKeys_run:
  assumes "requireKeys env required w = (Inr (), w')"
  shows "wd_db w' = wd_db w \<and> (\<forall>key \<in> set required. \<exists>r \<in> set (db_permissions (wd_db w)).
    pe_Key r = key \<and> pe_OrphanedAt r = None)"
proof -
  obtain w1 where m: "missing_keys env required w = (Inr [], w1)" "wd_db w' = wd_db w1"
    using assms unfolding requireKeys_def by (auto simp: act_simps elim!: bindA_E split: if_splits)
  note run = missing_keys_run [OF m(1)]
  have "filter (\<lambda>key. case q_GetPermission key (wd_db w) of None \<Rightarrow> True | Some r \<Rightarrow> pe_OrphanedAt r \<noteq> None) required = []"
    using run by (simp only:)
  then have "\<forall>key \<in> set required. \<exists>r. q_GetPermission key (wd_db w) = Some r \<and> pe_OrphanedAt r = None"
    by (fastforce simp: filter_empty_conv split: option.splits)
  moreover have "wd_db w' = wd_db w" using run m(2) by simp
  ultimately show ?thesis unfolding q_GetPermission_def using find_row_Some by fast
qed

end
