(* ===== verification/Boot.thy ===== *)
theory Boot
  imports ReconcileSteps Replay Progress
begin

text \<open>
  A whole boot reconciliation: what it leaves, that another one changes nothing, and that one goes
  through when no statement fails and the ids and names of the built-in roles are free.
\<close>

section \<open>One boot\<close>

definition booted :: "database \<Rightarrow> bool" where
  "booted db \<longleftrightarrow> {r \<in> set (db_permissions db). pe_OrphanedAt r = None} = toParams ` set PermissionCatalogue \<and>
     (\<forall>b \<in> set BuiltinRoles. Some (bl_Key b) \<in> ro_Key ` set (db_roles db))"

lemma ListPermissions_sel: "set (ListPermissions db) = set (db_permissions db)"
  "distinct (map pe_Key (db_permissions db)) \<Longrightarrow> distinct (map pe_Key (ListPermissions db))"
  by (simp_all add: ListPermissions_def distinct_map)

lemma upsert_all_typed: "authz_typed db \<Longrightarrow> authz_typed (db\<lparr>db_permissions := upsert_all ps (db_permissions db)\<rparr>)"
proof (induction ps arbitrary: db)
  case (Cons p ps)
  let ?db = "db\<lparr>db_permissions := upsert_permission (toParams p) (db_permissions db)\<rparr>"
  have "authz_typed ?db" by (rule UpsertPermission_typed [OF UpsertPermission_toParams Cons.prems])
  from Cons.IH [OF this] show ?case by simp
qed simp

lemma map_stamp_typed:
  assumes "authz_typed db"
  shows "authz_typed (db\<lparr>db_permissions := map (stamp t K) (db_permissions db)\<rparr>)"
proof -
  have "pe_Key \<circ> stamp t K = pe_Key" by (simp add: fun_eq_iff)
  moreover have "pe_Key ` stamp t K ` set (db_permissions db) = pe_Key ` set (db_permissions db)"
    by (simp add: image_image)
  ultimately show ?thesis using assms unfolding authz_typed_def permissions_typed_def by simp
qed

lemma reconcile_tx_stages:
  assumes "reconcile_tx env t required w = (Inr rep, w')"
  obtains r1 w2 r2 w3 w4 where
    "upsertCatalogue env (ListPermissions (wd_db w)) PermissionCatalogue boot_report0
      (w\<lparr>wd_stmts := Suc (wd_stmts w)\<rparr>) = (Inr r1, w2)"
    "seed_loop env t (ListRoles (wd_db w2)) BuiltinRoles r1 (w2\<lparr>wd_stmts := Suc (wd_stmts w2)\<rparr>) = (Inr r2, w3)"
    "orphan_loop env (ListPermissions (wd_db w)) PermissionCatalogue t
      (sort (remdups (map pe_Key (ListPermissions (wd_db w))))) r2 w3 = (Inr rep, w4)"
    "requireKeys env required w4 = (Inr (), w')"
proof -
  obtain rows w1 where q: "query env (\<lambda>db. Inr (ListPermissions db)) w = (Inr rows, w1)"
    and rest: "bindA (upsertCatalogue env rows PermissionCatalogue boot_report0) (\<lambda>rep.
     bindA (seedBuiltinRoles env t rep) (\<lambda>rep. bindA (orphanRetired env rows PermissionCatalogue t rep) (\<lambda>rep.
     bindA (requireKeys env required) (\<lambda>_. retA rep)))) w1 = (Inr rep, w')"
    using assms unfolding reconcile_tx_def by (rule bindA_E)
  have rows: "rows = ListPermissions (wd_db w)" "w1 = w\<lparr>wd_stmts := Suc (wd_stmts w)\<rparr>"
    using q by (auto simp: query_eq)
  obtain r1 w2 where u: "upsertCatalogue env rows PermissionCatalogue boot_report0 w1 = (Inr r1, w2)"
    and rest2: "bindA (seedBuiltinRoles env t r1) (\<lambda>rep. bindA (orphanRetired env rows PermissionCatalogue t rep) (\<lambda>rep.
     bindA (requireKeys env required) (\<lambda>_. retA rep))) w2 = (Inr rep, w')"
    using rest by (rule bindA_E)
  obtain r2 w3 where s: "seedBuiltinRoles env t r1 w2 = (Inr r2, w3)"
    and rest3: "bindA (orphanRetired env rows PermissionCatalogue t r2) (\<lambda>rep.
     bindA (requireKeys env required) (\<lambda>_. retA rep)) w3 = (Inr rep, w')"
    using rest2 by (rule bindA_E)
  obtain r3 w4 where o: "orphanRetired env rows PermissionCatalogue t r2 w3 = (Inr r3, w4)"
    and rest4: "bindA (requireKeys env required) (\<lambda>_. retA r3) w4 = (Inr rep, w')"
    using rest3 by (rule bindA_E)
  have "requireKeys env required w4 = (Inr (), w')" "r3 = rep"
    using rest4 by (auto simp: act_simps elim!: bindA_E)
  moreover have "seed_loop env t (ListRoles (wd_db w2)) BuiltinRoles r1 (w2\<lparr>wd_stmts := Suc (wd_stmts w2)\<rparr>) = (Inr r2, w3)"
    using s unfolding seedBuiltinRoles_def by (auto simp: act_simps)
  ultimately show ?thesis using that u o unfolding orphanRetired_def rows by blast
qed

lemma stamped_live:
  assumes "distinct (map pe_Key rows)" "set rows' = set rows" "distinct (map pe_Key rows')"
    and S: "set S = toParams ` set cat \<union> {q \<in> set rows. pe_Key q \<notin> pm_Key ` set cat}"
  shows "{r \<in> set (map (stamp t {k \<in> pe_Key ` set rows'. retired rows' cat k}) S). pe_OrphanedAt r = None} =
    toParams ` set cat" (is "?l = ?r")
proof -
  let ?K = "{k \<in> pe_Key ` set rows'. retired rows' cat k}"
  have shipped: "stamp t ?K (toParams p) = toParams p" if "p \<in> set cat" for p
    using that by (simp add: stamp_def retired_def)
  have gone: "pe_OrphanedAt (stamp t ?K q) \<noteq> None" if "q \<in> set rows" "pe_Key q \<notin> pm_Key ` set cat" for q
  proof -
    have "existing rows' (pe_Key q) = Some q" using existing_mem assms(2,3) that(1) by blast
    then have "pe_OrphanedAt q = None \<Longrightarrow> pe_Key q \<in> ?K"
      using that assms(2) by (simp add: retired_def)
    then show ?thesis unfolding stamp_sel by blast
  qed
  show ?thesis
  proof
    show "?l \<subseteq> ?r" using S shipped gone by fastforce
    show "?r \<subseteq> ?l"
    proof
      fix r assume "r \<in> ?r"
      then obtain p where p: "p \<in> set cat" "r = toParams p" by blast
      then have "r = stamp t ?K r" "r \<in> set S" using shipped S by auto
      then have "r \<in> set (map (stamp t ?K) S)" by auto
      then show "r \<in> ?l" using p by simp
    qed
  qed
qed

text \<open>The table after the upsert_all, and the database after the orphans are stamped.\<close>

lemma upserted_db:
  assumes typed: "authz_typed (wd_db w)"
    and u: "upsertCatalogue env (ListPermissions (wd_db w)) PermissionCatalogue boot_report0 w = (Inr r1, w2)"
  shows "authz_typed (wd_db w2)" "\<exists>ps. wd_db w2 = (wd_db w)\<lparr>db_permissions := ps\<rparr>"
    "set (db_permissions (wd_db w2)) = toParams ` set PermissionCatalogue \<union>
      {q \<in> set (db_permissions (wd_db w)). pe_Key q \<notin> pm_Key ` set PermissionCatalogue}"
proof -
  have d: "distinct (map pe_Key (db_permissions (wd_db w)))" using typed by (simp add: authz_typed_def permissions_typed_def)
  note db2 = upsertCatalogue_db [OF u]
  show "authz_typed (wd_db w2)" unfolding db2 by (rule upsert_all_typed [OF typed])
  show "\<exists>ps. wd_db w2 = (wd_db w)\<lparr>db_permissions := ps\<rparr>" using db2 by blast
  show "set (db_permissions (wd_db w2)) = toParams ` set PermissionCatalogue \<union>
      {q \<in> set (db_permissions (wd_db w)). pe_Key q \<notin> pm_Key ` set PermissionCatalogue}"
    using db2 upsert_all_stale_set [OF d catalogue_keys_distinct ListPermissions_sel(1) ListPermissions_sel(2) [OF d]] by simp
qed

lemma stages_db:
  assumes typed: "authz_typed (wd_db w)"
    and u: "upsertCatalogue env (ListPermissions (wd_db w)) PermissionCatalogue boot_report0 w = (Inr r1, w2)"
    and s: "seed_loop env t (ListRoles (wd_db w2)) BuiltinRoles r1 (w2\<lparr>wd_stmts := n\<rparr>) = (Inr r2, w3)"
    and o: "orphan_loop env (ListPermissions (wd_db w)) PermissionCatalogue t
      (sort (remdups (map pe_Key (ListPermissions (wd_db w))))) r2 w3 = (Inr rep, w4)"
  shows "booted (wd_db w4)" "authz_typed (wd_db w4)"
    "pe_Key ` set (db_permissions (wd_db w4)) = pe_Key ` set (db_permissions (wd_db w)) \<union> pm_Key ` set PermissionCatalogue"
    "\<exists>rs gs. wd_db w4 = (wd_db w)\<lparr>db_permissions := db_permissions (wd_db w4),
       db_roles := db_roles (wd_db w) @ rs, db_role_permissions := db_role_permissions (wd_db w) @ gs\<rparr>"
proof -
  let ?K = "{k \<in> pe_Key ` set (ListPermissions (wd_db w)). retired (ListPermissions (wd_db w)) PermissionCatalogue k}"
  have d: "distinct (map pe_Key (db_permissions (wd_db w)))" using typed by (simp add: authz_typed_def permissions_typed_def)
  note up = upserted_db [OF typed u]
  have seeded: "grown (wd_db w2) (wd_db w3) \<and> authz_typed (wd_db w3) \<and>
      (\<forall>b \<in> set BuiltinRoles. Some (bl_Key b) \<in> ro_Key ` set (ListRoles (wd_db w2)) \<or>
        Some (bl_Key b) \<in> ro_Key ` set (db_roles (wd_db w3)))"
    using seed_loop_db [OF s] up(1) by simp
  then obtain rs gs where db3: "wd_db w3 = (wd_db w2)\<lparr>db_roles := db_roles (wd_db w2) @ rs,
      db_role_permissions := db_role_permissions (wd_db w2) @ gs\<rparr>" unfolding grown_def by blast
  have db4: "wd_db w4 = (wd_db w3)\<lparr>db_permissions := map (stamp t ?K) (db_permissions (wd_db w3))\<rparr>"
    using orphan_loop_db [OF o] by simp
  have perms: "db_permissions (wd_db w4) = map (stamp t ?K) (db_permissions (wd_db w2))" using db4 db3 by simp
  have "ro_Key ` set (ListRoles (wd_db w2)) \<subseteq> ro_Key ` set (db_roles (wd_db w3))"
    using db3 by (auto simp: ListRoles_def)
  then have "\<forall>b \<in> set BuiltinRoles. Some (bl_Key b) \<in> ro_Key ` set (db_roles (wd_db w3))"
    using seeded by (metis subsetD)
  then have "\<forall>b \<in> set BuiltinRoles. Some (bl_Key b) \<in> ro_Key ` set (db_roles (wd_db w4))"
    using db4 by simp
  then show "booted (wd_db w4)" unfolding booted_def perms
    using stamped_live [OF d ListPermissions_sel(1) ListPermissions_sel(2) [OF d] up(3), of t] by simp
  show "authz_typed (wd_db w4)" using map_stamp_typed [of "wd_db w3"] seeded db4 by simp
  show "pe_Key ` set (db_permissions (wd_db w4)) =
      pe_Key ` set (db_permissions (wd_db w)) \<union> pm_Key ` set PermissionCatalogue"
    unfolding perms using up(3) by (auto simp: image_Un image_image)
  show "\<exists>rs gs. wd_db w4 = (wd_db w)\<lparr>db_permissions := db_permissions (wd_db w4),
       db_roles := db_roles (wd_db w) @ rs, db_role_permissions := db_role_permissions (wd_db w) @ gs\<rparr>"
  proof -
    obtain ps where "wd_db w2 = (wd_db w)\<lparr>db_permissions := ps\<rparr>" using up(2) by blast
    then have "wd_db w4 = (wd_db w)\<lparr>db_permissions := db_permissions (wd_db w4),
        db_roles := db_roles (wd_db w) @ rs, db_role_permissions := db_role_permissions (wd_db w) @ gs\<rparr>"
      using db3 db4 by simp
    then show ?thesis by blast
  qed
qed

lemma booted_live: "booted db \<Longrightarrow>
    (\<exists>r \<in> set (db_permissions db). pe_Key r = key \<and> pe_OrphanedAt r = None) \<longleftrightarrow> key \<in> pm_Key ` set PermissionCatalogue"
proof -
  assume "booted db"
  then have "pe_Key ` {r \<in> set (db_permissions db). pe_OrphanedAt r = None} = pm_Key ` set PermissionCatalogue"
    by (simp add: booted_def image_image)
  moreover have "(\<exists>r \<in> set (db_permissions db). pe_Key r = key \<and> pe_OrphanedAt r = None) \<longleftrightarrow>
      key \<in> pe_Key ` {r \<in> set (db_permissions db). pe_OrphanedAt r = None}" by blast
  ultimately show ?thesis by simp
qed

lemma reconcile_tx_boots:
  assumes run: "reconcile_tx env t required w = (Inr rep, w')" and typed: "authz_typed (wd_db w)"
  shows "booted (wd_db w') \<and> authz_typed (wd_db w') \<and>
    pe_Key ` set (db_permissions (wd_db w')) = pe_Key ` set (db_permissions (wd_db w)) \<union> pm_Key ` set PermissionCatalogue \<and>
    set required \<subseteq> pm_Key ` set PermissionCatalogue \<and>
    (\<exists>rs gs. wd_db w' = (wd_db w)\<lparr>db_permissions := db_permissions (wd_db w'),
       db_roles := db_roles (wd_db w) @ rs, db_role_permissions := db_role_permissions (wd_db w) @ gs\<rparr>)"
proof -
  let ?w = "w\<lparr>wd_stmts := Suc (wd_stmts w)\<rparr>"
  obtain r1 w2 r2 w3 w4 where u: "upsertCatalogue env (ListPermissions (wd_db ?w)) PermissionCatalogue boot_report0 ?w = (Inr r1, w2)"
    and s: "seed_loop env t (ListRoles (wd_db w2)) BuiltinRoles r1 (w2\<lparr>wd_stmts := Suc (wd_stmts w2)\<rparr>) = (Inr r2, w3)"
    and o: "orphan_loop env (ListPermissions (wd_db ?w)) PermissionCatalogue t
      (sort (remdups (map pe_Key (ListPermissions (wd_db ?w))))) r2 w3 = (Inr rep, w4)"
    and q: "requireKeys env required w4 = (Inr (), w')"
    by (rule reconcile_tx_stages [OF run]) simp
  have t: "authz_typed (wd_db ?w)" using typed by simp
  note db = stages_db [OF t u s o]
  have "wd_db w' = wd_db w4" "set required \<subseteq> pm_Key ` set PermissionCatalogue"
    using requireKeys_run [OF q] booted_live [OF db(1)] by auto
  then show ?thesis using db by simp
qed

section \<open>Another boot\<close>

lemma upsertCatalogue_idle: "(\<forall>p \<in> set ps. \<not> stale rows p) \<Longrightarrow> upsertCatalogue env rows ps rep w = (Inr rep, w)"
  by (induction ps) (auto simp: retA_def stale_def Let_def split: option.splits)

lemma seed_loop_idle: "(\<forall>b \<in> set bs. Some (bl_Key b) \<in> ro_Key ` set rows) \<Longrightarrow>
    seed_loop env t rows bs rep w = (Inr rep, w)"
  by (induction bs) (auto simp: retA_def)

definition uncounted :: "boot_report \<Rightarrow> bool" where
  "uncounted rep \<longleftrightarrow> rep_Inserted rep = 0 \<and> rep_Updated rep = 0 \<and> rep_Restored rep = [] \<and>
     rep_RolesSeeded rep = [] \<and> rep_GrantsSeeded rep = 0"

lemma orphan_loop_uncounted: "orphan_loop env rows cat t keys rep w = (Inr rep', w') \<Longrightarrow> uncounted rep \<Longrightarrow> uncounted rep'"
  by (induction keys arbitrary: rep w)
    (auto simp: act_simps Let_def uncounted_def elim!: bindA_E split: if_splits)

lemma reconcile_tx_idle:
  assumes run: "reconcile_tx env t required w = (Inr rep, w')" and typed: "authz_typed (wd_db w)" and b: "booted (wd_db w)"
  shows "wd_db w' = wd_db w \<and> uncounted rep"
proof -
  define rows where "rows = ListPermissions (wd_db w)"
  define w1 where "w1 = w\<lparr>wd_stmts := Suc (wd_stmts w)\<rparr>"
  then have w1: "wd_db w1 = wd_db w" by simp
  obtain r1 w2 r2 w3 w4 where u: "upsertCatalogue env rows PermissionCatalogue boot_report0 w1 = (Inr r1, w2)"
    and s: "seed_loop env t (ListRoles (wd_db w2)) BuiltinRoles r1 (w2\<lparr>wd_stmts := Suc (wd_stmts w2)\<rparr>) = (Inr r2, w3)"
    and o: "orphan_loop env rows PermissionCatalogue t (sort (remdups (map pe_Key rows))) r2 w3 = (Inr rep, w4)"
    and q: "requireKeys env required w4 = (Inr (), w')"
    using reconcile_tx_stages [OF run, folded rows_def w1_def] by blast
  have d: "distinct (map pe_Key (db_permissions (wd_db w)))" using typed by (simp add: authz_typed_def permissions_typed_def)
  note rows = ListPermissions_sel(1) [of "wd_db w", folded rows_def] ListPermissions_sel(2) [OF d, folded rows_def]
  have live: "{r \<in> set rows. pe_OrphanedAt r = None} = toParams ` set PermissionCatalogue"
    using b rows(1) by (simp add: booted_def)
  have fresh: "\<not> stale rows p" if "p \<in> set PermissionCatalogue" for p
  proof -
    have "toParams p \<in> set rows" using live that by blast
    then have "existing rows (pm_Key p) = Some (toParams p)" using existing_mem [OF rows(2), of "toParams p"] by simp
    then show ?thesis by (simp add: stale_def)
  qed
  have r1: "r1 = boot_report0" "w2 = w1" using u upsertCatalogue_idle [of PermissionCatalogue rows] fresh by auto
  have "\<forall>b \<in> set BuiltinRoles. Some (bl_Key b) \<in> ro_Key ` set (ListRoles (wd_db w2))"
    using b w1 r1 by (simp add: booted_def ListRoles_def)
  then have r2: "r2 = r1" "w3 = w2\<lparr>wd_stmts := Suc (wd_stmts w2)\<rparr>" using s seed_loop_idle by (metis Pair_inject sum.inject(2))+
  have none: "\<not> retired rows PermissionCatalogue k" if mem: "k \<in> pe_Key ` set rows" for k
  proof
    assume k: "retired rows PermissionCatalogue k"
    obtain row where row: "row \<in> set rows" "pe_Key row = k" using mem by blast
    then have "pe_OrphanedAt row = None" using k existing_mem [OF rows(2) row(1)] by (simp add: retired_def)
    then have "row \<in> toParams ` set PermissionCatalogue" using live row by blast
    then show False using k row by (auto simp: retired_def)
  qed
  then have "{k \<in> set (sort (remdups (map pe_Key rows))). retired rows PermissionCatalogue k} = {}" by auto
  from orphan_loop_db [OF o, unfolded this] have "wd_db w4 = wd_db w3" by simp
  then have "wd_db w' = wd_db w" using requireKeys_run [OF q] r2 r1 w1 by simp
  moreover have "uncounted rep"
    by (rule orphan_loop_uncounted [OF o]) (simp add: r2 r1 boot_report0_def uncounted_def)
  ultimately show ?thesis by blast
qed

lemma Reconcile_Inr:
  assumes "Reconcile store env required w = (Inr rep, w')"
  shows "\<exists>w1 w2. wd_db w1 = wd_db w \<and> reconcile_tx env (ev_Now env (wd_reads w)) required w1 = (Inr rep, w2) \<and> wd_db w' = wd_db w2"
proof -
  have run: "Tx env (reconcile_tx env (ev_Now env (wd_reads w)) required) (w\<lparr>wd_reads := Suc (wd_reads w)\<rparr>) = (Inr rep, w')"
    using assms unfolding Reconcile_def by (auto simp: act_simps split: if_splits)
  show ?thesis by (rule Tx_Inr [OF run]) auto
qed

section \<open>A boot goes through\<close>

lemma quiet_exec: "quiet env \<Longrightarrow> f (wd_db w) = Inr db \<Longrightarrow>
    exec env f w = (Inr (), w\<lparr>wd_stmts := Suc (wd_stmts w), wd_db := db\<rparr>)"
  by (simp add: exec_eq quiet_def)

lemma quiet_query: "quiet env \<Longrightarrow> f (wd_db w) = Inr x \<Longrightarrow>
    query env f w = (Inr x, w\<lparr>wd_stmts := Suc (wd_stmts w)\<rparr>)"
  by (simp add: query_eq quiet_def)

lemma quiet_bind_exec: "quiet env \<Longrightarrow> f (wd_db w) = Inr db \<Longrightarrow>
    bindA (exec env f) k w = k () (w\<lparr>wd_stmts := Suc (wd_stmts w), wd_db := db\<rparr>)"
  by (simp add: bindA_def quiet_exec)

lemma upsertCatalogue_runs: "quiet env \<Longrightarrow> \<exists>rep' w'. upsertCatalogue env rows ps rep w = (Inr rep', w')"
proof (induction ps arbitrary: rep w)
  case (Cons p ps)
  have put: "\<exists>rep' w'. bindA (exec env (UpsertPermission (toParams p))) (\<lambda>_. upsertCatalogue env rows ps rep1) w = (Inr rep', w')" for rep1
    unfolding quiet_bind_exec [OF Cons.prems UpsertPermission_toParams] by (rule Cons.IH [OF Cons.prems])
  show ?case using put Cons by (simp add: Let_def split: option.splits)
qed (simp add: retA_def)

lemma orphan_loop_runs: "quiet env \<Longrightarrow> \<exists>rep' w'. orphan_loop env rows cat t keys rep w = (Inr rep', w')"
proof (induction keys arbitrary: rep w)
  case (Cons key keys)
  have put: "\<exists>rep' w'. bindA (exec env (\<lambda>db. Inr (OrphanPermission t key db))) (\<lambda>_. orphan_loop env rows cat t keys rep1) w = (Inr rep', w')" for rep1
    unfolding quiet_bind_exec [OF Cons.prems refl] by (rule Cons.IH [OF Cons.prems])
  show ?case using put Cons by (auto simp add: Let_def split: option.splits)
qed (simp add: retA_def)

lemma grants_run:
  assumes "quiet env" and "distinct keys" and "k \<in> ro_ID ` set (db_roles (wd_db w))"
    and "\<forall>key \<in> set keys. key \<in> pe_Key ` set (db_permissions (wd_db w)) \<and>
      \<lparr>rp_RoleID = k, rp_PermissionKey = key\<rparr> \<notin> set (db_role_permissions (wd_db w))"
  shows "\<exists>w'. forA (\<lambda>key. exec env (InsertRolePermission \<lparr>rp_RoleID = k, rp_PermissionKey = key\<rparr>)) keys w = (Inr (), w')"
  using assms
proof (induction keys arbitrary: w)
  case (Cons key keys)
  let ?g = "\<lparr>rp_RoleID = k, rp_PermissionKey = key\<rparr>"
  let ?db = "(wd_db w)\<lparr>db_role_permissions := db_role_permissions (wd_db w) @ [?g]\<rparr>"
  have "InsertRolePermission ?g (wd_db w) = Inr ?db"
    using Cons.prems by (simp add: InsertRolePermission_def grant_legal_def)
  note step = quiet_exec [OF Cons.prems(1), where f = "InsertRolePermission ?g" and w = w, OF this]
  have "\<exists>w'. forA (\<lambda>key. exec env (InsertRolePermission \<lparr>rp_RoleID = k, rp_PermissionKey = key\<rparr>)) keys
      (w\<lparr>wd_stmts := Suc (wd_stmts w), wd_db := ?db\<rparr>) = (Inr (), w')"
    by (rule Cons.IH) (use Cons.prems in auto)
  then show ?case by (simp add: bindA_def step)
qed (simp add: retA_def)

text \<open>What a built-in role takes to be seeded.\<close>

definition role_free :: "role \<Rightarrow> database \<Rightarrow> bool" where
  "role_free b db \<longleftrightarrow> Some (bl_Key b) \<notin> ro_Key ` set (db_roles db) \<and> bl_ID b \<notin> ro_ID ` set (db_roles db) \<and>
     bl_NameNorm b \<notin> ro_NameNorm ` {r \<in> set (db_roles db). ro_DeletedAt r = None}"

definition seedable :: "role \<Rightarrow> database \<Rightarrow> bool" where
  "seedable b db \<longleftrightarrow> IsAppliesTo (bl_AppliesTo b) \<and> distinct (bl_Permissions b) \<and>
     set (bl_Permissions b) \<subseteq> pe_Key ` set (db_permissions db)"

lemma seed_role_runs:
  assumes "quiet env" "authz_typed (wd_db w)" "role_free b (wd_db w)" "seedable b (wd_db w)"
  shows "\<exists>w'. seed_role env t b w = (Inr (), w')"
proof -
  let ?db = "(wd_db w)\<lparr>db_roles := db_roles (wd_db w) @ [role_params t b]\<rparr>"
  have "InsertRole (role_params t b) (wd_db w) = Inr ?db"
    using assms(3,4) by (auto simp: InsertRole_def Let_def role_legal_def role_params_def role_free_def seedable_def
        bool01_def unique_when_def image_iff)
  note step = quiet_exec [OF assms(1), where f = "InsertRole (role_params t b)" and w = w, OF this]
  have "\<forall>g \<in> set (db_role_permissions (wd_db w)). rp_RoleID g \<noteq> bl_ID b"
    using assms(2,3) by (force simp: authz_typed_def grants_typed_def role_free_def)
  then have "\<exists>w'. forA (\<lambda>key. exec env (InsertRolePermission \<lparr>rp_RoleID = bl_ID b, rp_PermissionKey = key\<rparr>))
      (bl_Permissions b) (w\<lparr>wd_stmts := Suc (wd_stmts w), wd_db := ?db\<rparr>) = (Inr (), w')"
    using assms(4) by (intro grants_run [OF assms(1)]) (auto simp: seedable_def role_params_def)
  then show ?thesis by (simp add: seed_role_def bindA_def step)
qed

lemma seed_role_roles:
  assumes "seed_role env t b w = (Inr (), w')"
  shows "db_roles (wd_db w') = db_roles (wd_db w) @ [role_params t b]"
proof -
  let ?P = "\<lambda>v. db_roles (wd_db v) = db_roles (wd_db w) @ [role_params t b]"
  obtain w1 where w1: "exec env (InsertRole (role_params t b)) w = (Inr (), w1)"
    and rest: "forA (\<lambda>key. exec env (InsertRolePermission \<lparr>rp_RoleID = bl_ID b, rp_PermissionKey = key\<rparr>))
      (bl_Permissions b) w1 = (Inr (), w')"
    using assms(1) unfolding seed_role_def by (auto elim: bindA_E)
  have "?P w1" using w1 by (auto simp: exec_eq role_params_def dest!: InsertRole_Inr)
  then show ?thesis by (rule forA_invariant [OF rest]) (auto simp: exec_eq dest!: InsertRolePermission_Inr)
qed

lemma seed_loop_runs:
  assumes "quiet env" "authz_typed (wd_db w)" "\<forall>b \<in> set bs. seedable b (wd_db w)"
    and "\<forall>b \<in> set bs. Some (bl_Key b) \<in> ro_Key ` set rows \<or> role_free b (wd_db w)"
    and "distinct (map bl_ID bs)" "distinct (map bl_Key bs)" "distinct (map bl_NameNorm bs)"
  shows "\<exists>rep' w'. seed_loop env t rows bs rep w = (Inr rep', w')"
  using assms
proof (induction bs arbitrary: rep w)
  case (Cons b bs)
  show ?case
  proof (cases "Some (bl_Key b) \<in> ro_Key ` set rows")
    case True
    then show ?thesis using Cons by simp
  next
    case False
    have free: "role_free b (wd_db w)" using Cons.prems(4) False by simp
    have "seedable b (wd_db w)" using Cons.prems(3) by simp
    then obtain w1 where s: "seed_role env t b w = (Inr (), w1)"
      using seed_role_runs [OF Cons.prems(1,2) free] by blast
    note seeded = seed_role_db [OF s Cons.prems(2)] and roles = seed_role_roles [OF s]
    have perms: "db_permissions (wd_db w1) = db_permissions (wd_db w)" using seeded by (auto simp: grown_def)
    have "role_free c (wd_db w1)" if c: "c \<in> set bs" "role_free c (wd_db w)" for c
    proof -
      have "bl_ID c \<noteq> bl_ID b" "bl_Key c \<noteq> bl_Key b" "bl_NameNorm c \<noteq> bl_NameNorm b"
        using Cons.prems(5-7) imageI [OF c(1), of bl_ID] imageI [OF c(1), of bl_Key] imageI [OF c(1), of bl_NameNorm]
        by auto
      then show ?thesis using c(2) unfolding role_free_def roles by (auto simp: role_params_def)
    qed
    then have "\<forall>c \<in> set bs. Some (bl_Key c) \<in> ro_Key ` set rows \<or> role_free c (wd_db w1)"
      using Cons.prems(4) by auto
    moreover have "\<forall>c \<in> set bs. seedable c (wd_db w1)" using Cons.prems(3) perms by (simp add: seedable_def)
    ultimately have "\<exists>rep' w'. seed_loop env t rows bs rep1 w1 = (Inr rep', w')" for rep1
      using Cons.IH [of w1 rep1] Cons.prems(1,5-7) seeded by simp
    then show ?thesis using False by (simp add: bindA_def s)
  qed
qed (simp add: retA_def)

lemma missing_keys_runs: "quiet env \<Longrightarrow> \<exists>missing w'. missing_keys env keys w = (Inr missing, w')"
proof (induction keys arbitrary: w)
  case (Cons key keys)
  let ?w = "w\<lparr>wd_stmts := Suc (wd_stmts w)\<rparr>"
  obtain m w' where "missing_keys env keys ?w = (Inr m, w')" using Cons by blast
  then show ?case
    by (simp add: bindA_def quiet_query [OF Cons.prems] retA_def)
qed (simp add: retA_def)

lemma requireKeys_runs:
  assumes "quiet env" and "permissions_typed (db_permissions (wd_db w))"
    and "\<forall>key \<in> set required. \<exists>r \<in> set (db_permissions (wd_db w)). pe_Key r = key \<and> pe_OrphanedAt r = None"
  shows "\<exists>w'. requireKeys env required w = (Inr (), w')"
proof -
  obtain m w' where m: "missing_keys env required w = (Inr m, w')" using missing_keys_runs [OF assms(1)] by blast
  have found: "\<exists>r. q_GetPermission key (wd_db w) = Some r \<and> pe_OrphanedAt r = None" if key: "key \<in> set required" for key
  proof -
    obtain r where r: "r \<in> set (db_permissions (wd_db w))" "pe_Key r = key" "pe_OrphanedAt r = None"
      using bspec [OF assms(3) key] by (elim bexE conjE)
    have "existing (db_permissions (wd_db w)) (pe_Key r) = Some r"
      using existing_mem assms(2) r(1) by (simp add: permissions_typed_def)
    then show ?thesis using r by (simp add: q_GetPermission_def existing_def)
  qed
  have "filter (\<lambda>key. case q_GetPermission key (wd_db w) of None \<Rightarrow> True | Some r \<Rightarrow> pe_OrphanedAt r \<noteq> None) required = []"
    unfolding filter_empty_conv
  proof (intro ballI)
    fix key assume "key \<in> set required"
    then obtain r where "q_GetPermission key (wd_db w) = Some r" "pe_OrphanedAt r = None" using found by blast
    then show "\<not> (case q_GetPermission key (wd_db w) of None \<Rightarrow> True | Some r \<Rightarrow> pe_OrphanedAt r \<noteq> None)" by simp
  qed
  then have "m = []" using missing_keys_run [OF m] by simp
  then show ?thesis by (simp add: requireKeys_def bindA_def m liftA_def)
qed

lemma reconcile_tx_runs:
  assumes calm: "quiet env" and typed: "authz_typed (wd_db w)"
    and free: "\<forall>b \<in> set BuiltinRoles. Some (bl_Key b) \<in> ro_Key ` set (db_roles (wd_db w)) \<or> role_free b (wd_db w)"
    and required: "set required \<subseteq> pm_Key ` set PermissionCatalogue"
  shows "\<exists>rep w'. reconcile_tx env t required w = (Inr rep, w')"
proof -
  let ?w = "w\<lparr>wd_stmts := Suc (wd_stmts w)\<rparr>"
  have t: "authz_typed (wd_db ?w)" using typed by simp
  obtain r1 w2 where u: "upsertCatalogue env (ListPermissions (wd_db ?w)) PermissionCatalogue boot_report0 ?w = (Inr r1, w2)"
    using upsertCatalogue_runs [OF calm] by blast
  note up = upserted_db [OF t u]
  let ?w2 = "w2\<lparr>wd_stmts := Suc (wd_stmts w2)\<rparr>"
  have shipped: "pm_Key ` set PermissionCatalogue \<subseteq> pe_Key ` set (db_permissions (wd_db w2))"
    unfolding up(3) by (auto simp: image_Un image_image)
  have "\<exists>r2 w3. seed_loop env t (ListRoles (wd_db w2)) BuiltinRoles r1 ?w2 = (Inr r2, w3)"
  proof (rule seed_loop_runs [OF calm])
    show "authz_typed (wd_db ?w2)" using up(1) by simp
    show "\<forall>b \<in> set BuiltinRoles. seedable b (wd_db ?w2)"
      using builtin_roles_distinct(4) roles_grant_shipped_keys shipped by (auto simp: seedable_def)
    show "\<forall>b \<in> set BuiltinRoles. Some (bl_Key b) \<in> ro_Key ` set (ListRoles (wd_db w2)) \<or> role_free b (wd_db ?w2)"
      using free up(2) by (auto simp: ListRoles_def role_free_def)
  qed (rule builtin_roles_distinct)+
  then obtain r2 w3 where s: "seed_loop env t (ListRoles (wd_db w2)) BuiltinRoles r1 ?w2 = (Inr r2, w3)" by blast
  obtain rep w4 where o: "orphan_loop env (ListPermissions (wd_db ?w)) PermissionCatalogue t
      (sort (remdups (map pe_Key (ListPermissions (wd_db ?w))))) r2 w3 = (Inr rep, w4)"
    using orphan_loop_runs [OF calm] by blast
  note db = stages_db [OF t u s o]
  have "\<forall>key \<in> set required. \<exists>r \<in> set (db_permissions (wd_db w4)). pe_Key r = key \<and> pe_OrphanedAt r = None"
    using required booted_live [OF db(1)] by blast
  then obtain w5 where q: "requireKeys env required w4 = (Inr (), w5)"
    using requireKeys_runs [OF calm, of w4] db(2) by (auto simp: authz_typed_def)
  have "reconcile_tx env t required w = (Inr rep, w5)"
    unfolding reconcile_tx_def
    by (simp add: bindA_def quiet_query [OF calm] u [simplified] seedBuiltinRoles_def s orphanRetired_def
        o [simplified] q retA_def)
  then show ?thesis by blast
qed

lemma Tx_runs: "quiet env \<Longrightarrow> (\<And>w. wd_db w = db \<Longrightarrow> \<exists>x w'. f w = (Inr x, w')) \<Longrightarrow> wd_db w = db \<Longrightarrow>
    \<exists>x w'. Tx env f w = (Inr x, w')"
proof -
  assume calm: "quiet env" and f: "\<And>w. wd_db w = db \<Longrightarrow> \<exists>x w'. f w = (Inr x, w')" and w: "wd_db w = db"
  obtain x w' where "f (w\<lparr>wd_stmts := Suc (wd_stmts w)\<rparr>) = (Inr x, w')" using f [of "w\<lparr>wd_stmts := Suc (wd_stmts w)\<rparr>"] w by auto
  then show ?thesis by (simp add: Tx_def quiet_query [OF calm])
qed

lemma Reconcile_runs:
  assumes "quiet env" "authz_typed (wd_db w)"
    and "\<forall>b \<in> set BuiltinRoles. Some (bl_Key b) \<in> ro_Key ` set (db_roles (wd_db w)) \<or> role_free b (wd_db w)"
    and "set required \<subseteq> pm_Key ` set PermissionCatalogue"
  shows "\<exists>rep w'. Reconcile True env required w = (Inr rep, w')"
proof -
  have "\<exists>rep w'. Tx env (reconcile_tx env t required) w1 = (Inr rep, w')" if "wd_db w1 = wd_db w" for t w1
    using assms by (intro Tx_runs [OF assms(1) _ that] reconcile_tx_runs) simp_all
  then show ?thesis by (simp add: Reconcile_def bindA_def now_def)
qed

lemma Reconcile_boots:
  assumes "Reconcile store env required w = (Inr rep, w')" "authz_typed (wd_db w)"
  shows "booted (wd_db w') \<and> authz_typed (wd_db w')"
proof -
  obtain w1 w2 where "wd_db w1 = wd_db w" "wd_db w' = wd_db w2"
    "reconcile_tx env (ev_Now env (wd_reads w)) required w1 = (Inr rep, w2)"
    using Reconcile_Inr [OF assms(1)] by blast
  then show ?thesis using reconcile_tx_boots [of env _ required w1 rep w2] assms(2) by simp
qed

section \<open>Properties\<close>

text \<open>C31: a boot ships the catalogue. From a database that keeps the schema's constraints, a reconciliation
  that succeeds leaves a database that keeps them, in which the live permissions are exactly the
  catalogue, row for row, every built-in role exists, no permission key is gone, roles and grants that
  were there are untouched and no assignment or other table changes, and every required key is
  shipped; one that fails leaves the database as it was.\<close>

theorem boot_ships_the_catalogue:
  assumes "authz_typed (wd_db w)"
  shows "case Reconcile store env required w of
      (Inr rep, w') \<Rightarrow> booted (wd_db w') \<and> authz_typed (wd_db w') \<and>
        pe_Key ` set (db_permissions (wd_db w')) = pe_Key ` set (db_permissions (wd_db w)) \<union> pm_Key ` set PermissionCatalogue \<and>
        set required \<subseteq> pm_Key ` set PermissionCatalogue \<and>
        (\<exists>rs gs. wd_db w' = (wd_db w)\<lparr>db_permissions := db_permissions (wd_db w'),
           db_roles := db_roles (wd_db w) @ rs, db_role_permissions := db_role_permissions (wd_db w) @ gs\<rparr>)
    | (Inl e, w') \<Rightarrow> wd_db w' = wd_db w"
proof (cases "Reconcile store env required w")
  case (Pair r w')
  show ?thesis
  proof (cases r)
    case (Inl e)
    then have "Reconcile store env required w = (Inl e, w')" using Pair by simp
    then have "wd_db w' = wd_db w"
      using Tx_Inl [of env "reconcile_tx env (ev_Now env (wd_reads w)) required" "w\<lparr>wd_reads := Suc (wd_reads w)\<rparr>" e w']
      by (auto simp: Reconcile_def liftA_def bindA_def now_def split: if_splits)
    then show ?thesis using Pair Inl by simp
  next
    case (Inr rep)
    then obtain w1 w2 where "wd_db w1 = wd_db w" "wd_db w' = wd_db w2"
      "reconcile_tx env (ev_Now env (wd_reads w)) required w1 = (Inr rep, w2)"
      using Reconcile_Inr [of store env required w rep w'] Pair by blast
    then show ?thesis using reconcile_tx_boots [of env _ required w1 rep w2] assms Pair Inr by simp
  qed
qed

text \<open>C32: a boot that follows a successful one changes nothing: whatever the clock and the faults of the
  second are, if it succeeds the database is the one it found and it reports no insert, update, restore
  or seed.\<close>

theorem second_boot_changes_nothing:
  assumes "authz_typed (wd_db w)" and "Reconcile store env required w = (Inr rep, w1)"
    and "Reconcile store' env' required' (w1\<lparr>wd_stmts := n, wd_reads := k\<rparr>) = (Inr rep', w2)"
  shows "wd_db w2 = wd_db w1 \<and> rep_Inserted rep' = 0 \<and> rep_Updated rep' = 0 \<and> rep_Restored rep' = [] \<and>
    rep_RolesSeeded rep' = [] \<and> rep_GrantsSeeded rep' = 0"
proof -
  obtain v1 v2 where "wd_db v1 = wd_db w" "wd_db w1 = wd_db v2"
    "reconcile_tx env (ev_Now env (wd_reads w)) required v1 = (Inr rep, v2)"
    using Reconcile_Inr [OF assms(2)] by blast
  then have b: "booted (wd_db w1)" "authz_typed (wd_db w1)"
    using reconcile_tx_boots [of env _ required v1 rep v2] assms(1) by auto
  obtain u1 u2 t where "wd_db u1 = wd_db w1" "wd_db w2 = wd_db u2"
    "reconcile_tx env' t required' u1 = (Inr rep', u2)"
    using Reconcile_Inr [OF assms(3)] by auto
  then show ?thesis using reconcile_tx_idle [of env' t required' u1 rep' u2] b by (simp add: uncounted_def)
qed

text \<open>C33: a boot goes through: from a database that keeps the schema's constraints, when no statement
  fails, each built-in role is there already or its id, key and name are free, and the routes require
  only shipped keys, the reconciliation returns a report.\<close>

theorem boot_succeeds:
  assumes "quiet env" and "authz_typed (wd_db w)" and "set required \<subseteq> pm_Key ` set PermissionCatalogue"
    and "\<forall>b \<in> set BuiltinRoles. Some (bl_Key b) \<in> ro_Key ` set (db_roles (wd_db w)) \<or> role_free b (wd_db w)"
  shows "\<exists>rep w'. Reconcile True env required w = (Inr rep, w')"
  by (rule Reconcile_runs [OF assms(1,2,4,3)])

section \<open>Witnesses\<close>

lemma genesis_boots: "authz_typed genesis" "role_free b genesis"
  by (simp_all add: genesis_def authz_typed_def permissions_typed_def roles_typed_def grants_typed_def
      assignments_typed_def role_free_def)

lemma genesis_boot_runs: "wd_db w = genesis \<Longrightarrow> \<exists>rep w'. Reconcile True sample_env [] w = (Inr rep, w')"
  using Reconcile_runs [OF sample_env_facts(1), of w "[]"] genesis_boots by simp

lemma ledger_key_shipped: "set [pm_Key (hd PermissionCatalogue)] \<subseteq> pm_Key ` set PermissionCatalogue"
  by code_simp

theorem boot_succeeds_witness:
  "\<exists>rep w'. Reconcile True sample_env [pm_Key (hd PermissionCatalogue)] (sample_world\<lparr>wd_db := genesis\<rparr>) = (Inr rep, w')"
  using boot_succeeds [OF sample_env_facts(1) _ ledger_key_shipped] genesis_boots by simp

theorem boot_ships_the_catalogue_witness:
  "\<exists>rep w'. Reconcile True sample_env [] (sample_world\<lparr>wd_db := genesis\<rparr>) = (Inr rep, w') \<and>
     booted (wd_db w') \<and> authz_typed (wd_db w')"
proof -
  let ?w = "sample_world\<lparr>wd_db := genesis\<rparr>"
  have t: "authz_typed (wd_db ?w)" by (simp add: genesis_boots)
  obtain rep w' where run: "Reconcile True sample_env [] ?w = (Inr rep, w')"
    using genesis_boot_runs [of ?w] by auto
  from boot_ships_the_catalogue [OF t, where store = True and env = sample_env and required = "[]"] run show ?thesis by auto
qed

theorem second_boot_changes_nothing_witness:
  "\<exists>rep w1 rep' w2. Reconcile True sample_env [] (sample_world\<lparr>wd_db := genesis\<rparr>) = (Inr rep, w1) \<and>
     Reconcile True sample_env [] w1 = (Inr rep', w2) \<and> wd_db w2 = wd_db w1"
proof -
  let ?w = "sample_world\<lparr>wd_db := genesis\<rparr>"
  have t: "authz_typed (wd_db ?w)" by (simp add: genesis_boots)
  obtain rep w1 where run: "Reconcile True sample_env [] ?w = (Inr rep, w1)"
    using genesis_boot_runs [of ?w] by auto
  have b: "booted (wd_db w1)" "authz_typed (wd_db w1)" using Reconcile_boots [OF run t] by blast+
  then have "\<exists>rep' w2. Reconcile True sample_env [] w1 = (Inr rep', w2)"
    by (intro Reconcile_runs [OF sample_env_facts(1) b(2)]) (auto simp: booted_def)
  then obtain rep' w2 where again: "Reconcile True sample_env [] w1 = (Inr rep', w2)" by blast
  moreover have "w1\<lparr>wd_stmts := wd_stmts w1, wd_reads := wd_reads w1\<rparr> = w1" by simp
  ultimately have "wd_db w2 = wd_db w1"
    using second_boot_changes_nothing [OF t run, where store' = True and env' = sample_env and required' = "[]"
        and n = "wd_stmts w1" and k = "wd_reads w1"] by simp
  then show ?thesis using run again by blast
qed

end
