(* ===== verification/AuthStore.thy ===== *)
theory AuthStore
  imports Tx
begin

text \<open>
  The generated statements over the identity tables (internal/store/sqlitegen/auth.sql.go), with the
  constraints of 000009_auth_identity_and_credentials.sql, and the closed lists those are generated
  from (internal/auth/appuser/kinds, serviceaccount/kinds, useridentity/kinds). The last section is what
  the constraints say of a whole database.
\<close>

section \<open>Closed lists\<close>

definition UserStatePending :: string where "UserStatePending = ''pending''"
definition UserStateActive :: string where "UserStateActive = ''active''"
definition UserStateSuspended :: string where "UserStateSuspended = ''suspended''"
definition UserStateDisabled :: string where "UserStateDisabled = ''disabled''"

definition UserStates :: "string list" where
  "UserStates = [UserStatePending, UserStateActive, UserStateSuspended, UserStateDisabled]"

definition ServiceAccountStates :: "string list" where
  "ServiceAccountStates = [UserStateActive, UserStateDisabled]"

definition Providers :: "string list" where "Providers = [''local'', ''discord'', ''oidc'']"

definition AlgoArgon2id :: string where "AlgoArgon2id = ''argon2id''"

definition PasswordAlgos :: "string list" where "PasswordAlgos = [AlgoArgon2id]"

section \<open>Reads\<close>

definition GetAppUser :: "ulid \<Rightarrow> database \<Rightarrow> app_user_row option" where
  "GetAppUser k db = find_row (\<lambda>u. us_ID u = k) (db_users db)"

text \<open>The joins: a credential and the row it references.\<close>

definition ResolveSession :: "string \<Rightarrow> database \<Rightarrow> (session_row \<times> app_user_row) option" where
  "ResolveSession hash db =
     find_row (\<lambda>(s, u). se_TokenHash s = hash \<and> us_ID u = se_UserID s) (List.product (db_sessions db) (db_users db))"

definition ResolveAPIToken :: "string \<Rightarrow> database \<Rightarrow> (api_token_row \<times> service_account_row) option" where
  "ResolveAPIToken prefix db =
     find_row (\<lambda>(t, a). ak_Prefix t = prefix \<and> sv_ID a = ak_ServiceAccountID t)
       (List.product (db_tokens db) (db_service_accounts db))"

section \<open>Inserts\<close>

text \<open>The columns a statement fills in itself are set on the row it is given.\<close>

definition user_legal :: "app_user_row \<Rightarrow> database \<Rightarrow> bool" where
  "user_legal u db \<longleftrightarrow> us_ID u \<notin> us_ID ` set (db_users db) \<and> us_State u \<in> set UserStates \<and>
     (us_MfaRequired u = 0 \<or> us_MfaRequired u = 1) \<and>
     us_UsernameNorm u \<notin> us_UsernameNorm ` {v \<in> set (db_users db). us_DeletedAt v = None} \<and>
     unique_when us_EmailNorm (\<lambda>v. us_DeletedAt v = None) (db_users db) u"

definition InsertAppUser :: "app_user_row \<Rightarrow> database \<Rightarrow> database res" where
  "InsertAppUser u db = (let u' = u\<lparr>us_EmailVerifiedAt := None, us_Timezone := None, us_Locale := None,
       us_SessionEpoch := 0, us_LastLoginAt := None, us_FailedLogins := 0, us_LockedUntilAt := None,
       us_MfaTotpSecretEnc := None, us_MfaEnrolledAt := None, us_MfaRequired := 0, us_DeletedAt := None\<rparr> in
     if user_legal u' db then Inr (db\<lparr>db_users := db_users db @ [u']\<rparr>) else Inl constraint_failed)"

definition identity_legal :: "user_identity_row \<Rightarrow> database \<Rightarrow> bool" where
  "identity_legal i db \<longleftrightarrow> ud_ID i \<notin> ud_ID ` set (db_identities db) \<and>
     ud_UserID i \<in> us_ID ` set (db_users db) \<and> ud_Provider i \<in> set Providers \<and>
     (case ud_PasswordAlgo i of None \<Rightarrow> True | Some a \<Rightarrow> a \<in> set PasswordAlgos) \<and>
     (ud_MustReset i = 0 \<or> ud_MustReset i = 1) \<and>
     (ud_Provider i, ud_ProviderKey i, ud_Subject i) \<notin>
       (\<lambda>j. (ud_Provider j, ud_ProviderKey j, ud_Subject j)) ` set (db_identities db)"

definition InsertUserIdentity :: "user_identity_row \<Rightarrow> database \<Rightarrow> database res" where
  "InsertUserIdentity i db = (let i' = i\<lparr>ud_AccessTokenEnc := None, ud_RefreshTokenEnc := None,
       ud_TokenExpiresAt := None, ud_Scopes := [], ud_ProfileJSON := ''{}'', ud_LastUsedAt := None\<rparr> in
     if identity_legal i' db then Inr (db\<lparr>db_identities := db_identities db @ [i']\<rparr>) else Inl constraint_failed)"

definition session_legal :: "session_row \<Rightarrow> database \<Rightarrow> bool" where
  "session_legal s db \<longleftrightarrow> se_ID s \<notin> se_ID ` set (db_sessions db) \<and>
     se_TokenHash s \<notin> se_TokenHash ` set (db_sessions db) \<and> se_UserID s \<in> us_ID ` set (db_users db) \<and>
     (case se_IdentityID s of None \<Rightarrow> True | Some i \<Rightarrow> i \<in> ud_ID ` set (db_identities db))"

definition InsertSession :: "session_row \<Rightarrow> database \<Rightarrow> database res" where
  "InsertSession s db = (let s' = s\<lparr>se_RevokedAt := None\<rparr> in
     if session_legal s' db then Inr (db\<lparr>db_sessions := db_sessions db @ [s']\<rparr>) else Inl constraint_failed)"

definition service_account_legal :: "service_account_row \<Rightarrow> database \<Rightarrow> bool" where
  "service_account_legal a db \<longleftrightarrow> sv_ID a \<notin> sv_ID ` set (db_service_accounts db) \<and>
     sv_NameNorm a \<notin> sv_NameNorm ` set (db_service_accounts db) \<and>
     sv_OwnerUserID a \<in> us_ID ` set (db_users db) \<and> sv_CreatedBy a \<in> us_ID ` set (db_users db) \<and>
     sv_State a \<in> set ServiceAccountStates"

definition InsertServiceAccount :: "service_account_row \<Rightarrow> database \<Rightarrow> database res" where
  "InsertServiceAccount a db = (if service_account_legal a db
     then Inr (db\<lparr>db_service_accounts := db_service_accounts db @ [a]\<rparr>) else Inl constraint_failed)"

definition token_legal :: "api_token_row \<Rightarrow> database \<Rightarrow> bool" where
  "token_legal t db \<longleftrightarrow> ak_ID t \<notin> ak_ID ` set (db_tokens db) \<and> ak_Prefix t \<notin> ak_Prefix ` set (db_tokens db) \<and>
     ak_TokenHash t \<notin> ak_TokenHash ` set (db_tokens db) \<and>
     ak_ServiceAccountID t \<in> sv_ID ` set (db_service_accounts db) \<and> ak_CreatedBy t \<in> us_ID ` set (db_users db) \<and>
     (case ak_RevokedBy t of None \<Rightarrow> True | Some u \<Rightarrow> u \<in> us_ID ` set (db_users db))"

definition InsertAPIToken :: "api_token_row \<Rightarrow> database \<Rightarrow> database res" where
  "InsertAPIToken t db = (let t' = t\<lparr>ak_LastUsedAt := None, ak_LastUsedIp := [], ak_RevokedAt := None,
       ak_RevokedBy := None, ak_RevokeReason := []\<rparr> in
     if token_legal t' db then Inr (db\<lparr>db_tokens := db_tokens db @ [t']\<rparr>) else Inl constraint_failed)"

section \<open>Updates\<close>

text \<open>
  An update touches the rows with a key; \<open>change p f\<close> is that. The sum that leaves the integers is a real
  number, which a STRICT integer column refuses.
\<close>

definition change :: "('a \<Rightarrow> bool) \<Rightarrow> ('a \<Rightarrow> 'a) \<Rightarrow> 'a list \<Rightarrow> 'a list" where
  "change p f = map (\<lambda>r. if p r then f r else r)"

definition BumpSessionEpoch :: "micros \<Rightarrow> ulid \<Rightarrow> database \<Rightarrow> database res" where
  "BumpSessionEpoch updated k db =
     (if \<exists>u \<in> set (db_users db). us_ID u = k \<and> us_SessionEpoch u = max_int64 then Inl constraint_failed
      else Inr (db\<lparr>db_users := change (\<lambda>u. us_ID u = k)
        (\<lambda>u. u\<lparr>us_SessionEpoch := us_SessionEpoch u + 1, us_UpdatedAt := updated\<rparr>) (db_users db)\<rparr>))"

definition SetAppUserState :: "string \<Rightarrow> micros \<Rightarrow> ulid \<Rightarrow> database \<Rightarrow> database res" where
  "SetAppUserState state updated k db =
     (if state \<notin> set UserStates \<and> k \<in> us_ID ` set (db_users db) then Inl constraint_failed
      else Inr (db\<lparr>db_users := change (\<lambda>u. us_ID u = k)
        (\<lambda>u. u\<lparr>us_State := state, us_UpdatedAt := updated\<rparr>) (db_users db)\<rparr>))"

definition SoftDeleteAppUser :: "micros \<Rightarrow> micros \<Rightarrow> ulid \<Rightarrow> database \<Rightarrow> database" where
  "SoftDeleteAppUser deleted updated k db =
     db\<lparr>db_users := change (\<lambda>u. us_ID u = k \<and> us_DeletedAt u = None)
       (\<lambda>u. u\<lparr>us_DeletedAt := Some deleted, us_UpdatedAt := updated\<rparr>) (db_users db)\<rparr>"

definition RevokeSession :: "micros \<Rightarrow> ulid \<Rightarrow> database \<Rightarrow> database" where
  "RevokeSession t k db =
     db\<lparr>db_sessions := change (\<lambda>s. se_ID s = k \<and> se_RevokedAt s = None)
       (\<lambda>s. s\<lparr>se_RevokedAt := Some t\<rparr>) (db_sessions db)\<rparr>"

definition RevokeAPIToken :: "micros \<Rightarrow> ulid option \<Rightarrow> string \<Rightarrow> ulid \<Rightarrow> database \<Rightarrow> database res" where
  "RevokeAPIToken t who reason k db =
     (let live = (\<lambda>r. ak_ID r = k \<and> ak_RevokedAt r = None) in
      if (\<exists>r \<in> set (db_tokens db). live r) \<and>
         (case who of None \<Rightarrow> False | Some u \<Rightarrow> u \<notin> us_ID ` set (db_users db)) then Inl constraint_failed
      else Inr (db\<lparr>db_tokens := change live
        (\<lambda>r. r\<lparr>ak_RevokedAt := Some t, ak_RevokedBy := who, ak_RevokeReason := reason\<rparr>) (db_tokens db)\<rparr>))"

definition TouchSession :: "micros \<Rightarrow> micros \<Rightarrow> ulid \<Rightarrow> micros \<Rightarrow> database \<Rightarrow> database" where
  "TouchSession t idle k before db =
     db\<lparr>db_sessions := change (\<lambda>s. se_ID s = k \<and> se_LastSeenAt s <s before)
       (\<lambda>s. s\<lparr>se_LastSeenAt := t,
         se_ExpiresAt := if idle \<le>s se_AbsoluteExpiresAt s then idle else se_AbsoluteExpiresAt s\<rparr>) (db_sessions db)\<rparr>"

definition TouchAPIToken :: "micros \<Rightarrow> ulid \<Rightarrow> micros \<Rightarrow> database \<Rightarrow> database" where
  "TouchAPIToken t k before db =
     db\<lparr>db_tokens := change (\<lambda>r. ak_ID r = k \<and> (case ak_LastUsedAt r of None \<Rightarrow> True | Some u \<Rightarrow> u <s before))
       (\<lambda>r. r\<lparr>ak_LastUsedAt := Some t\<rparr>) (db_tokens db)\<rparr>"

section \<open>The constraints of the tables\<close>

definition auth_typed :: "database \<Rightarrow> bool" where
  "auth_typed db \<longleftrightarrow> distinct (map us_ID (db_users db)) \<and> distinct (map se_ID (db_sessions db)) \<and>
     distinct (map se_TokenHash (db_sessions db)) \<and> se_UserID ` set (db_sessions db) \<subseteq> us_ID ` set (db_users db) \<and>
     distinct (map sv_ID (db_service_accounts db)) \<and> distinct (map ak_ID (db_tokens db)) \<and>
     distinct (map ak_Prefix (db_tokens db)) \<and>
     ak_ServiceAccountID ` set (db_tokens db) \<subseteq> sv_ID ` set (db_service_accounts db)"

lemma change_map: "(\<And>r. g (f r) = g r) \<Longrightarrow> map g (change p f rows) = map g rows"
  by (simp add: change_def)

lemma change_image: "(\<And>r. g (f r) = g r) \<Longrightarrow> g ` set (change p f rows) = g ` set rows"
  using change_map [of g f p rows] by (metis set_map)

lemma change_set: "set (change p f rows) = f ` {r \<in> set rows. p r} \<union> {r \<in> set rows. \<not> p r}"
  by (auto simp: change_def)

end
