(* ===== verification/Token.thy ===== *)
theory Token
  imports Base64 Store
begin

text \<open>
  The credentials before any database: the keyring, personal access tokens and session cookies
  (internal/auth/keyring.go, token.go, session.go). HKDF, HMAC-SHA-256 and SHA-256 are parameters, and so
  are the bytes \<open>rand.Read\<close> delivers: a reading is a result, so that its failure is a branch. A nil
  keyring is None.
\<close>

section \<open>The keyring\<close>

definition RootKeyLen :: nat where "RootKeyLen = 32"
definition patPepperInfo :: string where "patPepperInfo = ''dkp/pat-pepper/v1''"
definition PepperKIDv1 :: string where "PepperKIDv1 = ''v1''"

record keyring =
  kr_patPepper :: string

definition NewKeyring :: "(string \<Rightarrow> string \<Rightarrow> string res) \<Rightarrow> string \<Rightarrow> keyring res" where
  "NewKeyring hkdf rootKey =
     (if length rootKey \<noteq> RootKeyLen then Inl ErrRootKeyLength
      else bindR (hkdf rootKey patPepperInfo) (\<lambda>pepper. Inr \<lparr>kr_patPepper = pepper\<rparr>))"

definition TokenHash :: "(string \<Rightarrow> string \<Rightarrow> string) \<Rightarrow> keyring option \<Rightarrow> string \<Rightarrow> string \<Rightarrow> string res" where
  "TokenHash hmac k kid secret =
     (case k of None \<Rightarrow> Inl ErrNoPepper
      | Some ring \<Rightarrow> if kr_patPepper ring = [] then Inl ErrNoPepper
          else if kid \<noteq> PepperKIDv1 then Inl ErrUnknownPepperKID
          else Inr (hmac (kr_patPepper ring) secret))"

definition CurrentKID :: string where "CurrentKID = PepperKIDv1"

section \<open>Personal access tokens\<close>

definition TokenScheme :: string where "TokenScheme = ''dkp_pat_''"
definition TokenPrefixBytes :: nat where "TokenPrefixBytes = 6"
definition TokenPrefixLen :: nat where "TokenPrefixLen = 8"
definition TokenSecretBytes :: nat where "TokenSecretBytes = 32"
definition TokenSecretLen :: nat where "TokenSecretLen = 43"

definition TokenLen :: nat where
  "TokenLen = length TokenScheme + TokenPrefixLen + 1 + TokenSecretLen"

record minted_token =
  mk_Plaintext :: string
  mk_Prefix :: string
  mk_Hash :: string
  mk_PepperKID :: string

definition NewToken ::
    "(string \<Rightarrow> string \<Rightarrow> string) \<Rightarrow> keyring option \<Rightarrow> string res \<Rightarrow> string res \<Rightarrow> minted_token res" where
  "NewToken hmac k read_prefix read_secret =
     bindR read_prefix (\<lambda>prefixRaw. bindR read_secret (\<lambda>secret.
       let prefix = b64_encode prefixRaw in
       bindR (TokenHash hmac k CurrentKID secret) (\<lambda>hash.
         Inr \<lparr>mk_Plaintext = TokenScheme @ prefix @ ''_'' @ b64_encode secret, mk_Prefix = prefix,
              mk_Hash = hash, mk_PepperKID = CurrentKID\<rparr>)))"

text \<open>The pair of the public prefix and the secret bytes.\<close>

definition parseToken :: "string \<Rightarrow> (string \<times> string) res" where
  "parseToken presented =
     (if length presented \<noteq> TokenLen \<or> take (length TokenScheme) presented \<noteq> TokenScheme
      then Inl ErrMalformedCredential
      else let rest = drop (length TokenScheme) presented; prefix = take TokenPrefixLen rest in
        if rest ! TokenPrefixLen \<noteq> CHR ''_'' then Inl ErrMalformedCredential
        else bindR (ok_or ErrMalformedCredential (b64_decode (drop (TokenPrefixLen + 1) rest))) (\<lambda>secret.
          if length secret \<noteq> TokenSecretBytes then Inl ErrMalformedCredential
          else bindR (ok_or ErrMalformedCredential (b64_decode prefix)) (\<lambda>raw.
            if length raw \<noteq> TokenPrefixBytes then Inl ErrMalformedCredential else Inr (prefix, secret))))"

text \<open>
  \<open>strings.Cut\<close> at the first separator, and \<open>strings.EqualFold\<close> against a word of letters none of which
  has a fold beyond ASCII.
\<close>

definition Cut :: "char \<Rightarrow> string \<Rightarrow> (string \<times> string) option" where
  "Cut sep s = (case dropWhile (\<lambda>c. c \<noteq> sep) s of [] \<Rightarrow> None
     | _ # rest \<Rightarrow> Some (takeWhile (\<lambda>c. c \<noteq> sep) s, rest))"

definition ascii_lower :: "char \<Rightarrow> char" where
  "ascii_lower c = (if in_range 65 90 c then chr (byte c + 32) else c)"

definition bearerToken :: "string \<Rightarrow> string res" where
  "bearerToken header = (case Cut CHR '' '' header of None \<Rightarrow> Inl ErrMalformedCredential
     | Some (name, rest) \<Rightarrow>
         if map ascii_lower (TrimSpace name) \<noteq> ''bearer'' then Inl ErrMalformedCredential
         else let token = TrimSpace rest in
           if token = [] then Inl ErrMalformedCredential else Inr token)"

section \<open>Session cookies\<close>

definition SessionSecretBytes :: nat where "SessionSecretBytes = 32"
definition SessionSecretLen :: nat where "SessionSecretLen = 43"

text \<open>Durations are in nanoseconds; \<open>Micros.Add\<close> divides by a thousand, toward zero.\<close>

definition SessionIdleWindow :: i64 where "SessionIdleWindow = 14 * 24 * 3600 * 1000000000"
definition SessionAbsoluteWindow :: i64 where "SessionAbsoluteWindow = 30 * 24 * 3600 * 1000000000"

definition micros_Add :: "micros \<Rightarrow> i64 \<Rightarrow> micros" where "micros_Add m d = m + go_div d 1000"

text \<open>The cookie and its hash.\<close>

definition newSessionSecret :: "(string \<Rightarrow> string) \<Rightarrow> string res \<Rightarrow> (string \<times> string) res" where
  "newSessionSecret sha256 read = bindR read (\<lambda>raw. Inr (b64_encode raw, sha256 raw))"

definition hashSessionSecret :: "(string \<Rightarrow> string) \<Rightarrow> string \<Rightarrow> string res" where
  "hashSessionSecret sha256 cookie =
     (if length cookie \<noteq> SessionSecretLen then Inl ErrMalformedCredential
      else bindR (ok_or ErrMalformedCredential (b64_decode cookie)) (\<lambda>raw.
        if length raw \<noteq> SessionSecretBytes then Inl ErrMalformedCredential else Inr (sha256 raw)))"

section \<open>What was minted is understood\<close>

lemma minted_token_parts:
  assumes "length prefixRaw = TokenPrefixBytes" "length secret = TokenSecretBytes"
  shows "parseToken (TokenScheme @ b64_encode prefixRaw @ ''_'' @ b64_encode secret) =
    Inr (b64_encode prefixRaw, secret)"
proof -
  have len: "length (b64_encode prefixRaw) = TokenPrefixLen" "length (b64_encode secret) = TokenSecretLen"
    using assms by (simp_all add: length_b64_encode TokenPrefixBytes_def TokenSecretBytes_def TokenPrefixLen_def TokenSecretLen_def)
  then show ?thesis using assms
    by (simp add: parseToken_def TokenLen_def ok_or_def bindR_def nth_append)
qed

lemma minted_session_hash:
  assumes "length raw = SessionSecretBytes"
  shows "hashSessionSecret sha256 (b64_encode raw) = Inr (sha256 raw)"
  using assms by (simp add: hashSessionSecret_def length_b64_encode SessionSecretBytes_def SessionSecretLen_def
      ok_or_def bindR_def)

text \<open>A token that parses is made of those parts; the encodings of its parts need not be the canonical ones.\<close>

lemma parsed_token:
  assumes "parseToken s = Inr (prefix, secret)"
  shows "\<exists>enc raw. s = TokenScheme @ prefix @ ''_'' @ enc \<and> b64_decode enc = Some secret \<and>
    length prefix = TokenPrefixLen \<and> length secret = TokenSecretBytes \<and> length enc = TokenSecretLen \<and>
    b64_decode prefix = Some raw \<and> length raw = TokenPrefixBytes"
proof -
  let ?rest = "drop (length TokenScheme) s"
  have len: "length s = TokenLen" and scheme: "take (length TokenScheme) s = TokenScheme"
    and sep: "?rest ! TokenPrefixLen = CHR ''_''" and prefix: "prefix = take TokenPrefixLen ?rest"
    and secret: "b64_decode (drop (TokenPrefixLen + 1) ?rest) = Some secret" "length secret = TokenSecretBytes"
    and raw: "\<exists>raw. b64_decode prefix = Some raw \<and> length raw = TokenPrefixBytes"
    using assms by (auto simp: parseToken_def Let_def res_simps split: if_splits)
  have lr: "length ?rest = TokenPrefixLen + 1 + TokenSecretLen" using len by (simp add: TokenLen_def)
  then have "?rest = prefix @ ''_'' @ drop (TokenPrefixLen + 1) ?rest"
    using sep prefix id_take_nth_drop [of TokenPrefixLen ?rest] by simp
  then have "s = TokenScheme @ prefix @ ''_'' @ drop (TokenPrefixLen + 1) ?rest"
    using scheme append_take_drop_id [of "length TokenScheme" s] by metis
  moreover have "length prefix = TokenPrefixLen" "length (drop (TokenPrefixLen + 1) ?rest) = TokenSecretLen"
    using lr prefix by simp_all
  ultimately show ?thesis using secret raw by blast
qed

end
