(* ===== verification/Auth.thy ===== *)
theory Auth
  imports AuthStore Token Authz
begin

text \<open>
  Credentials become principals (internal/auth/service.go, resolution.go), and the one credential that needs
  a transaction is minted. Of a request the code uses the pairs of its query, the Authorization header
  and the session cookie, as net/http delivers them. A nil pointer is None; the store of a service
  without one is the flag \<open>store\<close>. Logging is not modelled.
\<close>

section \<open>Requests and failures\<close>

record http_request =
  hr_Query :: "(string \<times> string) list"
  hr_Authorization :: string
  hr_SessionCookie :: "string option"

record resolution_error =
  re_Credential :: credential
  re_TokenPrefix :: string
  re_At :: "micros option"
  re_Err :: error

datatype auth_error = PlainError error | ResolutionError resolution_error

fun cause :: "auth_error \<Rightarrow> error" where
  "cause (PlainError e) = e"
| "cause (ResolutionError r) = re_Err r"

definition tokenFailure :: "string \<Rightarrow> micros option \<Rightarrow> error \<Rightarrow> auth_error" where
  "tokenFailure prefix t e = ResolutionError
     \<lparr>re_Credential = CredentialToken, re_TokenPrefix = prefix, re_At = t, re_Err = e\<rparr>"

definition sessionFailure :: "error \<Rightarrow> auth_error" where
  "sessionFailure e = ResolutionError
     \<lparr>re_Credential = CredentialSession, re_TokenPrefix = [], re_At = None, re_Err = e\<rparr>"

definition queryTokenParams :: "string list" where
  "queryTokenParams = [''atoken'', ''token'', ''api_key'', ''apikey'', ''access_token'', ''key'']"

text \<open>\<open>url.Values.Get\<close>: the first value of a key.\<close>

definition query_get :: "string \<Rightarrow> (string \<times> string) list \<Rightarrow> string" where
  "query_get name q = (case map_of q name of None \<Rightarrow> [] | Some v \<Rightarrow> v)"

definition tokenInQueryString :: "http_request \<Rightarrow> string option" where
  "tokenInQueryString r = find (\<lambda>name. query_get name (hr_Query r) \<noteq> []) queryTokenParams"

definition sessionCookie :: "http_request \<Rightarrow> string option" where
  "sessionCookie r = (case hr_SessionCookie r of None \<Rightarrow> None | Some c \<Rightarrow> if c = [] then None else Some c)"

text \<open>\<open>strings.Fields\<close>: the words between white space.\<close>

lemma strip_prefix_split: "strip_prefix p s = Some r \<Longrightarrow> s = p @ r"
  by (induction p s rule: strip_prefix.induct) (auto split: if_splits)

lemma strip_any_shorter:
  "strip_any ps s = Some r \<Longrightarrow> [] \<notin> set ps \<Longrightarrow> length r < length s"
  by (induction ps) (auto split: option.splits dest: strip_prefix_split)

lemma spaces_nonempty: "[] \<notin> set spaces"
  by code_simp

function words :: "string \<Rightarrow> string \<Rightarrow> string list" where
  "words acc [] = (if acc = [] then [] else [rev acc])"
| "words acc (c # s) = (case strip_any spaces (c # s) of
     Some r \<Rightarrow> (if acc = [] then [] else [rev acc]) @ words [] r
   | None \<Rightarrow> words (c # acc) s)"
  by pat_completeness auto
termination
  by (relation "measure (length \<circ> snd)") (auto dest: strip_any_shorter [OF _ spaces_nonempty])

definition Fields :: "string \<Rightarrow> string list" where "Fields s = words [] s"

section \<open>Bearers\<close>

definition touchInterval :: i64 where "touchInterval = 60 * 1000000000"

definition touchToken :: "env \<Rightarrow> api_token_row \<Rightarrow> micros \<Rightarrow> world \<Rightarrow> world" where
  "touchToken env t clock w = (let cutoff = micros_Add clock (- touchInterval) in
     if (case ak_LastUsedAt t of None \<Rightarrow> False | Some u \<Rightarrow> cutoff <s u) then w
     else snd (Tx env (exec env (\<lambda>db. Inr (TouchAPIToken clock (ak_ID t) cutoff db))) w))"

definition token_principal :: "api_token_row \<Rightarrow> service_account_row \<Rightarrow> principal" where
  "token_principal t a = \<lparr>pr_Kind = SubjectKindServiceAccount, pr_ID = ak_ServiceAccountID t, pr_Name = sv_Name a,
     pr_Credential = CredentialToken, pr_SessionID = [], pr_TokenID = ak_ID t, pr_TokenPrefix = ak_Prefix t,
     pr_OwnerUserID = sv_OwnerUserID a, pr_Scopes = Fields (ak_Scopes t), pr_SteppedUpAt = None\<rparr>"

definition resolveToken :: "(string \<Rightarrow> string \<Rightarrow> string) \<Rightarrow> env \<Rightarrow> keyring option \<Rightarrow> string \<Rightarrow> world \<Rightarrow>
    (auth_error + principal) \<times> world" where
  "resolveToken hmac env keys presented w =
     (case parseToken presented of Inl e \<Rightarrow> (Inl (tokenFailure [] None e), w)
      | Inr (prefix, secret) \<Rightarrow>
        if keys = None then (Inl (tokenFailure prefix None ErrNoPepper), w)
        else case query env (\<lambda>db. Inr (ResolveAPIToken prefix db)) w of
          (Inl e, w1) \<Rightarrow> (Inl (tokenFailure prefix None ErrLookupUnavailable), w1)
        | (Inr None, w1) \<Rightarrow> (Inl (tokenFailure prefix None ErrUnknownCredential), w1)
        | (Inr (Some (t, a)), w1) \<Rightarrow>
          (case TokenHash hmac keys (ak_PepperKid t) secret of
             Inl e \<Rightarrow> (Inl (tokenFailure prefix None e), w1)
           | Inr hash \<Rightarrow>
             if hash \<noteq> ak_TokenHash t then (Inl (tokenFailure prefix None ErrUnknownCredential), w1)
             else let clock = ev_Now env (wd_reads w1); w2 = w1\<lparr>wd_reads := Suc (wd_reads w1)\<rparr> in
               if ak_RevokedAt t \<noteq> None then (Inl (tokenFailure prefix (ak_RevokedAt t) ErrRevokedCredential), w2)
               else if (case ak_ExpiresAt t of None \<Rightarrow> False | Some e \<Rightarrow> e \<le>s clock)
                 then (Inl (tokenFailure prefix (ak_ExpiresAt t) ErrExpiredCredential), w2)
               else if sv_State a \<noteq> UserStateActive then (Inl (tokenFailure prefix None ErrPrincipalNotActive), w2)
               else (Inr (token_principal t a), touchToken env t clock w2)))"

section \<open>Sessions\<close>

definition touchSession :: "env \<Rightarrow> session_row \<Rightarrow> micros \<Rightarrow> world \<Rightarrow> world" where
  "touchSession env s clock w = (let cutoff = micros_Add clock (- touchInterval) in
     if cutoff <s se_LastSeenAt s then w
     else snd (Tx env (exec env (\<lambda>db. Inr (TouchSession clock (micros_Add clock SessionIdleWindow) (se_ID s) cutoff db))) w))"

definition session_principal :: "session_row \<Rightarrow> app_user_row \<Rightarrow> principal" where
  "session_principal s u = \<lparr>pr_Kind = SubjectKindUser, pr_ID = se_UserID s, pr_Name = us_Username u,
     pr_Credential = CredentialSession, pr_SessionID = se_ID s, pr_TokenID = [], pr_TokenPrefix = [],
     pr_OwnerUserID = [], pr_Scopes = [], pr_SteppedUpAt = se_MfaSatisfiedAt s\<rparr>"

text \<open>The switch over the row: why a session found may not be used.\<close>

definition session_refusal :: "micros \<Rightarrow> session_row \<Rightarrow> app_user_row \<Rightarrow> error option" where
  "session_refusal clock s u =
     (if se_RevokedAt s \<noteq> None then Some ErrRevokedCredential
      else if se_ExpiresAt s \<le>s clock then Some ErrExpiredCredential
      else if se_AbsoluteExpiresAt s \<le>s clock then Some ErrExpiredCredential
      else if se_SessionEpoch s \<noteq> us_SessionEpoch u then Some ErrStaleSessionEpoch
      else if us_DeletedAt u \<noteq> None then Some ErrPrincipalNotActive
      else if us_State u \<noteq> UserStateActive then Some ErrPrincipalNotActive
      else None)"

definition resolveSession :: "(string \<Rightarrow> string) \<Rightarrow> env \<Rightarrow> string \<Rightarrow> world \<Rightarrow> (auth_error + principal) \<times> world" where
  "resolveSession sha256 env cookie w =
     (case hashSessionSecret sha256 cookie of Inl e \<Rightarrow> (Inl (sessionFailure e), w)
      | Inr hash \<Rightarrow>
        (case query env (\<lambda>db. Inr (ResolveSession hash db)) w of
          (Inl e, w1) \<Rightarrow> (Inl (sessionFailure ErrLookupUnavailable), w1)
        | (Inr None, w1) \<Rightarrow> (Inl (sessionFailure ErrUnknownCredential), w1)
        | (Inr (Some (s, u)), w1) \<Rightarrow>
          let clock = ev_Now env (wd_reads w1); w2 = w1\<lparr>wd_reads := Suc (wd_reads w1)\<rparr> in
          (case session_refusal clock s u of
             Some e \<Rightarrow> (Inl (sessionFailure e), w2)
           | None \<Rightarrow> (Inr (session_principal s u), touchSession env s clock w2))))"

section \<open>The entry point\<close>

definition ResolveRequest :: "(string \<Rightarrow> string \<Rightarrow> string) \<Rightarrow> bool \<Rightarrow> env \<Rightarrow> keyring option \<Rightarrow>
    http_request option \<Rightarrow> world \<Rightarrow> (auth_error + principal) \<times> world" where
  "ResolveRequest hmac store env keys req w =
     (if \<not> store then (Inl (PlainError ErrNoStore), w)
      else case req of None \<Rightarrow> (Inl (PlainError ErrMalformedCredential), w)
      | Some r \<Rightarrow>
        if tokenInQueryString r \<noteq> None then (Inl (PlainError ErrTokenInQueryString), w)
        else if TrimSpace (hr_Authorization r) \<noteq> [] then
          (case bearerToken (hr_Authorization r) of Inl e \<Rightarrow> (Inl (PlainError e), w)
           | Inr presented \<Rightarrow> resolveToken hmac env keys presented w)
        else case sessionCookie r of Some cookie \<Rightarrow> resolveSession (ev_SHA256 env) env cookie w
        | None \<Rightarrow> (Inl (PlainError ErrNoCredential), w))"

section \<open>Opening a session\<close>

record created_session =
  cs_ID :: ulid
  cs_Secret :: string
  cs_ExpiresAt :: micros
  cs_AbsoluteExpiresAt :: micros

record create_session_params =
  cp_UserID :: ulid
  cp_IdentityID :: ulid
  cp_UserAgent :: string
  cp_SteppedUp :: bool

definition session_params :: "ulid \<Rightarrow> string \<Rightarrow> micros \<Rightarrow> app_user_row \<Rightarrow> create_session_params \<Rightarrow> session_row" where
  "session_params k hash clock user p = \<lparr>se_ID = k, se_UserID = cp_UserID p, se_TokenHash = hash,
     se_IdentityID = (if cp_IdentityID p \<noteq> [] then Some (cp_IdentityID p) else None),
     se_SessionEpoch = us_SessionEpoch user, se_CreatedAt = clock, se_LastSeenAt = clock,
     se_ExpiresAt = micros_Add clock SessionIdleWindow, se_AbsoluteExpiresAt = micros_Add clock SessionAbsoluteWindow,
     se_RevokedAt = None, se_Ip = [], se_UserAgent = cp_UserAgent p,
     se_MfaSatisfiedAt = (if cp_SteppedUp p then Some clock else None)\<rparr>"

definition open_session :: "env \<Rightarrow> ulid \<Rightarrow> string \<Rightarrow> micros \<Rightarrow> create_session_params \<Rightarrow> unit act" where
  "open_session env k hash clock p =
     bindA (query env (\<lambda>db. ok_or ErrNotFound (GetAppUser (cp_UserID p) db))) (\<lambda>user.
       if us_DeletedAt user \<noteq> None \<or> us_State user \<noteq> UserStateActive then liftA (Inl ErrPrincipalNotActive)
       else exec env (InsertSession (session_params k hash clock user p)))"

definition CreateSession :: "string res \<Rightarrow> env \<Rightarrow> create_session_params \<Rightarrow> created_session act" where
  "CreateSession read env p =
     bindA (liftA (newSessionSecret (ev_SHA256 env) read)) (\<lambda>(secret, hash).
     bindA (newID env) (\<lambda>k.
     bindA (now env) (\<lambda>t.
     bindA (Tx env (open_session env k hash t p)) (\<lambda>_.
       retA \<lparr>cs_ID = k, cs_Secret = secret, cs_ExpiresAt = micros_Add t SessionIdleWindow,
         cs_AbsoluteExpiresAt = micros_Add t SessionAbsoluteWindow\<rparr>))))"

end
