(* ===== verification/AuthMachine.thy ===== *)
theory AuthMachine
  imports Auth
begin

text \<open>
  The identity tables as a state machine: what may be written to them, the steps of the service over
  them, and what holds of every database reached from empty tables. Sessions are only inserted by
  \<open>CreateSession\<close> and only touched by \<open>ResolveRequest\<close>; the other writes are those of the statements, with
  any parameters, at any time.
\<close>

section \<open>Writes and steps\<close>

inductive admin_write :: "database \<Rightarrow> database \<Rightarrow> bool" where
  user: "InsertAppUser u db = Inr db' \<Longrightarrow> admin_write db db'"
| identity: "InsertUserIdentity i db = Inr db' \<Longrightarrow> admin_write db db'"
| service_account: "InsertServiceAccount a db = Inr db' \<Longrightarrow> admin_write db db'"
| token: "InsertAPIToken t db = Inr db' \<Longrightarrow> admin_write db db'"
| bump: "BumpSessionEpoch m k db = Inr db' \<Longrightarrow> admin_write db db'"
| state: "SetAppUserState s m k db = Inr db' \<Longrightarrow> admin_write db db'"
| delete: "admin_write db (SoftDeleteAppUser d m k db)"
| revoke_session: "admin_write db (RevokeSession m k db)"
| revoke_token: "RevokeAPIToken m who why k db = Inr db' \<Longrightarrow> admin_write db db'"

text \<open>\<open>T\<close> holds the readings of the clock.\<close>

inductive auth_write :: "micros set \<Rightarrow> database \<Rightarrow> database \<Rightarrow> bool" for T where
  admin: "admin_write db db' \<Longrightarrow> auth_write T db db'"
| session: "InsertSession (session_params k hash t u p) db = Inr db' \<Longrightarrow> GetAppUser (cp_UserID p) db = Some u \<Longrightarrow>
    t \<in> T \<Longrightarrow> auth_write T db db'"
| touch_session: "t \<in> T \<Longrightarrow> auth_write T db (TouchSession t (micros_Add t SessionIdleWindow) k before db)"
| touch_token: "auth_write T db (TouchAPIToken t k before db)"

definition identity_tables where
  "identity_tables db = (db_users db, db_identities db, db_sessions db, db_service_accounts db, db_tokens db)"

inductive auth_step :: "(string \<Rightarrow> string \<Rightarrow> string) \<Rightarrow> env \<Rightarrow> world \<Rightarrow> world \<Rightarrow> bool" for hmac env where
  resolve: "ResolveRequest hmac store env keys req w = (r, w') \<Longrightarrow> auth_step hmac env w w'"
| create: "CreateSession read env p w = (r', w') \<Longrightarrow> auth_step hmac env w w'"
| stored: "admin_write (wd_db w) db \<Longrightarrow> auth_step hmac env w (w\<lparr>wd_db := db\<rparr>)"
| elsewhere: "identity_tables db = identity_tables (wd_db w) \<Longrightarrow>
    auth_step hmac env w (w\<lparr>wd_db := db, wd_stmts := i, wd_ids := j, wd_reads := k\<rparr>)"

inductive auth_reachable :: "(string \<Rightarrow> string \<Rightarrow> string) \<Rightarrow> env \<Rightarrow> world \<Rightarrow> bool" for hmac env where
  start: "identity_tables (wd_db w) = ([], [], [], [], []) \<Longrightarrow> auth_reachable hmac env w"
| step: "auth_reachable hmac env w \<Longrightarrow> auth_step hmac env w w' \<Longrightarrow> auth_reachable hmac env w'"

inductive_cases admin_writeE: "admin_write db db'"
inductive_cases auth_writeE: "auth_write T db db'"
inductive_cases auth_stepE: "auth_step hmac env w w'"

section \<open>A step is a write\<close>

lemma Tx_exec_snd: "wd_db (snd (Tx env (exec env (\<lambda>db. Inr (f db))) w)) \<in> {wd_db w, f (wd_db w)}"
proof (cases "Tx env (exec env (\<lambda>db. Inr (f db))) w")
  case (Pair r w')
  show ?thesis
  proof (cases r)
    case (Inl e)
    then have run: "Tx env (exec env (\<lambda>db. Inr (f db))) w = (Inl e, w')" using Pair by simp
    show ?thesis using Tx_Inl [OF run] Pair by simp
  next
    case (Inr u)
    then have run: "Tx env (exec env (\<lambda>db. Inr (f db))) w = (Inr u, w')" using Pair by simp
    show ?thesis using Pair by (auto simp: act_simps intro: Tx_Inr [OF run])
  qed
qed

lemma touchSession_write: "wd_db w = db \<Longrightarrow> t \<in> T \<Longrightarrow>
    wd_db (touchSession env s t w) = db \<or> auth_write T db (wd_db (touchSession env s t w))"
  using Tx_exec_snd [of env "\<lambda>db. TouchSession t (micros_Add t SessionIdleWindow) (se_ID s) (micros_Add t (- touchInterval)) db" w]
    auth_write.touch_session [of t T db]
  unfolding touchSession_def Let_def by auto

lemma touchToken_write: "wd_db w = db \<Longrightarrow>
    wd_db (touchToken env r t w) = db \<or> auth_write T db (wd_db (touchToken env r t w))"
  using Tx_exec_snd [of env "\<lambda>db. TouchAPIToken t (ak_ID r) (micros_Add t (- touchInterval)) db" w] auth_write.touch_token [of T db]
  unfolding touchToken_def Let_def by auto

lemma query_db: "query env f w = (r, w') \<Longrightarrow> wd_db w' = wd_db w"
  by (rule read_onlyD [OF read_only_query])

text \<open>What a successful resolution found.\<close>

lemma resolveToken_cases:
  assumes "resolveToken hmac env keys presented w = (r, w')"
  obtains (refused) e where "r = Inl e" "wd_db w' = wd_db w"
  | (found) prefix secret t a w1 where "parseToken presented = Inr (prefix, secret)"
      "ResolveAPIToken prefix (wd_db w) = Some (t, a)"
      "TokenHash hmac keys (ak_PepperKid t) secret = Inr (ak_TokenHash t)" "ak_RevokedAt t = None"
      "\<forall>e. ak_ExpiresAt t = Some e \<longrightarrow> sint (ev_Now env (wd_reads w)) < sint e" "sv_State a = UserStateActive"
      "wd_db w1 = wd_db w" "r = Inr (token_principal t a)" "w' = touchToken env t (ev_Now env (wd_reads w)) w1"
proof (cases "parseToken presented")
  case (Inl e)
  then show ?thesis using assms refused by (auto simp: resolveToken_def)
next
  case (Inr ps)
  obtain prefix secret where p: "parseToken presented = Inr (prefix, secret)" using Inr by (cases ps) simp
  obtain q w1 where q: "query env (\<lambda>db. Inr (ResolveAPIToken prefix db)) w = (q, w1)" by fastforce
  have db: "wd_db w1 = wd_db w" by (rule query_db [OF q])
  show ?thesis
  proof (cases "keys = None \<or> isl q \<or> q = Inr None")
    case True
    then consider "keys = None" | e where "keys \<noteq> None" "q = Inl e" | "keys \<noteq> None" "q = Inr None"
      by (cases q) auto
    then show ?thesis by cases (use assms refused p q db in \<open>auto simp: resolveToken_def\<close>)
  next
    case False
    then obtain t a where ta: "q = Inr (Some (t, a))" by (cases q) auto
    then have w1: "w1 = w\<lparr>wd_stmts := Suc (wd_stmts w)\<rparr>" "ResolveAPIToken prefix (wd_db w) = Some (t, a)"
      using q by (auto simp: query_eq)
    then have reads: "wd_reads w1 = wd_reads w" by simp
    let ?t = "ev_Now env (wd_reads w)"
    let ?w2 = "w1\<lparr>wd_reads := Suc (wd_reads w1)\<rparr>"
    show ?thesis
    proof (cases "TokenHash hmac keys (ak_PepperKid t) secret = Inr (ak_TokenHash t) \<and> ak_RevokedAt t = None \<and>
        (\<forall>e. ak_ExpiresAt t = Some e \<longrightarrow> \<not> e \<le>s ?t) \<and> sv_State a = UserStateActive")
      case True
      then have "r = Inr (token_principal t a) \<and> w' = touchToken env t ?t ?w2"
        using assms p q ta w1 False by (auto simp: resolveToken_def Let_def split: option.splits)
      then show ?thesis using True p w1 by (intro found [of prefix secret t a ?w2]) (auto simp: i64_simps)
    next
      case bad: False
      then have "isl r \<and> w' \<in> {w1, ?w2}"
        using assms p q ta reads False by (auto simp: resolveToken_def Let_def split: sum.splits option.splits if_splits)
      then show ?thesis using refused db by (cases r) auto
    qed
  qed
qed

lemma resolveSession_cases:
  assumes "resolveSession sha256 env cookie w = (r, w')"
  obtains (refused) e where "r = Inl e" "wd_db w' = wd_db w"
  | (found) hash s u w1 where "hashSessionSecret sha256 cookie = Inr hash"
      "ResolveSession hash (wd_db w) = Some (s, u)" "session_refusal (ev_Now env (wd_reads w)) s u = None"
      "wd_db w1 = wd_db w" "r = Inr (session_principal s u)" "w' = touchSession env s (ev_Now env (wd_reads w)) w1"
proof (cases "hashSessionSecret sha256 cookie")
  case (Inl e)
  then show ?thesis using assms refused by (auto simp: resolveSession_def)
next
  case (Inr hash)
  obtain q w1 where q: "query env (\<lambda>db. Inr (ResolveSession hash db)) w = (q, w1)" by fastforce
  have db: "wd_db w1 = wd_db w" by (rule query_db [OF q])
  show ?thesis
  proof (cases "isl q \<or> q = Inr None")
    case True
    then show ?thesis using assms refused Inr q db by (auto simp: resolveSession_def split: sum.splits)
  next
    case False
    then obtain s u where su: "q = Inr (Some (s, u))" by (cases q) auto
    then have w1: "w1 = w\<lparr>wd_stmts := Suc (wd_stmts w)\<rparr>" "ResolveSession hash (wd_db w) = Some (s, u)"
      using q by (auto simp: query_eq)
    let ?t = "ev_Now env (wd_reads w)"
    let ?w2 = "w1\<lparr>wd_reads := Suc (wd_reads w1)\<rparr>"
    show ?thesis
    proof (cases "session_refusal ?t s u")
      case None
      then have "r = Inr (session_principal s u) \<and> w' = touchSession env s ?t ?w2"
        using assms Inr q su w1 by (auto simp: resolveSession_def Let_def)
      then show ?thesis using None Inr w1 by (intro found [of hash s u ?w2]) auto
    next
      case (Some e)
      then have "r = Inl (sessionFailure e) \<and> w' = ?w2"
        using assms Inr q su w1 by (auto simp: resolveSession_def Let_def)
      then show ?thesis using refused db by simp
    qed
  qed
qed

lemma resolveToken_write:
  "resolveToken hmac env keys presented w = (r, w') \<Longrightarrow> wd_db w' = wd_db w \<or> auth_write T (wd_db w) (wd_db w')"
  by (erule resolveToken_cases) (use touchToken_write in \<open>simp_all\<close>)

lemma resolveSession_write:
  "resolveSession sha256 env cookie w = (r, w') \<Longrightarrow>
    wd_db w' = wd_db w \<or> auth_write (range (ev_Now env)) (wd_db w) (wd_db w')"
  by (erule resolveSession_cases) (use touchSession_write in \<open>simp_all\<close>)

lemma ResolveRequest_write:
  "ResolveRequest hmac store env keys req w = (r, w') \<Longrightarrow>
    wd_db w' = wd_db w \<or> auth_write (range (ev_Now env)) (wd_db w) (wd_db w')"
  unfolding ResolveRequest_def
  by (auto split: if_splits option.splits sum.splits dest: resolveToken_write resolveSession_write)

lemma open_session_Inr:
  assumes "open_session env k hash t p w = (Inr x, w')"
  obtains u where "GetAppUser (cp_UserID p) (wd_db w) = Some u" "us_DeletedAt u = None" "us_State u = UserStateActive"
    "InsertSession (session_params k hash t u p) (wd_db w) = Inr (wd_db w')"
  using assms unfolding open_session_def
  by (auto simp: act_simps res_simps split: if_splits)

lemma CreateSession_Inr:
  assumes "CreateSession read env p w = (Inr c, w')"
  obtains raw k t u n where "read = Inr raw" "t = ev_Now env n" "GetAppUser (cp_UserID p) (wd_db w) = Some u"
    "us_DeletedAt u = None" "us_State u = UserStateActive"
    "InsertSession (session_params k (ev_SHA256 env raw) t u p) (wd_db w) = Inr (wd_db w')"
    "c = \<lparr>cs_ID = k, cs_Secret = b64_encode raw, cs_ExpiresAt = micros_Add t SessionIdleWindow,
         cs_AbsoluteExpiresAt = micros_Add t SessionAbsoluteWindow\<rparr>"
proof -
  obtain raw where raw: "read = Inr raw" using assms unfolding CreateSession_def newSessionSecret_def
    by (cases read) (auto simp: act_simps)
  let ?t = "ev_Now env (wd_reads w)"
  obtain k w0 where k: "newID env w = (Inr k, w0)" and rest: "bindA (now env) (\<lambda>t.
     bindA (Tx env (open_session env k (ev_SHA256 env raw) t p)) (\<lambda>_.
       retA \<lparr>cs_ID = k, cs_Secret = b64_encode raw, cs_ExpiresAt = micros_Add t SessionIdleWindow,
         cs_AbsoluteExpiresAt = micros_Add t SessionAbsoluteWindow\<rparr>)) w0 = (Inr c, w')"
    using assms unfolding CreateSession_def newSessionSecret_def raw
    by (auto simp: bindA_eq liftA_eq res_simps)
  let ?w1 = "w0\<lparr>wd_reads := Suc (wd_reads w0)\<rparr>"
  have w1: "wd_db ?w1 = wd_db w" "wd_reads w0 = wd_reads w" using k by (auto simp: newID_eq)
  have tx: "Tx env (open_session env k (ev_SHA256 env raw) ?t p) ?w1 = (Inr (), w')"
    and c: "c = \<lparr>cs_ID = k, cs_Secret = b64_encode raw, cs_ExpiresAt = micros_Add ?t SessionIdleWindow,
         cs_AbsoluteExpiresAt = micros_Add ?t SessionAbsoluteWindow\<rparr>"
    using rest w1 by (auto simp: act_simps)
  obtain v1 v2 where v: "wd_db v1 = wd_db ?w1" "open_session env k (ev_SHA256 env raw) ?t p v1 = (Inr (), v2)" "wd_db w' = wd_db v2"
    by (rule Tx_Inr [OF tx]) simp
  show ?thesis
    by (rule open_session_Inr [OF v(2)]) (rule that [OF raw refl _ _ _ _ c], simp_all add: v w1 [simplified])
qed

lemma CreateSession_Inl: "CreateSession read env p w = (Inl e, w') \<Longrightarrow> wd_db w' = wd_db w"
  unfolding CreateSession_def newID_def now_def liftA_def bindA_def retA_def
  by (auto split: sum.splits prod.splits dest: Tx_Inl)

lemma CreateSession_write:
  assumes "CreateSession read env p w = (r, w')"
  shows "wd_db w' = wd_db w \<or> auth_write (range (ev_Now env)) (wd_db w) (wd_db w')"
proof (cases r)
  case (Inl e)
  then show ?thesis using CreateSession_Inl assms by blast
next
  case (Inr c)
  with assms have "CreateSession read env p w = (Inr c, w')" by simp
  then show ?thesis by (rule CreateSession_Inr) (auto intro: auth_write.session)
qed

lemma auth_step_write:
  assumes "auth_step hmac env w w'"
  shows "identity_tables (wd_db w') = identity_tables (wd_db w) \<or> auth_write (range (ev_Now env)) (wd_db w) (wd_db w')"
  using assms
proof (cases rule: auth_step.cases)
  case (resolve store keys req r)
  then show ?thesis using ResolveRequest_write by metis
next
  case (create read p r)
  then show ?thesis using CreateSession_write by metis
qed (auto intro: auth_write.admin)

section \<open>What is never lost\<close>

text \<open>
  A write keeps every user, session and token: rows may be added, and of the old ones the ids, owners and
  epochs of sessions stay, revocations and deletions stay, and the epoch of a user never falls.
\<close>

definition session_kept :: "session_row \<Rightarrow> session_row \<Rightarrow> bool" where
  "session_kept s s' \<longleftrightarrow> se_ID s' = se_ID s \<and> se_UserID s' = se_UserID s \<and> se_SessionEpoch s' = se_SessionEpoch s \<and>
     se_TokenHash s' = se_TokenHash s \<and> (se_RevokedAt s \<noteq> None \<longrightarrow> se_RevokedAt s' \<noteq> None)"

definition user_kept :: "app_user_row \<Rightarrow> app_user_row \<Rightarrow> bool" where
  "user_kept u u' \<longleftrightarrow> us_ID u' = us_ID u \<and> sint (us_SessionEpoch u) \<le> sint (us_SessionEpoch u') \<and>
     (us_DeletedAt u \<noteq> None \<longrightarrow> us_DeletedAt u' \<noteq> None)"

definition token_kept :: "api_token_row \<Rightarrow> api_token_row \<Rightarrow> bool" where
  "token_kept t t' \<longleftrightarrow> ak_ID t' = ak_ID t \<and> ak_Prefix t' = ak_Prefix t \<and>
     (ak_RevokedAt t \<noteq> None \<longrightarrow> ak_RevokedAt t' \<noteq> None)"

definition kept :: "database \<Rightarrow> database \<Rightarrow> bool" where
  "kept db db' \<longleftrightarrow> (\<forall>s \<in> set (db_sessions db). \<exists>s' \<in> set (db_sessions db'). session_kept s s') \<and>
     (\<forall>u \<in> set (db_users db). \<exists>u' \<in> set (db_users db'). user_kept u u') \<and>
     (\<forall>t \<in> set (db_tokens db). \<exists>t' \<in> set (db_tokens db'). token_kept t t')"

lemma kept_refl_rows [simp]: "session_kept s s" "user_kept u u" "token_kept t t"
  by (simp_all add: session_kept_def user_kept_def token_kept_def)

lemma kept_tables: "set (db_sessions db) \<subseteq> set (db_sessions db') \<Longrightarrow> set (db_users db) \<subseteq> set (db_users db') \<Longrightarrow>
    set (db_tokens db) \<subseteq> set (db_tokens db') \<Longrightarrow> kept db db'"
  unfolding kept_def by (meson kept_refl_rows subsetD)

lemma kept_trans:
  assumes "kept db db'" "kept db' db''"
  shows "kept db db''"
proof -
  have "session_kept s s' \<Longrightarrow> session_kept s' s'' \<Longrightarrow> session_kept s s''"
    "user_kept u u' \<Longrightarrow> user_kept u' u'' \<Longrightarrow> user_kept u u''"
    "token_kept t t' \<Longrightarrow> token_kept t' t'' \<Longrightarrow> token_kept t t''" for s s' s'' u u' u'' t t' t''
    by (auto simp: session_kept_def user_kept_def token_kept_def)
  then show ?thesis using assms unfolding kept_def by meson
qed

lemma change_kept: "(\<And>r. r \<in> set rows \<Longrightarrow> p r \<Longrightarrow> K r (f r)) \<Longrightarrow> (\<And>r. K r r) \<Longrightarrow>
    \<forall>r \<in> set rows. \<exists>r' \<in> set (change p f rows). K r r'"
  by (rule ballI, rule_tac x = "if p r then f r else r" in bexI) (auto simp: change_def)

lemma kept_change_users: "(\<And>u. u \<in> set (db_users db) \<Longrightarrow> p u \<Longrightarrow> user_kept u (f u)) \<Longrightarrow>
    kept db (db\<lparr>db_users := change p f (db_users db)\<rparr>)"
  using change_kept [of "db_users db" p user_kept f] kept_refl_rows unfolding kept_def by fastforce

lemma kept_change_sessions: "(\<And>s. s \<in> set (db_sessions db) \<Longrightarrow> p s \<Longrightarrow> session_kept s (f s)) \<Longrightarrow>
    kept db (db\<lparr>db_sessions := change p f (db_sessions db)\<rparr>)"
  using change_kept [of "db_sessions db" p session_kept f] kept_refl_rows unfolding kept_def by fastforce

lemma kept_change_tokens: "(\<And>t. t \<in> set (db_tokens db) \<Longrightarrow> p t \<Longrightarrow> token_kept t (f t)) \<Longrightarrow>
    kept db (db\<lparr>db_tokens := change p f (db_tokens db)\<rparr>)"
  using change_kept [of "db_tokens db" p token_kept f] kept_refl_rows unfolding kept_def by fastforce

lemmas kept_change = kept_change_users kept_change_sessions kept_change_tokens

lemma sint_epoch_next: "e \<noteq> max_int64 \<Longrightarrow> sint (e + 1 :: i64) = sint e + 1"
  using sint_inject64 [of e max_int64] sint_bounds [of e] by (subst sint_add) (auto simp: in64_def sint_max_int64)

lemma BumpSessionEpoch_Inr:
  assumes "BumpSessionEpoch m k db = Inr db'"
  shows "db' = db\<lparr>db_users := change (\<lambda>u. us_ID u = k)
      (\<lambda>u. u\<lparr>us_SessionEpoch := us_SessionEpoch u + 1, us_UpdatedAt := m\<rparr>) (db_users db)\<rparr>"
    and "u \<in> set (db_users db) \<Longrightarrow> us_ID u = k \<Longrightarrow> us_SessionEpoch u \<noteq> max_int64"
  using assms by (auto simp: BumpSessionEpoch_def split: if_splits)

lemma admin_write_kept: "admin_write db db' \<Longrightarrow> kept db db'"
proof (induction rule: admin_write.induct)
  case (bump m k db db')
  show ?case unfolding BumpSessionEpoch_Inr(1) [OF bump]
    by (rule kept_change) (auto simp: user_kept_def sint_epoch_next dest: BumpSessionEpoch_Inr(2) [OF bump])
next
  case (state s m k db db')
  then show ?case by (auto intro!: kept_change simp: SetAppUserState_def user_kept_def split: if_splits)
next
  case (delete db d m k)
  then show ?case unfolding SoftDeleteAppUser_def by (rule kept_change) (simp add: user_kept_def)
next
  case (revoke_session db m k)
  then show ?case unfolding RevokeSession_def by (rule kept_change) (simp add: session_kept_def)
next
  case (revoke_token m who why k db db')
  then show ?case by (auto intro!: kept_change simp: RevokeAPIToken_def Let_def token_kept_def split: if_splits)
qed (auto intro!: kept_tables simp: InsertAppUser_def InsertUserIdentity_def InsertServiceAccount_def InsertAPIToken_def
  Let_def split: if_splits)

lemma auth_write_kept: "auth_write T db db' \<Longrightarrow> kept db db'"
proof (induction rule: auth_write.induct)
  case (touch_session t db k before)
  then show ?case unfolding TouchSession_def by (intro kept_change) (simp add: session_kept_def)
next
  case (touch_token db t k before)
  then show ?case unfolding TouchAPIToken_def by (intro kept_change) (simp add: token_kept_def)
next
  case (session k hash t u p db db')
  then show ?case by (auto intro!: kept_tables simp: InsertSession_def Let_def split: if_splits)
qed (rule admin_write_kept)

lemma auth_step_kept: "auth_step hmac env w w' \<Longrightarrow> kept (wd_db w) (wd_db w')"
  using auth_step_write auth_write_kept by (fastforce simp: identity_tables_def intro: kept_tables)

lemma auth_steps_kept: "(auth_step hmac env)\<^sup>*\<^sup>* w w' \<Longrightarrow> kept (wd_db w) (wd_db w')"
  by (induction rule: rtranclp_induct) (auto intro: kept_tables kept_trans auth_step_kept)

section \<open>What holds of every reachable database\<close>

text \<open>
  Besides the constraints: a session was opened at the epoch its user had or has, its lifetime was fixed
  when it was created, and its expiry lies within that lifetime and the idle window. The clock is read
  in an era in which no sum of these leaves the integers.
\<close>

definition session_ok :: "app_user_row list \<Rightarrow> session_row \<Rightarrow> bool" where
  "session_ok users s \<longleftrightarrow> (\<forall>u \<in> set users. us_ID u = se_UserID s \<longrightarrow> sint (se_SessionEpoch s) \<le> sint (us_SessionEpoch u)) \<and>
     in_era (se_CreatedAt s) \<and> in_era (se_LastSeenAt s) \<and>
     sint (se_AbsoluteExpiresAt s) = sint (se_CreatedAt s) + 30 * 24 * 3600 * 1000000 \<and>
     sint (se_ExpiresAt s) \<le> sint (se_AbsoluteExpiresAt s) \<and>
     sint (se_ExpiresAt s) \<le> sint (se_LastSeenAt s) + 14 * 24 * 3600 * 1000000"

definition auth_ok :: "database \<Rightarrow> bool" where
  "auth_ok db \<longleftrightarrow> auth_typed db \<and> (\<forall>s \<in> set (db_sessions db). session_ok (db_users db) s)"

lemma sint_idle: "in_era t \<Longrightarrow> sint (micros_Add t SessionIdleWindow) = sint t + 14 * 24 * 3600 * 1000000"
  by (simp add: micros_Add_def SessionIdleWindow_def in_era_def sint_add in64_def sint_go_div)

lemma sint_absolute: "in_era t \<Longrightarrow> sint (micros_Add t SessionAbsoluteWindow) = sint t + 30 * 24 * 3600 * 1000000"
  by (simp add: micros_Add_def SessionAbsoluteWindow_def in_era_def sint_add in64_def sint_go_div)

lemma distinct_map_eqD: "distinct (map f xs) \<Longrightarrow> x \<in> set xs \<Longrightarrow> y \<in> set xs \<Longrightarrow> f x = f y \<Longrightarrow> x = y"
  by (auto simp: distinct_map dest: inj_onD)

lemma change_users_typed: "(\<And>u. us_ID (f u) = us_ID u) \<Longrightarrow> auth_typed (db\<lparr>db_users := change p f (db_users db)\<rparr>) = auth_typed db"
  by (simp add: auth_typed_def change_map change_image)

lemma change_sessions_typed:
  "(\<And>s. se_ID (f s) = se_ID s \<and> se_TokenHash (f s) = se_TokenHash s \<and> se_UserID (f s) = se_UserID s) \<Longrightarrow>
    auth_typed (db\<lparr>db_sessions := change p f (db_sessions db)\<rparr>) = auth_typed db"
  by (simp add: auth_typed_def change_map change_image)

lemma change_tokens_typed:
  "(\<And>t. ak_ID (f t) = ak_ID t \<and> ak_Prefix (f t) = ak_Prefix t \<and> ak_ServiceAccountID (f t) = ak_ServiceAccountID t) \<Longrightarrow>
    auth_typed (db\<lparr>db_tokens := change p f (db_tokens db)\<rparr>) = auth_typed db"
  by (simp add: auth_typed_def change_map change_image)

lemmas change_typed = change_users_typed change_sessions_typed change_tokens_typed

lemma admin_write_typed: "admin_write db db' \<Longrightarrow> auth_typed db \<Longrightarrow> auth_typed db'"
proof (induction rule: admin_write.induct)
  case (user u db db')
  then show ?case by (clarsimp simp: InsertAppUser_def Let_def user_legal_def auth_typed_def subset_insertI2 split: if_splits)
next
  case (service_account a db db')
  then show ?case by (clarsimp simp: InsertServiceAccount_def service_account_legal_def auth_typed_def subset_insertI2 split: if_splits)
next
  case (token t db db')
  then show ?case by (clarsimp simp: InsertAPIToken_def Let_def token_legal_def auth_typed_def split: if_splits)
next
  case (identity i db db')
  then show ?case by (clarsimp simp: InsertUserIdentity_def Let_def auth_typed_def split: if_splits)
qed (auto simp: BumpSessionEpoch_def SetAppUserState_def SoftDeleteAppUser_def RevokeSession_def RevokeAPIToken_def
  Let_def change_typed split: if_splits)

lemma auth_write_typed: "auth_write T db db' \<Longrightarrow> auth_typed db \<Longrightarrow> auth_typed db'"
proof (induction rule: auth_write.induct)
  case (session k hash t u p db db')
  then show ?case by (clarsimp simp: InsertSession_def Let_def session_legal_def auth_typed_def split: if_splits)
next
  case (admin db db')
  then show ?case by (rule admin_write_typed)
qed (simp_all add: TouchSession_def TouchAPIToken_def change_typed)

text \<open>Users only grow in epoch, so the sessions stay as they should be.\<close>

lemma session_ok_change_users:
  "(\<And>u. u \<in> set users \<Longrightarrow> p u \<Longrightarrow> us_ID (f u) = us_ID u \<and> sint (us_SessionEpoch u) \<le> sint (us_SessionEpoch (f u))) \<Longrightarrow>
    session_ok users s \<Longrightarrow> session_ok (change p f users) s"
  unfolding session_ok_def change_set by fastforce

lemma auth_ok_change_users:
  assumes "auth_ok db" "\<And>u. us_ID (f u) = us_ID u"
    and "\<And>u. u \<in> set (db_users db) \<Longrightarrow> p u \<Longrightarrow> sint (us_SessionEpoch u) \<le> sint (us_SessionEpoch (f u))"
  shows "auth_ok (db\<lparr>db_users := change p f (db_users db)\<rparr>)"
  using assms unfolding auth_ok_def by (auto simp: change_typed intro!: session_ok_change_users)

lemma auth_ok_change_sessions:
  assumes "auth_ok db" "\<And>s. se_ID (f s) = se_ID s \<and> se_TokenHash (f s) = se_TokenHash s \<and> se_UserID (f s) = se_UserID s"
    and "\<And>s. session_ok (db_users db) s \<Longrightarrow> session_ok (db_users db) (f s)"
  shows "auth_ok (db\<lparr>db_sessions := change p f (db_sessions db)\<rparr>)"
  using assms unfolding auth_ok_def by (auto simp: change_typed change_set)

lemma admin_write_ok:
  assumes "admin_write db db'" "auth_ok db"
  shows "auth_ok db'"
  using assms
proof (induction rule: admin_write.induct)
  case (user u db db')
  then have "auth_typed db'" using admin_write_typed [OF admin_write.user] by (simp add: auth_ok_def)
  moreover have "us_ID u \<notin> se_UserID ` set (db_sessions db)"
    using user by (auto simp: InsertAppUser_def Let_def user_legal_def auth_ok_def auth_typed_def split: if_splits)
  ultimately show ?case using user
    by (auto simp: auth_ok_def InsertAppUser_def Let_def session_ok_def split: if_splits)
next
  case (bump m k db db')
  show ?case unfolding BumpSessionEpoch_Inr(1) [OF bump(1)]
    by (rule auth_ok_change_users [OF bump(2)]) (auto simp: sint_epoch_next dest: BumpSessionEpoch_Inr(2) [OF bump(1)])
next
  case (state s m k db db')
  then show ?case by (auto simp: SetAppUserState_def intro!: auth_ok_change_users split: if_splits)
next
  case (delete db d m k)
  then show ?case unfolding SoftDeleteAppUser_def by (auto intro!: auth_ok_change_users)
next
  case (revoke_session db m k)
  then show ?case unfolding RevokeSession_def by (auto intro!: auth_ok_change_sessions simp: session_ok_def)
next
  case (identity i db db')
  have "db_users db' = db_users db" "db_sessions db' = db_sessions db"
    using identity(1) by (auto simp: InsertUserIdentity_def Let_def split: if_splits)
  then show ?case using identity admin_write_typed [OF admin_write.identity] by (simp add: auth_ok_def)
next
  case (service_account a db db')
  have "db_users db' = db_users db" "db_sessions db' = db_sessions db"
    using service_account(1) by (auto simp: InsertServiceAccount_def split: if_splits)
  then show ?case using service_account admin_write_typed [OF admin_write.service_account] by (simp add: auth_ok_def)
next
  case (token t db db')
  have "db_users db' = db_users db" "db_sessions db' = db_sessions db"
    using token(1) by (auto simp: InsertAPIToken_def Let_def split: if_splits)
  then show ?case using token admin_write_typed [OF admin_write.token] by (simp add: auth_ok_def)
next
  case (revoke_token m who why k db db')
  have "db_users db' = db_users db" "db_sessions db' = db_sessions db"
    using revoke_token(1) by (auto simp: RevokeAPIToken_def Let_def split: if_splits)
  then show ?case using revoke_token admin_write_typed [OF admin_write.revoke_token] by (simp add: auth_ok_def)
qed

lemma InsertSession_Inr:
  assumes "InsertSession s db = Inr db'"
  shows "db' = db\<lparr>db_sessions := db_sessions db @ [s\<lparr>se_RevokedAt := None\<rparr>]\<rparr>"
    "se_TokenHash s \<notin> se_TokenHash ` set (db_sessions db)" "se_ID s \<notin> se_ID ` set (db_sessions db)"
  using assms by (auto simp: InsertSession_def session_legal_def Let_def split: if_splits)

lemma GetAppUser_unique:
  assumes "GetAppUser k db = Some u" "auth_typed db" "v \<in> set (db_users db)" "us_ID v = k"
  shows "v = u"
  using distinct_map_eqD [of us_ID "db_users db" v u] find_row_Some [OF assms(1) [unfolded GetAppUser_def]] assms(2-4)
  by (simp add: auth_typed_def)

lemma new_session_ok:
  assumes "GetAppUser (cp_UserID p) db = Some u" "auth_typed db" "in_era t"
  shows "session_ok (db_users db) (session_params k hash t u p)"
  unfolding session_ok_def session_params_def using GetAppUser_unique [OF assms(1,2)] assms(3)
  by (simp add: sint_idle sint_absolute)

lemma session_ok_touch:
  assumes "session_ok users s" "in_era t"
  shows "session_ok users (s\<lparr>se_LastSeenAt := t, se_ExpiresAt :=
      if micros_Add t SessionIdleWindow \<le>s se_AbsoluteExpiresAt s then micros_Add t SessionIdleWindow
      else se_AbsoluteExpiresAt s\<rparr>)"
  using assms by (auto simp: session_ok_def sint_idle i64_simps)

lemma auth_write_ok:
  assumes "auth_write T db db'" "auth_ok db" "\<And>t. t \<in> T \<Longrightarrow> in_era t"
  shows "auth_ok db'"
  using assms
proof (induction rule: auth_write.induct)
  case (admin db db')
  then show ?case using admin_write_ok by blast
next
  case (session k hash t u p db db')
  have typed: "auth_typed db'" "auth_typed db"
    using session auth_write_typed [OF auth_write.session [OF session(1-3)]] by (auto simp: auth_ok_def)
  have "session_ok (db_users db) (session_params k hash t u p)"
    by (rule new_session_ok [OF session(2) typed(2)]) (simp add: session)
  moreover have "session_params k hash t u p\<lparr>se_RevokedAt := None\<rparr> = session_params k hash t u p"
    by (simp add: session_params_def)
  ultimately show ?case using session(4) typed InsertSession_Inr(1) [OF session(1)] by (auto simp: auth_ok_def)
next
  case (touch_session t db k before)
  then show ?case unfolding TouchSession_def by (auto intro!: auth_ok_change_sessions session_ok_touch)
next
  case (touch_token db t k before)
  then have "auth_typed (TouchAPIToken t k before db)"
    using auth_write_typed [OF auth_write.touch_token] by (simp add: auth_ok_def)
  then show ?case using touch_token by (simp add: auth_ok_def TouchAPIToken_def)
qed

lemma auth_ok_tables: "identity_tables db' = identity_tables db \<Longrightarrow> auth_ok db' = auth_ok db"
  by (simp add: identity_tables_def auth_ok_def auth_typed_def)

lemma auth_step_ok: "auth_step hmac env w w' \<Longrightarrow> (\<And>n. in_era (ev_Now env n)) \<Longrightarrow> auth_ok (wd_db w) \<Longrightarrow> auth_ok (wd_db w')"
  by (drule auth_step_write) (metis auth_ok_tables auth_write_ok rangeE)

lemma auth_reachable_ok: "auth_reachable hmac env w \<Longrightarrow> (\<And>n. in_era (ev_Now env n)) \<Longrightarrow> auth_ok (wd_db w)"
proof (induction rule: auth_reachable.induct)
  case (start w)
  then show ?case by (simp add: identity_tables_def auth_ok_def auth_typed_def)
next
  case (step w w')
  then show ?case using auth_step_ok by blast
qed

lemma auth_steps_reachable: "(auth_step hmac env)\<^sup>*\<^sup>* w w' \<Longrightarrow> auth_reachable hmac env w \<Longrightarrow> auth_reachable hmac env w'"
  by (induction rule: rtranclp_induct) (auto intro: auth_reachable.step)

lemma auth_reachable_typed: "auth_reachable hmac env w \<Longrightarrow> auth_typed (wd_db w)"
proof (induction rule: auth_reachable.induct)
  case (start w)
  then show ?case by (simp add: identity_tables_def auth_typed_def)
next
  case (step w w')
  have "identity_tables (wd_db w') = identity_tables (wd_db w) \<Longrightarrow> auth_typed (wd_db w') = auth_typed (wd_db w)"
    by (simp add: identity_tables_def auth_typed_def)
  then show ?case using step auth_step_write [OF step(2)] auth_write_typed by blast
qed

end
