(* ===== verification/AuthSafety.thy ===== *)
theory AuthSafety
  imports AuthMachine AuthzCheck
begin

text \<open>
  What the resolution of credentials promises: which requests it accepts, that what has ended stays
  ended, that what was minted is accepted, and what a token never does. The last section is an example
  on which the theorems are applied.
\<close>

section \<open>Which requests are accepted\<close>

text \<open>
  The specification, without an order of checks: no query parameter carries a token, and either the
  Authorization header is a bearer token whose row is live and whose account is active, or there is no
  such header and the cookie is the secret of a live session.
\<close>

definition live_token :: "micros \<Rightarrow> api_token_row \<Rightarrow> service_account_row \<Rightarrow> bool" where
  "live_token clock t a \<longleftrightarrow> ak_RevokedAt t = None \<and> (\<forall>e. ak_ExpiresAt t = Some e \<longrightarrow> sint clock < sint e) \<and>
     sv_State a = UserStateActive"

definition live_session :: "micros \<Rightarrow> session_row \<Rightarrow> app_user_row \<Rightarrow> bool" where
  "live_session clock s u \<longleftrightarrow> se_RevokedAt s = None \<and> sint clock < sint (se_ExpiresAt s) \<and>
     sint clock < sint (se_AbsoluteExpiresAt s) \<and> se_SessionEpoch s = us_SessionEpoch u \<and>
     us_DeletedAt u = None \<and> us_State u = UserStateActive"

definition token_accepted :: "(string \<Rightarrow> string \<Rightarrow> string) \<Rightarrow> keyring option \<Rightarrow> string \<Rightarrow> micros \<Rightarrow> database \<Rightarrow> principal \<Rightarrow> bool" where
  "token_accepted hmac keys header clock db p \<longleftrightarrow> (\<exists>presented prefix secret. \<exists>t \<in> set (db_tokens db).
     \<exists>a \<in> set (db_service_accounts db). bearerToken header = Inr presented \<and> parseToken presented = Inr (prefix, secret) \<and>
       ak_Prefix t = prefix \<and> sv_ID a = ak_ServiceAccountID t \<and>
       TokenHash hmac keys (ak_PepperKid t) secret = Inr (ak_TokenHash t) \<and> live_token clock t a \<and> p = token_principal t a)"

definition session_accepted :: "(string \<Rightarrow> string) \<Rightarrow> string option \<Rightarrow> micros \<Rightarrow> database \<Rightarrow> principal \<Rightarrow> bool" where
  "session_accepted sha256 cookie clock db p \<longleftrightarrow> (\<exists>c hash. \<exists>s \<in> set (db_sessions db). \<exists>u \<in> set (db_users db).
     cookie = Some c \<and> hashSessionSecret sha256 c = Inr hash \<and> se_TokenHash s = hash \<and> us_ID u = se_UserID s \<and>
     live_session clock s u \<and> p = session_principal s u)"

definition accepted :: "(string \<Rightarrow> string \<Rightarrow> string) \<Rightarrow> (string \<Rightarrow> string) \<Rightarrow> keyring option \<Rightarrow> http_request \<Rightarrow> micros \<Rightarrow>
    database \<Rightarrow> principal \<Rightarrow> bool" where
  "accepted hmac sha256 keys r clock db p \<longleftrightarrow> (\<forall>name \<in> set queryTokenParams. query_get name (hr_Query r) = []) \<and>
     (if TrimSpace (hr_Authorization r) \<noteq> [] then token_accepted hmac keys (hr_Authorization r) clock db p
      else session_accepted sha256 (hr_SessionCookie r) clock db p)"

lemma refusal_None: "session_refusal clock s u = None \<longleftrightarrow> live_session clock s u"
  by (auto simp: session_refusal_def live_session_def i64_simps)

lemma ResolveSession_Some: "ResolveSession hash db = Some (s, u) \<Longrightarrow>
    s \<in> set (db_sessions db) \<and> u \<in> set (db_users db) \<and> se_TokenHash s = hash \<and> us_ID u = se_UserID s"
  unfolding ResolveSession_def by (drule find_row_Some) auto

lemma ResolveAPIToken_Some: "ResolveAPIToken prefix db = Some (t, a) \<Longrightarrow>
    t \<in> set (db_tokens db) \<and> a \<in> set (db_service_accounts db) \<and> ak_Prefix t = prefix \<and> sv_ID a = ak_ServiceAccountID t"
  unfolding ResolveAPIToken_def by (drule find_row_Some) auto

lemma find_row_None: "find_row p rows = None \<longleftrightarrow> (\<forall>r \<in> set rows. \<not> p r)"
  by (auto simp: find_row_def filter_empty_conv split: list.splits dest: filter_eq_ConsD)

lemma ResolveSession_unique:
  assumes "auth_typed db" "s \<in> set (db_sessions db)" "u \<in> set (db_users db)" "us_ID u = se_UserID s"
  shows "ResolveSession (se_TokenHash s) db = Some (s, u)"
proof (cases "ResolveSession (se_TokenHash s) db")
  case None
  then show ?thesis using assms by (auto simp: ResolveSession_def find_row_None)
next
  case (Some su)
  then obtain s' u' where su: "ResolveSession (se_TokenHash s) db = Some (s', u')" by (cases su) simp
  note row = ResolveSession_Some [OF su]
  have "s' = s" using row assms distinct_map_eqD [of se_TokenHash "db_sessions db" s' s] by (simp add: auth_typed_def)
  moreover have "u' = u" using row assms calculation distinct_map_eqD [of us_ID "db_users db" u' u] by (simp add: auth_typed_def)
  ultimately show ?thesis using su by simp
qed

lemma ResolveAPIToken_unique:
  assumes "auth_typed db" "t \<in> set (db_tokens db)" "a \<in> set (db_service_accounts db)" "sv_ID a = ak_ServiceAccountID t"
  shows "ResolveAPIToken (ak_Prefix t) db = Some (t, a)"
proof (cases "ResolveAPIToken (ak_Prefix t) db")
  case None
  then show ?thesis using assms by (auto simp: ResolveAPIToken_def find_row_None)
next
  case (Some ta)
  then obtain t' a' where ta: "ResolveAPIToken (ak_Prefix t) db = Some (t', a')" by (cases ta) simp
  note row = ResolveAPIToken_Some [OF ta]
  have "t' = t" using row assms distinct_map_eqD [of ak_Prefix "db_tokens db" t' t] by (simp add: auth_typed_def)
  moreover have "a' = a" using row assms calculation distinct_map_eqD [of sv_ID "db_service_accounts db" a' a]
    by (simp add: auth_typed_def)
  ultimately show ?thesis using ta by simp
qed

lemma no_query_token: "tokenInQueryString r = None \<longleftrightarrow> (\<forall>name \<in> set queryTokenParams. query_get name (hr_Query r) = [])"
  by (simp add: tokenInQueryString_def find_None_iff Ball_def)

lemma resolveToken_sound:
  assumes "resolveToken hmac env keys presented w = (Inr p, w')" "bearerToken header = Inr presented"
  shows "token_accepted hmac keys header (ev_Now env (wd_reads w)) (wd_db w) p"
  using assms(1)
proof (cases rule: resolveToken_cases)
  case (found prefix secret t a w1)
  then show ?thesis using ResolveAPIToken_Some [OF found(2)] assms(2)
    unfolding token_accepted_def live_token_def by auto
qed simp

lemma resolveSession_sound:
  assumes "resolveSession sha256 env c w = (Inr p, w')"
  shows "session_accepted sha256 (Some c) (ev_Now env (wd_reads w)) (wd_db w) p"
  using assms
proof (cases rule: resolveSession_cases)
  case (found hash s u w1)
  then show ?thesis using ResolveSession_Some [OF found(2)]
    unfolding session_accepted_def refusal_None by auto
qed simp

lemma resolveToken_complete:
  assumes "token_accepted hmac keys header (ev_Now env (wd_reads w)) (wd_db w) p" "bearerToken header = Inr presented"
    and "auth_typed (wd_db w)" "ev_Fault env (wd_stmts w) = None"
  shows "fst (resolveToken hmac env keys presented w) = Inr p"
proof -
  obtain prefix secret t a where row: "t \<in> set (db_tokens (wd_db w))" "a \<in> set (db_service_accounts (wd_db w))"
      "parseToken presented = Inr (prefix, secret)" "ak_Prefix t = prefix" "sv_ID a = ak_ServiceAccountID t"
    and hash: "TokenHash hmac keys (ak_PepperKid t) secret = Inr (ak_TokenHash t)"
    and live: "live_token (ev_Now env (wd_reads w)) t a" "p = token_principal t a"
    using assms(1,2) unfolding token_accepted_def by auto
  have "keys \<noteq> None" using hash by (cases keys) (simp_all add: TokenHash_def)
  moreover have "query env (\<lambda>db. Inr (ResolveAPIToken prefix db)) w = (Inr (Some (t, a)), w\<lparr>wd_stmts := Suc (wd_stmts w)\<rparr>)"
    using ResolveAPIToken_unique [OF assms(3) row(1,2,5)] row(4) assms(4) by (simp add: query_eq)
  ultimately show ?thesis using row(3) hash live
    by (simp add: resolveToken_def Let_def live_token_def i64_simps linorder_not_le split: option.splits)
qed

lemma resolveSession_complete:
  assumes "session_accepted sha256 (Some c) (ev_Now env (wd_reads w)) (wd_db w) p"
    and "auth_typed (wd_db w)" "ev_Fault env (wd_stmts w) = None"
  shows "fst (resolveSession sha256 env c w) = Inr p"
proof -
  obtain s u where row: "s \<in> set (db_sessions (wd_db w))" "u \<in> set (db_users (wd_db w))" "us_ID u = se_UserID s"
    and hash: "hashSessionSecret sha256 c = Inr (se_TokenHash s)"
    and live: "session_refusal (ev_Now env (wd_reads w)) s u = None" "p = session_principal s u"
    using assms(1) unfolding session_accepted_def refusal_None by auto
  have "query env (\<lambda>db. Inr (ResolveSession (se_TokenHash s) db)) w = (Inr (Some (s, u)), w\<lparr>wd_stmts := Suc (wd_stmts w)\<rparr>)"
    using ResolveSession_unique [OF assms(2) row] assms(3) by (simp add: query_eq)
  then show ?thesis using hash live by (simp add: resolveSession_def Let_def)
qed

lemma empty_cookie: "hashSessionSecret sha256 [] = Inl ErrMalformedCredential"
  by (simp add: hashSessionSecret_def SessionSecretLen_def)

lemma token_accepted_bearer: "token_accepted hmac keys header clock db p \<Longrightarrow> \<exists>presented. bearerToken header = Inr presented"
  by (auto simp: token_accepted_def)

text \<open>C35: A request is accepted exactly when it presents a live credential the right way: no query
  parameter carries a token, and either its Authorization header is the bearer token of an unrevoked,
  unexpired row whose hash under the row's pepper is the stored one and whose service account is active,
  or there is no such header and its cookie is the secret of a session that is unrevoked, within both
  its windows and of the current epoch of an active, undeleted user. The principal is that of the row. Any
  other answer is a refusal, and a request that should be accepted is only refused when the statement that looks
  its credential up fails.\<close>

theorem requests_accepted_exactly:
  assumes "auth_typed (wd_db w)"
  shows "case ResolveRequest hmac True env keys (Some r) w of
      (Inr p, _) \<Rightarrow> accepted hmac (ev_SHA256 env) keys r (ev_Now env (wd_reads w)) (wd_db w) p
    | (Inl _, _) \<Rightarrow> ev_Fault env (wd_stmts w) \<noteq> None \<or>
        (\<nexists>p. accepted hmac (ev_SHA256 env) keys r (ev_Now env (wd_reads w)) (wd_db w) p)"
proof (cases "tokenInQueryString r")
  case (Some name)
  then show ?thesis using no_query_token [of r] by (simp add: ResolveRequest_def accepted_def)
next
  case clean: None
  let ?acc = "accepted hmac (ev_SHA256 env) keys r (ev_Now env (wd_reads w)) (wd_db w)"
  show ?thesis
  proof (cases "TrimSpace (hr_Authorization r) \<noteq> []")
    case header: True
    show ?thesis
    proof (cases "bearerToken (hr_Authorization r)")
      case (Inl e)
      then show ?thesis using clean header token_accepted_bearer [of hmac keys "hr_Authorization r"]
        by (auto simp: ResolveRequest_def accepted_def)
    next
      case (Inr presented)
      then have run: "ResolveRequest hmac True env keys (Some r) w = resolveToken hmac env keys presented w"
        and acc: "?acc p \<longleftrightarrow> token_accepted hmac keys (hr_Authorization r) (ev_Now env (wd_reads w)) (wd_db w) p" for p
        using clean header no_query_token [of r] by (auto simp: ResolveRequest_def accepted_def)
      show ?thesis unfolding run acc
        by (cases "resolveToken hmac env keys presented w"; cases "fst (resolveToken hmac env keys presented w)")
          (use resolveToken_sound [OF _ Inr] resolveToken_complete [OF _ Inr assms] in \<open>fastforce+\<close>)
    qed
  next
    case no_header: False
    show ?thesis
    proof (cases "sessionCookie r")
      case None
      then have "hr_SessionCookie r \<in> {None, Some []}" by (auto simp: sessionCookie_def split: option.splits if_splits)
      then show ?thesis using None clean no_header empty_cookie
        by (auto simp: ResolveRequest_def accepted_def session_accepted_def)
    next
      case (Some c)
      then have "hr_SessionCookie r = Some c" by (auto simp: sessionCookie_def split: option.splits if_splits)
      then have run: "ResolveRequest hmac True env keys (Some r) w = resolveSession (ev_SHA256 env) env c w"
        and acc: "?acc p \<longleftrightarrow> session_accepted (ev_SHA256 env) (Some c) (ev_Now env (wd_reads w)) (wd_db w) p" for p
        using Some clean no_header no_query_token [of r] by (auto simp: ResolveRequest_def accepted_def)
      show ?thesis unfolding run acc
        by (cases "resolveSession (ev_SHA256 env) env c w"; cases "fst (resolveSession (ev_SHA256 env) env c w)")
          (use resolveSession_sound resolveSession_complete [OF _ assms] in \<open>fastforce+\<close>)
    qed
  qed
qed

section \<open>What has ended stays ended\<close>

lemma resolved_session:
  assumes "ResolveRequest hmac store env keys req w = (Inr p, w')" "pr_Credential p = CredentialSession"
  obtains s u where "s \<in> set (db_sessions (wd_db w))" "u \<in> set (db_users (wd_db w))" "us_ID u = se_UserID s"
    "live_session (ev_Now env (wd_reads w)) s u" "p = session_principal s u"
proof -
  have "\<not> resolveToken hmac env keys presented w = (Inr p, w')" for presented
    using assms(2) by (auto elim!: resolveToken_cases simp: token_principal_def)
  then obtain c where "resolveSession (ev_SHA256 env) env c w = (Inr p, w')"
    using assms(1) by (auto simp: ResolveRequest_def split: if_splits option.splits sum.splits)
  then show ?thesis using that resolveSession_sound unfolding session_accepted_def by metis
qed

lemma resolved_token:
  assumes "ResolveRequest hmac store env keys req w = (Inr p, w')" "pr_Credential p = CredentialToken"
  obtains t a where "t \<in> set (db_tokens (wd_db w))" "a \<in> set (db_service_accounts (wd_db w))"
    "sv_ID a = ak_ServiceAccountID t" "live_token (ev_Now env (wd_reads w)) t a" "p = token_principal t a"
proof -
  have "\<not> resolveSession sha256 env c w = (Inr p, w')" for sha256 c
    using assms(2) by (auto elim!: resolveSession_cases simp: session_principal_def)
  then obtain header presented where "resolveToken hmac env keys presented w = (Inr p, w')" "bearerToken header = Inr presented"
    using assms(1) by (auto simp: ResolveRequest_def split: if_splits option.splits sum.splits)
  then show ?thesis using that resolveToken_sound unfolding token_accepted_def by metis
qed

text \<open>A session is spent when it is revoked, its user has moved to a later epoch or its user is deleted.\<close>

definition session_spent :: "database \<Rightarrow> ulid \<Rightarrow> bool" where
  "session_spent db k \<longleftrightarrow> (\<exists>s \<in> set (db_sessions db). se_ID s = k \<and> (se_RevokedAt s \<noteq> None \<or>
     (\<exists>u \<in> set (db_users db). us_ID u = se_UserID s \<and>
       (sint (se_SessionEpoch s) < sint (us_SessionEpoch u) \<or> us_DeletedAt u \<noteq> None))))"

definition token_spent :: "database \<Rightarrow> ulid \<Rightarrow> bool" where
  "token_spent db k \<longleftrightarrow> (\<exists>t \<in> set (db_tokens db). ak_ID t = k \<and> ak_RevokedAt t \<noteq> None)"

lemma session_spentI:
  "s \<in> set (db_sessions db) \<Longrightarrow> se_RevokedAt s \<noteq> None \<Longrightarrow> session_spent db (se_ID s)"
  "s \<in> set (db_sessions db) \<Longrightarrow> u \<in> set (db_users db) \<Longrightarrow> us_ID u = se_UserID s \<Longrightarrow>
    sint (se_SessionEpoch s) < sint (us_SessionEpoch u) \<or> us_DeletedAt u \<noteq> None \<Longrightarrow> session_spent db (se_ID s)"
  unfolding session_spent_def by blast+

lemma session_spent_kept: "session_spent db k \<Longrightarrow> kept db db' \<Longrightarrow> session_spent db' k"
proof -
  assume "session_spent db k" and kept: "kept db db'"
  then obtain s where s: "s \<in> set (db_sessions db)" "se_ID s = k" and why: "se_RevokedAt s \<noteq> None \<or>
     (\<exists>u \<in> set (db_users db). us_ID u = se_UserID s \<and>
       (sint (se_SessionEpoch s) < sint (us_SessionEpoch u) \<or> us_DeletedAt u \<noteq> None))"
    unfolding session_spent_def by blast
  obtain s' where s': "s' \<in> set (db_sessions db')" "session_kept s s'" using s(1) kept unfolding kept_def by blast
  from why have "session_spent db' (se_ID s')"
  proof
    assume "se_RevokedAt s \<noteq> None"
    then show ?thesis using session_spentI(1) [OF s'(1)] s'(2) by (simp add: session_kept_def)
  next
    assume "\<exists>u \<in> set (db_users db). us_ID u = se_UserID s \<and>
       (sint (se_SessionEpoch s) < sint (us_SessionEpoch u) \<or> us_DeletedAt u \<noteq> None)"
    then obtain u where u: "u \<in> set (db_users db)" "us_ID u = se_UserID s"
      "sint (se_SessionEpoch s) < sint (us_SessionEpoch u) \<or> us_DeletedAt u \<noteq> None" by blast
    obtain u' where "u' \<in> set (db_users db')" "user_kept u u'" using u(1) kept unfolding kept_def by blast
    then show ?thesis using session_spentI(2) [of s' db' u'] s' u(2,3) by (auto simp: session_kept_def user_kept_def)
  qed
  then show ?thesis using s(2) s'(2) by (simp add: session_kept_def)
qed

lemma token_spent_kept: "token_spent db k \<Longrightarrow> kept db db' \<Longrightarrow> token_spent db' k"
  unfolding token_spent_def kept_def token_kept_def by metis

lemma spent_session_refused:
  assumes "session_spent (wd_db w) k" "auth_typed (wd_db w)"
    and "ResolveRequest hmac store env keys req w = (Inr p, w')" "pr_Credential p = CredentialSession"
  shows "pr_SessionID p \<noteq> k"
proof
  assume k: "pr_SessionID p = k"
  obtain s u where row: "s \<in> set (db_sessions (wd_db w))" "u \<in> set (db_users (wd_db w))" "us_ID u = se_UserID s"
    and live: "live_session (ev_Now env (wd_reads w)) s u" "p = session_principal s u"
    by (rule resolved_session [OF assms(3,4)])
  obtain s' where s': "s' \<in> set (db_sessions (wd_db w))" "se_ID s' = k" "se_RevokedAt s' \<noteq> None \<or>
     (\<exists>u \<in> set (db_users (wd_db w)). us_ID u = se_UserID s' \<and>
       (sint (se_SessionEpoch s') < sint (us_SessionEpoch u) \<or> us_DeletedAt u \<noteq> None))"
    using assms(1) unfolding session_spent_def by metis
  have "se_ID s = k" using k live(2) by (simp add: session_principal_def)
  then have "s' = s" using s' row distinct_map_eqD [of se_ID "db_sessions (wd_db w)" s' s] assms(2) by (simp add: auth_typed_def)
  moreover have "v = u" if "v \<in> set (db_users (wd_db w))" "us_ID v = us_ID u" for v
    using that row distinct_map_eqD [of us_ID "db_users (wd_db w)" v u] assms(2) by (simp add: auth_typed_def)
  ultimately show False using s'(3) row live(1) unfolding live_session_def by (metis order_less_irrefl)
qed

lemma spent_token_refused:
  assumes "token_spent (wd_db w) k" "auth_typed (wd_db w)"
    and "ResolveRequest hmac store env keys req w = (Inr p, w')" "pr_Credential p = CredentialToken"
  shows "pr_TokenID p \<noteq> k"
proof
  assume k: "pr_TokenID p = k"
  obtain t a where row: "t \<in> set (db_tokens (wd_db w))" and live: "live_token (ev_Now env (wd_reads w)) t a" "p = token_principal t a"
    by (rule resolved_token [OF assms(3,4)])
  obtain t' where t': "t' \<in> set (db_tokens (wd_db w))" "ak_ID t' = k" "ak_RevokedAt t' \<noteq> None"
    using assms(1) unfolding token_spent_def by metis
  have "ak_ID t = k" using k live(2) by (simp add: token_principal_def)
  then have "t' = t" using t' row distinct_map_eqD [of ak_ID "db_tokens (wd_db w)" t' t] assms(2) by (simp add: auth_typed_def)
  then show False using t'(3) live(1) unfolding live_token_def by simp
qed

text \<open>The writes that end a session, or a token.\<close>

definition ends_session :: "session_row \<Rightarrow> database \<Rightarrow> database \<Rightarrow> bool" where
  "ends_session s db db' \<longleftrightarrow> (\<exists>t. db' = RevokeSession t (se_ID s) db) \<or>
     (\<exists>t. BumpSessionEpoch t (se_UserID s) db = Inr db') \<or>
     (\<exists>d t. db' = SoftDeleteAppUser d t (se_UserID s) db)"

lemma changed_mem: "r \<in> set rows \<Longrightarrow> p r \<Longrightarrow> f r \<in> set (change p f rows)"
  by (simp add: change_set)

lemma unchanged_mem: "r \<in> set rows \<Longrightarrow> \<not> p r \<Longrightarrow> r \<in> set (change p f rows)"
  by (simp add: change_set)

lemma RevokeAPIToken_spent:
  assumes "RevokeAPIToken clock who reason (ak_ID t) db = Inr db'" "t \<in> set (db_tokens db)"
  shows "token_spent db' (ak_ID t)"
proof -
  let ?p = "\<lambda>r. ak_ID r = ak_ID t \<and> ak_RevokedAt r = None"
  let ?f = "\<lambda>r. r\<lparr>ak_RevokedAt := Some clock, ak_RevokedBy := who, ak_RevokeReason := reason\<rparr>"
  have db': "db_tokens db' = change ?p ?f (db_tokens db)"
    using assms(1) by (auto simp: RevokeAPIToken_def Let_def split: if_splits)
  show ?thesis
  proof (cases "ak_RevokedAt t = None")
    case True
    then have "?f t \<in> set (db_tokens db')" unfolding db' by (intro changed_mem assms(2)) simp
    then show ?thesis unfolding token_spent_def by (rule rev_bexI) simp
  next
    case False
    then have "t \<in> set (db_tokens db')" unfolding db' by (intro unchanged_mem assms(2)) simp
    then show ?thesis unfolding token_spent_def by (rule rev_bexI) (simp add: False)
  qed
qed

lemma ends_session_write: "ends_session s db db' \<Longrightarrow> admin_write db db'"
  unfolding ends_session_def using admin_write.intros by metis

lemma ends_session_spent:
  assumes "ends_session s db db'" "s \<in> set (db_sessions db)" "auth_ok db"
  shows "session_spent db' (se_ID s)"
proof -
  obtain u where u: "u \<in> set (db_users db)" "us_ID u = se_UserID s" "sint (se_SessionEpoch s) \<le> sint (us_SessionEpoch u)"
  proof -
    have "session_ok (db_users db) s" "se_UserID s \<in> us_ID ` set (db_users db)"
      using assms(2,3) by (auto simp: auth_ok_def auth_typed_def)
    then show ?thesis using that unfolding session_ok_def by (metis imageE)
  qed
  consider (revoke) t where "db' = RevokeSession t (se_ID s) db"
    | (bump) t where "BumpSessionEpoch t (se_UserID s) db = Inr db'"
    | (delete) d t where "db' = SoftDeleteAppUser d t (se_UserID s) db"
    using assms(1) unfolding ends_session_def by blast
  then show ?thesis
  proof cases
    case revoke
    show ?thesis
    proof (cases "se_RevokedAt s = None")
      case True
      have "s\<lparr>se_RevokedAt := Some t\<rparr> \<in> set (db_sessions db')"
        using changed_mem [OF assms(2), of "\<lambda>r. se_ID r = se_ID s \<and> se_RevokedAt r = None"] True
        by (simp add: revoke RevokeSession_def)
      then show ?thesis using session_spentI(1) [of "s\<lparr>se_RevokedAt := Some t\<rparr>" db'] by simp
    next
      case False
      have "s \<in> set (db_sessions db')"
        using unchanged_mem [OF assms(2), of "\<lambda>r. se_ID r = se_ID s \<and> se_RevokedAt r = None"] False
        by (simp add: revoke RevokeSession_def)
      then show ?thesis using session_spentI(1) False by simp
    qed
  next
    case bump
    note db' = BumpSessionEpoch_Inr(1) [OF bump]
    let ?u = "u\<lparr>us_SessionEpoch := us_SessionEpoch u + 1, us_UpdatedAt := t\<rparr>"
    have "sint (se_SessionEpoch s) < sint (us_SessionEpoch ?u)"
      using u BumpSessionEpoch_Inr(2) [OF bump] by (simp add: sint_epoch_next)
    moreover have "?u \<in> set (db_users db')"
      using changed_mem [OF u(1), of "\<lambda>u. us_ID u = se_UserID s"] u(2) by (simp add: db')
    ultimately show ?thesis using session_spentI(2) [of s db' ?u] assms(2) u(2) by (simp add: db')
  next
    case delete
    note db' = delete [unfolded SoftDeleteAppUser_def]
    show ?thesis
    proof (cases "us_DeletedAt u = None")
      case True
      let ?u = "u\<lparr>us_DeletedAt := Some d, us_UpdatedAt := t\<rparr>"
      have "?u \<in> set (db_users db')"
        using changed_mem [OF u(1), of "\<lambda>u. us_ID u = se_UserID s \<and> us_DeletedAt u = None"] True u(2) by (simp add: db')
      then show ?thesis using session_spentI(2) [of s db' ?u] assms(2) u(2) by (simp add: db')
    next
      case False
      have "u \<in> set (db_users db')"
        using unchanged_mem [OF u(1), of "\<lambda>u. us_ID u = se_UserID s \<and> us_DeletedAt u = None"] False by (simp add: db')
      then show ?thesis using session_spentI(2) [of s db' u] assms(2) u(2) False by (simp add: db')
    qed
  qed
qed

text \<open>C34: A session that ends stays ended. After it is revoked, or its user is signed out everywhere by
  the next session epoch, or its user is deleted, no request ever resolves to it again, whatever the
  service and the administration do afterwards, in any order: sessions opened and touched, users, tokens
  and accounts added and changed, and the epoch bumped again. The clock is read between 1970 and the year
  2262.\<close>

theorem ended_sessions_stay_ended:
  assumes "auth_reachable hmac env w" "\<And>n. in_era (ev_Now env n)" "s \<in> set (db_sessions (wd_db w))"
    and "ends_session s (wd_db w) db" "(auth_step hmac env)\<^sup>*\<^sup>* (w\<lparr>wd_db := db\<rparr>) w'"
    and "ResolveRequest hmac store env keys req w' = (Inr p, w'')" "pr_Credential p = CredentialSession"
  shows "pr_SessionID p \<noteq> se_ID s"
proof -
  have "auth_reachable hmac env w'"
    by (rule auth_steps_reachable [OF assms(5) auth_reachable.step [OF assms(1) auth_step.stored [OF ends_session_write [OF assms(4)]]]])
  moreover have "session_spent (wd_db w') (se_ID s)"
    using session_spent_kept [OF ends_session_spent [OF assms(4,3) auth_reachable_ok [OF assms(1,2)]]] auth_steps_kept [OF assms(5)]
    by simp
  ultimately show ?thesis using spent_session_refused auth_reachable_typed assms(6,7) by blast
qed

text \<open>C37: A revoked token stays revoked: after the statement, no request resolves to it again, whatever
  happens to the tables of identities afterwards.\<close>

theorem revoked_tokens_stay_revoked:
  assumes "auth_reachable hmac env w" "t \<in> set (db_tokens (wd_db w))"
    and "RevokeAPIToken clock who reason (ak_ID t) (wd_db w) = Inr db" "(auth_step hmac env)\<^sup>*\<^sup>* (w\<lparr>wd_db := db\<rparr>) w'"
    and "ResolveRequest hmac store env keys req w' = (Inr p, w'')" "pr_Credential p = CredentialToken"
  shows "pr_TokenID p \<noteq> ak_ID t"
proof -
  have "auth_reachable hmac env w'"
    by (rule auth_steps_reachable [OF assms(4) auth_reachable.step [OF assms(1)
          auth_step.stored [OF admin_write.revoke_token [OF assms(3)]]]])
  moreover have "token_spent db (ak_ID t)" by (rule RevokeAPIToken_spent [OF assms(3,2)])
  then have "token_spent (wd_db w') (ak_ID t)"
    using token_spent_kept auth_steps_kept [OF assms(4)] by simp
  ultimately show ?thesis using spent_token_refused auth_reachable_typed assms(5,6) by blast
qed

text \<open>C36: No session outlives its windows. When a request resolves to a session, that session was
  opened less than thirty days ago and was last seen less than fourteen days ago, whatever was done to
  it in between. And after the resolution, which may extend the idle window, every session still expires
  no later than fourteen days after it was last seen and never beyond its absolute window, which is thirty
  days from its opening. The clock is read between 1970 and the year 2262.\<close>

theorem sessions_are_short_lived:
  assumes "auth_reachable hmac env w" "\<And>n. in_era (ev_Now env n)"
    and "ResolveRequest hmac store env keys req w = (Inr p, w')" "pr_Credential p = CredentialSession"
  shows "(\<exists>s \<in> set (db_sessions (wd_db w)). se_ID s = pr_SessionID p \<and>
      sint (ev_Now env (wd_reads w)) < sint (se_CreatedAt s) + 30 * 24 * 3600 * 1000000 \<and>
      sint (ev_Now env (wd_reads w)) < sint (se_LastSeenAt s) + 14 * 24 * 3600 * 1000000) \<and>
    (\<forall>s \<in> set (db_sessions (wd_db w')).
      sint (se_ExpiresAt s) \<le> sint (se_LastSeenAt s) + 14 * 24 * 3600 * 1000000 \<and>
      sint (se_ExpiresAt s) \<le> sint (se_AbsoluteExpiresAt s) \<and>
      sint (se_AbsoluteExpiresAt s) = sint (se_CreatedAt s) + 30 * 24 * 3600 * 1000000)"
proof
  obtain s u where row: "s \<in> set (db_sessions (wd_db w))" "u \<in> set (db_users (wd_db w))" "us_ID u = se_UserID s"
    and live: "live_session (ev_Now env (wd_reads w)) s u" "p = session_principal s u"
    by (rule resolved_session [OF assms(3,4)])
  then show "\<exists>s \<in> set (db_sessions (wd_db w)). se_ID s = pr_SessionID p \<and>
      sint (ev_Now env (wd_reads w)) < sint (se_CreatedAt s) + 30 * 24 * 3600 * 1000000 \<and>
      sint (ev_Now env (wd_reads w)) < sint (se_LastSeenAt s) + 14 * 24 * 3600 * 1000000"
    using auth_reachable_ok [OF assms(1,2)]
    by (intro bexI [of _ s]) (auto simp: auth_ok_def session_ok_def live_session_def session_principal_def)
next
  have ok: "auth_ok (wd_db w')"
    by (rule auth_reachable_ok [OF auth_reachable.step [OF assms(1) auth_step.resolve [OF assms(3)]] assms(2)])
  show "\<forall>s \<in> set (db_sessions (wd_db w')).
      sint (se_ExpiresAt s) \<le> sint (se_LastSeenAt s) + 14 * 24 * 3600 * 1000000 \<and>
      sint (se_ExpiresAt s) \<le> sint (se_AbsoluteExpiresAt s) \<and>
      sint (se_AbsoluteExpiresAt s) = sint (se_CreatedAt s) + 30 * 24 * 3600 * 1000000"
  proof
    fix s assume "s \<in> set (db_sessions (wd_db w'))"
    then have "session_ok (db_users (wd_db w')) s" using ok by (simp add: auth_ok_def)
    then show "sint (se_ExpiresAt s) \<le> sint (se_LastSeenAt s) + 14 * 24 * 3600 * 1000000 \<and>
      sint (se_ExpiresAt s) \<le> sint (se_AbsoluteExpiresAt s) \<and>
      sint (se_AbsoluteExpiresAt s) = sint (se_CreatedAt s) + 30 * 24 * 3600 * 1000000"
      unfolding session_ok_def by blast
  qed
qed

section \<open>What was minted is accepted\<close>

text \<open>No white space begins or ends with a byte of the base64 alphabet.\<close>

lemma spaces_not_b64: "p \<in> set spaces \<Longrightarrow> p \<noteq> [] \<and> b64_val (hd p) = None \<and> b64_val (last p) = None"
proof -
  have "\<forall>p \<in> set spaces. p \<noteq> [] \<and> b64_val (hd p) = None \<and> b64_val (last p) = None" by code_simp
  then show "p \<in> set spaces \<Longrightarrow> ?thesis" by blast
qed

lemma strip_any_None: "(\<And>p. p \<in> set ps \<Longrightarrow> p \<noteq> [] \<and> hd p \<noteq> hd s) \<Longrightarrow> strip_any ps s = None"
proof (induction ps)
  case (Cons p ps)
  have "strip_prefix p s = None"
    using Cons.prems [of p] by (cases p; cases s) auto
  then show ?case using Cons by simp
qed simp

lemma trim_left_id: "strip_any ps s = None \<Longrightarrow> trim_left ps s = s"
  by (cases "length s") (simp_all add: trim_left_def)

lemma TrimSpace_id:
  assumes "s \<noteq> []" "b64_val (hd s) \<noteq> None" "b64_val (last s) \<noteq> None"
  shows "TrimSpace s = s"
proof -
  have "strip_any spaces s = None" using spaces_not_b64 assms by (intro strip_any_None) metis
  moreover have "strip_any (map rev spaces) (rev s) = None"
    using spaces_not_b64 assms by (intro strip_any_None) (auto simp: hd_rev, metis option.distinct(1))
  ultimately show ?thesis by (simp add: TrimSpace_def trim_left_id)
qed

lemma b64_encode_alphabet: "c \<in> set (b64_encode s) \<Longrightarrow> b64_val c \<noteq> None"
  using sextet_char b64_split_range by (fastforce simp: b64_encode_def)

definition bearer_header :: "string \<Rightarrow> string" where "bearer_header token = ''Bearer '' @ token"

lemma bearer_minted:
  assumes "NewToken hmac keys (Inr pre) (Inr secret) = Inr m" "length secret = TokenSecretBytes"
  shows "bearerToken (bearer_header (mk_Plaintext m)) = Inr (mk_Plaintext m)"
    and "TrimSpace (bearer_header (mk_Plaintext m)) \<noteq> []"
    and "mk_Plaintext m = TokenScheme @ b64_encode pre @ ''_'' @ b64_encode secret" "mk_Prefix m = b64_encode pre"
    and "TokenHash hmac keys (mk_PepperKID m) secret = Inr (mk_Hash m)"
proof -
  show m: "mk_Plaintext m = TokenScheme @ b64_encode pre @ ''_'' @ b64_encode secret" "mk_Prefix m = b64_encode pre"
    "TokenHash hmac keys (mk_PepperKID m) secret = Inr (mk_Hash m)"
    using assms(1) by (auto simp: NewToken_def res_simps Let_def)
  have nonempty: "b64_encode secret \<noteq> []"
    using length_b64_encode [of secret] assms(2) by (auto simp: TokenSecretBytes_def)
  then have last: "b64_val (last (b64_encode secret)) \<noteq> None" using b64_encode_alphabet last_in_set by blast
  have hd: "b64_val (CHR ''d'') \<noteq> None" "b64_val (CHR ''B'') \<noteq> None" by code_simp+
  have "TrimSpace (mk_Plaintext m) = mk_Plaintext m"
    using last hd nonempty unfolding m by (intro TrimSpace_id) (simp_all add: TokenScheme_def)
  moreover have "TrimSpace ''Bearer'' = ''Bearer''" "map ascii_lower ''Bearer'' = ''bearer''" by code_simp+
  moreover have "mk_Plaintext m \<noteq> []" by (simp add: m TokenScheme_def)
  ultimately show "bearerToken (bearer_header (mk_Plaintext m)) = Inr (mk_Plaintext m)"
    by (simp add: bearerToken_def bearer_header_def Cut_def)
  have "TrimSpace (bearer_header (mk_Plaintext m)) = bearer_header (mk_Plaintext m)"
    using last hd nonempty unfolding m bearer_header_def by (intro TrimSpace_id) (simp_all add: TokenScheme_def)
  then show "TrimSpace (bearer_header (mk_Plaintext m)) \<noteq> []" by (simp add: bearer_header_def)
qed

text \<open>C40: A token that was minted and stored is accepted: the bearer header with its plaintext resolves
  to the principal of its row, as long as the row is live and no statement fails.\<close>

theorem minted_token_resolves:
  assumes "NewToken hmac keys (Inr pre) (Inr secret) = Inr m" "length pre = TokenPrefixBytes" "length secret = TokenSecretBytes"
    and "auth_typed (wd_db w)" "ev_Fault env (wd_stmts w) = None"
    and "t \<in> set (db_tokens (wd_db w))" "ak_Prefix t = mk_Prefix m" "ak_TokenHash t = mk_Hash m" "ak_PepperKid t = mk_PepperKID m"
    and "a \<in> set (db_service_accounts (wd_db w))" "sv_ID a = ak_ServiceAccountID t" "live_token (ev_Now env (wd_reads w)) t a"
    and "hr_Authorization r = bearer_header (mk_Plaintext m)" "\<forall>name \<in> set queryTokenParams. query_get name (hr_Query r) = []"
  shows "fst (ResolveRequest hmac True env keys (Some r) w) = Inr (token_principal t a)"
proof -
  note minted = bearer_minted [OF assms(1,3)]
  have "bearerToken (hr_Authorization r) = Inr (mk_Plaintext m)" using minted(1) assms(13) by simp
  moreover have "parseToken (mk_Plaintext m) = Inr (ak_Prefix t, secret)"
    unfolding minted(3) assms(7) minted(4) by (rule minted_token_parts [OF assms(2,3)])
  moreover have "TokenHash hmac keys (ak_PepperKid t) secret = Inr (ak_TokenHash t)" using minted(5) assms(8,9) by simp
  ultimately have "token_accepted hmac keys (hr_Authorization r) (ev_Now env (wd_reads w)) (wd_db w) (token_principal t a)"
    unfolding token_accepted_def using assms(6,10-12) by blast
  then have "fst (resolveToken hmac env keys (mk_Plaintext m) w) = Inr (token_principal t a)"
    by (rule resolveToken_complete) (simp_all only: assms minted(1))
  moreover have "tokenInQueryString r = None" using assms(14) by (simp add: no_query_token)
  ultimately show ?thesis using minted(1,2) assms(13) by (simp add: ResolveRequest_def)
qed

text \<open>C39: A session that was created is accepted: a request whose cookie is the secret that was
  handed out, and which has no Authorization header and no token in its query, resolves to the user it was
  opened for, under the id of the session, with a step-up exactly when it was opened with one, as long as its
  windows last, nothing else was written in between and no statement fails.\<close>

theorem created_session_resolves:
  assumes "CreateSession read env p w = (Inr c, w')" "\<And>raw. read = Inr raw \<Longrightarrow> length raw = SessionSecretBytes"
    and "auth_typed (wd_db w)" "ev_Fault env (wd_stmts w') = None"
    and "sint (ev_Now env (wd_reads w')) < sint (cs_ExpiresAt c)" "sint (ev_Now env (wd_reads w')) < sint (cs_AbsoluteExpiresAt c)"
    and "hr_SessionCookie r = Some (cs_Secret c)" "TrimSpace (hr_Authorization r) = []"
    and "\<forall>name \<in> set queryTokenParams. query_get name (hr_Query r) = []"
  shows "\<exists>q w''. ResolveRequest hmac True env keys (Some r) w' = (Inr q, w'') \<and> pr_Kind q = SubjectKindUser \<and>
    pr_ID q = cp_UserID p \<and> pr_Credential q = CredentialSession \<and> pr_SessionID q = cs_ID c \<and>
    (pr_SteppedUpAt q \<noteq> None \<longleftrightarrow> cp_SteppedUp p)"
proof -
  obtain raw k t u n where raw: "read = Inr raw" and u: "GetAppUser (cp_UserID p) (wd_db w) = Some u"
      "us_DeletedAt u = None" "us_State u = UserStateActive"
    and ins: "InsertSession (session_params k (ev_SHA256 env raw) t u p) (wd_db w) = Inr (wd_db w')"
    and c: "c = \<lparr>cs_ID = k, cs_Secret = b64_encode raw, cs_ExpiresAt = micros_Add t SessionIdleWindow,
         cs_AbsoluteExpiresAt = micros_Add t SessionAbsoluteWindow\<rparr>"
    by (rule CreateSession_Inr [OF assms(1)])
  let ?s = "session_params k (ev_SHA256 env raw) t u p"
  have typed: "auth_typed (wd_db w')"
    using auth_write_typed [OF auth_write.session [OF ins u(1), of "{t}"]] assms(3) by simp
  have "?s\<lparr>se_RevokedAt := None\<rparr> = ?s" by (simp add: session_params_def)
  then have s: "?s \<in> set (db_sessions (wd_db w'))" using InsertSession_Inr(1) [OF ins] by simp
  have user: "u \<in> set (db_users (wd_db w'))" "us_ID u = se_UserID ?s"
    using find_row_Some [OF u(1) [unfolded GetAppUser_def]] InsertSession_Inr(1) [OF ins] by (simp_all add: session_params_def)
  have live: "live_session (ev_Now env (wd_reads w')) ?s u"
    using assms(5,6) u by (simp add: live_session_def session_params_def c)
  have "hashSessionSecret (ev_SHA256 env) (cs_Secret c) = Inr (se_TokenHash ?s)"
    using minted_session_hash [OF assms(2) [OF raw]] by (simp add: c session_params_def)
  then have "session_accepted (ev_SHA256 env) (Some (cs_Secret c)) (ev_Now env (wd_reads w')) (wd_db w') (session_principal ?s u)"
    unfolding session_accepted_def using s user live by blast
  then have "fst (resolveSession (ev_SHA256 env) env (cs_Secret c) w') = Inr (session_principal ?s u)"
    by (rule resolveSession_complete [OF _ typed assms(4)])
  moreover have "cs_Secret c \<noteq> []"
    using length_b64_encode [of raw] assms(2) [OF raw] by (auto simp: c SessionSecretBytes_def)
  then have "sessionCookie r = Some (cs_Secret c)" using assms(7) by (simp add: sessionCookie_def)
  moreover have "tokenInQueryString r = None" using assms(9) by (simp add: no_query_token)
  ultimately have "fst (ResolveRequest hmac True env keys (Some r) w') = Inr (session_principal ?s u)"
    using assms(8) by (simp add: ResolveRequest_def)
  then show ?thesis by (cases "ResolveRequest hmac True env keys (Some r) w'") (simp add: session_principal_def session_params_def c)
qed

text \<open>C38: A token never reaches the capability floor: whoever a bearer header resolves to is
  refused any operation on a permission of the floor with the answer that a session is required, whatever
  roles and scopes it holds and whatever the database says.\<close>

theorem tokens_never_hold_the_floor:
  assumes "ResolveRequest hmac store env keys (Some r) w = (Inr p, w1)" "TrimSpace (hr_Authorization r) \<noteq> []"
    and "rm_Permission req \<in> set CapabilityFloor"
  shows "\<exists>d. Check True env' (Some p) req w2 = ((d, None), w2) \<and> az_Outcome d = OutcomeSessionRequired"
proof -
  obtain presented where "resolveToken hmac env keys presented w = (Inr p, w1)"
    using assms(1,2) by (auto simp: ResolveRequest_def split: if_splits option.splits sum.splits)
  then have "pr_Credential p = CredentialToken" by (cases rule: resolveToken_cases) (auto simp: token_principal_def)
  moreover have "'''' \<notin> set CapabilityFloor" by code_simp
  then have "inCapabilityFloor (rm_Permission req)" using assms(3) by (auto simp: inCapabilityFloor_def)
  ultimately show ?thesis by (simp add: Check_def checkToken_def Let_def)
qed

section \<open>An example\<close>

text \<open>A user with two sessions, and a service account with a token.\<close>

definition door_hmac :: "string \<Rightarrow> string \<Rightarrow> string" where "door_hmac k m = k @ m"

definition door_keys :: "keyring option" where "door_keys = Some \<lparr>kr_patPepper = ''pepper''\<rparr>"

definition host :: app_user_row where
  "host = \<lparr>us_ID = ''u'', us_Username = ''host'', us_UsernameNorm = ''host'', us_Email = None, us_EmailNorm = None,
     us_EmailVerifiedAt = None, us_DisplayName = ''Host'', us_Timezone = None, us_Locale = None, us_State = UserStateActive,
     us_SessionEpoch = 0, us_LastLoginAt = None, us_FailedLogins = 0, us_LockedUntilAt = None, us_MfaTotpSecretEnc = None,
     us_MfaEnrolledAt = None, us_MfaRequired = 0, us_DeletedAt = None, us_CreatedAt = 1, us_UpdatedAt = 1\<rparr>"

definition bot_account :: service_account_row where
  "bot_account = \<lparr>sv_ID = ''b'', sv_Name = ''bot'', sv_NameNorm = ''bot'', sv_Description = '''', sv_OwnerUserID = ''u'',
     sv_State = UserStateActive, sv_CreatedBy = ''u'', sv_CreatedAt = 1, sv_UpdatedAt = 1\<rparr>"

definition random_bytes :: "nat \<Rightarrow> char \<Rightarrow> string" where "random_bytes n c = replicate n c"

definition bot_card :: minted_token where
  "bot_card = projr (NewToken door_hmac door_keys (Inr (random_bytes 6 (CHR ''x''))) (Inr (random_bytes 32 (CHR ''y''))))"

definition bot_token :: api_token_row where
  "bot_token = \<lparr>ak_ID = ''t'', ak_Prefix = mk_Prefix bot_card, ak_TokenHash = mk_Hash bot_card, ak_ServiceAccountID = ''b'',
     ak_Name = ''t'', ak_Scopes = ''ledger:read'', ak_PepperKid = mk_PepperKID bot_card, ak_ExpiresAt = None,
     ak_LastUsedAt = None, ak_LastUsedIp = '''', ak_RateLimitRpm = 60, ak_CreatedBy = ''u'', ak_RevokedAt = None,
     ak_RevokedBy = None, ak_RevokeReason = '''', ak_CreatedAt = 1\<rparr>"

definition host_login :: create_session_params where
  "host_login = \<lparr>cp_UserID = ''u'', cp_IdentityID = '''', cp_UserAgent = '''', cp_SteppedUp = False\<rparr>"

definition log_in :: "char \<Rightarrow> world \<Rightarrow> created_session res \<times> world" where
  "log_in c = CreateSession (Inr (random_bytes 32 c)) sample_env host_login"

definition stored_in :: "(database \<Rightarrow> database res) \<Rightarrow> world \<Rightarrow> world" where
  "stored_in f w = w\<lparr>wd_db := projr (f (wd_db w))\<rparr>"

definition door_user :: world where "door_user = stored_in (InsertAppUser host) (sample_world\<lparr>wd_db := genesis\<rparr>)"
definition door_open :: world where "door_open = snd (log_in (CHR ''b'') (snd (log_in (CHR ''a'') door_user)))"
definition door_bot :: world where "door_bot = stored_in (InsertServiceAccount bot_account) door_open"
definition door :: world where "door = stored_in (InsertAPIToken bot_token) door_bot"

definition cookie_request :: "char \<Rightarrow> http_request" where
  "cookie_request c = \<lparr>hr_Query = [], hr_Authorization = '''', hr_SessionCookie = Some (b64_encode (random_bytes 32 c))\<rparr>"

definition bearer_request :: http_request where
  "bearer_request = \<lparr>hr_Query = [], hr_Authorization = bearer_header (mk_Plaintext bot_card), hr_SessionCookie = None\<rparr>"

definition leaky_request :: http_request where
  "leaky_request = bearer_request\<lparr>hr_Query := [(''token'', ''x'')]\<rparr>"

definition enter :: "http_request \<Rightarrow> world \<Rightarrow> (auth_error + principal) \<times> world" where
  "enter r = ResolveRequest door_hmac True sample_env door_keys (Some r)"

lemma door_inserts:
  "\<not> isl (InsertAppUser host genesis)" "\<not> isl (InsertServiceAccount bot_account (wd_db door_open))"
  "\<not> isl (InsertAPIToken bot_token (wd_db door_bot))"
  by code_simp+

lemma stored_step: "(\<And>db. f (wd_db w) = Inr db \<Longrightarrow> admin_write (wd_db w) db) \<Longrightarrow> \<not> isl (f (wd_db w)) \<Longrightarrow>
    auth_step hmac env w (stored_in f w)"
  unfolding stored_in_def by (rule auth_step.stored) (simp add: sum.collapse)

lemma door_user_reachable: "auth_reachable door_hmac sample_env door_user"
proof -
  have "auth_reachable door_hmac sample_env (sample_world\<lparr>wd_db := genesis\<rparr>)"
    by (rule auth_reachable.start) (simp add: identity_tables_def genesis_def)
  then show ?thesis unfolding door_user_def
    by (rule auth_reachable.step) (rule stored_step, auto intro: admin_write.intros simp: door_inserts)
qed

lemma door_reachable: "auth_reachable door_hmac sample_env door_open" "auth_reachable door_hmac sample_env door"
proof -
  have "auth_step door_hmac sample_env w (snd (log_in c w))" for c w
    unfolding log_in_def by (rule auth_step.create) (rule prod.collapse [symmetric])
  then show opened: "auth_reachable door_hmac sample_env door_open"
    unfolding door_open_def by (blast intro: auth_reachable.step door_user_reachable)
  then have "auth_reachable door_hmac sample_env door_bot" unfolding door_bot_def
    by (rule auth_reachable.step) (rule stored_step, auto intro: admin_write.intros simp: door_inserts)
  then show "auth_reachable door_hmac sample_env door" unfolding door_def
    by (rule auth_reachable.step) (rule stored_step, auto intro: admin_write.intros simp: door_inserts)
qed

lemma sample_era: "in_era (ev_Now sample_env n)"
  by (simp add: in_era_def sample_env_def)

text \<open>The first session, and the door after it was revoked, with its token revoked, and again.\<close>

definition first_session :: session_row where "first_session = hd (db_sessions (wd_db door))"

definition door_revoked :: world where
  "door_revoked = door\<lparr>wd_db := RevokeSession 5 (se_ID first_session) (wd_db door)\<rparr>"

definition other_token :: api_token_row where
  "other_token = bot_token\<lparr>ak_ID := ''t2'', ak_Prefix := ''other'', ak_TokenHash := ''other''\<rparr>"

definition door_two :: world where "door_two = stored_in (InsertAPIToken other_token) door"

definition door_withdrawn :: world where "door_withdrawn = stored_in (RevokeAPIToken 5 None [] ''t2'') door_two"

lemma enter_session: "\<not> isl (fst (enter (cookie_request (CHR ''a'')) door))"
  by code_simp

lemma enter_token: "\<not> isl (fst (enter bearer_request door))"
  by code_simp

lemma enter_leaky: "isl (fst (enter leaky_request door))"
  by code_simp

lemma enter_revoked: "\<not> isl (fst (enter (cookie_request (CHR ''b'')) door_revoked))"
  by code_simp

lemma enter_withdrawn: "\<not> isl (fst (enter bearer_request door_withdrawn))"
  by code_simp

lemma by_session: "pr_Credential (projr (fst (enter (cookie_request (CHR ''a'')) door))) = CredentialSession"
  by code_simp

lemma by_session_revoked: "pr_Credential (projr (fst (enter (cookie_request (CHR ''b'')) door_revoked))) = CredentialSession"
  by code_simp

lemma by_token_withdrawn: "pr_Credential (projr (fst (enter bearer_request door_withdrawn))) = CredentialToken"
  by code_simp

lemma door_sessions: "db_sessions (wd_db door) \<noteq> []"
  by code_simp

lemma second_token_inserts: "\<not> isl (InsertAPIToken other_token (wd_db door))"
  by code_simp

lemma second_token_revokes: "\<not> isl (RevokeAPIToken 5 None [] ''t2'' (wd_db door_two))"
  by code_simp

lemma stored_in_Inr: "\<not> isl (f (wd_db w)) \<Longrightarrow> f (wd_db w) = Inr (wd_db (stored_in f w))"
  by (simp add: stored_in_def sum.collapse)

lemma InsertAPIToken_row: "InsertAPIToken t db = Inr db' \<Longrightarrow>
    t\<lparr>ak_LastUsedAt := None, ak_LastUsedIp := [], ak_RevokedAt := None, ak_RevokedBy := None, ak_RevokeReason := []\<rparr> \<in> set (db_tokens db') \<and>
    db_service_accounts db' = db_service_accounts db"
  by (auto simp: InsertAPIToken_def Let_def split: if_splits)

lemma door_rows: "bot_token \<in> set (db_tokens (wd_db door))" "bot_account \<in> set (db_service_accounts (wd_db door))"
    "other_token \<in> set (db_tokens (wd_db door_two))"
proof -
  have card: "InsertAPIToken bot_token (wd_db door_bot) = Inr (wd_db door)"
    unfolding door_def by (rule stored_in_Inr) (rule door_inserts)
  have account: "InsertServiceAccount bot_account (wd_db door_open) = Inr (wd_db door_bot)"
    unfolding door_bot_def by (rule stored_in_Inr) (rule door_inserts)
  have other: "InsertAPIToken other_token (wd_db door) = Inr (wd_db door_two)"
    unfolding door_two_def by (rule stored_in_Inr) (rule second_token_inserts)
  have "db_service_accounts (wd_db door_bot) = db_service_accounts (wd_db door_open) @ [bot_account]"
    using account by (auto simp: InsertServiceAccount_def split: if_splits dest!: sym [of _ "wd_db door_bot"])
  then have "bot_account \<in> set (db_service_accounts (wd_db door_bot))" by simp
  then show "bot_token \<in> set (db_tokens (wd_db door))" "bot_account \<in> set (db_service_accounts (wd_db door))"
    using InsertAPIToken_row [OF card] by (simp_all add: bot_token_def)
  show "other_token \<in> set (db_tokens (wd_db door_two))"
    using InsertAPIToken_row [OF other] by (simp add: other_token_def bot_token_def)
qed

lemma door_two_reachable: "auth_reachable door_hmac sample_env door_two"
  using auth_reachable.step [OF door_reachable(2)] stored_step [of "InsertAPIToken other_token" door] second_token_inserts
  unfolding door_two_def by (blast intro: admin_write.intros)

lemma resolved: "\<not> isl (fst (enter r w)) \<Longrightarrow>
    ResolveRequest door_hmac True sample_env door_keys (Some r) w = (Inr (projr (fst (enter r w))), snd (enter r w))"
  unfolding enter_def by (metis prod.collapse sum.collapse(2))

theorem requests_accepted_exactly_witness:
  "accepted door_hmac (ev_SHA256 sample_env) door_keys (cookie_request (CHR ''a'')) 1704067200000000 (wd_db door)
     (projr (fst (enter (cookie_request (CHR ''a'')) door))) \<and>
   (\<nexists>p. accepted door_hmac (ev_SHA256 sample_env) door_keys leaky_request 1704067200000000 (wd_db door) p)"
proof -
  note iff = requests_accepted_exactly [OF auth_reachable_typed [OF door_reachable(2)],
    where hmac = door_hmac and env = sample_env and keys = door_keys]
  have env: "ev_Now sample_env n = 1704067200000000" "ev_Fault sample_env n = None" for n by (simp_all add: sample_env_def)
  obtain e w where leaky: "ResolveRequest door_hmac True sample_env door_keys (Some leaky_request) door = (Inl e, w)"
    using enter_leaky unfolding enter_def by (metis prod.collapse sum.collapse(1))
  show ?thesis
    using iff [of "cookie_request (CHR ''a'')", unfolded resolved [OF enter_session] env prod.case sum.case]
      iff [of leaky_request, unfolded leaky env prod.case sum.case] by simp
qed

theorem ended_sessions_stay_ended_witness:
  "\<exists>p w. enter (cookie_request (CHR ''b'')) door_revoked = (Inr p, w) \<and> pr_SessionID p \<noteq> se_ID first_session"
proof -
  have "first_session \<in> set (db_sessions (wd_db door))" using door_sessions by (simp add: first_session_def)
  moreover have "ends_session first_session (wd_db door) (RevokeSession 5 (se_ID first_session) (wd_db door))"
    by (auto simp: ends_session_def)
  ultimately show ?thesis
    using ended_sessions_stay_ended [OF door_reachable(2) sample_era _ _ rtranclp.rtrancl_refl resolved [OF enter_revoked, unfolded door_revoked_def]]
      by_session_revoked resolved [OF enter_revoked] unfolding enter_def door_revoked_def by fastforce
qed

theorem revoked_tokens_stay_revoked_witness:
  "\<exists>p w. enter bearer_request door_withdrawn = (Inr p, w) \<and> pr_TokenID p \<noteq> ''t2''"
proof -
  have k: "ak_ID other_token = ''t2''" by (simp add: other_token_def)
  have "RevokeAPIToken 5 None [] (ak_ID other_token) (wd_db door_two) = Inr (wd_db door_withdrawn)"
    unfolding k door_withdrawn_def by (rule stored_in_Inr) (rule second_token_revokes)
  moreover have "door_withdrawn = door_two\<lparr>wd_db := wd_db door_withdrawn\<rparr>" by (simp add: door_withdrawn_def stored_in_def)
  ultimately show ?thesis
    using revoked_tokens_stay_revoked [OF door_two_reachable door_rows(3) _ rtranclp.rtrancl_refl]
      by_token_withdrawn resolved [OF enter_withdrawn] unfolding enter_def k by metis
qed

theorem sessions_are_short_lived_witness:
  "\<exists>s \<in> set (db_sessions (wd_db door)). se_ID s = pr_SessionID (projr (fst (enter (cookie_request (CHR ''a'')) door))) \<and>
     1704067200000000 < sint (se_CreatedAt s) + 30 * 24 * 3600 * 1000000"
proof -
  have "sint (ev_Now sample_env n) = 1704067200000000" for n by (simp add: sample_env_def)
  then show ?thesis
    using sessions_are_short_lived [OF door_reachable(2) sample_era resolved [OF enter_session] by_session] by auto
qed

lemma bot_minted:
  "\<not> isl (NewToken door_hmac door_keys (Inr (random_bytes 6 (CHR ''x''))) (Inr (random_bytes 32 (CHR ''y''))))"
  by code_simp

theorem minted_token_resolves_witness:
  "fst (enter bearer_request door) = Inr (token_principal bot_token bot_account)"
  unfolding enter_def
proof (rule minted_token_resolves)
  show "NewToken door_hmac door_keys (Inr (random_bytes 6 (CHR ''x''))) (Inr (random_bytes 32 (CHR ''y''))) = Inr bot_card"
    using bot_minted by (simp add: bot_card_def sum.collapse)
  show "auth_typed (wd_db door)" by (rule auth_reachable_typed [OF door_reachable(2)])
  show "bot_token \<in> set (db_tokens (wd_db door))" "bot_account \<in> set (db_service_accounts (wd_db door))" by (rule door_rows)+
qed (simp_all add: random_bytes_def TokenPrefixBytes_def TokenSecretBytes_def sample_env_def bot_token_def bot_account_def
  live_token_def bearer_request_def query_get_def)

lemma first_login: "\<not> isl (fst (log_in (CHR ''a'') door_user))"
  by code_simp

lemma first_login_expiry: "cs_ExpiresAt (projr (fst (log_in (CHR ''a'') door_user))) = 1705276800000000"
    "cs_AbsoluteExpiresAt (projr (fst (log_in (CHR ''a'') door_user))) = 1706659200000000"
  by code_simp+

definition first_cookie :: http_request where
  "first_cookie = \<lparr>hr_Query = [], hr_Authorization = [],
     hr_SessionCookie = Some (cs_Secret (projr (fst (log_in (CHR ''a'') door_user))))\<rparr>"

theorem created_session_resolves_witness:
  "\<exists>q w. enter first_cookie (snd (log_in (CHR ''a'') door_user)) = (Inr q, w) \<and> pr_ID q = ''u''"
proof -
  have run: "CreateSession (Inr (random_bytes 32 (CHR ''a''))) sample_env host_login door_user =
      (Inr (projr (fst (log_in (CHR ''a'') door_user))), snd (log_in (CHR ''a'') door_user))"
    using first_login unfolding log_in_def by (metis prod.collapse sum.collapse(2))
  have typed: "auth_typed (wd_db door_user)" by (rule auth_reachable_typed [OF door_user_reachable])
  show ?thesis unfolding enter_def
    using created_session_resolves [OF run _ typed, where r = first_cookie and hmac = door_hmac and keys = door_keys] first_login_expiry
    by (fastforce simp: random_bytes_def SessionSecretBytes_def sample_env_def first_cookie_def query_get_def TrimSpace_def
        trim_left_def host_login_def)
qed

definition floor_requirement :: requirement where
  "floor_requirement = \<lparr>rm_Permission = hd CapabilityFloor, rm_ScopeSets = [[''ledger:read'']], rm_StepUp = False,
     rm_Target = \<lparr>tg_Type = [], tg_ID = []\<rparr>\<rparr>"

theorem tokens_never_hold_the_floor_witness:
  "\<exists>p d. fst (enter bearer_request door) = Inr p \<and> Check True sample_env (Some p) floor_requirement door = ((d, None), door) \<and>
     az_Outcome d = OutcomeSessionRequired"
proof -
  have "CapabilityFloor \<noteq> []" by code_simp
  then have "rm_Permission floor_requirement \<in> set CapabilityFloor" by (simp add: floor_requirement_def)
  moreover have "TrimSpace (hr_Authorization bearer_request) \<noteq> []" by code_simp
  ultimately obtain d where "Check True sample_env (Some (projr (fst (enter bearer_request door)))) floor_requirement door =
      ((d, None), door)" "az_Outcome d = OutcomeSessionRequired"
    using tokens_never_hold_the_floor [OF resolved [OF enter_token]] by blast
  moreover have "fst (enter bearer_request door) = Inr (projr (fst (enter bearer_request door)))"
    using enter_token by (simp add: sum.collapse)
  ultimately show ?thesis by blast
qed

end
