(* ===== verification/Spec2Isabelle.thy ===== *)
theory Spec2Isabelle
  imports Pool Standings SwapQuote CursorCodec AuthzCheck Boot AuthSafety
begin

text \<open>
  A verification development for dragonkillparty, a Go server that keeps the points (DKP) of a raiding
  guild. It models the ledger core of the program and its access control: the point strategies that plan
  batches, the engine that commits them, the replay that audits them, the price of a main swap, the
  pagination cursors, and the capability check with the boot that installs what it reads. File names are
  relative to src/internal.

  \<^bold>\<open>How the parts work together.\<close> A pool is configured with up to three rules (strategy/pool.go), each a
  strategy with its own JSON config. A strategy is a pure planner: from an event and a read-only facade
  of the ledger it computes a batch proposal, a list of signed entries in centipoints. The engine
  (ledger/commit.go) takes a proposal in one database transaction: it checks the invariants, appends the
  batch and its entries, folds them into the cached balances, extends the hash chain of the pool and of
  the audit log, and writes an outbox event. Verify (ledger/verify.go) replays everything from the first
  batch. Reads (ledger/standings.go and others) answer from the cache or from the log. Before any of it,
  auth/service.go turns the credential of a request into a principal, and the check of authz/check.go
  says whether that principal may.

  \<^bold>\<open>Conventions.\<close> A Go int64 is a 64-bit word with wrap-around (Int64); strings are lists of bytes. A
  pointer is an option, a struct a record whose fields carry a prefix for their struct, a string
  enumeration stays a string with its closed list. A function that returns \<open>(T, error)\<close> is a function
  into \<open>T res = error + T\<close>; an error is the sentinel that its chain of \<open>%w\<close> wraps, its text is not
  modelled. Code that touches the database is an action, a function from a world to a result and the
  world after it (Tx). The database is a record of tables, a table the list of its rows in order of
  insertion, and a statement a function of the tables with the constraints of the schema (Store,
  AuthzStore). What the code takes from elsewhere is the record \<open>env\<close>: whether the n-th statement fails,
  the identifier generator, the clock, SHA-256, the time zone data. The properties hold for every such
  record, that is under any pattern of failures, unless they say otherwise. A loop over a slice is
  structural recursion or a fold; a Go map that is read in sorted order is an association list or a sort.

  \<^bold>\<open>Theories and code.\<close>

  \<^item> Prelude, Int64, Centipoints: errors and results, shared lemmas, int64 arithmetic, the checked helpers
    of strategy/common.go and core/centipoints.go.
  \<^item> Kinds, Model, Proposal: the closed catalogues of account/kinds, ledger/kinds and audit/kinds; the
    data of strategy/strategy.go and proposal.go; net amount, negation and reversal of a proposal.
  \<^item> Allocate: the largest-remainder allocator, ledger/allocate.go, with its 128-bit products.
  \<^item> Json, Config, Common: encoding/json as far as it is used, decodeConfig, and the other helpers of
    strategy/common.go.
  \<^item> Tier, Spend, Auction: strategy/tier.go and spend.go, the ranking of bids and its ties.
  \<^item> Strategy, and one theory per strategy of strategy/: Tick, FixedPrice, AttendanceWeighted, ZeroSum,
    StartPoints, Cap, DecayPercent, DecayWindow, AuctionOpen, AuctionSealed, RelativeBid, Roll,
    LootCouncil; Catalogue (catalogue.go) and Pool (pool.go).
  \<^item> Store, Tx: store/sqlitegen (ledger, audit, meta and outbox statements, models.go) with the
    constraints of db/migrations-sqlite; store/tx.go.
  \<^item> Invariants, HashChain, Commit: ledger/invariant.go, hashchain.go, commit.go.
  \<^item> LedgerState, Ledger, Progress: the invariant of a ledger database, the step relation and what holds
    of every reachable database, and that a commit which may succeed does.
  \<^item> Verify, Replay, Soundness: ledger/verify.go, its paging removed, and what a clean report means.
  \<^item> Standings: ledger/account.go, balance.go, seq.go, standings.go.
  \<^item> SwapPolicy, Swap, SwapQuote: swap/policy.go, request.go, quote.go, evaluate.go.
  \<^item> Base64, Cursor, CursorCodec: base64url and core/cursor.go.
  \<^item> AuthzCatalogue, AuthzStore, Authz, AuthzCheck: authz/catalogue.go, roles.go, mint.go, the statements
    of sqlitegen/authz.sql.go, auth/principal.go and authz/check.go.
  \<^item> Reconcile, ReconcileSteps, Boot: authz/reconcile.go.
  \<^item> IdentityRows, AuthStore, Token, Auth: the rows and statements of sqlitegen/auth.sql.go, the keyring,
    tokens and session secrets of auth/keyring.go, token.go and session.go, and the resolution of
    credentials and the opening of sessions in auth/service.go and resolution.go.
  \<^item> AuthMachine, AuthSafety: the identity tables as a state machine, whose steps are the resolutions and
    openings of the service and every statement of administration, and what holds in it.

  \<^bold>\<open>Interfaces.\<close> The locale \<open>allocator\<close> is what a planner relies on when it splits an amount,
  \<open>ledger_strategy\<close> what the ledger relies on when a strategy plans (a proposal has net zero and no
  entry for a foreign account), \<open>auction_rule\<close> and \<open>bid_auction\<close> extend it by what a settlement
  promises, \<open>listing\<close> is what the paging replay needs of a query. Each is interpreted on the model's own
  definitions: the allocator, the thirteen strategies, the four settling ones, the three listings.

  \<^bold>\<open>What is shown.\<close>

  \<^item> Allocation: the parts sum to the whole, each is within one centipoint of its exact quota, the result
    does not depend on the order of the shares, and the errors are exactly the documented ones.
  \<^item> Strategies and auctions: every planned batch has net zero; a winner never pays more than the bid; the
    winner, the price, the ties and the rolls of each auction are those of a specification over all bids;
    results do not depend on the order of bids, and on their times only where the rule says so.
  \<^item> Pools: each question goes to the rule that owns it, a reversal survives a change of configuration.
  \<^item> Ledger: every reachable database keeps the invariant (gapless hash-linked chains, stated counts and
    nets, caches equal to the fold of the log); no overdraft; commits are atomic, idempotent by key, and go
    through when they should; a pool that only plans through strategies is a closed economy; balances of
    the past never change; a batch is reversed at most once.
  \<^item> Replay: where the stored chain heads parse, Verify terminates and equals one pass over the sorted rows
    whatever its page size, and a report is clean exactly when the ledger is sound; every reachable ledger
    is clean; the cached standings agree with the log.
  \<^item> Swaps: the evaluator computes the cost of a specification over unbounded integers and allows exactly
    what the guards permit.
  \<^item> Cursors: a minted cursor decodes to its position; an accepted one carries the mac of its content.
  \<^item> Access: the check allows exactly what the tables authorise; a boot leaves exactly the shipped catalogue
    live and touches nothing a guild has edited, a second one changes nothing, and one goes through.
  \<^item> Credentials: a request is accepted exactly when it presents a live credential the right way; what was
    minted or opened is accepted; a session or token that has ended never resolves again, whatever
    happens later; no session outlives its windows; no token reaches the capability floor.

  \<^bold>\<open>Bounds and fuel.\<close> Nothing is bounded for the sake of the proofs. Recursion is structural or has a
  measure (the unquoting of JSON strings, the day within a year), except for two kinds of loops. The
  paging loops of Verify take fuel: a page holds at least one row past the cursor, so one unit more than
  the number of rows is enough, which \<open>verify_is_one_pass\<close> rests on. The JSON parser takes fuel from the
  length of the document, and by \<open>parse_fuel\<close> more never changes the result. Where a property needs
  room in 64 bits it says so; times are assumed between 1970 and 2262 only where a duration in
  nanoseconds is computed from them or a window is added to them.

  \<^bold>\<open>Not modelled.\<close> Texts of errors and findings, logging, progress callbacks, JSON schema constants and
  the renderers of schema blocks: text only. HTTP (api, ui), command lines (cmd/dkp), the schema
  migrations and their tooling (migrate, store), the seed data, repository gates and generators
  (repogate, specgate, mockup, licence, docgen): input and output, or code about the repository rather
  than the guild. Password hashing and the secrets file (auth/password.go, secrets.go) and the guild
  settings (guild). SHA-256, HMAC, the ULID generator, SQLite and the time zone data are parameters.
  Concurrency: the store runs one write transaction at a time, so transactions are sequential here.
\<close>

end
